(* ===== verification/Prelude.thy ===== *)
theory Prelude
  imports Complex_Main "HOL-Library.Multiset" "HOL-Library.AList" "HOL-Library.Char_ord"
    "HOL-Library.List_Lexorder"
begin

text \<open>
  Vocabulary shared by every component of the PatchMesh model.

  \<^item> JavaScript strings are \<open>string\<close>s (lists of code units).  The operator \<open><\<close> of the
    source compares code units, which is the lexicographic order of \<open>List_Lexorder\<close>.
  \<^item> A JavaScript \<open>Map\<close> keeps its keys in order of first insertion.  It is an association list;
    \<open>map_set\<close> overwrites a present key in place and appends an absent one, \<open>map_get\<close> looks up.
  \<^item> \<open>[...new Set(xs)]\<close> is \<open>js_uniq xs\<close>, \<open>xs.sort(cmp)\<close> is the stable \<open>js_sort cmp xs\<close>, and
    \<open>a || b\<close> between two comparison results is \<open>js_or a b\<close>.
  \<^item> The locale \<open>comparator\<close> states what a sort client expects of a three-way comparison; it is
    interpreted on the code-unit comparison.  \<open>localeCompare\<close> depends on the host's collation
    tables, so it is an argument (\<open>lc\<close>) wherever the source calls it.
\<close>

section \<open>Collections of proof hints\<close>

named_theorems js_simps \<open>rewriting JavaScript containers\<close>
named_theorems diag_simps \<open>emptiness of diagnostic lists\<close>
named_theorems frame_simps \<open>fields an operation leaves alone\<close>

section \<open>Maps in insertion order\<close>

type_synonym ('k, 'v) js_map = "('k \<times> 'v) list"

abbreviation map_get :: "('k, 'v) js_map \<Rightarrow> 'k \<Rightarrow> 'v option" where
  "map_get m k \<equiv> map_of m k"

abbreviation map_set :: "'k \<Rightarrow> 'v \<Rightarrow> ('k, 'v) js_map \<Rightarrow> ('k, 'v) js_map" where
  "map_set k v m \<equiv> AList.update k v m"

abbreviation map_has :: "('k, 'v) js_map \<Rightarrow> 'k \<Rightarrow> bool" where
  "map_has m k \<equiv> map_of m k \<noteq> None"

abbreviation map_values :: "('k, 'v) js_map \<Rightarrow> 'v list" where
  "map_values m \<equiv> map snd m"

abbreviation map_keys :: "('k, 'v) js_map \<Rightarrow> 'k list" where
  "map_keys m \<equiv> map fst m"

text \<open>\<open>new Map(xs.map((x) => [key(x), x]))\<close>: later entries overwrite earlier ones in place.\<close>

fun map_index_from :: "('v \<Rightarrow> 'k) \<Rightarrow> ('k, 'v) js_map \<Rightarrow> 'v list \<Rightarrow> ('k, 'v) js_map" where
  "map_index_from key m [] = m"
| "map_index_from key m (x # xs) = map_index_from key (map_set (key x) x m) xs"

definition map_index :: "('v \<Rightarrow> 'k) \<Rightarrow> 'v list \<Rightarrow> ('k, 'v) js_map" where
  "map_index key xs = map_index_from key [] xs"

lemma map_get_set [js_simps]: "map_get (map_set k v m) k' = (if k' = k then Some v else map_get m k')"
  by (simp add: update_conv')

lemma map_set_fresh [js_simps]: "k \<notin> set (map_keys m) \<Longrightarrow> map_set k v m = m @ [(k, v)]"
  by (induction m) auto

lemma map_keys_set [js_simps]:
  "map_keys (map_set k v m) = (if k \<in> set (map_keys m) then map_keys m else map_keys m @ [k])"
  by (simp add: update_keys)

lemma distinct_map_set [js_simps]:
  "distinct (map_keys m) \<Longrightarrow> distinct (map_keys (map_set k v m))"
  by (rule distinct_update)

lemma map_index_from_fresh:
  assumes "distinct (map key xs)" and "set (map key xs) \<inter> set (map_keys m) = {}"
  shows "map_index_from key m xs = m @ map (\<lambda>x. (key x, x)) xs"
  using assms
proof (induction xs arbitrary: m)
  case Nil
  then show ?case by simp
next
  case (Cons x xs)
  then have "map_set (key x) x m = m @ [(key x, x)]"
    by (intro map_set_fresh) auto
  moreover from Cons.prems have "set (map key xs) \<inter> set (map_keys (m @ [(key x, x)])) = {}"
    by auto
  ultimately show ?case
    using Cons.IH [of "m @ [(key x, x)]"] Cons.prems(1) by simp
qed

lemma map_index_distinct: "distinct (map key xs) \<Longrightarrow> map_index key xs = map (\<lambda>x. (key x, x)) xs"
  by (simp add: map_index_def map_index_from_fresh)

lemma map_index_from_append:
  "map_index_from key m (xs @ ys) = map_index_from key (map_index_from key m xs) ys"
  by (induction xs arbitrary: m) simp_all

lemma map_index_from_keys:
  "set (map_keys (map_index_from key m xs)) = set (map_keys m) \<union> set (map key xs)"
proof (induction xs arbitrary: m)
  case (Cons x xs)
  have "set (map_keys (map_set (key x) x m)) = insert (key x) (set (map_keys m))"
    by (simp only: update_keys) auto
  then show ?case by (simp only: map_index_from.simps Cons.IH) auto
qed simp

lemma map_index_from_distinct:
  "distinct (map_keys m) \<Longrightarrow> distinct (map_keys (map_index_from key m xs))"
  by (induction xs arbitrary: m) (simp_all add: distinct_update)

lemma map_index_from_range:
  assumes "\<And>k v. map_get m k = Some v \<Longrightarrow> key v = k \<and> v \<in> S"
    and "map_get (map_index_from key m xs) k = Some v"
  shows "key v = k \<and> (v \<in> S \<or> v \<in> set xs)"
  using assms
proof (induction xs arbitrary: m S)
  case Nil
  then show ?case by auto
next
  case (Cons x xs)
  have "\<And>k v. map_get (map_set (key x) x m) k = Some v \<Longrightarrow> key v = k \<and> v \<in> insert x S"
    using Cons.prems(1) by (auto simp: js_simps split: if_splits)
  from Cons.IH [OF this] Cons.prems(2) show ?case by auto
qed

lemma map_index_key: "map_get (map_index key xs) k = Some v \<Longrightarrow> key v = k \<and> v \<in> set xs"
  unfolding map_index_def using map_index_from_range [of "[]" key "{}" xs k v] by simp

lemma map_of_map_key:
  "distinct (map key xs) \<Longrightarrow> x \<in> set xs \<Longrightarrow> map_of (map (\<lambda>x. (key x, x)) xs) (key x) = Some x"
  by (rule map_of_is_SomeI) (auto simp: comp_def)

lemma map_of_map_key_None:
  "map_of (map (\<lambda>x. (key x, x)) xs) k = None \<longleftrightarrow> k \<notin> set (map key xs)"
  by (auto simp: map_of_eq_None_iff image_image)

lemma map_of_map_key_SomeD:
  "map_of (map (\<lambda>x. (key x, x)) xs) k = Some x \<Longrightarrow> x \<in> set xs \<and> key x = k"
  by (auto dest!: map_of_SomeD)

section \<open>Sets and sorting\<close>

fun js_uniq :: "'a list \<Rightarrow> 'a list" where
  "js_uniq [] = []"
| "js_uniq (x # xs) = x # filter (\<lambda>y. y \<noteq> x) (js_uniq xs)"

lemma set_js_uniq [simp]: "set (js_uniq xs) = set xs"
  by (induction xs) auto

lemma distinct_js_uniq [simp]: "distinct (js_uniq xs)"
  by (induction xs) auto

lemma js_uniq_distinct: "distinct xs \<Longrightarrow> js_uniq xs = xs"
proof (induction xs)
  case (Cons x xs)
  then have "filter (\<lambda>y. y \<noteq> x) xs = xs" by (auto simp: filter_id_conv)
  with Cons show ?case by simp
qed simp

definition js_or :: "int \<Rightarrow> int \<Rightarrow> int" where
  "js_or a b = (if a \<noteq> 0 then a else b)"

definition compareStrings :: "string \<Rightarrow> string \<Rightarrow> int" where
  "compareStrings left right = (if left < right then -1 else if right < left then 1 else 0)"

fun js_insert :: "('a \<Rightarrow> 'a \<Rightarrow> int) \<Rightarrow> 'a \<Rightarrow> 'a list \<Rightarrow> 'a list" where
  "js_insert cmp x [] = [x]"
| "js_insert cmp x (y # ys) = (if cmp x y \<le> 0 then x # y # ys else y # js_insert cmp x ys)"

fun js_sort :: "('a \<Rightarrow> 'a \<Rightarrow> int) \<Rightarrow> 'a list \<Rightarrow> 'a list" where
  "js_sort cmp [] = []"
| "js_sort cmp (x # xs) = js_insert cmp x (js_sort cmp xs)"

definition sortedUnique :: "string list \<Rightarrow> string list" where
  "sortedUnique values = js_sort compareStrings (js_uniq values)"

lemma mset_js_insert [simp]: "mset (js_insert cmp x xs) = add_mset x (mset xs)"
  by (induction xs) auto

lemma mset_js_sort [simp]: "mset (js_sort cmp xs) = mset xs"
  by (induction xs) auto

lemma set_js_sort [simp]: "set (js_sort cmp xs) = set xs"
  by (metis mset_js_sort set_mset_mset)

lemma length_js_sort [simp]: "length (js_sort cmp xs) = length xs"
  by (metis mset_js_sort size_mset)

lemma distinct_js_sort [simp]: "distinct (js_sort cmp xs) = distinct xs"
  by (metis mset_js_sort mset_eq_imp_distinct_iff)

lemma js_sort_Nil_iff [simp]: "js_sort cmp xs = [] \<longleftrightarrow> xs = []"
  by (metis length_0_conv length_js_sort)

lemma map_filter_set: "p \<in> set (List.map_filter f xs) \<longleftrightarrow> (\<exists>x \<in> set xs. f x = Some p)"
  by (induction xs) (auto simp: map_filter_simps split: option.splits)

text \<open>Sorting looks at the values it sorts only.\<close>

lemma js_insert_cong:
  "(\<And>y. y \<in> set ys \<Longrightarrow> cmp x y = cmp' x y) \<Longrightarrow> js_insert cmp x ys = js_insert cmp' x ys"
  by (induction ys) simp_all

lemma js_sort_cong:
  "(\<And>x y. x \<in> set xs \<Longrightarrow> y \<in> set xs \<Longrightarrow> cmp x y = cmp' x y) \<Longrightarrow> js_sort cmp xs = js_sort cmp' xs"
proof (induction xs)
  case (Cons x xs)
  then have "js_sort cmp xs = js_sort cmp' xs" by simp
  moreover have "js_insert cmp x (js_sort cmp' xs) = js_insert cmp' x (js_sort cmp' xs)"
    by (rule js_insert_cong) (simp add: Cons.prems)
  ultimately show ?case by simp
qed simp

lemma take_sorted:
  assumes "sorted_wrt P xs" and "x \<in> set xs" and "x \<notin> set (take n xs)" and "y \<in> set (take n xs)"
  shows "P y x"
proof -
  have "x \<in> set (take n xs) \<union> set (drop n xs)"
    using assms(2) by (metis append_take_drop_id set_append)
  moreover have "sorted_wrt P (take n xs @ drop n xs)" using assms(1) by simp
  ultimately show ?thesis using assms(3,4) unfolding sorted_wrt_append by blast
qed

lemma find_SomeD: "List.find P xs = Some x \<Longrightarrow> x \<in> set xs \<and> P x"
  by (induction xs) (auto split: if_splits)

lemma find_append:
  "List.find P (xs @ ys) = (case List.find P xs of None \<Rightarrow> List.find P ys | Some x \<Rightarrow> Some x)"
  by (induction xs) simp_all

section \<open>The interface of a three-way comparison\<close>

locale comparator =
  fixes cmp :: "'a \<Rightarrow> 'a \<Rightarrow> int"
  assumes flip: "cmp x y < 0 \<longleftrightarrow> 0 < cmp y x"
    and trans_le: "cmp x y \<le> 0 \<Longrightarrow> cmp y z \<le> 0 \<Longrightarrow> cmp x z \<le> 0"
begin

lemma total: "cmp x y \<le> 0 \<or> cmp y x \<le> 0"
  using flip [of x y] flip [of y x] by linarith

lemma refl: "cmp x x = 0"
  using flip [of x x] by linarith

lemma sorted_insert:
  "sorted_wrt (\<lambda>x y. cmp x y \<le> 0) xs \<Longrightarrow> sorted_wrt (\<lambda>x y. cmp x y \<le> 0) (js_insert cmp x xs)"
proof (induction xs)
  case (Cons y ys)
  have members: "set (js_insert cmp x ys) = insert x (set ys)"
    by (metis mset_js_insert set_mset_add_mset_insert set_mset_mset)
  show ?case
  proof (cases "cmp x y \<le> 0")
    case True
    with Cons.prems show ?thesis by (auto intro: trans_le)
  next
    case False
    then have "cmp y x \<le> 0" using total by blast
    with False Cons show ?thesis by (auto simp: members)
  qed
qed simp

lemma sorted_sort: "sorted_wrt (\<lambda>x y. cmp x y \<le> 0) (js_sort cmp xs)"
  by (induction xs) (auto intro: sorted_insert)

lemma insert_below: "\<forall>y \<in> set ys. cmp x y \<le> 0 \<Longrightarrow> js_insert cmp x ys = x # ys"
  by (cases ys) auto

lemma sort_sorted: "sorted_wrt (\<lambda>x y. cmp x y \<le> 0) xs \<Longrightarrow> js_sort cmp xs = xs"
  by (induction xs) (auto simp: insert_below)

lemma sort_idem: "js_sort cmp (js_sort cmp xs) = js_sort cmp xs"
  by (rule sort_sorted [OF sorted_sort])

lemma sort_unique:
  assumes "mset xs = mset ys"
    and "\<And>x y. x \<in> set xs \<Longrightarrow> y \<in> set xs \<Longrightarrow> cmp x y \<le> 0 \<Longrightarrow> cmp y x \<le> 0 \<Longrightarrow> x = y"
  shows "js_sort cmp xs = js_sort cmp ys"
proof -
  have unique: "us = vs"
    if "sorted_wrt (\<lambda>x y. cmp x y \<le> 0) us" "sorted_wrt (\<lambda>x y. cmp x y \<le> 0) vs"
      "mset us = mset vs"
      "\<And>x y. x \<in> set us \<Longrightarrow> y \<in> set us \<Longrightarrow> cmp x y \<le> 0 \<Longrightarrow> cmp y x \<le> 0 \<Longrightarrow> x = y" for us vs
    using that
  proof (induction us arbitrary: vs)
    case Nil
    then show ?case by simp
  next
    case (Cons u us)
    then obtain v vs' where vs: "vs = v # vs'"
      by (cases vs) auto
    have sets: "set (u # us) = set (v # vs')"
      using Cons.prems(3) vs mset_eq_setD by blast
    have "u = v"
    proof (rule ccontr)
      assume "u \<noteq> v"
      then have "v \<in> set us" "u \<in> set vs'" using sets by auto
      then have "cmp u v \<le> 0" "cmp v u \<le> 0" using Cons.prems(1,2) vs by auto
      with \<open>u \<noteq> v\<close> \<open>v \<in> set us\<close> show False using Cons.prems(4) [of u v] by auto
    qed
    moreover have "us = vs'"
      using Cons.IH [of vs'] Cons.prems vs \<open>u = v\<close> by auto
    ultimately show ?case using vs by simp
  qed
  have antisym: "x = y" if "x \<in> set (js_sort cmp xs)" "y \<in> set (js_sort cmp xs)"
    "cmp x y \<le> 0" "cmp y x \<le> 0" for x y
    using assms(2) that by simp
  have "mset (js_sort cmp xs) = mset (js_sort cmp ys)" using assms(1) by simp
  from unique [OF sorted_sort sorted_sort this antisym] show ?thesis .
qed

end

text \<open>A comparison that tells any two values apart.\<close>

locale strict_comparator = comparator +
  assumes antisym: "cmp x y \<le> 0 \<Longrightarrow> cmp y x \<le> 0 \<Longrightarrow> x = y"
begin

lemma zero_iff: "cmp x y = 0 \<longleftrightarrow> x = y"
  using antisym [of x y] refl [of x] flip [of x y] flip [of y x] by fastforce

lemma sort_mset: "mset xs = mset ys \<Longrightarrow> js_sort cmp xs = js_sort cmp ys"
  by (rule sort_unique) (auto intro: antisym)

lemma sort_uniq_set: "set xs = set ys \<Longrightarrow> js_sort cmp (js_uniq xs) = js_sort cmp (js_uniq ys)"
proof -
  assume "set xs = set ys"
  then have "mset (js_uniq xs) = mset (js_uniq ys)"
    by (simp add: set_eq_iff_mset_eq_distinct [symmetric])
  then show ?thesis by (rule sort_mset)
qed

end

lemma compareStrings_le: "compareStrings x y \<le> 0 \<longleftrightarrow> x \<le> y"
  by (auto simp: compareStrings_def)

lemma compareStrings_less: "compareStrings x y < 0 \<longleftrightarrow> x < y"
  by (auto simp: compareStrings_def)

lemma compareStrings_greater: "0 < compareStrings x y \<longleftrightarrow> y < x"
  by (auto simp: compareStrings_def)

interpretation cu: strict_comparator compareStrings
  by unfold_locales
    (auto simp: compareStrings_le compareStrings_less compareStrings_greater)

text \<open>Comparing by a key, and chaining comparisons with \<open>||\<close>, keep the comparator laws.\<close>

lemma comparator_key: "comparator cmp \<Longrightarrow> comparator (\<lambda>x y. cmp (key x) (key y))"
  by (auto simp: comparator_def)

lemma comparator_or:
  assumes c: "comparator c" and d: "comparator d"
  shows "comparator (\<lambda>x y. js_or (c x y) (d x y))"
proof
  fix x y z
  show "js_or (c x y) (d x y) < 0 \<longleftrightarrow> 0 < js_or (c y x) (d y x)"
    using comparator.flip [OF c, of x y] comparator.flip [OF c, of y x]
      comparator.flip [OF d, of x y] by (auto simp: js_or_def)
  show "js_or (c x z) (d x z) \<le> 0"
    if "js_or (c x y) (d x y) \<le> 0" "js_or (c y z) (d y z) \<le> 0"
  proof -
    have xy: "c x y \<le> 0" and yz: "c y z \<le> 0" using that by (auto simp: js_or_def split: if_splits)
    then have xz: "c x z \<le> 0" by (rule comparator.trans_le [OF c])
    show ?thesis
    proof (cases "c x z = 0")
      case True
      then have zx: "c z x \<le> 0"
        using comparator.flip [OF c, of x z] by linarith
      have "c y x \<le> 0" "c z y \<le> 0"
        using comparator.trans_le [OF c yz zx] comparator.trans_le [OF c zx xy] by auto
      then have "c x y = 0" "c y z = 0"
        using xy yz comparator.flip [OF c, of x y] comparator.flip [OF c, of y z] by linarith+
      with that have "d x y \<le> 0" "d y z \<le> 0" by (auto simp: js_or_def)
      then show ?thesis using comparator.trans_le [OF d] True by (auto simp: js_or_def)
    qed (use xz in \<open>simp add: js_or_def\<close>)
  qed
qed

lemma sortedUnique_set: "set xs = set ys \<Longrightarrow> sortedUnique xs = sortedUnique ys"
  unfolding sortedUnique_def by (rule cu.sort_uniq_set)

lemma set_sortedUnique [simp]: "set (sortedUnique xs) = set xs"
  by (simp add: sortedUnique_def)

lemma distinct_sortedUnique [simp]: "distinct (sortedUnique xs)"
  by (simp add: sortedUnique_def)

lemma sorted_sortedUnique: "sorted (sortedUnique xs)"
  using cu.sorted_sort [of "js_uniq xs"] by (simp add: sortedUnique_def compareStrings_le)

lemma sortedUnique_eq: "sortedUnique xs = sorted_list_of_set (set xs)"
  by (rule sorted_distinct_set_unique) (simp_all add: sorted_sortedUnique)

section \<open>Rendering numbers\<close>

definition digit_char :: "nat \<Rightarrow> char" where
  "digit_char d = char_of (48 + d)"

fun nat_str :: "nat \<Rightarrow> string" where
  "nat_str n = (if n < 10 then [digit_char n] else nat_str (n div 10) @ [digit_char (n mod 10)])"

declare nat_str.simps [simp del]

definition int_str :: "int \<Rightarrow> string" where
  "int_str i = (if i < 0 then ''-'' @ nat_str (nat (- i)) else nat_str (nat i))"

lemma char_code_small: "d < 10 \<Longrightarrow> of_char (char_of (48 + d) :: char) = (48 + d :: nat)"
  by simp

lemma digit_char_inj: "d < 10 \<Longrightarrow> e < 10 \<Longrightarrow> digit_char d = digit_char e \<Longrightarrow> d = e"
  unfolding digit_char_def
  by (metis add_left_cancel of_char_of mod_less numeral_plus_numeral trans_less_add1
      char_code_small [of d] char_code_small [of e])

lemma nat_str_not_Nil [simp]: "nat_str n \<noteq> []"
  by (subst nat_str.simps) simp

lemma nat_str_inj: "nat_str m = nat_str n \<Longrightarrow> m = n"
proof (induction m arbitrary: n rule: nat_str.induct)
  case (1 m)
  have eqs: "nat_str k = (if k < 10 then [digit_char k]
      else nat_str (k div 10) @ [digit_char (k mod 10)])" for k
    by (rule nat_str.simps)
  show ?case
  proof (cases "m < 10")
    case True
    have "n < 10"
    proof (rule ccontr)
      assume "\<not> n < 10"
      then have "length (nat_str n) = Suc (length (nat_str (n div 10)))"
        "length (nat_str m) = 1" "nat_str (n div 10) \<noteq> []"
        using eqs [of m] eqs [of n] True by simp_all
      then show False using "1.prems" by simp
    qed
    with True "1.prems" show ?thesis
      using eqs [of m] eqs [of n] by (auto dest: digit_char_inj)
  next
    case False
    have "\<not> n < 10"
    proof
      assume "n < 10"
      then have "length (nat_str m) = Suc (length (nat_str (m div 10)))"
        "length (nat_str n) = 1" "nat_str (m div 10) \<noteq> []"
        using eqs [of m] eqs [of n] False by simp_all
      then show False using "1.prems" by simp
    qed
    with False "1.prems" have "nat_str (m div 10) = nat_str (n div 10)"
      "digit_char (m mod 10) = digit_char (n mod 10)"
      using eqs [of m] eqs [of n] by auto
    then have "m div 10 = n div 10" "m mod 10 = n mod 10"
      using "1.IH" [OF False] digit_char_inj [of "m mod 10" "n mod 10"] by simp_all
    then show ?thesis by (metis div_mult_mod_eq)
  qed
qed

section \<open>Errors as values\<close>

text \<open>A thrown error is the left summand; \<open>raise_bind\<close> runs the rest only when nothing was thrown.\<close>

definition raise_bind :: "'e + 'a \<Rightarrow> ('a \<Rightarrow> 'e + 'b) \<Rightarrow> 'e + 'b" where
  "raise_bind r f = (case r of Inl e \<Rightarrow> Inl e | Inr x \<Rightarrow> f x)"

lemma raise_bind_simps [simp]: "raise_bind (Inl e) f = Inl e" "raise_bind (Inr x) f = f x"
  by (simp_all add: raise_bind_def)

lemma raise_bind_InrD: "raise_bind r f = Inr y \<Longrightarrow> \<exists>x. r = Inr x \<and> f x = Inr y"
  by (cases r) auto

fun map_raise :: "('a \<Rightarrow> 'e + 'b) \<Rightarrow> 'a list \<Rightarrow> 'e + 'b list" where
  "map_raise f [] = Inr []"
| "map_raise f (x # xs) =
     raise_bind (f x) (\<lambda>y. raise_bind (map_raise f xs) (\<lambda>ys. Inr (y # ys)))"

lemma map_raise_cong [fundef_cong]:
  "xs = ys \<Longrightarrow> (\<And>x. x \<in> set ys \<Longrightarrow> f x = g x) \<Longrightarrow> map_raise f xs = map_raise g ys"
proof (induction ys arbitrary: xs)
  case (Cons y ys)
  then have "map_raise f ys = map_raise g ys" by simp
  with Cons.prems show ?case by simp
qed simp

lemma map_raise_Inr: "(\<And>x. x \<in> set xs \<Longrightarrow> f x = Inr (g x)) \<Longrightarrow> map_raise f xs = Inr (map g xs)"
  by (induction xs) simp_all

lemma map_raise_InrD: "map_raise f xs = Inr ys \<Longrightarrow> x \<in> set xs \<Longrightarrow> \<exists>y. f x = Inr y"
  by (induction xs arbitrary: ys) (auto dest!: raise_bind_InrD)

end
