(* ===== verification/Protocol.thy ===== *)
theory Protocol
  imports Prelude
begin

text \<open>
  The data model of \<open>packages/protocol\<close>: \<open>identities.ts\<close> and \<open>events.ts\<close>.

  Interfaces are records (a two-letter prefix keeps the selectors apart, since \<open>resourceId\<close> or
  \<open>repositoryId\<close> is a field of many interfaces), unions of string literals are datatypes, a
  nullable or optional field is an \<open>option\<close>, and the discriminated union \<open>ProtocolEvent\<close> is an
  envelope record with a payload datatype that has one constructor per event type and schema
  version.  The template-literal identifier types (\<open>evt_...\<close>, \<open>task_...\<close>) are strings.
  \<open>schemaVersion\<close> and \<open>eventType\<close> are functions of the payload, because the union fixes them:
  only \<open>write.dependent\<close>, \<open>evidence.derived\<close> and \<open>task.concurrency.observed\<close> have a version 3 form.
\<close>

section \<open>Identities\<close>

datatype source_kind = Gateway | Adapter | Watcher | Analyzer | Core

record source =
  sr_kind :: source_kind
  sr_sourceId :: string
  sr_instanceId :: string

record version_domain =
  vd_repositoryId :: string
  vd_workspaceId :: string
  vd_worktreeId :: string

datatype resource_kind = RK_file | RK_symbol | RK_api | RK_schema | RK_test

record logical_resource =
  lr_resourceId :: string
  lr_repositoryId :: string
  lr_kind :: resource_kind
  lr_locator :: string

datatype version_kind =
  VK_git_commit | VK_git_blob | VK_content_hash | VK_symbol_signature | VK_schema_version
| VK_api_version | VK_deleted

record resource_version =
  rv_resourceId :: string
  rv_domain :: version_domain
  rv_kind :: version_kind
  rv_value :: "string option"
  rv_evidenceEventIds :: "string list"

datatype integration_target_kind = TK_branch | TK_revision | TK_candidate_aggregate

record target_snapshot =
  ts_targetSnapshotId :: string
  ts_integrationTargetId :: string
  ts_repositoryId :: string
  ts_kind :: integration_target_kind
  ts_locator :: string
  ts_baseCommit :: string
  ts_candidateIds :: "string list"
  ts_digest :: string

section \<open>Payloads a recorder observes\<close>

datatype tool_name =
  TN_read_file | TN_edit_file | TN_run_shell | TN_run_test | TN_git_commit | TN_spawn_subagent
| TN_other

record tool_requested =
  tq_toolName :: tool_name
  tq_operation :: string
  tq_targetResourceId :: "string option"
  tq_opaque :: bool
  tq_hostToolName :: "string option"

datatype tool_outcome = Succeeded | Failed | Interrupted

record tool_completed =
  tc_requestEventId :: string
  tc_outcome :: tool_outcome
  tc_exitCode :: "int option"
  tc_effectEventIds :: "string list"
  tc_deterministicallyAttributedEffectEventIds :: "string list option"

datatype access_kind = AK_read | AK_execute

record resource_observed =
  ro_resource :: logical_resource
  ro_version :: resource_version
  ro_access :: access_kind

datatype change_kind = CK_created | CK_modified | CK_deleted | CK_renamed

datatype attribution_label = AL_call | AL_turn

record resource_changed =
  rc_resource :: logical_resource
  rc_beforeVersion :: "resource_version option"
  rc_afterVersion :: resource_version
  rc_changeKind :: change_kind
  rc_attribution :: "attribution_label option"

record task_completed =
  tk_workProductId :: string
  tk_baseRevision :: string
  tk_targetSnapshotId :: string
  tk_resourceIds :: "string list"

datatype provenance_kind = PK_declared | PK_statically_observed | PK_dynamically_observed
| PK_semantically_inferred

record producer =
  pd_sourceId :: string
  pd_version :: string

record provenance_rule =
  pr_ruleId :: string
  pr_version :: string

record provenance_observation =
  po_kind :: provenance_kind
  po_producer :: producer
  po_rule :: "provenance_rule option"
  po_evidenceEventIds :: "string list"

record dependency =
  dp_dependencyId :: string
  dp_dependentResourceId :: string
  dp_dependencyResourceId :: string
  dp_dependentVersion :: resource_version
  dp_dependencyVersion :: resource_version
  dp_observations :: "provenance_observation list"
  dp_evidenceEventIds :: "string list"

record attribution_corrected =
  ac_targetEventId :: string
  ac_attributedAgentId :: "string option"
  ac_attributedTaskId :: "string option"
  ac_reason :: string
  ac_evidenceEventIds :: "string list"

section \<open>Findings, feedback and decisions\<close>

datatype finding_type = Same_symbol_overlap | Stale_read_before_write
| Exported_contract_invalidation | Concurrent_file_write

datatype finding_status = FS_open | FS_dismissed | FS_resolved

datatype confidence_band = Band_low | Band_medium | Band_high

datatype severity = Sev_info | Sev_warning | Sev_critical

record detector_ref =
  de_detectorId :: string
  de_version :: string

record finding =
  fi_findingId :: string
  fi_findingType :: finding_type
  fi_status :: finding_status
  fi_subjectResourceId :: string
  fi_affectedTaskId :: "string option"
  fi_dependencyIds :: "string list"
  fi_evidenceEventIds :: "string list"
  fi_confidence :: rat
  fi_confidenceBand :: confidence_band
  fi_severity :: severity
  fi_coverageIds :: "string list"
  fi_detector :: detector_ref

record decision_target =
  dt_agentId :: "string option"
  dt_taskId :: "string option"

datatype feedback_disposition = FD_dismissed | FD_acknowledged | FD_not_affected
| FD_already_handled | FD_needs_more_information

record finding_feedback =
  ff_feedbackId :: string
  ff_findingId :: string
  ff_decisionId :: "string option"
  ff_actor :: decision_target
  ff_disposition :: feedback_disposition
  ff_useful :: "bool option"
  ff_reason :: "string option"
  ff_evidenceEventIds :: "string list"

datatype coordination_action = CA_record | CA_notify | CA_request_recheck | CA_assign_owner
| CA_redirect | CA_pause | CA_mark_possibly_stale | CA_mark_stale | CA_request_revalidation
| CA_create_follow_up_task | CA_escalate

datatype gateway_directive = GD_allow | GD_allow_with_notice | GD_delay | GD_reject

datatype delivery_state = DS_pending | DS_delivered | DS_acknowledged | DS_failed

record decision_delivery =
  dd_deliveryId :: string
  dd_target :: decision_target
  dd_state :: delivery_state
  dd_eventIds :: "string list"

datatype expected_response = ER_affected | ER_not_affected | ER_already_handled
| ER_needs_more_information

datatype decision_state = DE_active | DE_resolved

record policy_ref =
  pl_policyId :: string
  pl_version :: string

record decision =
  dc_decisionId :: string
  dc_findingId :: string
  dc_target :: decision_target
  dc_coordinationAction :: coordination_action
  dc_gatewayDirective :: gateway_directive
  dc_reason :: string
  dc_evidenceEventIds :: "string list"
  dc_confidence :: rat
  dc_confidenceBand :: confidence_band
  dc_policy :: policy_ref
  dc_expectedResponse :: expected_response
  dc_coverageIds :: "string list"
  dc_state :: decision_state
  dc_deliveries :: "decision_delivery list"

record decision_delivery_changed =
  dl_decisionId :: string
  dl_delivery :: decision_delivery

section \<open>Proof-bearing relationships (schema versions 2 and 3)\<close>

text \<open>
  The version 2 and version 3 payloads share the fields of the first record; version 3 makes the
  optional comparison mandatory and adds the proof fields.
\<close>

record write_link =
  wl_dependencyId :: string
  wl_resourceId :: string
  wl_dependsOnReadEventId :: string
  wl_coverageId :: string

record write_comparison =
  wc_changedEventId :: string
  wc_coverageId :: string
  wc_integrationTarget :: string

record observed_read_token =
  rt_schemaVersion :: nat
  rt_tokenDigest :: string
  rt_repositoryId :: string
  rt_workspaceId :: string
  rt_worktreeId :: string
  rt_taskId :: string
  rt_resourceId :: string
  rt_observedVersion :: resource_version
  rt_readEventId :: string
  rt_targetSnapshot :: target_snapshot

record write_proof =
  wp_readToken :: observed_read_token
  wp_targetSnapshot :: target_snapshot
  wp_writeEffectEventId :: string
  wp_writeEffectCoverageId :: string
  wp_completionEventId :: string

record concurrency_observation =
  co_firstTaskId :: string
  co_secondTaskId :: string
  co_firstChangeEventId :: string
  co_secondChangeEventId :: string
  co_integrationTarget :: string
  co_coverageId :: string

record tool_windows =
  tw_firstWindowId :: string
  tw_secondWindowId :: string
  tw_firstRequestEventId :: string
  tw_firstCompletionEventId :: string
  tw_secondRequestEventId :: string
  tw_secondCompletionEventId :: string

datatype overlap_proof =
  Authoritative_task_lifetimes string string
| Executor_owned_tool_windows tool_windows

record concurrency_proof =
  cp_firstAgentId :: string
  cp_secondAgentId :: string
  cp_firstWorktreeId :: string
  cp_secondWorktreeId :: string
  cp_targetSnapshot :: target_snapshot
  cp_overlapProof :: overlap_proof

datatype fact_kind = FK_symbol | FK_dependency

datatype config_value = CV_string string | CV_number rat | CV_boolean bool

datatype coverage_status = CS_sufficient | CS_degraded

record evidence_coverage =
  ec_status :: coverage_status
  ec_reason :: string

record analyzer_ref =
  an_analyzerId :: string
  an_version :: string

record derived_evidence =
  ev_targetEventId :: string
  ev_factKind :: fact_kind
  ev_analyzer :: analyzer_ref
  ev_configuration :: "(string \<times> config_value) list"
  ev_configurationDigest :: string
  ev_sourceEventIds :: "string list"
  ev_integrationTarget :: string
  ev_coverage :: evidence_coverage
  ev_coverageId :: string
  ev_stableFactId :: string
  ev_exported :: bool
  ev_normalizedSignature :: "string option"

record source_analysis =
  sa_sourceEventId :: string
  sa_sourceResourceId :: string
  sa_sourceVersion :: resource_version
  sa_analysisInputDigest :: string

record resolver_proof =
  rp_resolverId :: string
  rp_resolverVersion :: string
  rp_dependencyId :: string
  rp_consumerResourceId :: string
  rp_contractResourceId :: string

datatype relationship_proof =
  Hash_bound_symbol_contract source_analysis
| Resolver_confirmed_consumer_dependency source_analysis resolver_proof

fun sourceAnalysis :: "relationship_proof \<Rightarrow> source_analysis" where
  "sourceAnalysis (Hash_bound_symbol_contract a) = a"
| "sourceAnalysis (Resolver_confirmed_consumer_dependency a r) = a"

fun is_symbol_contract :: "relationship_proof \<Rightarrow> bool" where
  "is_symbol_contract (Hash_bound_symbol_contract a) = True"
| "is_symbol_contract (Resolver_confirmed_consumer_dependency a r) = False"

record evidence_proof =
  ep_targetSnapshot :: target_snapshot
  ep_proof :: relationship_proof

section \<open>Validity\<close>

datatype validity_state = VS_unassessed | VS_valid | VS_possibly_stale | VS_revalidating | VS_stale

datatype transition_reason = TR_validation_passed | TR_dependency_impact | TR_validation_started
| TR_validation_failed | TR_deterministic_proof | TR_validation_inconclusive
| TR_validation_interrupted | TR_target_superseded

record validity_transition =
  vt_from :: validity_state
  vt_to :: validity_state
  vt_reason :: transition_reason
  vt_targetSnapshotId :: string
  vt_evidenceEventIds :: "string list"

datatype execution_state = ES_completed | ES_failed | ES_cancelled

datatype validation_outcome = VO_started | VO_passed | VO_failed | VO_inconclusive | VO_interrupted

record validation_run =
  vn_command :: string
  vn_outcome :: validation_outcome
  vn_targetSnapshotId :: string
  vn_resultEventId :: string

record validity_record =
  va_validityId :: string
  va_taskId :: string
  va_workProductId :: string
  va_executionState :: execution_state
  va_validityState :: validity_state
  va_baseRevision :: string
  va_targetSnapshotId :: string
  va_observedDependencies :: "resource_version list"
  va_validations :: "validation_run list"
  va_coverageIds :: "string list"
  va_evidenceEventIds :: "string list"
  va_lastTransition :: "validity_transition option"

record validity_changed =
  vc_record :: validity_record
  vc_transition :: validity_transition

section \<open>Coordination messages\<close>

datatype message_audience = To_agent string | To_broadcast

datatype message_kind = MK_notice | MK_handoff | MK_question | MK_claim

datatype message_channel = MC_session_start | MC_post_tool_use | MC_mcp_pull

record message_sent =
  ms_messageId :: string
  ms_to :: message_audience
  ms_kind :: message_kind
  ms_subject :: string
  ms_body :: string
  ms_refs :: "string list"
  ms_expiresAt :: string

record message_delivered =
  md_messageId :: string
  md_channel :: message_channel

datatype ack_disposition = AD_read | AD_accepted | AD_declined

record message_acknowledged =
  ma_messageId :: string
  ma_disposition :: ack_disposition
  ma_note :: "string option"

datatype role_claim_method = RM_mcp | RM_env | RM_binding

record role_claimed =
  rl_roleId :: string
  rl_method :: role_claim_method

section \<open>Events\<close>

datatype payload =
  ToolRequested tool_requested
| ToolCompleted tool_completed
| FileRead resource_observed
| SymbolRead resource_observed
| FileChanged resource_changed
| SymbolChanged resource_changed
| TaskCompleted task_completed
| DependencyChanged dependency
| AttributionCorrected attribution_corrected
| FindingCreated finding
| FindingFeedbackCreated finding_feedback
| WriteDependentV2 write_link "write_comparison option"
| WriteDependentV3 write_link write_comparison write_proof
| EvidenceDerivedV2 derived_evidence
| EvidenceDerivedV3 derived_evidence evidence_proof
| TaskConcurrencyV2 concurrency_observation
| TaskConcurrencyV3 concurrency_observation concurrency_proof
| DecisionCreated decision
| ValidityChanged validity_changed
| DecisionDeliveryChanged decision_delivery_changed
| AgentMessageSent message_sent
| AgentMessageDelivered message_delivered
| AgentMessageAcknowledged message_acknowledged
| AgentRoleClaimed role_claimed

datatype event_type = ET_tool_requested | ET_tool_completed | ET_file_read | ET_symbol_read
| ET_file_changed | ET_symbol_changed | ET_task_completed | ET_dependency_changed
| ET_attribution_corrected | ET_finding_created | ET_finding_feedback_created | ET_write_dependent
| ET_evidence_derived | ET_task_concurrency_observed | ET_decision_created | ET_validity_changed
| ET_decision_delivery_changed | ET_agent_message_sent | ET_agent_message_delivered
| ET_agent_message_acknowledged | ET_agent_role_claimed

record event =
  eventId :: string
  source :: source
  timestamp :: string
  repositoryId :: string
  workspaceId :: string
  worktreeId :: string
  agentId :: "string option"
  taskId :: "string option"
  correlationId :: string
  causationId :: "string option"
  sourceSequence :: "nat option"
  payload :: payload

fun payload_type :: "payload \<Rightarrow> event_type" where
  "payload_type (ToolRequested _) = ET_tool_requested"
| "payload_type (ToolCompleted _) = ET_tool_completed"
| "payload_type (FileRead _) = ET_file_read"
| "payload_type (SymbolRead _) = ET_symbol_read"
| "payload_type (FileChanged _) = ET_file_changed"
| "payload_type (SymbolChanged _) = ET_symbol_changed"
| "payload_type (TaskCompleted _) = ET_task_completed"
| "payload_type (DependencyChanged _) = ET_dependency_changed"
| "payload_type (AttributionCorrected _) = ET_attribution_corrected"
| "payload_type (FindingCreated _) = ET_finding_created"
| "payload_type (FindingFeedbackCreated _) = ET_finding_feedback_created"
| "payload_type (WriteDependentV2 _ _) = ET_write_dependent"
| "payload_type (WriteDependentV3 _ _ _) = ET_write_dependent"
| "payload_type (EvidenceDerivedV2 _) = ET_evidence_derived"
| "payload_type (EvidenceDerivedV3 _ _) = ET_evidence_derived"
| "payload_type (TaskConcurrencyV2 _) = ET_task_concurrency_observed"
| "payload_type (TaskConcurrencyV3 _ _) = ET_task_concurrency_observed"
| "payload_type (DecisionCreated _) = ET_decision_created"
| "payload_type (ValidityChanged _) = ET_validity_changed"
| "payload_type (DecisionDeliveryChanged _) = ET_decision_delivery_changed"
| "payload_type (AgentMessageSent _) = ET_agent_message_sent"
| "payload_type (AgentMessageDelivered _) = ET_agent_message_delivered"
| "payload_type (AgentMessageAcknowledged _) = ET_agent_message_acknowledged"
| "payload_type (AgentRoleClaimed _) = ET_agent_role_claimed"

definition eventType :: "event \<Rightarrow> event_type" where
  "eventType e = payload_type (payload e)"

fun payload_version :: "payload \<Rightarrow> nat" where
  "payload_version (FindingFeedbackCreated _) = 2"
| "payload_version (WriteDependentV2 _ _) = 2"
| "payload_version (EvidenceDerivedV2 _) = 2"
| "payload_version (TaskConcurrencyV2 _) = 2"
| "payload_version (WriteDependentV3 _ _ _) = 3"
| "payload_version (EvidenceDerivedV3 _ _) = 3"
| "payload_version (TaskConcurrencyV3 _ _) = 3"
| "payload_version _ = 1"

definition schemaVersion :: "event \<Rightarrow> nat" where
  "schemaVersion e = payload_version (payload e)"

section \<open>Narrowing by event type\<close>

text \<open>
  TypeScript narrows a union with \<open>event.eventType === "file.read" || ...\<close>; these functions are
  the narrowed payloads, \<open>None\<close> where the test fails.
\<close>

fun payload_read :: "payload \<Rightarrow> resource_observed option" where
  "payload_read (FileRead p) = Some p"
| "payload_read (SymbolRead p) = Some p"
| "payload_read _ = None"

fun payload_changed :: "payload \<Rightarrow> resource_changed option" where
  "payload_changed (FileChanged p) = Some p"
| "payload_changed (SymbolChanged p) = Some p"
| "payload_changed _ = None"

fun payload_symbol_changed :: "payload \<Rightarrow> resource_changed option" where
  "payload_symbol_changed (SymbolChanged p) = Some p"
| "payload_symbol_changed _ = None"

fun payload_file_changed :: "payload \<Rightarrow> resource_changed option" where
  "payload_file_changed (FileChanged p) = Some p"
| "payload_file_changed _ = None"

fun payload_requested :: "payload \<Rightarrow> tool_requested option" where
  "payload_requested (ToolRequested p) = Some p"
| "payload_requested _ = None"

fun payload_completed :: "payload \<Rightarrow> tool_completed option" where
  "payload_completed (ToolCompleted p) = Some p"
| "payload_completed _ = None"

fun payload_task_completed :: "payload \<Rightarrow> task_completed option" where
  "payload_task_completed (TaskCompleted p) = Some p"
| "payload_task_completed _ = None"

fun payload_dependency :: "payload \<Rightarrow> dependency option" where
  "payload_dependency (DependencyChanged d) = Some d"
| "payload_dependency _ = None"

fun payload_correction :: "payload \<Rightarrow> attribution_corrected option" where
  "payload_correction (AttributionCorrected p) = Some p"
| "payload_correction _ = None"

fun payload_finding :: "payload \<Rightarrow> finding option" where
  "payload_finding (FindingCreated f) = Some f"
| "payload_finding _ = None"

fun payload_feedback :: "payload \<Rightarrow> finding_feedback option" where
  "payload_feedback (FindingFeedbackCreated f) = Some f"
| "payload_feedback _ = None"

fun payload_decision :: "payload \<Rightarrow> decision option" where
  "payload_decision (DecisionCreated d) = Some d"
| "payload_decision _ = None"

fun payload_delivery :: "payload \<Rightarrow> decision_delivery_changed option" where
  "payload_delivery (DecisionDeliveryChanged d) = Some d"
| "payload_delivery _ = None"

fun payload_write :: "payload \<Rightarrow> (write_link \<times> write_comparison option) option" where
  "payload_write (WriteDependentV2 l c) = Some (l, c)"
| "payload_write (WriteDependentV3 l c p) = Some (l, Some c)"
| "payload_write _ = None"

fun payload_concurrency :: "payload \<Rightarrow> concurrency_observation option" where
  "payload_concurrency (TaskConcurrencyV2 ob) = Some ob"
| "payload_concurrency (TaskConcurrencyV3 ob p) = Some ob"
| "payload_concurrency _ = None"

fun payload_derived :: "payload \<Rightarrow> derived_evidence option" where
  "payload_derived (EvidenceDerivedV2 d) = Some d"
| "payload_derived (EvidenceDerivedV3 d p) = Some d"
| "payload_derived _ = None"

fun payload_derived_v3 :: "payload \<Rightarrow> (derived_evidence \<times> evidence_proof) option" where
  "payload_derived_v3 (EvidenceDerivedV3 d p) = Some (d, p)"
| "payload_derived_v3 _ = None"

lemmas narrow_simps = payload_read.simps payload_changed.simps payload_symbol_changed.simps
  payload_file_changed.simps payload_requested.simps payload_completed.simps
  payload_task_completed.simps payload_dependency.simps payload_correction.simps
  payload_finding.simps payload_feedback.simps payload_decision.simps payload_delivery.simps
  payload_write.simps payload_concurrency.simps payload_derived.simps payload_derived_v3.simps

lemma schemaVersion_range: "schemaVersion e \<in> {1, 2, 3}"
  unfolding schemaVersion_def by (cases "payload e") auto

lemma payload_correction_version: "payload_correction p = Some c \<Longrightarrow> payload_version p = 1"
  by (cases p) auto

end
