(* ===== verification/Canonical_Json.thy ===== *)
theory Canonical_Json
  imports Prelude
begin

text \<open>
  Canonical JSON: \<open>packages/storage/src/canonical-json.ts\<close>, and the two private copies of the same
  idea in \<open>packages/protocol/src/validation.ts\<close> and \<open>packages/core/src/same-symbol-runtime.ts\<close>.

  A JavaScript value is a finite tree (\<open>jsval\<close>).  The cyclic values that \<open>canonicalize\<close> rejects by
  tracking its ancestors have no tree, so that branch has no counterpart; its other rejections
  are the values of \<open>js_type_error\<close>.  A number is a rational, rendered in plain decimal notation
  with at most twenty fractional digits, which is how JavaScript renders every number whose
  magnitude lies between \<open>1e-6\<close> and \<open>1e21\<close> and has so short an expansion.
\<close>

datatype jsval =
  JNull
| JBool bool
| JNum rat
| JNonFinite
| JStr string
| JUnsupported
| JArr "jsval list"
| JObj "(string \<times> jsval) list"
| JExotic "(string \<times> jsval) list"

datatype js_type_error = Number_not_finite | Value_not_supported | Object_not_plain

section \<open>Rendering scalars\<close>

fun frac_digits :: "nat \<Rightarrow> rat \<Rightarrow> string" where
  "frac_digits 0 f = []"
| "frac_digits (Suc k) f =
     (if f = 0 then []
      else digit_char (nat \<lfloor>f * 10\<rfloor>) # frac_digits k (f * 10 - of_int \<lfloor>f * 10\<rfloor>))"

definition num_str :: "rat \<Rightarrow> string" where
  "num_str r =
     (let a = \<bar>r\<bar>; f = a - of_int \<lfloor>a\<rfloor>
      in (if r < 0 then ''-'' else []) @ nat_str (nat \<lfloor>a\<rfloor>)
         @ (if f = 0 then [] else CHR ''.'' # frac_digits 20 f))"

definition hex_char :: "nat \<Rightarrow> char" where
  "hex_char d = (if d < 10 then char_of (48 + d) else char_of (87 + d))"

definition escape_char :: "char \<Rightarrow> string" where
  "escape_char c =
     (if c = CHR 0x22 then [CHR 0x5C, CHR 0x22]
      else if c = CHR 0x5C then [CHR 0x5C, CHR 0x5C]
      else if c = CHR 0x08 then [CHR 0x5C, CHR ''b'']
      else if c = CHR 0x0C then [CHR 0x5C, CHR ''f'']
      else if c = CHR 0x0A then [CHR 0x5C, CHR ''n'']
      else if c = CHR 0x0D then [CHR 0x5C, CHR ''r'']
      else if c = CHR 0x09 then [CHR 0x5C, CHR ''t'']
      else if (of_char c :: nat) < 32
        then [CHR 0x5C, CHR ''u'', CHR ''0'', CHR ''0'',
              hex_char (of_char c div 16), hex_char (of_char c mod 16)]
      else [c])"

definition json_string :: "string \<Rightarrow> string" where
  "json_string s = CHR 0x22 # concat (map escape_char s) @ [CHR 0x22]"

fun join :: "string \<Rightarrow> string list \<Rightarrow> string" where
  "join sep [] = []"
| "join sep [x] = x"
| "join sep (x # y # ys) = x @ sep @ join sep (y # ys)"

section \<open>Canonical text\<close>

text \<open>
  \<open>canonicalJsonBy cmp\<close> is the recursion the three copies share, with the order of the keys as an
  argument.  \<open>JSON.stringify\<close> renders a non-finite number as \<open>null\<close> and an unsupported value as
  \<open>undefined\<close> (the template literal prints the absent text), and only own enumerable entries of an
  exotic object count.
\<close>

lemma size_entry: "(k, v) \<in> set es \<Longrightarrow> size v < Suc (size_list (size_prod (\<lambda>x. 0) size) es)"
  by (induction es) auto

lemma size_element: "x \<in> set xs \<Longrightarrow> size x < Suc (size_list size xs)"
  by (induction xs) auto

function canonicalJsonBy :: "(string \<Rightarrow> string \<Rightarrow> int) \<Rightarrow> jsval \<Rightarrow> string" where
  "canonicalJsonBy cmp JNull = ''null''"
| "canonicalJsonBy cmp (JBool b) = (if b then ''true'' else ''false'')"
| "canonicalJsonBy cmp (JNum r) = num_str r"
| "canonicalJsonBy cmp JNonFinite = ''null''"
| "canonicalJsonBy cmp (JStr s) = json_string s"
| "canonicalJsonBy cmp JUnsupported = ''undefined''"
| "canonicalJsonBy cmp (JArr xs) = ''['' @ join '','' (map (canonicalJsonBy cmp) xs) @ '']''"
| "canonicalJsonBy cmp (JObj es) =
     ''{'' @ join '','' (map (\<lambda>(k, v). json_string k @ '':'' @ canonicalJsonBy cmp v)
                           (js_sort (\<lambda>a b. cmp (fst a) (fst b)) es)) @ ''}''"
| "canonicalJsonBy cmp (JExotic es) =
     ''{'' @ join '','' (map (\<lambda>(k, v). json_string k @ '':'' @ canonicalJsonBy cmp v)
                           (js_sort (\<lambda>a b. cmp (fst a) (fst b)) es)) @ ''}''"
  by pat_completeness auto

termination
  by (relation "measure (size \<circ> snd)") (auto dest: size_entry size_element)

definition canonicalJson_protocol :: "jsval \<Rightarrow> string" where
  "canonicalJson_protocol v = canonicalJsonBy compareStrings v"

definition canonicalJson_core :: "(string \<Rightarrow> string \<Rightarrow> int) \<Rightarrow> jsval \<Rightarrow> string" where
  "canonicalJson_core lc v = canonicalJsonBy lc v"

text \<open>The storage copy throws instead of rendering what JSON cannot express.\<close>

function canonicalize :: "jsval \<Rightarrow> js_type_error + string" where
  "canonicalize JNull = Inr ''null''"
| "canonicalize (JBool b) = Inr (if b then ''true'' else ''false'')"
| "canonicalize (JNum r) = Inr (num_str r)"
| "canonicalize JNonFinite = Inl Number_not_finite"
| "canonicalize (JStr s) = Inr (json_string s)"
| "canonicalize JUnsupported = Inl Value_not_supported"
| "canonicalize (JArr xs) =
     raise_bind (map_raise canonicalize xs) (\<lambda>ss. Inr (''['' @ join '','' ss @ '']''))"
| "canonicalize (JObj es) =
     raise_bind
       (map_raise (\<lambda>(k, v). raise_bind (canonicalize v) (\<lambda>s. Inr (json_string k @ '':'' @ s)))
          (js_sort (\<lambda>a b. compareStrings (fst a) (fst b)) es))
       (\<lambda>ss. Inr (''{'' @ join '','' ss @ ''}''))"
| "canonicalize (JExotic es) = Inl Object_not_plain"
  by pat_completeness auto

termination
  by (relation "measure size") (auto dest: size_entry size_element)

definition canonicalJson :: "jsval \<Rightarrow> js_type_error + string" where
  "canonicalJson v = canonicalize v"

text \<open>
  The digest is the SHA-256 of the text.  \<open>createHash\<close> is a library of the host, so the hash (from
  text to lower-case hexadecimal) is an argument.
\<close>

definition canonicalDigest :: "(string \<Rightarrow> string) \<Rightarrow> jsval \<Rightarrow> js_type_error + string" where
  "canonicalDigest sha v = raise_bind (canonicalJson v) (\<lambda>s. Inr (sha s))"

section \<open>\<open>JSON.stringify\<close> in insertion order\<close>

text \<open>
  Own keys enumerate array indices first, in ascending order, and then the other keys in order of
  insertion.
\<close>

definition is_index_key :: "string \<Rightarrow> bool" where
  "is_index_key k =
     (k \<noteq> [] \<and> list_all (\<lambda>c. CHR ''0'' \<le> c \<and> c \<le> CHR ''9'') k
      \<and> (k = ''0'' \<or> hd k \<noteq> CHR ''0'') \<and> (length k < 10 \<or> length k = 10 \<and> k < ''4294967295''))"

definition compare_index :: "string \<Rightarrow> string \<Rightarrow> int" where
  "compare_index a b = js_or (int (length a) - int (length b)) (compareStrings a b)"

definition own_entries :: "(string \<times> 'a) list \<Rightarrow> (string \<times> 'a) list" where
  "own_entries es =
     js_sort (\<lambda>a b. compare_index (fst a) (fst b)) (filter (\<lambda>e. is_index_key (fst e)) es)
     @ filter (\<lambda>e. \<not> is_index_key (fst e)) es"

lemma set_own_entries [simp]: "set (own_entries es) = set es"
  by (auto simp: own_entries_def)

function json_stringify :: "jsval \<Rightarrow> string" where
  "json_stringify JNull = ''null''"
| "json_stringify (JBool b) = (if b then ''true'' else ''false'')"
| "json_stringify (JNum r) = num_str r"
| "json_stringify JNonFinite = ''null''"
| "json_stringify (JStr s) = json_string s"
| "json_stringify JUnsupported = ''null''"
| "json_stringify (JArr xs) = ''['' @ join '','' (map json_stringify xs) @ '']''"
| "json_stringify (JObj es) =
     ''{'' @ join '','' (map (\<lambda>(k, v). json_string k @ '':'' @ json_stringify v)
                           (filter (\<lambda>e. snd e \<noteq> JUnsupported) (own_entries es))) @ ''}''"
| "json_stringify (JExotic es) =
     ''{'' @ join '','' (map (\<lambda>(k, v). json_string k @ '':'' @ json_stringify v)
                           (filter (\<lambda>e. snd e \<noteq> JUnsupported) (own_entries es))) @ ''}''"
  by pat_completeness auto

termination
  by (relation "measure size") (auto dest: size_entry size_element)

section \<open>The fragment JSON can express\<close>

text \<open>
  \<open>plain v\<close>: no value that \<open>canonicalize\<close> rejects.  \<open>is_json v\<close> adds what holds of every parsed value:
  keys are distinct and numbers have a short decimal expansion.
\<close>

fun plain :: "jsval \<Rightarrow> bool" where
  "plain JNonFinite = False"
| "plain JUnsupported = False"
| "plain (JExotic es) = False"
| "plain (JArr xs) = list_all plain xs"
| "plain (JObj es) = list_all (\<lambda>e. plain (snd e)) es"
| "plain _ = True"

definition short_decimal :: "rat \<Rightarrow> bool" where
  "short_decimal r = (r * 10 ^ 20 = of_int \<lfloor>r * 10 ^ 20\<rfloor>)"

fun is_json :: "jsval \<Rightarrow> bool" where
  "is_json JNonFinite = False"
| "is_json JUnsupported = False"
| "is_json (JExotic es) = False"
| "is_json (JNum r) = short_decimal r"
| "is_json (JArr xs) = list_all is_json xs"
| "is_json (JObj es) = (distinct (map fst es) \<and> list_all (\<lambda>e. is_json (snd e)) es)"
| "is_json _ = True"

lemma is_json_plain: "is_json v \<Longrightarrow> plain v"
  by (induction v rule: is_json.induct) (auto simp: list_all_iff)

lemma canonicalize_plain: "plain v \<Longrightarrow> canonicalize v = Inr (canonicalJson_protocol v)"
proof (induction v rule: canonicalize.induct)
  case (7 xs)
  then have "map_raise canonicalize xs = Inr (map canonicalJson_protocol xs)"
    by (intro map_raise_Inr) (auto simp: list_all_iff)
  moreover have "map canonicalJson_protocol xs = map (canonicalJsonBy compareStrings) xs"
    by (simp add: canonicalJson_protocol_def)
  ultimately show ?case by (simp add: canonicalJson_protocol_def)
next
  case (8 es)
  let ?f = "\<lambda>(k, v). json_string k @ '':'' @ canonicalJsonBy compareStrings v"
  have "map_raise (\<lambda>(k, v). raise_bind (canonicalize v) (\<lambda>s. Inr (json_string k @ '':'' @ s)))
          (js_sort (\<lambda>a b. compareStrings (fst a) (fst b)) es)
      = Inr (map ?f (js_sort (\<lambda>a b. compareStrings (fst a) (fst b)) es))"
  proof (rule map_raise_Inr)
    fix e assume e: "e \<in> set (js_sort (\<lambda>a b. compareStrings (fst a) (fst b)) es)"
    then have "plain (snd e)" using 8(2) by (auto simp: list_all_iff)
    then show "(case e of (k, v) \<Rightarrow> raise_bind (canonicalize v) (\<lambda>s. Inr (json_string k @ '':'' @ s)))
        = Inr (?f e)"
      using 8(1) [OF e] by (cases e) (simp add: canonicalJson_protocol_def)
  qed
  then show ?case by (simp add: canonicalJson_protocol_def)
qed (simp_all add: canonicalJson_protocol_def)

lemma canonicalize_InrD: "canonicalize v = Inr s \<Longrightarrow> plain v"
proof (induction v arbitrary: s rule: canonicalize.induct)
  case (7 xs)
  then show ?case
    by (auto simp: list_all_iff dest!: raise_bind_InrD dest: map_raise_InrD)
next
  case (8 es)
  from 8(2) obtain ss where ss: "map_raise
      (\<lambda>(k, v). raise_bind (canonicalize v) (\<lambda>s. Inr (json_string k @ '':'' @ s)))
      (js_sort (\<lambda>a b. compareStrings (fst a) (fst b)) es) = Inr ss"
    by (auto dest!: raise_bind_InrD)
  have "plain v" if "(k, v) \<in> set es" for k v
  proof -
    have e: "(k, v) \<in> set (js_sort (\<lambda>a b. compareStrings (fst a) (fst b)) es)" using that by simp
    from map_raise_InrD [OF ss e] obtain s' where "canonicalize v = Inr s'"
      by (auto dest!: raise_bind_InrD)
    then show ?thesis using 8(1) [OF e] by simp
  qed
  then show ?case by (auto simp: list_all_iff)
qed simp_all

end
