(* ===== verification/Event_Json.thy ===== *)
theory Event_Json
  imports Protocol Canonical_Json
begin

text \<open>
  The JSON form of an event, which is what the canonical text and every digest are computed from.
  Each function lists the fields of one interface of \<open>identities.ts\<close> or \<open>events.ts\<close>: a nullable
  field renders as \<open>null\<close>, an absent optional field is left out, and a literal type renders as the
  literal.
\<close>

section \<open>Literals\<close>

fun source_kind_str :: "source_kind \<Rightarrow> string" where
  "source_kind_str Gateway = ''gateway''"
| "source_kind_str Adapter = ''adapter''"
| "source_kind_str Watcher = ''watcher''"
| "source_kind_str Analyzer = ''analyzer''"
| "source_kind_str Core = ''core''"

fun resource_kind_str :: "resource_kind \<Rightarrow> string" where
  "resource_kind_str RK_file = ''file''"
| "resource_kind_str RK_symbol = ''symbol''"
| "resource_kind_str RK_api = ''api''"
| "resource_kind_str RK_schema = ''schema''"
| "resource_kind_str RK_test = ''test''"

fun version_kind_str :: "version_kind \<Rightarrow> string" where
  "version_kind_str VK_git_commit = ''git_commit''"
| "version_kind_str VK_git_blob = ''git_blob''"
| "version_kind_str VK_content_hash = ''content_hash''"
| "version_kind_str VK_symbol_signature = ''symbol_signature''"
| "version_kind_str VK_schema_version = ''schema_version''"
| "version_kind_str VK_api_version = ''api_version''"
| "version_kind_str VK_deleted = ''deleted''"

fun integration_target_kind_str :: "integration_target_kind \<Rightarrow> string" where
  "integration_target_kind_str TK_branch = ''branch''"
| "integration_target_kind_str TK_revision = ''revision''"
| "integration_target_kind_str TK_candidate_aggregate = ''candidate_aggregate''"

fun tool_name_str :: "tool_name \<Rightarrow> string" where
  "tool_name_str TN_read_file = ''read_file''"
| "tool_name_str TN_edit_file = ''edit_file''"
| "tool_name_str TN_run_shell = ''run_shell''"
| "tool_name_str TN_run_test = ''run_test''"
| "tool_name_str TN_git_commit = ''git_commit''"
| "tool_name_str TN_spawn_subagent = ''spawn_subagent''"
| "tool_name_str TN_other = ''other''"

fun tool_outcome_str :: "tool_outcome \<Rightarrow> string" where
  "tool_outcome_str Succeeded = ''succeeded''"
| "tool_outcome_str Failed = ''failed''"
| "tool_outcome_str Interrupted = ''interrupted''"

fun access_kind_str :: "access_kind \<Rightarrow> string" where
  "access_kind_str AK_read = ''read''"
| "access_kind_str AK_execute = ''execute''"

fun change_kind_str :: "change_kind \<Rightarrow> string" where
  "change_kind_str CK_created = ''created''"
| "change_kind_str CK_modified = ''modified''"
| "change_kind_str CK_deleted = ''deleted''"
| "change_kind_str CK_renamed = ''renamed''"

fun attribution_label_str :: "attribution_label \<Rightarrow> string" where
  "attribution_label_str AL_call = ''call''"
| "attribution_label_str AL_turn = ''turn''"

fun provenance_kind_str :: "provenance_kind \<Rightarrow> string" where
  "provenance_kind_str PK_declared = ''declared''"
| "provenance_kind_str PK_statically_observed = ''statically_observed''"
| "provenance_kind_str PK_dynamically_observed = ''dynamically_observed''"
| "provenance_kind_str PK_semantically_inferred = ''semantically_inferred''"

fun finding_type_str :: "finding_type \<Rightarrow> string" where
  "finding_type_str Same_symbol_overlap = ''same_symbol_overlap''"
| "finding_type_str Stale_read_before_write = ''stale_read_before_write''"
| "finding_type_str Exported_contract_invalidation = ''exported_contract_invalidation''"
| "finding_type_str Concurrent_file_write = ''concurrent_file_write''"

fun finding_status_str :: "finding_status \<Rightarrow> string" where
  "finding_status_str FS_open = ''open''"
| "finding_status_str FS_dismissed = ''dismissed''"
| "finding_status_str FS_resolved = ''resolved''"

fun confidence_band_str :: "confidence_band \<Rightarrow> string" where
  "confidence_band_str Band_low = ''low''"
| "confidence_band_str Band_medium = ''medium''"
| "confidence_band_str Band_high = ''high''"

fun severity_str :: "severity \<Rightarrow> string" where
  "severity_str Sev_info = ''info''"
| "severity_str Sev_warning = ''warning''"
| "severity_str Sev_critical = ''critical''"

fun feedback_disposition_str :: "feedback_disposition \<Rightarrow> string" where
  "feedback_disposition_str FD_dismissed = ''dismissed''"
| "feedback_disposition_str FD_acknowledged = ''acknowledged''"
| "feedback_disposition_str FD_not_affected = ''not_affected''"
| "feedback_disposition_str FD_already_handled = ''already_handled''"
| "feedback_disposition_str FD_needs_more_information = ''needs_more_information''"

fun coordination_action_str :: "coordination_action \<Rightarrow> string" where
  "coordination_action_str CA_record = ''record''"
| "coordination_action_str CA_notify = ''notify''"
| "coordination_action_str CA_request_recheck = ''request_recheck''"
| "coordination_action_str CA_assign_owner = ''assign_owner''"
| "coordination_action_str CA_redirect = ''redirect''"
| "coordination_action_str CA_pause = ''pause''"
| "coordination_action_str CA_mark_possibly_stale = ''mark_possibly_stale''"
| "coordination_action_str CA_mark_stale = ''mark_stale''"
| "coordination_action_str CA_request_revalidation = ''request_revalidation''"
| "coordination_action_str CA_create_follow_up_task = ''create_follow_up_task''"
| "coordination_action_str CA_escalate = ''escalate''"

fun gateway_directive_str :: "gateway_directive \<Rightarrow> string" where
  "gateway_directive_str GD_allow = ''allow''"
| "gateway_directive_str GD_allow_with_notice = ''allow_with_notice''"
| "gateway_directive_str GD_delay = ''delay''"
| "gateway_directive_str GD_reject = ''reject''"

fun delivery_state_str :: "delivery_state \<Rightarrow> string" where
  "delivery_state_str DS_pending = ''pending''"
| "delivery_state_str DS_delivered = ''delivered''"
| "delivery_state_str DS_acknowledged = ''acknowledged''"
| "delivery_state_str DS_failed = ''failed''"

fun expected_response_str :: "expected_response \<Rightarrow> string" where
  "expected_response_str ER_affected = ''affected''"
| "expected_response_str ER_not_affected = ''not_affected''"
| "expected_response_str ER_already_handled = ''already_handled''"
| "expected_response_str ER_needs_more_information = ''needs_more_information''"

fun decision_state_str :: "decision_state \<Rightarrow> string" where
  "decision_state_str DE_active = ''active''"
| "decision_state_str DE_resolved = ''resolved''"

fun fact_kind_str :: "fact_kind \<Rightarrow> string" where
  "fact_kind_str FK_symbol = ''symbol''"
| "fact_kind_str FK_dependency = ''dependency''"

fun coverage_status_str :: "coverage_status \<Rightarrow> string" where
  "coverage_status_str CS_sufficient = ''sufficient''"
| "coverage_status_str CS_degraded = ''degraded''"

fun validity_state_str :: "validity_state \<Rightarrow> string" where
  "validity_state_str VS_unassessed = ''unassessed''"
| "validity_state_str VS_valid = ''valid''"
| "validity_state_str VS_possibly_stale = ''possibly_stale''"
| "validity_state_str VS_revalidating = ''revalidating''"
| "validity_state_str VS_stale = ''stale''"

fun transition_reason_str :: "transition_reason \<Rightarrow> string" where
  "transition_reason_str TR_validation_passed = ''validation_passed''"
| "transition_reason_str TR_dependency_impact = ''dependency_impact''"
| "transition_reason_str TR_validation_started = ''validation_started''"
| "transition_reason_str TR_validation_failed = ''validation_failed''"
| "transition_reason_str TR_deterministic_proof = ''deterministic_proof''"
| "transition_reason_str TR_validation_inconclusive = ''validation_inconclusive''"
| "transition_reason_str TR_validation_interrupted = ''validation_interrupted''"
| "transition_reason_str TR_target_superseded = ''target_superseded''"

fun execution_state_str :: "execution_state \<Rightarrow> string" where
  "execution_state_str ES_completed = ''completed''"
| "execution_state_str ES_failed = ''failed''"
| "execution_state_str ES_cancelled = ''cancelled''"

fun validation_outcome_str :: "validation_outcome \<Rightarrow> string" where
  "validation_outcome_str VO_started = ''started''"
| "validation_outcome_str VO_passed = ''passed''"
| "validation_outcome_str VO_failed = ''failed''"
| "validation_outcome_str VO_inconclusive = ''inconclusive''"
| "validation_outcome_str VO_interrupted = ''interrupted''"

fun message_kind_str :: "message_kind \<Rightarrow> string" where
  "message_kind_str MK_notice = ''notice''"
| "message_kind_str MK_handoff = ''handoff''"
| "message_kind_str MK_question = ''question''"
| "message_kind_str MK_claim = ''claim''"

fun message_channel_str :: "message_channel \<Rightarrow> string" where
  "message_channel_str MC_session_start = ''session_start''"
| "message_channel_str MC_post_tool_use = ''post_tool_use''"
| "message_channel_str MC_mcp_pull = ''mcp_pull''"

fun ack_disposition_str :: "ack_disposition \<Rightarrow> string" where
  "ack_disposition_str AD_read = ''read''"
| "ack_disposition_str AD_accepted = ''accepted''"
| "ack_disposition_str AD_declined = ''declined''"

fun role_claim_method_str :: "role_claim_method \<Rightarrow> string" where
  "role_claim_method_str RM_mcp = ''mcp''"
| "role_claim_method_str RM_env = ''env''"
| "role_claim_method_str RM_binding = ''binding''"

fun event_type_str :: "event_type \<Rightarrow> string" where
  "event_type_str ET_tool_requested = ''tool.requested''"
| "event_type_str ET_tool_completed = ''tool.completed''"
| "event_type_str ET_file_read = ''file.read''"
| "event_type_str ET_symbol_read = ''symbol.read''"
| "event_type_str ET_file_changed = ''file.changed''"
| "event_type_str ET_symbol_changed = ''symbol.changed''"
| "event_type_str ET_task_completed = ''task.completed''"
| "event_type_str ET_dependency_changed = ''dependency.changed''"
| "event_type_str ET_attribution_corrected = ''attribution.corrected''"
| "event_type_str ET_finding_created = ''finding.created''"
| "event_type_str ET_finding_feedback_created = ''finding.feedback.created''"
| "event_type_str ET_write_dependent = ''write.dependent''"
| "event_type_str ET_evidence_derived = ''evidence.derived''"
| "event_type_str ET_task_concurrency_observed = ''task.concurrency.observed''"
| "event_type_str ET_decision_created = ''decision.created''"
| "event_type_str ET_validity_changed = ''validity.changed''"
| "event_type_str ET_decision_delivery_changed = ''decision.delivery.changed''"
| "event_type_str ET_agent_message_sent = ''agent.message.sent''"
| "event_type_str ET_agent_message_delivered = ''agent.message.delivered''"
| "event_type_str ET_agent_message_acknowledged = ''agent.message.acknowledged''"
| "event_type_str ET_agent_role_claimed = ''agent.role.claimed''"

section \<open>Field helpers\<close>

definition j_null_str :: "string option \<Rightarrow> jsval" where
  "j_null_str x = (case x of None \<Rightarrow> JNull | Some s \<Rightarrow> JStr s)"

definition j_strs :: "string list \<Rightarrow> jsval" where
  "j_strs xs = JArr (map JStr xs)"

definition j_null :: "('a \<Rightarrow> jsval) \<Rightarrow> 'a option \<Rightarrow> jsval" where
  "j_null f x = (case x of None \<Rightarrow> JNull | Some y \<Rightarrow> f y)"

definition j_opt :: "string \<Rightarrow> ('a \<Rightarrow> jsval) \<Rightarrow> 'a option \<Rightarrow> (string \<times> jsval) list" where
  "j_opt k f x = (case x of None \<Rightarrow> [] | Some y \<Rightarrow> [(k, f y)])"

section \<open>Interfaces\<close>

definition source_json :: "source \<Rightarrow> jsval" where
  "source_json x = JObj ([(''kind'', JStr (source_kind_str (sr_kind x))),
      (''sourceId'', JStr (sr_sourceId x)),
      (''instanceId'', JStr (sr_instanceId x))])"

definition version_domain_json :: "version_domain \<Rightarrow> jsval" where
  "version_domain_json x = JObj ([(''repositoryId'', JStr (vd_repositoryId x)),
      (''workspaceId'', JStr (vd_workspaceId x)),
      (''worktreeId'', JStr (vd_worktreeId x))])"

definition logical_resource_json :: "logical_resource \<Rightarrow> jsval" where
  "logical_resource_json x = JObj ([(''resourceId'', JStr (lr_resourceId x)),
      (''repositoryId'', JStr (lr_repositoryId x)),
      (''kind'', JStr (resource_kind_str (lr_kind x))),
      (''locator'', JStr (lr_locator x))])"

definition resource_version_json :: "resource_version \<Rightarrow> jsval" where
  "resource_version_json x = JObj ([(''resourceId'', JStr (rv_resourceId x)),
      (''domain'', version_domain_json (rv_domain x)),
      (''kind'', JStr (version_kind_str (rv_kind x))),
      (''value'', j_null_str (rv_value x)),
      (''evidenceEventIds'', j_strs (rv_evidenceEventIds x))])"

definition target_snapshot_json :: "target_snapshot \<Rightarrow> jsval" where
  "target_snapshot_json x = JObj ([(''targetSnapshotId'', JStr (ts_targetSnapshotId x)),
      (''integrationTargetId'', JStr (ts_integrationTargetId x)),
      (''repositoryId'', JStr (ts_repositoryId x)),
      (''kind'', JStr (integration_target_kind_str (ts_kind x))),
      (''locator'', JStr (ts_locator x)),
      (''baseCommit'', JStr (ts_baseCommit x)),
      (''candidateIds'', j_strs (ts_candidateIds x)),
      (''digest'', JStr (ts_digest x))])"

definition tool_requested_json :: "tool_requested \<Rightarrow> jsval" where
  "tool_requested_json x = JObj ([(''toolName'', JStr (tool_name_str (tq_toolName x))),
      (''operation'', JStr (tq_operation x)),
      (''targetResourceId'', j_null_str (tq_targetResourceId x)),
      (''opaque'', JBool (tq_opaque x))]
     @ j_opt ''hostToolName'' JStr (tq_hostToolName x))"

definition tool_completed_json :: "tool_completed \<Rightarrow> jsval" where
  "tool_completed_json x = JObj ([(''requestEventId'', JStr (tc_requestEventId x)),
      (''outcome'', JStr (tool_outcome_str (tc_outcome x))),
      (''exitCode'', j_null (\<lambda>i. JNum (of_int i)) (tc_exitCode x)),
      (''effectEventIds'', j_strs (tc_effectEventIds x))]
     @ j_opt ''deterministicallyAttributedEffectEventIds'' j_strs (tc_deterministicallyAttributedEffectEventIds x))"

definition resource_observed_json :: "resource_observed \<Rightarrow> jsval" where
  "resource_observed_json x = JObj ([(''resource'', logical_resource_json (ro_resource x)),
      (''version'', resource_version_json (ro_version x)),
      (''access'', JStr (access_kind_str (ro_access x)))])"

definition resource_changed_json :: "resource_changed \<Rightarrow> jsval" where
  "resource_changed_json x = JObj ([(''resource'', logical_resource_json (rc_resource x)),
      (''beforeVersion'', j_null resource_version_json (rc_beforeVersion x)),
      (''afterVersion'', resource_version_json (rc_afterVersion x)),
      (''changeKind'', JStr (change_kind_str (rc_changeKind x)))]
     @ j_opt ''attribution'' (\<lambda>x. JStr (attribution_label_str (x))) (rc_attribution x))"

definition task_completed_json :: "task_completed \<Rightarrow> jsval" where
  "task_completed_json x = JObj ([(''workProductId'', JStr (tk_workProductId x)),
      (''baseRevision'', JStr (tk_baseRevision x)),
      (''targetSnapshotId'', JStr (tk_targetSnapshotId x)),
      (''resourceIds'', j_strs (tk_resourceIds x))])"

definition producer_json :: "producer \<Rightarrow> jsval" where
  "producer_json x = JObj ([(''sourceId'', JStr (pd_sourceId x)),
      (''version'', JStr (pd_version x))])"

definition provenance_rule_json :: "provenance_rule \<Rightarrow> jsval" where
  "provenance_rule_json x = JObj ([(''ruleId'', JStr (pr_ruleId x)),
      (''version'', JStr (pr_version x))])"

definition provenance_observation_json :: "provenance_observation \<Rightarrow> jsval" where
  "provenance_observation_json x = JObj ([(''kind'', JStr (provenance_kind_str (po_kind x))),
      (''producer'', producer_json (po_producer x)),
      (''rule'', j_null provenance_rule_json (po_rule x)),
      (''evidenceEventIds'', j_strs (po_evidenceEventIds x))])"

definition dependency_json :: "dependency \<Rightarrow> jsval" where
  "dependency_json x = JObj ([(''dependencyId'', JStr (dp_dependencyId x)),
      (''dependentResourceId'', JStr (dp_dependentResourceId x)),
      (''dependencyResourceId'', JStr (dp_dependencyResourceId x)),
      (''dependentVersion'', resource_version_json (dp_dependentVersion x)),
      (''dependencyVersion'', resource_version_json (dp_dependencyVersion x)),
      (''observations'', JArr (map provenance_observation_json (dp_observations x))),
      (''evidenceEventIds'', j_strs (dp_evidenceEventIds x))])"

definition attribution_corrected_json :: "attribution_corrected \<Rightarrow> jsval" where
  "attribution_corrected_json x = JObj ([(''targetEventId'', JStr (ac_targetEventId x)),
      (''attributedAgentId'', j_null_str (ac_attributedAgentId x)),
      (''attributedTaskId'', j_null_str (ac_attributedTaskId x)),
      (''reason'', JStr (ac_reason x)),
      (''evidenceEventIds'', j_strs (ac_evidenceEventIds x))])"

definition detector_ref_json :: "detector_ref \<Rightarrow> jsval" where
  "detector_ref_json x = JObj ([(''detectorId'', JStr (de_detectorId x)),
      (''version'', JStr (de_version x))])"

definition finding_json :: "finding \<Rightarrow> jsval" where
  "finding_json x = JObj ([(''findingId'', JStr (fi_findingId x)),
      (''findingType'', JStr (finding_type_str (fi_findingType x))),
      (''status'', JStr (finding_status_str (fi_status x))),
      (''subjectResourceId'', JStr (fi_subjectResourceId x)),
      (''affectedTaskId'', j_null_str (fi_affectedTaskId x)),
      (''dependencyIds'', j_strs (fi_dependencyIds x)),
      (''evidenceEventIds'', j_strs (fi_evidenceEventIds x)),
      (''confidence'', JNum (fi_confidence x)),
      (''confidenceBand'', JStr (confidence_band_str (fi_confidenceBand x))),
      (''severity'', JStr (severity_str (fi_severity x))),
      (''coverageIds'', j_strs (fi_coverageIds x)),
      (''detector'', detector_ref_json (fi_detector x))])"

definition decision_target_json :: "decision_target \<Rightarrow> jsval" where
  "decision_target_json x = JObj ([(''agentId'', j_null_str (dt_agentId x)),
      (''taskId'', j_null_str (dt_taskId x))])"

definition finding_feedback_json :: "finding_feedback \<Rightarrow> jsval" where
  "finding_feedback_json x = JObj ([(''feedbackId'', JStr (ff_feedbackId x)),
      (''findingId'', JStr (ff_findingId x)),
      (''decisionId'', j_null_str (ff_decisionId x)),
      (''actor'', decision_target_json (ff_actor x)),
      (''disposition'', JStr (feedback_disposition_str (ff_disposition x))),
      (''useful'', j_null JBool (ff_useful x)),
      (''reason'', j_null_str (ff_reason x)),
      (''evidenceEventIds'', j_strs (ff_evidenceEventIds x))])"

definition decision_delivery_json :: "decision_delivery \<Rightarrow> jsval" where
  "decision_delivery_json x = JObj ([(''deliveryId'', JStr (dd_deliveryId x)),
      (''target'', decision_target_json (dd_target x)),
      (''state'', JStr (delivery_state_str (dd_state x))),
      (''eventIds'', j_strs (dd_eventIds x))])"

definition policy_ref_json :: "policy_ref \<Rightarrow> jsval" where
  "policy_ref_json x = JObj ([(''policyId'', JStr (pl_policyId x)),
      (''version'', JStr (pl_version x))])"

definition decision_json :: "decision \<Rightarrow> jsval" where
  "decision_json x = JObj ([(''decisionId'', JStr (dc_decisionId x)),
      (''findingId'', JStr (dc_findingId x)),
      (''target'', decision_target_json (dc_target x)),
      (''coordinationAction'', JStr (coordination_action_str (dc_coordinationAction x))),
      (''gatewayDirective'', JStr (gateway_directive_str (dc_gatewayDirective x))),
      (''reason'', JStr (dc_reason x)),
      (''evidenceEventIds'', j_strs (dc_evidenceEventIds x)),
      (''confidence'', JNum (dc_confidence x)),
      (''confidenceBand'', JStr (confidence_band_str (dc_confidenceBand x))),
      (''policy'', policy_ref_json (dc_policy x)),
      (''expectedResponse'', JStr (expected_response_str (dc_expectedResponse x))),
      (''coverageIds'', j_strs (dc_coverageIds x)),
      (''state'', JStr (decision_state_str (dc_state x))),
      (''deliveries'', JArr (map decision_delivery_json (dc_deliveries x)))])"

definition decision_delivery_changed_json :: "decision_delivery_changed \<Rightarrow> jsval" where
  "decision_delivery_changed_json x = JObj ([(''decisionId'', JStr (dl_decisionId x)),
      (''delivery'', decision_delivery_json (dl_delivery x))])"

definition write_comparison_json :: "write_comparison \<Rightarrow> jsval" where
  "write_comparison_json x = JObj ([(''changedEventId'', JStr (wc_changedEventId x)),
      (''coverageId'', JStr (wc_coverageId x)),
      (''integrationTarget'', JStr (wc_integrationTarget x))])"

definition observed_read_token_json :: "observed_read_token \<Rightarrow> jsval" where
  "observed_read_token_json x = JObj ([(''schemaVersion'', JNum (of_nat (rt_schemaVersion x))),
      (''tokenDigest'', JStr (rt_tokenDigest x)),
      (''repositoryId'', JStr (rt_repositoryId x)),
      (''workspaceId'', JStr (rt_workspaceId x)),
      (''worktreeId'', JStr (rt_worktreeId x)),
      (''taskId'', JStr (rt_taskId x)),
      (''resourceId'', JStr (rt_resourceId x)),
      (''observedVersion'', resource_version_json (rt_observedVersion x)),
      (''readEventId'', JStr (rt_readEventId x)),
      (''targetSnapshot'', target_snapshot_json (rt_targetSnapshot x))])"

definition write_link_fields :: "write_link \<Rightarrow> (string \<times> jsval) list" where
  "write_link_fields x =
     [(''dependencyId'', JStr (wl_dependencyId x)), (''resourceId'', JStr (wl_resourceId x)),
      (''dependsOnReadEventId'', JStr (wl_dependsOnReadEventId x)),
      (''coverageId'', JStr (wl_coverageId x))]"

definition write_proof_fields :: "write_proof \<Rightarrow> (string \<times> jsval) list" where
  "write_proof_fields x =
     [(''readToken'', observed_read_token_json (wp_readToken x)),
      (''targetSnapshot'', target_snapshot_json (wp_targetSnapshot x)),
      (''writeEffectEventId'', JStr (wp_writeEffectEventId x)),
      (''writeEffectCoverageId'', JStr (wp_writeEffectCoverageId x)),
      (''completionEventId'', JStr (wp_completionEventId x))]"

definition concurrency_fields :: "concurrency_observation \<Rightarrow> (string \<times> jsval) list" where
  "concurrency_fields x =
     [(''firstTaskId'', JStr (co_firstTaskId x)), (''secondTaskId'', JStr (co_secondTaskId x)),
      (''firstChangeEventId'', JStr (co_firstChangeEventId x)),
      (''secondChangeEventId'', JStr (co_secondChangeEventId x)),
      (''integrationTarget'', JStr (co_integrationTarget x)),
      (''coverageId'', JStr (co_coverageId x))]"

fun overlap_proof_json :: "overlap_proof \<Rightarrow> jsval" where
  "overlap_proof_json (Authoritative_task_lifetimes a b) =
     JObj [(''kind'', JStr ''authoritative_task_lifetimes''), (''firstLifecycleId'', JStr a),
           (''secondLifecycleId'', JStr b)]"
| "overlap_proof_json (Executor_owned_tool_windows w) =
     JObj [(''kind'', JStr ''executor_owned_tool_windows''),
           (''firstWindowId'', JStr (tw_firstWindowId w)),
           (''secondWindowId'', JStr (tw_secondWindowId w)),
           (''firstRequestEventId'', JStr (tw_firstRequestEventId w)),
           (''firstCompletionEventId'', JStr (tw_firstCompletionEventId w)),
           (''secondRequestEventId'', JStr (tw_secondRequestEventId w)),
           (''secondCompletionEventId'', JStr (tw_secondCompletionEventId w))]"

definition concurrency_proof_fields :: "concurrency_proof \<Rightarrow> (string \<times> jsval) list" where
  "concurrency_proof_fields x =
     [(''firstAgentId'', JStr (cp_firstAgentId x)), (''secondAgentId'', JStr (cp_secondAgentId x)),
      (''firstWorktreeId'', JStr (cp_firstWorktreeId x)),
      (''secondWorktreeId'', JStr (cp_secondWorktreeId x)),
      (''targetSnapshot'', target_snapshot_json (cp_targetSnapshot x)),
      (''overlapProof'', overlap_proof_json (cp_overlapProof x))]"

fun config_value_json :: "config_value \<Rightarrow> jsval" where
  "config_value_json (CV_string s) = JStr s"
| "config_value_json (CV_number n) = JNum n"
| "config_value_json (CV_boolean b) = JBool b"

definition configuration_json :: "(string \<times> config_value) list \<Rightarrow> jsval" where
  "configuration_json c = JObj (map (\<lambda>e. (fst e, config_value_json (snd e))) c)"

definition evidence_coverage_json :: "evidence_coverage \<Rightarrow> jsval" where
  "evidence_coverage_json x = JObj ([(''status'', JStr (coverage_status_str (ec_status x))),
      (''reason'', JStr (ec_reason x))])"

definition analyzer_ref_json :: "analyzer_ref \<Rightarrow> jsval" where
  "analyzer_ref_json x = JObj ([(''analyzerId'', JStr (an_analyzerId x)),
      (''version'', JStr (an_version x))])"

definition derived_fields :: "derived_evidence \<Rightarrow> (string \<times> jsval) list" where
  "derived_fields x =
     [(''targetEventId'', JStr (ev_targetEventId x)),
      (''factKind'', JStr (fact_kind_str (ev_factKind x))),
      (''analyzer'', analyzer_ref_json (ev_analyzer x)),
      (''configuration'', configuration_json (ev_configuration x)),
      (''configurationDigest'', JStr (ev_configurationDigest x)),
      (''sourceEventIds'', j_strs (ev_sourceEventIds x)),
      (''integrationTarget'', JStr (ev_integrationTarget x)),
      (''coverage'', evidence_coverage_json (ev_coverage x)),
      (''coverageId'', JStr (ev_coverageId x)),
      (''stableFactId'', JStr (ev_stableFactId x)),
      (''exported'', JBool (ev_exported x)),
      (''normalizedSignature'', j_null_str (ev_normalizedSignature x))]"

definition source_analysis_json :: "source_analysis \<Rightarrow> jsval" where
  "source_analysis_json x = JObj ([(''sourceEventId'', JStr (sa_sourceEventId x)),
      (''sourceResourceId'', JStr (sa_sourceResourceId x)),
      (''sourceVersion'', resource_version_json (sa_sourceVersion x)),
      (''analysisInputDigest'', JStr (sa_analysisInputDigest x))])"

fun relationship_proof_json :: "relationship_proof \<Rightarrow> jsval" where
  "relationship_proof_json (Hash_bound_symbol_contract a) =
     JObj [(''kind'', JStr ''hash_bound_symbol_contract''), (''sourceAnalysis'', source_analysis_json a)]"
| "relationship_proof_json (Resolver_confirmed_consumer_dependency a r) =
     JObj [(''kind'', JStr ''resolver_confirmed_consumer_dependency''),
           (''sourceAnalysis'', source_analysis_json a),
           (''resolver'', JObj [(''resolverId'', JStr (rp_resolverId r)),
                                (''version'', JStr (rp_resolverVersion r))]),
           (''dependencyId'', JStr (rp_dependencyId r)),
           (''consumerResourceId'', JStr (rp_consumerResourceId r)),
           (''contractResourceId'', JStr (rp_contractResourceId r)),
           (''resolution'', JStr ''confirmed'')]"

definition evidence_proof_fields :: "evidence_proof \<Rightarrow> (string \<times> jsval) list" where
  "evidence_proof_fields x =
     [(''targetSnapshot'', target_snapshot_json (ep_targetSnapshot x)),
      (''proof'', relationship_proof_json (ep_proof x))]"

definition validity_transition_json :: "validity_transition \<Rightarrow> jsval" where
  "validity_transition_json x = JObj ([(''from'', JStr (validity_state_str (vt_from x))),
      (''to'', JStr (validity_state_str (vt_to x))),
      (''reason'', JStr (transition_reason_str (vt_reason x))),
      (''targetSnapshotId'', JStr (vt_targetSnapshotId x)),
      (''evidenceEventIds'', j_strs (vt_evidenceEventIds x))])"

definition validation_run_json :: "validation_run \<Rightarrow> jsval" where
  "validation_run_json x = JObj ([(''command'', JStr (vn_command x)),
      (''outcome'', JStr (validation_outcome_str (vn_outcome x))),
      (''targetSnapshotId'', JStr (vn_targetSnapshotId x)),
      (''resultEventId'', JStr (vn_resultEventId x))])"

definition validity_record_json :: "validity_record \<Rightarrow> jsval" where
  "validity_record_json x = JObj ([(''validityId'', JStr (va_validityId x)),
      (''taskId'', JStr (va_taskId x)),
      (''workProductId'', JStr (va_workProductId x)),
      (''executionState'', JStr (execution_state_str (va_executionState x))),
      (''validityState'', JStr (validity_state_str (va_validityState x))),
      (''baseRevision'', JStr (va_baseRevision x)),
      (''targetSnapshotId'', JStr (va_targetSnapshotId x)),
      (''observedDependencies'', JArr (map resource_version_json (va_observedDependencies x))),
      (''validations'', JArr (map validation_run_json (va_validations x))),
      (''coverageIds'', j_strs (va_coverageIds x)),
      (''evidenceEventIds'', j_strs (va_evidenceEventIds x)),
      (''lastTransition'', j_null validity_transition_json (va_lastTransition x))])"

definition validity_changed_json :: "validity_changed \<Rightarrow> jsval" where
  "validity_changed_json x = JObj ([(''record'', validity_record_json (vc_record x)),
      (''transition'', validity_transition_json (vc_transition x))])"

fun message_audience_json :: "message_audience \<Rightarrow> jsval" where
  "message_audience_json (To_agent a) = JObj [(''kind'', JStr ''agent''), (''agentId'', JStr a)]"
| "message_audience_json To_broadcast = JObj [(''kind'', JStr ''broadcast''), (''agentId'', JNull)]"

definition message_sent_json :: "message_sent \<Rightarrow> jsval" where
  "message_sent_json x = JObj ([(''messageId'', JStr (ms_messageId x)),
      (''to'', message_audience_json (ms_to x)),
      (''kind'', JStr (message_kind_str (ms_kind x))),
      (''subject'', JStr (ms_subject x)),
      (''body'', JStr (ms_body x)),
      (''refs'', j_strs (ms_refs x)),
      (''expiresAt'', JStr (ms_expiresAt x))])"

definition message_delivered_json :: "message_delivered \<Rightarrow> jsval" where
  "message_delivered_json x = JObj ([(''messageId'', JStr (md_messageId x)),
      (''channel'', JStr (message_channel_str (md_channel x)))])"

definition message_acknowledged_json :: "message_acknowledged \<Rightarrow> jsval" where
  "message_acknowledged_json x = JObj ([(''messageId'', JStr (ma_messageId x)),
      (''disposition'', JStr (ack_disposition_str (ma_disposition x))),
      (''note'', j_null_str (ma_note x))])"

definition role_claimed_json :: "role_claimed \<Rightarrow> jsval" where
  "role_claimed_json x = JObj ([(''roleId'', JStr (rl_roleId x)),
      (''method'', JStr (role_claim_method_str (rl_method x)))])"

section \<open>Payloads and events\<close>

fun payload_json :: "payload \<Rightarrow> jsval" where
  "payload_json (ToolRequested p) = tool_requested_json p"
| "payload_json (ToolCompleted p) = tool_completed_json p"
| "payload_json (FileRead p) = resource_observed_json p"
| "payload_json (SymbolRead p) = resource_observed_json p"
| "payload_json (FileChanged p) = resource_changed_json p"
| "payload_json (SymbolChanged p) = resource_changed_json p"
| "payload_json (TaskCompleted p) = task_completed_json p"
| "payload_json (DependencyChanged d) = JObj [(''dependency'', dependency_json d)]"
| "payload_json (AttributionCorrected p) = attribution_corrected_json p"
| "payload_json (FindingCreated f) = JObj [(''finding'', finding_json f)]"
| "payload_json (FindingFeedbackCreated f) = JObj [(''feedback'', finding_feedback_json f)]"
| "payload_json (WriteDependentV2 l c) =
     JObj [(''write'', JObj (write_link_fields l @ j_opt ''comparison'' write_comparison_json c))]"
| "payload_json (WriteDependentV3 l c p) =
     JObj [(''write'', JObj (write_link_fields l @ [(''comparison'', write_comparison_json c)]
                             @ write_proof_fields p))]"
| "payload_json (EvidenceDerivedV2 d) = JObj [(''evidence'', JObj (derived_fields d))]"
| "payload_json (EvidenceDerivedV3 d p) =
     JObj [(''evidence'', JObj (derived_fields d @ evidence_proof_fields p))]"
| "payload_json (TaskConcurrencyV2 ob) = JObj [(''observation'', JObj (concurrency_fields ob))]"
| "payload_json (TaskConcurrencyV3 ob p) =
     JObj [(''observation'', JObj (concurrency_fields ob @ concurrency_proof_fields p))]"
| "payload_json (DecisionCreated d) = JObj [(''decision'', decision_json d)]"
| "payload_json (ValidityChanged v) = validity_changed_json v"
| "payload_json (DecisionDeliveryChanged d) = decision_delivery_changed_json d"
| "payload_json (AgentMessageSent m) = message_sent_json m"
| "payload_json (AgentMessageDelivered m) = message_delivered_json m"
| "payload_json (AgentMessageAcknowledged m) = message_acknowledged_json m"
| "payload_json (AgentRoleClaimed r) = role_claimed_json r"

definition event_json :: "event \<Rightarrow> jsval" where
  "event_json e = JObj
     [(''schemaVersion'', JNum (of_nat (schemaVersion e))),
      (''eventId'', JStr (eventId e)),
      (''eventType'', JStr (event_type_str (eventType e))),
      (''source'', source_json (source e)),
      (''timestamp'', JStr (timestamp e)),
      (''repositoryId'', JStr (repositoryId e)),
      (''workspaceId'', JStr (workspaceId e)),
      (''worktreeId'', JStr (worktreeId e)),
      (''agentId'', j_null_str (agentId e)),
      (''taskId'', j_null_str (taskId e)),
      (''correlationId'', JStr (correlationId e)),
      (''causationId'', j_null_str (causationId e)),
      (''sourceSequence'', j_null (\<lambda>n. JNum (of_nat n)) (sourceSequence e)),
      (''payload'', payload_json (payload e))]"

text \<open>Every event is within what \<open>canonicalize\<close> accepts, so storing one never throws there.\<close>

named_theorems json_defs \<open>the field lists of the interfaces\<close>

lemma plain_null_str [simp]: "plain (j_null_str x)"
  by (cases x) (simp_all add: j_null_str_def)

lemma plain_strs [simp]: "plain (j_strs xs)"
  by (simp add: j_strs_def list_all_iff)

lemma plain_null [simp]: "(\<And>y. plain (f y)) \<Longrightarrow> plain (j_null f x)"
  by (cases x) (simp_all add: j_null_def)

lemma plain_opt [simp]: "(\<And>y. plain (f y)) \<Longrightarrow> list_all (\<lambda>e. plain (snd e)) (j_opt k f x)"
  by (cases x) (simp_all add: j_opt_def)

lemma plain_source_json [simp]: "plain (source_json x)"
  by (simp add: source_json_def)

lemma plain_version_domain_json [simp]: "plain (version_domain_json x)"
  by (simp add: version_domain_json_def)

lemma plain_logical_resource_json [simp]: "plain (logical_resource_json x)"
  by (simp add: logical_resource_json_def)

lemma plain_resource_version_json [simp]: "plain (resource_version_json x)"
  by (simp add: resource_version_json_def)

lemma plain_target_snapshot_json [simp]: "plain (target_snapshot_json x)"
  by (simp add: target_snapshot_json_def)

lemma plain_tool_requested_json [simp]: "plain (tool_requested_json x)"
  by (simp add: tool_requested_json_def)

lemma plain_tool_completed_json [simp]: "plain (tool_completed_json x)"
  by (simp add: tool_completed_json_def)

lemma plain_resource_observed_json [simp]: "plain (resource_observed_json x)"
  by (simp add: resource_observed_json_def)

lemma plain_resource_changed_json [simp]: "plain (resource_changed_json x)"
  by (simp add: resource_changed_json_def)

lemma plain_task_completed_json [simp]: "plain (task_completed_json x)"
  by (simp add: task_completed_json_def)

lemma plain_producer_json [simp]: "plain (producer_json x)"
  by (simp add: producer_json_def)

lemma plain_provenance_rule_json [simp]: "plain (provenance_rule_json x)"
  by (simp add: provenance_rule_json_def)

lemma plain_provenance_observation_json [simp]: "plain (provenance_observation_json x)"
  by (simp add: provenance_observation_json_def)

lemma plain_dependency_json [simp]: "plain (dependency_json x)"
  by (simp add: dependency_json_def list.pred_map comp_def list.pred_True)

lemma plain_attribution_corrected_json [simp]: "plain (attribution_corrected_json x)"
  by (simp add: attribution_corrected_json_def)

lemma plain_detector_ref_json [simp]: "plain (detector_ref_json x)"
  by (simp add: detector_ref_json_def)

lemma plain_finding_json [simp]: "plain (finding_json x)"
  by (simp add: finding_json_def)

lemma plain_decision_target_json [simp]: "plain (decision_target_json x)"
  by (simp add: decision_target_json_def)

lemma plain_finding_feedback_json [simp]: "plain (finding_feedback_json x)"
  by (simp add: finding_feedback_json_def)

lemma plain_decision_delivery_json [simp]: "plain (decision_delivery_json x)"
  by (simp add: decision_delivery_json_def)

lemma plain_policy_ref_json [simp]: "plain (policy_ref_json x)"
  by (simp add: policy_ref_json_def)

lemma plain_decision_json [simp]: "plain (decision_json x)"
  by (simp add: decision_json_def list.pred_map comp_def list.pred_True)

lemma plain_decision_delivery_changed_json [simp]: "plain (decision_delivery_changed_json x)"
  by (simp add: decision_delivery_changed_json_def)

lemma plain_write_comparison_json [simp]: "plain (write_comparison_json x)"
  by (simp add: write_comparison_json_def)

lemma plain_observed_read_token_json [simp]: "plain (observed_read_token_json x)"
  by (simp add: observed_read_token_json_def)

lemma plain_write_link_fields [simp]: "list_all (\<lambda>e. plain (snd e)) (write_link_fields x)"
  by (simp add: write_link_fields_def)

lemma plain_write_proof_fields [simp]: "list_all (\<lambda>e. plain (snd e)) (write_proof_fields x)"
  by (simp add: write_proof_fields_def)

lemma plain_concurrency_fields [simp]: "list_all (\<lambda>e. plain (snd e)) (concurrency_fields x)"
  by (simp add: concurrency_fields_def)

lemma plain_overlap_proof_json [simp]: "plain (overlap_proof_json x)"
  by (cases x) simp_all

lemma plain_concurrency_proof_fields [simp]: "list_all (\<lambda>e. plain (snd e)) (concurrency_proof_fields x)"
  by (simp add: concurrency_proof_fields_def)

lemma plain_config_value_json [simp]: "plain (config_value_json x)"
  by (cases x) simp_all

lemma plain_configuration_json [simp]: "plain (configuration_json x)"
  by (simp add: configuration_json_def list_all_iff)

lemma plain_evidence_coverage_json [simp]: "plain (evidence_coverage_json x)"
  by (simp add: evidence_coverage_json_def)

lemma plain_analyzer_ref_json [simp]: "plain (analyzer_ref_json x)"
  by (simp add: analyzer_ref_json_def)

lemma plain_derived_fields [simp]: "list_all (\<lambda>e. plain (snd e)) (derived_fields x)"
  by (simp add: derived_fields_def)

lemma plain_source_analysis_json [simp]: "plain (source_analysis_json x)"
  by (simp add: source_analysis_json_def)

lemma plain_relationship_proof_json [simp]: "plain (relationship_proof_json x)"
  by (cases x) simp_all

lemma plain_evidence_proof_fields [simp]: "list_all (\<lambda>e. plain (snd e)) (evidence_proof_fields x)"
  by (simp add: evidence_proof_fields_def)

lemma plain_validity_transition_json [simp]: "plain (validity_transition_json x)"
  by (simp add: validity_transition_json_def)

lemma plain_validation_run_json [simp]: "plain (validation_run_json x)"
  by (simp add: validation_run_json_def)

lemma plain_validity_record_json [simp]: "plain (validity_record_json x)"
  by (simp add: validity_record_json_def list.pred_map comp_def list.pred_True)

lemma plain_validity_changed_json [simp]: "plain (validity_changed_json x)"
  by (simp add: validity_changed_json_def)

lemma plain_message_audience_json [simp]: "plain (message_audience_json x)"
  by (cases x) simp_all

lemma plain_message_sent_json [simp]: "plain (message_sent_json x)"
  by (simp add: message_sent_json_def)

lemma plain_message_delivered_json [simp]: "plain (message_delivered_json x)"
  by (simp add: message_delivered_json_def)

lemma plain_message_acknowledged_json [simp]: "plain (message_acknowledged_json x)"
  by (simp add: message_acknowledged_json_def)

lemma plain_role_claimed_json [simp]: "plain (role_claimed_json x)"
  by (simp add: role_claimed_json_def)

lemma plain_payload_json [simp]: "plain (payload_json p)"
  by (cases p) simp_all

lemma plain_event_json [simp]: "plain (event_json e)"
  by (simp add: event_json_def)

section \<open>Canonical text of an event\<close>

definition event_canonical :: "event \<Rightarrow> string" where
  "event_canonical e = canonicalJson_protocol (event_json e)"

definition event_digest :: "(string \<Rightarrow> string) \<Rightarrow> event \<Rightarrow> string" where
  "event_digest sha e = sha (event_canonical e)"

lemma canonicalDigest_event: "canonicalDigest sha (event_json e) = Inr (event_digest sha e)"
  by (simp add: canonicalDigest_def canonicalJson_def canonicalize_plain event_digest_def
      event_canonical_def)

end
