(* ===== verification/Validation.thy ===== *)
theory Validation
  imports Event_Json
begin

text \<open>
  Protocol validation: \<open>packages/protocol/src/validation.ts\<close> and \<open>diagnostics.ts\<close>.

  The source pushes diagnostics on a shared array; here every validator returns the diagnostics it
  would push, in the order it would push them, and the caller appends.  \<open>eventsById\<close> is the
  insertion-ordered map of the source (\<open>byId\<close>).  Two things come from outside the repository and
  are arguments: \<open>sha\<close>, the hexadecimal SHA-256 of a text, and \<open>lc\<close>, \<open>String.prototype.localeCompare\<close>.
  \<open>parseEvent\<close> also takes the compiled Ajv validators as \<open>ajv version value\<close>, the list of errors.
\<close>

section \<open>Diagnostics\<close>

record diagnostic =
  dg_code :: string
  dg_path :: string
  dg_message :: string

definition diagnostic :: "string \<Rightarrow> string \<Rightarrow> string \<Rightarrow> diagnostic" where
  "diagnostic code path message = \<lparr>dg_code = code, dg_path = path, dg_message = message\<rparr>"

definition diag_if :: "bool \<Rightarrow> diagnostic \<Rightarrow> diagnostic list" where
  "diag_if c d = (if c then [d] else [])"

lemma diag_if_Nil [diag_simps]: "diag_if c d = [] \<longleftrightarrow> \<not> c"
  by (simp add: diag_if_def)

definition sortDiagnostics :: "(string \<Rightarrow> string \<Rightarrow> int) \<Rightarrow> diagnostic list \<Rightarrow> diagnostic list" where
  "sortDiagnostics lc diagnostics = js_sort (\<lambda>left right.
     js_or (lc (dg_path left) (dg_path right))
       (js_or (lc (dg_code left) (dg_code right)) (lc (dg_message left) (dg_message right)))) diagnostics"

abbreviation P0_invalid :: string where "P0_invalid \<equiv> ''PHASE0_SCHEMA_INVALID''"
abbreviation P0_missing :: string where "P0_missing \<equiv> ''PHASE0_REFERENCE_MISSING''"
abbreviation P2_invalid :: string where "P2_invalid \<equiv> ''PHASE2_SCHEMA_INVALID''"
abbreviation P2_missing :: string where "P2_missing \<equiv> ''PHASE2_REFERENCE_MISSING''"
abbreviation P3_invalid :: string where "P3_invalid \<equiv> ''PHASE3_SCHEMA_INVALID''"
abbreviation P3_missing :: string where "P3_missing \<equiv> ''PHASE3_REFERENCE_MISSING''"

definition ev_path :: "event \<Rightarrow> string \<Rightarrow> string" where
  "ev_path e suffix = ''/events/'' @ eventId e @ suffix"

section \<open>Parsing one event\<close>

record ajv_error =
  ae_keyword :: string
  ae_instancePath :: string
  ae_missingProperty :: string

definition ajvDiagnostic :: "ajv_error \<Rightarrow> diagnostic" where
  "ajvDiagnostic error =
     (let path = (if ae_keyword error = ''required''
                  then ae_instancePath error @ ''/'' @ ae_missingProperty error
                  else if ae_instancePath error \<noteq> [] then ae_instancePath error else ''/'')
      in diagnostic P0_invalid path (''schema validation failed ('' @ ae_keyword error @ '')''))"

fun record_entries :: "jsval \<Rightarrow> (string \<times> jsval) list option" where
  "record_entries (JObj es) = Some es"
| "record_entries (JExotic es) = Some es"
| "record_entries _ = None"

definition parseEvent ::
    "(string \<Rightarrow> string \<Rightarrow> int) \<Rightarrow> (nat \<Rightarrow> jsval \<Rightarrow> ajv_error list) \<Rightarrow> jsval \<Rightarrow> diagnostic list + jsval" where
  "parseEvent lc ajv input =
     (case record_entries input of
        None \<Rightarrow> Inl [diagnostic P0_invalid ''/'' ''event must be an object'']
      | Some es \<Rightarrow>
          let version = map_of es ''schemaVersion''
          in if version \<noteq> None \<and> version \<notin> {Some (JNum 1), Some (JNum 2), Some (JNum 3)}
             then Inl [diagnostic ''PHASE0_SCHEMA_UNSUPPORTED'' ''/schemaVersion''
                         ''schema version is unsupported'']
             else
               let errors = ajv (if version = Some (JNum 3) then 3
                                 else if version = Some (JNum 2) then 2 else 1) input
               in if errors \<noteq> [] then Inl (sortDiagnostics lc (map ajvDiagnostic errors))
                  else Inr input)"

section \<open>Domains and digests\<close>

definition producerKey :: "source \<Rightarrow> string" where
  "producerKey s = source_kind_str (sr_kind s) @ '':'' @ sr_sourceId s @ '':'' @ sr_instanceId s"

definition sameDomain :: "event \<Rightarrow> event \<Rightarrow> bool" where
  "sameDomain left right \<longleftrightarrow> repositoryId left = repositoryId right
     \<and> workspaceId left = workspaceId right \<and> worktreeId left = worktreeId right"

definition sameRepositoryWorkspace :: "event \<Rightarrow> event \<Rightarrow> bool" where
  "sameRepositoryWorkspace left right \<longleftrightarrow>
     repositoryId left = repositoryId right \<and> workspaceId left = workspaceId right"

definition sameVersionDomain :: "event \<Rightarrow> resource_version \<Rightarrow> bool" where
  "sameVersionDomain e v \<longleftrightarrow> repositoryId e = vd_repositoryId (rv_domain v)
     \<and> workspaceId e = vd_workspaceId (rv_domain v) \<and> worktreeId e = vd_worktreeId (rv_domain v)"

definition configurationDigest ::
    "(string \<Rightarrow> string) \<Rightarrow> (string \<Rightarrow> string \<Rightarrow> int) \<Rightarrow> (string \<times> config_value) list \<Rightarrow> string" where
  "configurationDigest sha lc configuration = ''sha256:'' @ sha (json_stringify (JObj
     (js_sort (\<lambda>l r. lc (fst l) (fst r))
        (map (\<lambda>e. (fst e, config_value_json (snd e))) (own_entries configuration)))))"

definition sha256 :: "(string \<Rightarrow> string) \<Rightarrow> jsval \<Rightarrow> string" where
  "sha256 sha v = ''sha256:'' @ sha (canonicalJson_protocol v)"

definition snapshot_digest :: "(string \<Rightarrow> string) \<Rightarrow> target_snapshot \<Rightarrow> string" where
  "snapshot_digest sha t = sha (canonicalJson_protocol (JObj
     [(''integrationTargetId'', JStr (ts_integrationTargetId t)),
      (''repositoryId'', JStr (ts_repositoryId t)),
      (''kind'', JStr (integration_target_kind_str (ts_kind t))),
      (''locator'', JStr (ts_locator t)),
      (''baseCommit'', JStr (ts_baseCommit t)),
      (''candidateIds'', j_strs (ts_candidateIds t))]))"

definition validateTargetSnapshot ::
    "(string \<Rightarrow> string) \<Rightarrow> target_snapshot \<Rightarrow> string \<Rightarrow> string \<Rightarrow> diagnostic list" where
  "validateTargetSnapshot sha snapshot repository path =
     (let digest = snapshot_digest sha snapshot
      in diag_if (ts_repositoryId snapshot \<noteq> repository)
           (diagnostic P3_invalid (path @ ''/repositoryId'') ''target snapshot crosses event repository'')
         @ diag_if (ts_digest snapshot \<noteq> digest \<or> ts_targetSnapshotId snapshot \<noteq> ''snapshot_'' @ digest)
           (diagnostic P3_invalid (path @ ''/digest'') ''target snapshot digest is invalid''))"

definition token_digest :: "(string \<Rightarrow> string) \<Rightarrow> observed_read_token \<Rightarrow> string" where
  "token_digest sha t = sha256 sha (JObj
     [(''schemaVersion'', JNum (of_nat (rt_schemaVersion t))),
      (''repositoryId'', JStr (rt_repositoryId t)), (''workspaceId'', JStr (rt_workspaceId t)),
      (''worktreeId'', JStr (rt_worktreeId t)), (''taskId'', JStr (rt_taskId t)),
      (''resourceId'', JStr (rt_resourceId t)),
      (''observedVersion'', resource_version_json (rt_observedVersion t)),
      (''readEventId'', JStr (rt_readEventId t)),
      (''targetSnapshot'', target_snapshot_json (rt_targetSnapshot t))])"

definition analysis_digest :: "(string \<Rightarrow> string) \<Rightarrow> source_analysis \<Rightarrow> string" where
  "analysis_digest sha a = sha256 sha (JObj
     [(''sourceResourceId'', JStr (sa_sourceResourceId a)),
      (''sourceVersion'', resource_version_json (sa_sourceVersion a))])"

abbreviation version_text :: "resource_version \<Rightarrow> string" where
  "version_text v \<equiv> canonicalJson_protocol (resource_version_json v)"

abbreviation snapshot_text :: "target_snapshot \<Rightarrow> string" where
  "snapshot_text t \<equiv> canonicalJson_protocol (target_snapshot_json t)"

type_synonym events_by_id = "(string, event) js_map"

abbreviation read_of :: "event option \<Rightarrow> resource_observed option" where
  "read_of ev \<equiv> Option.bind ev (\<lambda>e. payload_read (payload e))"

abbreviation changed_of :: "event option \<Rightarrow> resource_changed option" where
  "changed_of ev \<equiv> Option.bind ev (\<lambda>e. payload_changed (payload e))"

abbreviation symbol_changed_of :: "event option \<Rightarrow> resource_changed option" where
  "symbol_changed_of ev \<equiv> Option.bind ev (\<lambda>e. payload_symbol_changed (payload e))"

section \<open>Proof-bearing events (schema version 3)\<close>

definition validateProofDependentWrite :: "(string \<Rightarrow> string) \<Rightarrow> event \<Rightarrow> events_by_id \<Rightarrow> diagnostic list" where
  "validateProofDependentWrite sha e byId =
     (case payload e of
        WriteDependentV3 l cmp p \<Rightarrow>
          let path = ev_path e ''/payload/write'';
              token = wp_readToken p;
              snapshot = wp_targetSnapshot p;
              read = map_get byId (rt_readEventId token);
              effect = map_get byId (wp_writeEffectEventId p);
              completion = map_get byId (wp_completionEventId p)
          in validateTargetSnapshot sha snapshot (repositoryId e) (path @ ''/targetSnapshot'')
             @ validateTargetSnapshot sha (rt_targetSnapshot token) (repositoryId e)
                 (path @ ''/readToken/targetSnapshot'')
             @ diag_if (rt_tokenDigest token \<noteq> token_digest sha token)
                 (diagnostic P3_invalid (path @ ''/readToken/tokenDigest'')
                    ''observed-read token digest is invalid'')
             @ diag_if (rt_readEventId token \<noteq> wl_dependsOnReadEventId l
                   \<or> Some (rt_taskId token) \<noteq> taskId e
                   \<or> rt_repositoryId token \<noteq> repositoryId e
                   \<or> rt_workspaceId token \<noteq> workspaceId e
                   \<or> rt_worktreeId token \<noteq> worktreeId e
                   \<or> snapshot_text (rt_targetSnapshot token) \<noteq> snapshot_text snapshot)
                 (diagnostic P3_invalid (path @ ''/readToken'')
                    ''observed-read token does not bind this dependent write'')
             @ (case read_of read of
                  None \<Rightarrow> []
                | Some r \<Rightarrow>
                    diag_if (rt_resourceId token \<noteq> lr_resourceId (ro_resource r)
                        \<or> version_text (rt_observedVersion token) \<noteq> version_text (ro_version r))
                      (diagnostic P3_invalid (path @ ''/readToken'')
                         ''observed-read token does not match the persisted read''))
             @ (case effect of
                  None \<Rightarrow> [diagnostic P3_missing (path @ ''/writeEffectEventId'')
                             ''dependent write effect event is absent'']
                | Some ef \<Rightarrow>
                    diag_if ((case payload_file_changed (payload ef) of
                                None \<Rightarrow> True
                              | Some c \<Rightarrow> lr_resourceId (rc_resource c) \<noteq> wl_resourceId l)
                        \<or> \<not> sameDomain e ef \<or> taskId ef \<noteq> taskId e
                        \<or> wp_writeEffectCoverageId p \<noteq> wl_coverageId l)
                      (diagnostic P3_invalid (path @ ''/writeEffectEventId'')
                         ''dependent write effect must be a matching sufficiently covered file change''))
             @ (case completion of
                  None \<Rightarrow> [diagnostic P3_missing (path @ ''/completionEventId'')
                             ''dependent write completion is absent'']
                | Some co \<Rightarrow>
                    diag_if ((case payload_completed (payload co) of
                                None \<Rightarrow> True
                              | Some c \<Rightarrow> tc_outcome c \<noteq> Succeeded
                                  \<or> (case tc_deterministicallyAttributedEffectEventIds c of
                                       None \<Rightarrow> True
                                     | Some ids \<Rightarrow> wp_writeEffectEventId p \<notin> set ids))
                        \<or> \<not> sameDomain e co \<or> taskId co \<noteq> taskId e
                        \<or> correlationId co \<noteq> correlationId e)
                      (diagnostic P3_invalid (path @ ''/completionEventId'')
                         ''dependent write requires a succeeded completion with a deterministically attributed persisted effect''))
             @ diag_if (wc_integrationTarget cmp \<noteq> ts_integrationTargetId snapshot)
                 (diagnostic P3_invalid (path @ ''/comparison/integrationTarget'')
                    ''dependent write comparison target does not match its target snapshot'')
      | _ \<Rightarrow> [])"

definition validate_window ::
    "events_by_id \<Rightarrow> string \<Rightarrow> string \<Rightarrow> string \<Rightarrow> string \<Rightarrow> event option \<Rightarrow> diagnostic list" where
  "validate_window byId path requestId completionId task change =
     diag_if (case (map_get byId requestId, map_get byId completionId, change) of
         (Some rq, Some co, Some ch) \<Rightarrow>
           payload_requested (payload rq) = None
           \<or> payload_symbol_changed (payload ch) = None
           \<or> (case payload_completed (payload co) of
                None \<Rightarrow> True
              | Some c \<Rightarrow> tc_requestEventId c \<noteq> requestId \<or> eventId ch \<notin> set (tc_effectEventIds c))
           \<or> taskId rq \<noteq> Some task \<or> taskId co \<noteq> Some task
           \<or> \<not> sameDomain rq ch \<or> \<not> sameDomain co ch
       | _ \<Rightarrow> True)
       (diagnostic P3_invalid (path @ ''/overlapProof'')
          ''executor window witness must bind each tool window and effect to its symbol change'')"

definition validateProofConcurrency :: "(string \<Rightarrow> string) \<Rightarrow> event \<Rightarrow> events_by_id \<Rightarrow> diagnostic list" where
  "validateProofConcurrency sha e byId =
     (case payload e of
        TaskConcurrencyV3 ob p \<Rightarrow>
          let path = ev_path e ''/payload/observation'';
              first = map_get byId (co_firstChangeEventId ob);
              second = map_get byId (co_secondChangeEventId ob)
          in validateTargetSnapshot sha (cp_targetSnapshot p) (repositoryId e) (path @ ''/targetSnapshot'')
             @ diag_if (cp_firstAgentId p = cp_secondAgentId p \<or> co_firstTaskId ob = co_secondTaskId ob
                   \<or> cp_firstWorktreeId p = cp_secondWorktreeId p)
                 (diagnostic P3_invalid path
                    ''concurrency proof requires distinct agents, tasks, and worktrees'')
             @ diag_if (co_integrationTarget ob \<noteq> ts_integrationTargetId (cp_targetSnapshot p))
                 (diagnostic P3_invalid (path @ ''/integrationTarget'')
                    ''concurrency target does not match its target snapshot'')
             @ (case (first, second) of
                  (Some f, Some s) \<Rightarrow>
                    (case (payload_symbol_changed (payload f), payload_symbol_changed (payload s)) of
                       (Some fc, Some sc) \<Rightarrow>
                         diag_if (repositoryId f \<noteq> repositoryId e \<or> repositoryId s \<noteq> repositoryId e
                             \<or> agentId f \<noteq> Some (cp_firstAgentId p) \<or> agentId s \<noteq> Some (cp_secondAgentId p)
                             \<or> taskId f \<noteq> Some (co_firstTaskId ob) \<or> taskId s \<noteq> Some (co_secondTaskId ob)
                             \<or> worktreeId f \<noteq> cp_firstWorktreeId p \<or> worktreeId s \<noteq> cp_secondWorktreeId p
                             \<or> lr_resourceId (rc_resource fc) \<noteq> lr_resourceId (rc_resource sc))
                           (diagnostic P3_invalid path
                              ''concurrency proof changes do not identify the declared same-symbol participants'')
                     | _ \<Rightarrow> [])
                | _ \<Rightarrow> [])
             @ (case cp_overlapProof p of
                  Executor_owned_tool_windows w \<Rightarrow>
                    validate_window byId path (tw_firstRequestEventId w) (tw_firstCompletionEventId w)
                      (co_firstTaskId ob) first
                    @ validate_window byId path (tw_secondRequestEventId w) (tw_secondCompletionEventId w)
                      (co_secondTaskId ob) second
                | Authoritative_task_lifetimes a b \<Rightarrow>
                    diag_if (a = b)
                      (diagnostic P3_invalid (path @ ''/overlapProof'')
                         ''task lifetime witness must identify two distinct lifecycles''))
      | _ \<Rightarrow> [])"

definition validateProofDerivedEvidence :: "(string \<Rightarrow> string) \<Rightarrow> event \<Rightarrow> events_by_id \<Rightarrow> diagnostic list" where
  "validateProofDerivedEvidence sha e byId =
     (case payload e of
        EvidenceDerivedV3 d p \<Rightarrow>
          let path = ev_path e ''/payload/evidence'';
              analysis = sourceAnalysis (ep_proof p);
              src = map_get byId (sa_sourceEventId analysis);
              binding = (\<lambda>resource version.
                diag_if (lr_resourceId resource \<noteq> sa_sourceResourceId analysis
                    \<or> version_text version \<noteq> version_text (sa_sourceVersion analysis))
                  (diagnostic P3_invalid (path @ ''/proof/sourceAnalysis'')
                     ''analysis binding does not match its persisted source event''))
          in validateTargetSnapshot sha (ep_targetSnapshot p) (repositoryId e) (path @ ''/targetSnapshot'')
             @ diag_if (ev_integrationTarget d \<noteq> ts_integrationTargetId (ep_targetSnapshot p))
                 (diagnostic P3_invalid (path @ ''/integrationTarget'')
                    ''derived evidence target does not match its target snapshot'')
             @ diag_if ((ev_factKind d = FK_symbol) \<noteq> is_symbol_contract (ep_proof p))
                 (diagnostic P3_invalid (path @ ''/proof/kind'')
                    ''derived evidence proof kind does not match fact kind'')
             @ diag_if (sa_sourceEventId analysis \<notin> set (ev_sourceEventIds d))
                 (diagnostic P3_invalid (path @ ''/proof/sourceAnalysis/sourceEventId'')
                    ''proof source must be declared in sourceEventIds'')
             @ (case src of
                  None \<Rightarrow> [diagnostic P3_missing (path @ ''/proof/sourceAnalysis/sourceEventId'')
                             ''analysis source event is absent'']
                | Some s \<Rightarrow>
                    (case payload_read (payload s) of
                       Some r \<Rightarrow> binding (ro_resource r) (ro_version r)
                     | None \<Rightarrow>
                         (case payload_changed (payload s) of
                            Some c \<Rightarrow> binding (rc_resource c) (rc_afterVersion c)
                          | None \<Rightarrow> [diagnostic P3_invalid (path @ ''/proof/sourceAnalysis/sourceEventId'')
                                      ''analysis source must be a persisted resource observation''])))
             @ diag_if (sa_analysisInputDigest analysis \<noteq> analysis_digest sha analysis)
                 (diagnostic P3_invalid (path @ ''/proof/sourceAnalysis/analysisInputDigest'')
                    ''analysis input digest is invalid'')
             @ (case ep_proof p of
                  Hash_bound_symbol_contract a \<Rightarrow> []
                | Resolver_confirmed_consumer_dependency a r \<Rightarrow>
                    diag_if (case Option.bind (map_get byId (ev_targetEventId d))
                                   (\<lambda>t. payload_dependency (payload t)) of
                        None \<Rightarrow> True
                      | Some dep \<Rightarrow> rp_dependencyId r \<noteq> dp_dependencyId dep
                          \<or> rp_consumerResourceId r \<noteq> dp_dependentResourceId dep
                          \<or> rp_contractResourceId r \<noteq> dp_dependencyResourceId dep)
                      (diagnostic P3_invalid (path @ ''/proof'')
                         ''resolver proof does not match its target dependency''))
      | _ \<Rightarrow> [])"

section \<open>Observed events\<close>

definition validate_effect :: "event \<Rightarrow> tool_completed \<Rightarrow> events_by_id \<Rightarrow> string \<Rightarrow> diagnostic list" where
  "validate_effect e p byId effectEventId =
     (let path = ev_path e ''/payload/deterministicallyAttributedEffectEventIds''
      in if tc_outcome p \<noteq> Succeeded
         then [diagnostic P0_invalid path
                 ''deterministically attributed effects require a succeeded tool completion'']
         else if effectEventId \<notin> set (tc_effectEventIds p)
         then [diagnostic P0_invalid path
                 ''deterministically attributed effect must be declared in effectEventIds'']
         else case map_get byId effectEventId of
             None \<Rightarrow> [diagnostic P0_missing path
                        ''deterministically attributed effect event is absent'']
           | Some effect \<Rightarrow>
               if eventType effect \<noteq> ET_file_changed \<or> sr_kind (source effect) \<noteq> Watcher
               then [diagnostic P0_invalid path
                       ''deterministically attributed effect must be a watcher file.changed event'']
               else diag_if (\<not> sameDomain e effect \<or> correlationId e \<noteq> correlationId effect
                        \<or> agentId e \<noteq> agentId effect \<or> taskId e \<noteq> taskId effect)
                      (diagnostic P0_invalid path
                         ''deterministically attributed effect does not match completion attribution''))"

definition validateToolCompletion :: "event \<Rightarrow> events_by_id \<Rightarrow> diagnostic list" where
  "validateToolCompletion e byId =
     (case payload_completed (payload e) of
        None \<Rightarrow> []
      | Some p \<Rightarrow>
          (let path = ev_path e ''/payload/requestEventId''
           in case map_get byId (tc_requestEventId p) of
                None \<Rightarrow> [diagnostic P0_missing path ''referenced request event is absent'']
              | Some request \<Rightarrow>
                  diag_if (eventType request \<noteq> ET_tool_requested)
                    (diagnostic P0_invalid path ''tool completion request must be a tool.requested event'')
                  @ diag_if (\<not> sameDomain e request \<or> correlationId e \<noteq> correlationId request)
                    (diagnostic P0_invalid path ''tool completion does not match its request domain'')
                  @ diag_if (causationId e \<noteq> Some (tc_requestEventId p)
                       \<and> (case causationId e of None \<Rightarrow> True | Some c \<Rightarrow> c \<notin> set (tc_effectEventIds p)))
                    (diagnostic P0_invalid (ev_path e ''/causationId'')
                       ''tool completion must be caused by its request or declared effect'')
                  @ concat (map (validate_effect e p byId)
                      (case tc_deterministicallyAttributedEffectEventIds p of None \<Rightarrow> [] | Some ids \<Rightarrow> ids))))"

definition validateAttributionCorrection :: "event \<Rightarrow> events_by_id \<Rightarrow> diagnostic list" where
  "validateAttributionCorrection e byId =
     (case payload_correction (payload e) of
        None \<Rightarrow> []
      | Some p \<Rightarrow>
          (let path = ev_path e ''/payload/targetEventId''
           in (case map_get byId (ac_targetEventId p) of
                 None \<Rightarrow> [diagnostic P0_missing path ''attribution target is absent'']
               | Some target \<Rightarrow>
                   if \<not> sameDomain e target \<or> correlationId e \<noteq> correlationId target
                   then [diagnostic P0_invalid path
                           ''attribution target crosses repository, domain, or correlation'']
                   else diag_if (schemaVersion target = 3
                            \<and> (ac_attributedAgentId p \<noteq> agentId target \<or> ac_attributedTaskId p \<noteq> taskId target))
                          (diagnostic P0_invalid path
                             ''attribution corrections cannot alter immutable V3 proof identities''))
              @ diag_if (ac_attributedAgentId p = None \<and> ac_attributedTaskId p = None)
                  (diagnostic P0_invalid (ev_path e ''/payload'')
                     ''attribution correction must supply an identity'')))"

definition validateResourcePayload :: "event \<Rightarrow> diagnostic list" where
  "validateResourcePayload e =
     (case payload_read (payload e) of
        None \<Rightarrow> []
      | Some p \<Rightarrow>
          diag_if (lr_repositoryId (ro_resource p) \<noteq> repositoryId e)
            (diagnostic P0_invalid (ev_path e ''/payload/resource/repositoryId'')
               ''logical resource crosses event repository'')
          @ diag_if (lr_resourceId (ro_resource p) \<noteq> rv_resourceId (ro_version p)
                \<or> \<not> sameVersionDomain e (ro_version p))
            (diagnostic P0_invalid (ev_path e ''/payload/version'')
               ''observed version does not match its event domain or resource''))
     @ (case payload_changed (payload e) of
          None \<Rightarrow> []
        | Some p \<Rightarrow>
            diag_if (lr_repositoryId (rc_resource p) \<noteq> repositoryId e)
              (diagnostic P0_invalid (ev_path e ''/payload/resource/repositoryId'')
                 ''logical resource crosses event repository'')
            @ concat (map (\<lambda>version. diag_if (rv_resourceId version \<noteq> lr_resourceId (rc_resource p)
                                            \<or> \<not> sameVersionDomain e version)
                             (diagnostic P0_invalid (ev_path e ''/payload'')
                                ''changed version does not match its event domain or resource''))
                 ((case rc_beforeVersion p of None \<Rightarrow> [] | Some v \<Rightarrow> [v]) @ [rc_afterVersion p])))"

definition validateFindingFeedback :: "event \<Rightarrow> events_by_id \<Rightarrow> diagnostic list" where
  "validateFindingFeedback e byId =
     (case payload_feedback (payload e) of
        None \<Rightarrow> []
      | Some feedback \<Rightarrow>
          (let path = ev_path e ''/payload/feedback'';
               foreign = (\<lambda>other. \<not> sameDomain e other \<or> correlationId e \<noteq> correlationId other)
           in (case find (\<lambda>candidate. case payload_finding (payload candidate) of
                            None \<Rightarrow> False | Some f \<Rightarrow> fi_findingId f = ff_findingId feedback) (map_values byId) of
                 None \<Rightarrow> [diagnostic P2_missing (path @ ''/findingId'') ''feedback finding is absent'']
               | Some finding \<Rightarrow>
                   diag_if (foreign finding)
                     (diagnostic P2_invalid (path @ ''/findingId'')
                        ''feedback finding crosses repository, domain, or correlation''))
              @ (case ff_decisionId feedback of
                   None \<Rightarrow> []
                 | Some did \<Rightarrow>
                     (case find (\<lambda>candidate. case payload_decision (payload candidate) of
                                   None \<Rightarrow> False | Some d \<Rightarrow> dc_decisionId d = did) (map_values byId) of
                        None \<Rightarrow> [diagnostic P2_missing (path @ ''/decisionId'') ''feedback decision is absent'']
                      | Some de \<Rightarrow>
                          diag_if (case payload_decision (payload de) of
                                     None \<Rightarrow> False | Some d \<Rightarrow> dc_findingId d \<noteq> ff_findingId feedback)
                            (diagnostic P2_invalid (path @ ''/decisionId'')
                               ''feedback decision does not belong to its finding'')
                          @ diag_if (foreign de)
                            (diagnostic P2_invalid (path @ ''/decisionId'')
                               ''feedback decision crosses repository, domain, or correlation'')))
              @ diag_if (agentId e \<noteq> dt_agentId (ff_actor feedback) \<or> taskId e \<noteq> dt_taskId (ff_actor feedback))
                  (diagnostic P2_invalid (path @ ''/actor'') ''feedback actor must match envelope attribution'')
              @ concat (map (\<lambda>id. case map_get byId id of
                    None \<Rightarrow> [diagnostic P2_missing (path @ ''/evidenceEventIds'') ''feedback evidence event is absent'']
                  | Some evidence \<Rightarrow>
                      diag_if (foreign evidence)
                        (diagnostic P2_invalid (path @ ''/evidenceEventIds'')
                           ''feedback evidence crosses repository, domain, or correlation''))
                  (ff_evidenceEventIds feedback))))"

section \<open>Relationship events\<close>

definition validate_write_read :: "event \<Rightarrow> write_link \<Rightarrow> events_by_id \<Rightarrow> diagnostic list" where
  "validate_write_read e write byId =
     (let path = ev_path e ''/payload/write/dependsOnReadEventId''
      in case map_get byId (wl_dependsOnReadEventId write) of
           None \<Rightarrow> [diagnostic P2_missing path ''dependent write read event is absent'']
         | Some read \<Rightarrow>
             if payload_read (payload read) = None
             then [diagnostic P2_invalid path ''dependent write must reference a resource read'']
             else diag_if (\<not> sameDomain e read)
                    (diagnostic P2_invalid path ''dependent write read crosses repository or domain'')
                  @ diag_if (taskId e = None \<or> taskId read \<noteq> taskId e)
                    (diagnostic P2_invalid (ev_path e ''/taskId'')
                       ''dependent write and read must have the same task attribution''))"

definition find_dependency :: "events_by_id \<Rightarrow> string \<Rightarrow> (event \<times> dependency) option" where
  "find_dependency byId dependencyId =
     (case find (\<lambda>candidate. case payload_dependency (payload candidate) of
                   None \<Rightarrow> False | Some d \<Rightarrow> dp_dependencyId d = dependencyId) (map_values byId) of
        None \<Rightarrow> None
      | Some candidate \<Rightarrow> map_option (Pair candidate) (payload_dependency (payload candidate)))"

definition validate_write_dependency :: "event \<Rightarrow> write_link \<Rightarrow> events_by_id \<Rightarrow> diagnostic list" where
  "validate_write_dependency e write byId =
     (case find_dependency byId (wl_dependencyId write) of
        None \<Rightarrow> [diagnostic P2_missing (ev_path e ''/payload/write/dependencyId'')
                   ''dependent write dependency is absent'']
      | Some (de, d) \<Rightarrow>
          diag_if (\<not> sameDomain e de)
            (diagnostic P2_invalid (ev_path e ''/payload/write/dependencyId'')
               ''dependent write dependency crosses repository or domain'')
          @ diag_if (dp_dependentResourceId d \<noteq> wl_resourceId write)
            (diagnostic P2_invalid (ev_path e ''/payload/write/resourceId'')
               ''dependent write resource does not match its dependency'')
          @ (case read_of (map_get byId (wl_dependsOnReadEventId write)) of
               None \<Rightarrow> []
             | Some r \<Rightarrow>
                 diag_if (dp_dependencyResourceId d \<noteq> lr_resourceId (ro_resource r))
                   (diagnostic P2_invalid (ev_path e ''/payload/write/dependsOnReadEventId'')
                      ''dependent write read resource does not match its dependency'')))"

definition validate_write_cause :: "event \<Rightarrow> write_link \<Rightarrow> events_by_id \<Rightarrow> diagnostic list" where
  "validate_write_cause e write byId =
     (case Option.bind (causationId e) (map_get byId) of
        None \<Rightarrow> [diagnostic P2_missing (ev_path e ''/causationId'')
                   ''dependent write must be caused by its changed resource event'']
      | Some changed \<Rightarrow>
          (case payload_changed (payload changed) of
             None \<Rightarrow> [diagnostic P2_invalid (ev_path e ''/causationId'')
                        ''dependent write causation must reference a changed resource'']
           | Some c \<Rightarrow>
               diag_if (lr_resourceId (rc_resource c) \<noteq> wl_resourceId write)
                 (diagnostic P2_invalid (ev_path e ''/payload/write/resourceId'')
                    ''dependent write resource does not match its changed resource event'')
               @ diag_if (\<not> sameDomain e changed \<or> correlationId e \<noteq> correlationId changed
                     \<or> taskId changed \<noteq> taskId e)
                 (diagnostic P2_invalid (ev_path e ''/causationId'')
                    ''dependent write changed resource crosses repository, domain, correlation, or task'')))"

definition sufficient_symbol_evidence :: "events_by_id \<Rightarrow> string \<Rightarrow> derived_evidence list" where
  "sufficient_symbol_evidence byId targetEventId =
     filter (\<lambda>d. ev_targetEventId d = targetEventId \<and> ev_factKind d = FK_symbol
               \<and> ec_status (ev_coverage d) = CS_sufficient)
       (List.map_filter (\<lambda>candidate. payload_derived (payload candidate)) (map_values byId))"

definition validate_write_comparison ::
    "event \<Rightarrow> write_link \<Rightarrow> write_comparison \<Rightarrow> events_by_id \<Rightarrow> diagnostic list" where
  "validate_write_comparison e write comparison byId =
     (let path = ev_path e ''/payload/write/comparison''
      in case map_get byId (wc_changedEventId comparison) of
           None \<Rightarrow> [diagnostic P2_missing (path @ ''/changedEventId'')
                      ''dependent write comparison change is absent'']
         | Some changed \<Rightarrow>
             (case payload_changed (payload changed) of
                None \<Rightarrow> [diagnostic P2_invalid (path @ ''/changedEventId'')
                           ''dependent write comparison must reference a changed resource'']
              | Some c \<Rightarrow>
                  diag_if (\<not> sameRepositoryWorkspace e changed
                      \<or> (case read_of (map_get byId (wl_dependsOnReadEventId write)) of
                           None \<Rightarrow> False
                         | Some r \<Rightarrow> lr_resourceId (rc_resource c) \<noteq> lr_resourceId (ro_resource r)
                             \<or> rv_resourceId (rc_afterVersion c) \<noteq> rv_resourceId (ro_version r)))
                    (diagnostic P2_invalid (path @ ''/changedEventId'')
                       ''dependent write comparison does not match the read resource or domain'')
                  @ (if eventType changed = ET_symbol_changed
                     then diag_if (case sufficient_symbol_evidence byId (eventId changed) of
                              [d] \<Rightarrow> ev_integrationTarget d \<noteq> wc_integrationTarget comparison
                            | _ \<Rightarrow> True)
                          (diagnostic P2_invalid (path @ ''/integrationTarget'')
                             ''dependent write comparison integration target does not match sufficient symbol evidence'')
                     else [])))"

definition validateDependentWrite :: "event \<Rightarrow> events_by_id \<Rightarrow> diagnostic list" where
  "validateDependentWrite e byId =
     (case payload_write (payload e) of
        None \<Rightarrow> []
      | Some (write, comparison) \<Rightarrow>
          validate_write_read e write byId
          @ validate_write_dependency e write byId
          @ validate_write_cause e write byId
          @ (case comparison of
               None \<Rightarrow> [] | Some cmp \<Rightarrow> validate_write_comparison e write cmp byId))"

definition validate_concurrent_change ::
    "event \<Rightarrow> string \<Rightarrow> string \<Rightarrow> events_by_id \<Rightarrow> string \<Rightarrow> diagnostic list" where
  "validate_concurrent_change e changeId task byId name =
     (let path = ev_path e ''/payload/observation'' @ ''/'' @ name @ ''ChangeEventId''
      in case map_get byId changeId of
           None \<Rightarrow> [diagnostic P2_missing path ''concurrency change event is absent'']
         | Some change \<Rightarrow>
             if eventType change \<noteq> ET_symbol_changed
             then [diagnostic P2_invalid path ''concurrency observation must reference a symbol change'']
             else diag_if ((if schemaVersion e = 2 then \<not> sameRepositoryWorkspace e change
                            else repositoryId e \<noteq> repositoryId change) \<or> taskId change \<noteq> Some task)
                    (diagnostic (if schemaVersion e = 2 then P2_invalid else P3_invalid) path
                       ''concurrency change does not match its task or repository''))"

definition validateTaskConcurrencyObservation :: "event \<Rightarrow> events_by_id \<Rightarrow> diagnostic list" where
  "validateTaskConcurrencyObservation e byId =
     (case payload_concurrency (payload e) of
        None \<Rightarrow> []
      | Some ob \<Rightarrow>
          (let path = ev_path e ''/payload/observation''
           in diag_if (sr_kind (source e) \<noteq> Gateway \<and> sr_kind (source e) \<noteq> Adapter)
                (diagnostic P2_invalid (ev_path e ''/source'')
                   ''concurrency observation must be emitted by an adapter or gateway'')
              @ diag_if (co_firstTaskId ob = co_secondTaskId ob)
                (diagnostic P2_invalid path ''concurrency observation must identify two distinct tasks'')
              @ validate_concurrent_change e (co_firstChangeEventId ob) (co_firstTaskId ob) byId ''first''
              @ validate_concurrent_change e (co_secondChangeEventId ob) (co_secondTaskId ob) byId ''second''
              @ diag_if (case (map_get byId (co_firstChangeEventId ob), map_get byId (co_secondChangeEventId ob)) of
                    (Some f, Some s) \<Rightarrow> eventType f = ET_symbol_changed \<and> eventType s = ET_symbol_changed
                      \<and> worktreeId f = worktreeId s
                  | _ \<Rightarrow> False)
                (diagnostic P2_invalid path ''concurrency observation must reference distinct worktrees'')))"

fun expected_fact_id :: "payload \<Rightarrow> string option" where
  "expected_fact_id (SymbolChanged c) = Some (lr_resourceId (rc_resource c))"
| "expected_fact_id (DependencyChanged d) = Some (dp_dependencyId d)"
| "expected_fact_id _ = None"

definition validateDerivedEvidence ::
    "(string \<Rightarrow> string) \<Rightarrow> (string \<Rightarrow> string \<Rightarrow> int) \<Rightarrow> event \<Rightarrow> events_by_id \<Rightarrow> diagnostic list" where
  "validateDerivedEvidence sha lc e byId =
     (case payload_derived (payload e) of
        None \<Rightarrow> []
      | Some evidence \<Rightarrow>
          (let path = ev_path e ''/payload/evidence''
           in diag_if (sr_kind (source e) \<noteq> Analyzer)
                (diagnostic P2_invalid (path @ ''/analyzer'')
                   ''derived evidence must be emitted by an analyzer source'')
              @ diag_if (configurationDigest sha lc (ev_configuration evidence)
                         \<noteq> ev_configurationDigest evidence)
                (diagnostic P2_invalid (path @ ''/configurationDigest'')
                   ''derived evidence configuration digest does not match configuration'')
              @ (case map_get byId (ev_targetEventId evidence) of
                   None \<Rightarrow> [diagnostic P2_missing (path @ ''/targetEventId'')
                              ''derived evidence target event is absent'']
                 | Some target \<Rightarrow>
                     diag_if (eventType target \<noteq> (if ev_factKind evidence = FK_symbol
                                 then ET_symbol_changed else ET_dependency_changed))
                       (diagnostic P2_invalid (path @ ''/targetEventId'')
                          ''derived evidence target type does not match fact kind'')
                     @ diag_if (\<not> sameDomain e target \<or> correlationId e \<noteq> correlationId target
                           \<or> causationId e \<noteq> Some (eventId target))
                       (diagnostic P2_invalid (path @ ''/targetEventId'')
                          ''derived evidence target does not match its causal domain'')
                     @ diag_if (expected_fact_id (payload target) \<noteq> Some (ev_stableFactId evidence))
                       (diagnostic P2_invalid (path @ ''/stableFactId'')
                          ''derived evidence fact ID does not match its target''))
              @ concat (map (\<lambda>id. case map_get byId id of
                    None \<Rightarrow> [diagnostic P2_missing (path @ ''/sourceEventIds'')
                               ''derived evidence source event is absent'']
                  | Some src \<Rightarrow> diag_if (\<not> sameRepositoryWorkspace e src)
                      (diagnostic P2_invalid (path @ ''/sourceEventIds'')
                         ''derived evidence source crosses repository or workspace''))
                  (ev_sourceEventIds evidence))))"

section \<open>Validating a set of events\<close>

fun index_events :: "events_by_id \<Rightarrow> event list \<Rightarrow> diagnostic list \<times> events_by_id" where
  "index_events byId [] = ([], byId)"
| "index_events byId (e # es) =
     (case map_get byId (eventId e) of
        None \<Rightarrow> index_events (map_set (eventId e) e byId) es
      | Some previous \<Rightarrow>
          (case index_events byId es of (ds, byId') \<Rightarrow>
             (diag_if (event_canonical previous \<noteq> event_canonical e)
                (diagnostic P3_invalid (ev_path e '''') ''event ID has conflicting canonical content'')
              @ ds, byId')))"

type_synonym claims = "(string, string) js_map"

text \<open>
  A claim map remembers the first event that claimed a key; a JavaScript string is truthy unless it
  is empty, so an empty identifier never blocks a later claim.
\<close>

definition claimed_by_other :: "claims \<Rightarrow> string \<Rightarrow> string \<Rightarrow> bool" where
  "claimed_by_other claims key me =
     (case map_get claims key of None \<Rightarrow> False | Some previous \<Rightarrow> previous \<noteq> [] \<and> previous \<noteq> me)"

definition claim :: "claims \<Rightarrow> string \<Rightarrow> string \<Rightarrow> diagnostic \<Rightarrow> diagnostic list \<times> claims" where
  "claim claims key me d =
     (if claimed_by_other claims key me then ([d], claims) else ([], map_set key me claims))"

definition validate_parent :: "event \<Rightarrow> event \<Rightarrow> diagnostic list" where
  "validate_parent e parent =
     diag_if (correlationId parent \<noteq> correlationId e)
       (diagnostic P0_invalid (ev_path e ''/correlationId'') ''child must inherit parent correlation ID'')
     @ diag_if (producerKey (source parent) = producerKey (source e)
         \<and> (case (sourceSequence parent, sourceSequence e) of
              (Some before, Some after) \<Rightarrow> after \<le> before | _ \<Rightarrow> False))
       (diagnostic P0_invalid (ev_path e ''/sourceSequence'')
          ''causal child must advance its producer sequence'')"

definition validate_causation :: "events_by_id \<Rightarrow> claims \<Rightarrow> event \<Rightarrow> diagnostic list \<times> claims" where
  "validate_causation byId roots e =
     (if causationId e = Some (eventId e)
      then ([diagnostic P0_invalid (ev_path e ''/causationId'') ''event cannot cause itself''], roots)
      else case causationId e of
          Some cause \<Rightarrow>
            (case map_get byId cause of
               None \<Rightarrow> [diagnostic P0_missing (ev_path e ''/causationId'') ''causal parent is absent'']
             | Some parent \<Rightarrow> validate_parent e parent, roots)
        | None \<Rightarrow> claim roots (correlationId e) (eventId e)
            (diagnostic P0_invalid (ev_path e ''/causationId'')
               ''one correlation cannot have multiple roots''))"

definition validate_sequence :: "claims \<Rightarrow> event \<Rightarrow> diagnostic list \<times> claims" where
  "validate_sequence sequences e =
     (case sourceSequence e of
        None \<Rightarrow> ([], sequences)
      | Some n \<Rightarrow> claim sequences (producerKey (source e) @ '':'' @ nat_str n) (eventId e)
          (diagnostic P0_invalid (ev_path e ''/sourceSequence'')
             ''source sequence is duplicated in one producer instance''))"

definition validate_typed ::
    "(string \<Rightarrow> string) \<Rightarrow> (string \<Rightarrow> string \<Rightarrow> int) \<Rightarrow> events_by_id \<Rightarrow> event \<Rightarrow> diagnostic list" where
  "validate_typed sha lc byId e =
     validateToolCompletion e byId
     @ validateAttributionCorrection e byId
     @ validateFindingFeedback e byId
     @ validateDependentWrite e byId
     @ validateTaskConcurrencyObservation e byId
     @ validateDerivedEvidence sha lc e byId
     @ validateProofDependentWrite sha e byId
     @ validateProofConcurrency sha e byId
     @ validateProofDerivedEvidence sha e byId
     @ validateResourcePayload e"

fun validate_each ::
    "(string \<Rightarrow> string) \<Rightarrow> (string \<Rightarrow> string \<Rightarrow> int) \<Rightarrow> events_by_id \<Rightarrow> claims \<Rightarrow> claims
     \<Rightarrow> event list \<Rightarrow> diagnostic list" where
  "validate_each sha lc byId roots sequences [] = []"
| "validate_each sha lc byId roots sequences (e # es) =
     (case validate_causation byId roots e of (causal, roots') \<Rightarrow>
      case validate_sequence sequences e of (sequenced, sequences') \<Rightarrow>
        causal @ sequenced @ validate_typed sha lc byId e
        @ validate_each sha lc byId roots' sequences' es)"

lemma unvisited_decreases:
  assumes "c \<notin> set visited" and "map_get byId c = Some parent"
  shows "card (set (map_keys byId) - set (c # visited)) < card (set (map_keys byId) - set visited)"
proof (rule psubset_card_mono)
  have "c \<in> set (map_keys byId)" using assms(2) by (force dest: map_of_SomeD)
  with assms(1) show "set (map_keys byId) - set (c # visited) \<subset> set (map_keys byId) - set visited"
    by auto
qed simp

function causal_cycle :: "events_by_id \<Rightarrow> string list \<Rightarrow> string option \<Rightarrow> bool" where
  "causal_cycle byId visited cause =
     (case cause of
        None \<Rightarrow> False
      | Some c \<Rightarrow>
          if c \<in> set visited then True
          else case map_get byId c of
              None \<Rightarrow> False
            | Some parent \<Rightarrow> causal_cycle byId (c # visited) (causationId parent))"
  by pat_completeness auto

termination causal_cycle
  by (relation "measure (\<lambda>(byId, visited, cause). card (set (map_keys byId) - set visited))")
    (use unvisited_decreases in auto)

declare causal_cycle.simps [simp del]

definition validate_acyclic :: "events_by_id \<Rightarrow> event \<Rightarrow> diagnostic list" where
  "validate_acyclic byId e = diag_if (causal_cycle byId [eventId e] (causationId e))
     (diagnostic P0_invalid (ev_path e ''/causationId'') ''causal graph contains a cycle'')"

fun validate_proofs :: "claims \<Rightarrow> event list \<Rightarrow> diagnostic list" where
  "validate_proofs proofs [] = []"
| "validate_proofs proofs (e # es) =
     (case payload_derived_v3 (payload e) of
        None \<Rightarrow> validate_proofs proofs es
      | Some (d, p) \<Rightarrow>
          if ec_status (ev_coverage d) \<noteq> CS_sufficient then validate_proofs proofs es
          else
            let key = ev_targetEventId d @ '':'' @ ts_targetSnapshotId (ep_targetSnapshot p)
            in case map_get proofs key of
                None \<Rightarrow> validate_proofs (map_set key (eventId e) proofs) es
              | Some previous \<Rightarrow>
                  if previous \<noteq> eventId e
                  then diagnostic P3_invalid (ev_path e ''/payload/evidence'')
                         ''multiple sufficient derived proofs for one target snapshot are ambiguous''
                       # validate_proofs proofs es
                  else validate_proofs (map_set key (eventId e) proofs) es)"

definition validateEventSet ::
    "(string \<Rightarrow> string) \<Rightarrow> (string \<Rightarrow> string \<Rightarrow> int) \<Rightarrow> event list \<Rightarrow> diagnostic list" where
  "validateEventSet sha lc events =
     (case index_events [] events of (conflicts, byId) \<Rightarrow>
        sortDiagnostics lc
          (conflicts
           @ validate_each sha lc byId [] [] events
           @ concat (map (validate_acyclic byId) events)
           @ validate_proofs [] events))"

end
