(* ===== verification/Canonical_Unique.thy ===== *)
theory Canonical_Unique
  imports Canonical_Json
begin

text \<open>
  Canonical text determines the value: two JSON values have the same canonical text exactly when
  they differ in nothing but the order of object entries.  Every digest, conflict check and node
  identifier of the system is a function of canonical text, so this is what makes them mean
  what they are used for.  The proof reads the text from the left: the first character tells the
  constructor, and a value followed by a comma or a closing bracket can be read in one way only.
\<close>

section \<open>Values up to the order of entries\<close>

lemma js_insert_map:
  "(\<And>a b. cmp (g a) (g b) = cmp a b) \<Longrightarrow> js_insert cmp (g x) (map g xs) = map g (js_insert cmp x xs)"
  by (induction xs) auto

lemma js_sort_map: "(\<And>a b. cmp (g a) (g b) = cmp a b) \<Longrightarrow> js_sort cmp (map g xs) = map g (js_sort cmp xs)"
  by (induction xs) (auto simp: js_insert_map)

function normalize :: "jsval \<Rightarrow> jsval" where
  "normalize (JArr xs) = JArr (map normalize xs)"
| "normalize (JObj es) =
     JObj (js_sort (\<lambda>a b. compareStrings (fst a) (fst b)) (map (\<lambda>e. (fst e, normalize (snd e))) es))"
| "normalize JNull = JNull"
| "normalize (JBool b) = JBool b"
| "normalize (JNum r) = JNum r"
| "normalize JNonFinite = JNonFinite"
| "normalize (JStr s) = JStr s"
| "normalize JUnsupported = JUnsupported"
| "normalize (JExotic es) = JExotic es"
  by pat_completeness auto

termination
  by (relation "measure size") (auto dest: size_entry size_element)

definition same_json :: "jsval \<Rightarrow> jsval \<Rightarrow> bool" where
  "same_json a b \<longleftrightarrow> normalize a = normalize b"

lemma normalize_obj:
  "normalize (JObj es)
   = JObj (map (\<lambda>e. (fst e, normalize (snd e))) (js_sort (\<lambda>a b. compareStrings (fst a) (fst b)) es))"
  by (simp add: js_sort_map)

section \<open>Numbers\<close>

definition num_char :: "char \<Rightarrow> bool" where
  "num_char c \<longleftrightarrow> c = CHR ''.'' \<or> c = CHR ''-'' \<or> (\<exists>d < 10. c = digit_char d)"

lemma digit_char_not:
  assumes "d < 10"
  shows "digit_char d \<notin> {CHR ''.'', CHR ''-'', CHR '','', CHR '']'', CHR ''}'', CHR 0x22,
     CHR ''n'', CHR ''t'', CHR ''f'', CHR ''['', CHR ''{''}"
proof
  assume "digit_char d \<in> {CHR ''.'', CHR ''-'', CHR '','', CHR '']'', CHR ''}'', CHR 0x22,
     CHR ''n'', CHR ''t'', CHR ''f'', CHR ''['', CHR ''{''}"
  then have "(of_char (digit_char d) :: nat) \<in> {46, 45, 44, 93, 125, 34, 110, 116, 102, 91, 123}"
    by auto
  moreover have "(of_char (digit_char d) :: nat) = 48 + d"
    unfolding digit_char_def by (rule char_code_small [OF assms])
  ultimately show False using assms by auto
qed

lemma nat_str_digits: "c \<in> set (nat_str n) \<Longrightarrow> \<exists>d < 10. c = digit_char d"
proof (induction n rule: nat_str.induct)
  case (1 n)
  have eq: "nat_str n = (if n < 10 then [digit_char n] else nat_str (n div 10) @ [digit_char (n mod 10)])"
    by (rule nat_str.simps)
  show ?case
  proof (cases "n < 10")
    case True
    with "1.prems" eq show ?thesis by auto
  next
    case False
    with "1.prems" eq have "c \<in> set (nat_str (n div 10)) \<or> c = digit_char (n mod 10)" by auto
    then show ?thesis using "1.IH" [OF False] by (auto intro: exI [of _ "n mod 10"])
  qed
qed

lemma frac_digit_range: "0 \<le> f \<Longrightarrow> f < 1 \<Longrightarrow> 0 \<le> \<lfloor>f * 10\<rfloor> \<and> \<lfloor>f * 10\<rfloor> < 10" for f :: rat
  by (simp add: floor_less_iff)

lemma frac_step: "0 \<le> f * 10 - of_int \<lfloor>f * 10\<rfloor> \<and> f * 10 - of_int \<lfloor>f * 10\<rfloor> < 1" for f :: rat
  using floor_correct [of "f * 10"] by linarith

lemma nat_digit: "0 \<le> i \<Longrightarrow> i < 10 \<Longrightarrow> nat i < 10"
  by simp

lemma frac_digits_digits:
  "0 \<le> f \<Longrightarrow> f < 1 \<Longrightarrow> c \<in> set (frac_digits k f) \<Longrightarrow> \<exists>d < 10. c = digit_char d"
proof (induction k arbitrary: f)
  case (Suc k)
  have r: "nat \<lfloor>f * 10\<rfloor> < 10"
    by (rule nat_digit) (use frac_digit_range [OF Suc.prems(1,2)] in blast)+
  from Suc.prems(3) have "c = digit_char (nat \<lfloor>f * 10\<rfloor>)
      \<or> c \<in> set (frac_digits k (f * 10 - of_int \<lfloor>f * 10\<rfloor>))"
    by (auto split: if_splits)
  with r Suc.IH [OF frac_step [THEN conjunct1] frac_step [THEN conjunct2]] show ?case by blast
qed simp

fun frac_value :: "string \<Rightarrow> rat" where
  "frac_value [] = 0"
| "frac_value (c # cs) = (of_nat (of_char c) - 48 + frac_value cs) / 10"

lemma frac_value_digits:
  "0 \<le> f \<Longrightarrow> f < 1 \<Longrightarrow> f * 10 ^ k \<in> \<int> \<Longrightarrow> frac_value (frac_digits k f) = f"
proof (induction k arbitrary: f)
  case 0
  then obtain i where "f = of_int i" by (auto elim: Ints_cases)
  with 0 show ?case by simp
next
  case (Suc k)
  let ?d = "\<lfloor>f * 10\<rfloor>" and ?g = "f * 10 - of_int \<lfloor>f * 10\<rfloor>"
  have range: "0 \<le> ?d" "?d < 10" using frac_digit_range [OF Suc.prems(1,2)] by auto
  have g: "0 \<le> ?g" "?g < 1" using frac_step [of f] by blast+
  have "?g * 10 ^ k = f * 10 ^ Suc k - of_int (?d * 10 ^ k)"
    by (simp add: algebra_simps)
  moreover have "f * 10 ^ Suc k - of_int (?d * 10 ^ k) \<in> \<int>"
    by (rule Ints_diff [OF Suc.prems(3) Ints_of_int])
  ultimately have "?g * 10 ^ k \<in> \<int>" by simp
  then have IH: "frac_value (frac_digits k ?g) = ?g" using g by (intro Suc.IH)
  have code: "of_char (digit_char (nat ?d)) = 48 + nat ?d"
    unfolding digit_char_def by (rule char_code_small [OF nat_digit [OF range]])
  have digit: "of_nat (of_char (digit_char (nat ?d))) - 48 = (of_int ?d :: rat)"
    using range(1) by (simp only: code)
  show ?case
  proof (cases "f = 0")
    case False
    then have "frac_value (frac_digits (Suc k) f)
        = (of_nat (of_char (digit_char (nat ?d))) - 48 + frac_value (frac_digits k ?g)) / 10"
      by (simp only: frac_digits.simps if_False frac_value.simps)
    also have "\<dots> = f" by (simp only: digit IH) simp
    finally show ?thesis .
  qed simp
qed

lemma takeWhile_eq: "(\<And>c. c \<in> set u \<Longrightarrow> P c) \<Longrightarrow> s = [] \<or> \<not> P (hd s) \<Longrightarrow> takeWhile P (u @ s) = u"
  by (cases s) (auto simp: takeWhile_append2)

lemma split_unique:
  assumes "u @ s = v @ t" "\<And>c. c \<in> set u \<Longrightarrow> P c" "\<And>c. c \<in> set v \<Longrightarrow> P c"
    "s = [] \<or> \<not> P (hd s)" "t = [] \<or> \<not> P (hd t)"
  shows "u = v \<and> s = t"
  using takeWhile_eq [of u P s] takeWhile_eq [of v P t] assms by auto

definition frac_part :: "rat \<Rightarrow> rat" where
  "frac_part r = \<bar>r\<bar> - of_int \<lfloor>\<bar>r\<bar>\<rfloor>"

lemma frac_part_range: "0 \<le> frac_part r" "frac_part r < 1"
  unfolding frac_part_def using floor_correct [of "\<bar>r\<bar>"] by linarith+

lemma frac_part_short: "short_decimal r \<Longrightarrow> frac_part r * 10 ^ 20 \<in> \<int>"
proof -
  assume "short_decimal r"
  then have r: "r * 10 ^ 20 \<in> \<int>" unfolding short_decimal_def by (metis Ints_of_int)
  then have "\<bar>r * 10 ^ 20\<bar> \<in> \<int>" by simp
  then have a: "\<bar>r\<bar> * 10 ^ 20 \<in> \<int>" by (simp add: abs_mult)
  have "frac_part r * 10 ^ 20 = \<bar>r\<bar> * 10 ^ 20 - of_int (\<lfloor>\<bar>r\<bar>\<rfloor> * 10 ^ 20)"
    by (simp add: frac_part_def algebra_simps)
  then show ?thesis using Ints_diff [OF a Ints_of_int] by simp
qed

definition frac_text :: "rat \<Rightarrow> string" where
  "frac_text r = (if frac_part r = 0 then [] else CHR ''.'' # frac_digits 20 (frac_part r))"

lemma num_str_parts:
  "num_str r = (if r < 0 then ''-'' else []) @ nat_str (nat \<lfloor>\<bar>r\<bar>\<rfloor>) @ frac_text r"
  by (simp add: num_str_def frac_text_def frac_part_def Let_def)

lemma num_str_chars: "c \<in> set (num_str r) \<Longrightarrow> num_char c"
proof -
  assume "c \<in> set (num_str r)"
  then consider "c = CHR ''-''" | "c \<in> set (nat_str (nat \<lfloor>\<bar>r\<bar>\<rfloor>))" | "c = CHR ''.''"
    | "c \<in> set (frac_digits 20 (frac_part r))"
    unfolding num_str_parts frac_text_def by (auto split: if_splits)
  then show ?thesis
  proof cases
    case 2
    from nat_str_digits [OF this] show ?thesis by (simp add: num_char_def)
  next
    case 4
    from frac_digits_digits [OF frac_part_range this] show ?thesis by (simp add: num_char_def)
  qed (simp_all add: num_char_def)
qed

lemma nat_str_hd: "\<exists>d < 10. \<exists>u. nat_str n = digit_char d # u"
  using nat_str_digits [of "hd (nat_str n)" n] nat_str_not_Nil [of n]
  by (metis hd_Cons_tl list.set_sel(1))

lemma num_str_sign: "num_str r = num_str q \<Longrightarrow> r < 0 \<longleftrightarrow> q < 0"
  using nat_str_hd [of "nat \<lfloor>\<bar>r\<bar>\<rfloor>"] nat_str_hd [of "nat \<lfloor>\<bar>q\<bar>\<rfloor>"] digit_char_not
  by (auto simp: num_str_parts split: if_splits)

lemma num_str_inj:
  assumes "num_str r = num_str q" and r: "short_decimal r" and q: "short_decimal q"
  shows "r = q"
proof -
  have sign: "r < 0 \<longleftrightarrow> q < 0" by (rule num_str_sign [OF assms(1)])
  with assms(1) have eq: "nat_str (nat \<lfloor>\<bar>r\<bar>\<rfloor>) @ frac_text r = nat_str (nat \<lfloor>\<bar>q\<bar>\<rfloor>) @ frac_text q"
    by (auto simp: num_str_parts)
  have dot: "frac_text x = [] \<or> \<not> hd (frac_text x) \<noteq> CHR ''.''" for x
    by (simp add: frac_text_def)
  have nodot: "c \<noteq> CHR ''.''" if "c \<in> set (nat_str n)" for c n
    using nat_str_digits [OF that] digit_char_not by auto
  have parts: "nat_str (nat \<lfloor>\<bar>r\<bar>\<rfloor>) = nat_str (nat \<lfloor>\<bar>q\<bar>\<rfloor>) \<and> frac_text r = frac_text q"
    by (rule split_unique [OF eq, where P = "\<lambda>c. c \<noteq> CHR ''.''"]) (use nodot dot in blast)+
  then have int: "nat \<lfloor>\<bar>r\<bar>\<rfloor> = nat \<lfloor>\<bar>q\<bar>\<rfloor>" using nat_str_inj by blast
  have frac: "frac_part r = frac_part q"
  proof (cases "frac_part r = 0")
    case True
    with parts show ?thesis by (auto simp: frac_text_def split: if_splits)
  next
    case False
    with parts have eq: "frac_digits 20 (frac_part r) = frac_digits 20 (frac_part q)"
      by (auto simp del: frac_digits.simps simp: frac_text_def split: if_splits)
    have "frac_part r = frac_value (frac_digits 20 (frac_part r))"
      by (rule frac_value_digits [OF frac_part_range frac_part_short [OF r], symmetric])
    also have "\<dots> = frac_value (frac_digits 20 (frac_part q))" by (simp only: eq)
    also have "\<dots> = frac_part q"
      by (rule frac_value_digits [OF frac_part_range frac_part_short [OF q]])
    finally show ?thesis .
  qed
  have "0 \<le> \<lfloor>\<bar>r\<bar>\<rfloor>" "0 \<le> \<lfloor>\<bar>q\<bar>\<rfloor>" by simp_all
  with int have "\<lfloor>\<bar>r\<bar>\<rfloor> = \<lfloor>\<bar>q\<bar>\<rfloor>" by (simp only: eq_nat_nat_iff)
  with frac have "\<bar>r\<bar> = \<bar>q\<bar>" by (simp add: frac_part_def)
  with sign show ?thesis by linarith
qed

section \<open>Strings\<close>

lemma hex_char_inj: "d < 16 \<Longrightarrow> e < 16 \<Longrightarrow> hex_char d = hex_char e \<Longrightarrow> d = e"
proof -
  assume d: "d < 16" and e: "e < 16" and eq: "hex_char d = hex_char e"
  have code: "of_char (hex_char k) = (if k < 10 then 48 + k else 87 + k)" if "k < 16" for k
    using that by (simp add: hex_char_def)
  from eq have "of_char (hex_char d) = (of_char (hex_char e) :: nat)" by simp
  with code [OF d] code [OF e] show ?thesis by (auto split: if_splits)
qed

definition unescape :: "char \<Rightarrow> char" where
  "unescape e = (if e = CHR ''b'' then CHR 0x08 else if e = CHR ''f'' then CHR 0x0C
     else if e = CHR ''n'' then CHR 0x0A else if e = CHR ''r'' then CHR 0x0D
     else if e = CHR ''t'' then CHR 0x09 else e)"

lemma escape_forms:
  obtains (same) "escape_char c = [c]" "c \<noteq> CHR 0x5C" "c \<noteq> CHR 0x22"
  | (short) e where "escape_char c = [CHR 0x5C, e]" "e \<noteq> CHR ''u''" "c = unescape e"
  | (code) "escape_char c = [CHR 0x5C, CHR ''u'', CHR ''0'', CHR ''0'',
      hex_char (of_char c div 16), hex_char (of_char c mod 16)]" "(of_char c :: nat) < 32"
proof -
  let ?special = "{CHR 0x22, CHR 0x5C, CHR 0x08, CHR 0x0C, CHR 0x0A, CHR 0x0D, CHR 0x09}"
  show thesis
  proof (cases "c \<in> ?special")
    case True
    then have "\<exists>e. escape_char c = [CHR 0x5C, e] \<and> e \<noteq> CHR ''u'' \<and> c = unescape e"
      by (auto simp: escape_char_def unescape_def)
    then show thesis using short by blast
  next
    case False
    show thesis
    proof (cases "(of_char c :: nat) < 32")
      case True
      with False show thesis by (intro code) (simp_all add: escape_char_def)
    next
      case big: False
      with False show thesis by (intro same) (simp_all add: escape_char_def)
    qed
  qed
qed

lemma escape_not_quote: "\<exists>h u. escape_char c = h # u \<and> h \<noteq> CHR 0x22"
  by (cases rule: escape_forms [of c]) auto

lemma hex_pair_inj:
  assumes "hex_char (of_char x div 16) = hex_char (of_char y div 16)"
    and "hex_char (of_char x mod 16) = hex_char (of_char y mod 16)"
    and "(of_char x :: nat) < 32" and "(of_char y :: nat) < 32"
  shows "x = y"
proof -
  have "(of_char x :: nat) div 16 = of_char y div 16"
    by (rule hex_char_inj [OF _ _ assms(1)]) (use assms(3,4) in linarith)+
  moreover have "(of_char x :: nat) mod 16 = of_char y mod 16"
    by (rule hex_char_inj [OF _ _ assms(2)]) simp_all
  ultimately have "(of_char x :: nat) = of_char y" by (metis div_mult_mod_eq)
  then show ?thesis by simp
qed

lemma escape_prefix:
  assumes eq: "escape_char c @ u = escape_char d @ v"
  shows "c = d \<and> u = v"
proof (cases rule: escape_forms [of c])
  case same
  then show ?thesis using eq by (cases rule: escape_forms [of d]) simp_all
next
  case (short e)
  then show ?thesis using eq by (cases rule: escape_forms [of d]) simp_all
next
  case code
  then show ?thesis
  proof (cases rule: escape_forms [of d])
    case code': code
    from eq code(1) code'(1) have "hex_char (of_char c div 16) = hex_char (of_char d div 16)"
      "hex_char (of_char c mod 16) = hex_char (of_char d mod 16)" "u = v" by simp_all
    with hex_pair_inj code(2) code'(2) show ?thesis by blast
  qed (use eq in simp_all)
qed

lemma json_string_prefix: "json_string a @ s = json_string b @ t \<Longrightarrow> a = b \<and> s = t"
proof (induction a arbitrary: b)
  case Nil
  show ?case
  proof (cases b)
    case (Cons y b')
    then show ?thesis using Nil escape_not_quote [of y] by (auto simp: json_string_def)
  qed (use Nil in \<open>simp add: json_string_def\<close>)
next
  case (Cons x a)
  show ?case
  proof (cases b)
    case Nil
    then show ?thesis using Cons.prems escape_not_quote [of x] by (auto simp: json_string_def)
  next
    case (Cons y b')
    with Cons.prems have "escape_char x @ concat (map escape_char a) @ CHR 0x22 # s
        = escape_char y @ concat (map escape_char b') @ CHR 0x22 # t"
      by (simp add: json_string_def)
    from escape_prefix [OF this] have "x = y" "json_string a @ s = json_string b' @ t"
      by (auto simp: json_string_def)
    with Cons.IH Cons show ?thesis by auto
  qed
qed

section \<open>Lists\<close>

definition delim :: "string \<Rightarrow> bool" where
  "delim s \<longleftrightarrow> s = [] \<or> hd s \<in> {CHR '','', CHR '']'', CHR ''}''}"

lemma join_Cons: "join '','' (x # xs) = x @ concat (map (\<lambda>y. CHR '','' # y) xs)"
  by (induction xs arbitrary: x) auto

lemma tail_unique:
  assumes "\<And>x y s t. x \<in> set xs \<Longrightarrow> y \<in> set ys \<Longrightarrow> delim s \<Longrightarrow> delim t \<Longrightarrow> f x @ s = f y @ t
      \<Longrightarrow> g x = g y \<and> s = t"
    and "cl \<in> {CHR '']'', CHR ''}''}"
    and "concat (map (\<lambda>x. CHR '','' # f x) xs) @ cl # s = concat (map (\<lambda>x. CHR '','' # f x) ys) @ cl # t"
  shows "map g xs = map g ys \<and> s = t"
  using assms(1,3)
proof (induction xs arbitrary: ys)
  case Nil
  then show ?case using assms(2) by (cases ys) auto
next
  case (Cons x xs)
  then obtain y ys' where ys: "ys = y # ys'"
    using assms(2) by (cases ys) auto
  let ?tx = "concat (map (\<lambda>x. CHR '','' # f x) xs) @ cl # s"
  let ?ty = "concat (map (\<lambda>x. CHR '','' # f x) ys') @ cl # t"
  have "delim ?tx" "delim ?ty"
    by (cases xs; use assms(2) in \<open>auto simp: delim_def\<close>) (cases ys'; use assms(2) in \<open>auto simp: delim_def\<close>)
  moreover have "f x @ ?tx = f y @ ?ty" using Cons.prems(2) ys by simp
  ultimately have "g x = g y" "?tx = ?ty" using Cons.prems(1) [of x y ?tx ?ty] ys by auto
  with Cons.IH [of ys'] Cons.prems(1) ys show ?case by auto
qed

lemma join_unique:
  assumes elem: "\<And>x y s t. x \<in> set xs \<Longrightarrow> y \<in> set ys \<Longrightarrow> delim s \<Longrightarrow> delim t \<Longrightarrow> f x @ s = f y @ t
      \<Longrightarrow> g x = g y \<and> s = t"
    and start: "\<And>x. x \<in> set xs \<union> set ys \<Longrightarrow> f x \<noteq> [] \<and> \<not> delim (f x)"
    and cl: "cl \<in> {CHR '']'', CHR ''}''}"
    and eq: "join '','' (map f xs) @ cl # s = join '','' (map f ys) @ cl # t"
  shows "map g xs = map g ys \<and> s = t"
proof (cases xs)
  case Nil
  have "ys = []"
  proof (rule ccontr)
    assume "ys \<noteq> []"
    then obtain y ys' where ys: "ys = y # ys'" by (cases ys) auto
    then have "f y \<noteq> []" "\<not> delim (f y)" using start by auto
    then show False using eq Nil ys cl by (cases "f y") (auto simp: join_Cons delim_def)
  qed
  with Nil eq show ?thesis by simp
next
  case (Cons x xs')
  show ?thesis
  proof (cases ys)
    case Nil
    have "f x \<noteq> []" "\<not> delim (f x)" using start Cons by auto
    then show ?thesis using eq Nil Cons cl by (cases "f x") (auto simp: join_Cons delim_def)
  next
    case ys: (Cons y ys')
    let ?tx = "concat (map (\<lambda>x. CHR '','' # f x) xs') @ cl # s"
    let ?ty = "concat (map (\<lambda>x. CHR '','' # f x) ys') @ cl # t"
    have eq': "f x @ ?tx = f y @ ?ty" using eq Cons ys by (simp add: join_Cons comp_def)
    have "delim ?tx" "delim ?ty"
      by (cases xs'; use cl in \<open>auto simp: delim_def\<close>) (cases ys'; use cl in \<open>auto simp: delim_def\<close>)
    then have "g x = g y" "?tx = ?ty" using elem [OF _ _ _ _ eq'] Cons ys by auto
    moreover have "map g xs' = map g ys' \<and> s = t"
      by (rule tail_unique [OF elem cl \<open>?tx = ?ty\<close>]) (auto simp: Cons ys)
    ultimately show ?thesis using Cons ys by simp
  qed
qed

section \<open>Values\<close>

definition char_kind :: "char \<Rightarrow> nat" where
  "char_kind c = (if c = CHR ''n'' then 0 else if c = CHR ''t'' then 1 else if c = CHR ''f'' then 2
     else if c = CHR 0x22 then 3 else if c = CHR ''['' then 4 else if c = CHR ''{'' then 5 else 6)"

fun value_kind :: "jsval \<Rightarrow> nat" where
  "value_kind JNull = 0"
| "value_kind (JBool b) = (if b then 1 else 2)"
| "value_kind (JStr s) = 3"
| "value_kind (JArr xs) = 4"
| "value_kind (JObj es) = 5"
| "value_kind _ = 6"

lemma canonical_start:
  "is_json v \<Longrightarrow> \<exists>c u. canonicalJsonBy cmp v = c # u \<and> char_kind c = value_kind v \<and> \<not> delim (c # u)"
proof (cases v)
  case (JNum r)
  have "\<exists>c u. num_str r = c # u \<and> (c = CHR ''-'' \<or> (\<exists>d < 10. c = digit_char d))"
    using nat_str_hd [of "nat \<lfloor>\<bar>r\<bar>\<rfloor>"] by (auto simp: num_str_parts)
  then obtain c u where cu: "num_str r = c # u" and c: "c = CHR ''-'' \<or> (\<exists>d < 10. c = digit_char d)"
    by blast
  from c digit_char_not have "char_kind c = 6 \<and> \<not> delim (c # u)"
    by (auto simp: char_kind_def delim_def)
  with JNum cu show ?thesis by simp
qed (auto simp: char_kind_def delim_def json_string_def)

lemma num_not_delim: "delim s \<Longrightarrow> s = [] \<or> \<not> num_char (hd s)"
  using digit_char_not by (auto simp: delim_def num_char_def)

theorem canonical_prefix:
  "is_json a \<Longrightarrow> is_json b \<Longrightarrow> delim s \<Longrightarrow> delim t
   \<Longrightarrow> canonicalJsonBy compareStrings a @ s = canonicalJsonBy compareStrings b @ t
   \<Longrightarrow> normalize a = normalize b \<and> s = t"
proof (induction a arbitrary: b s t rule: normalize.induct)
  case (1 xs)
  then obtain ys where b: "b = JArr ys"
    using canonical_start [OF 1(2), of compareStrings] canonical_start [OF 1(3), of compareStrings]
    by (cases b) (auto split: if_splits)
  let ?f = "canonicalJsonBy compareStrings"
  have "map normalize xs = map normalize ys \<and> s = t"
  proof (rule join_unique [where f = ?f and cl = "CHR '']''"])
    show "normalize x = normalize y \<and> s' = t'"
      if "x \<in> set xs" "y \<in> set ys" "delim s'" "delim t'" "?f x @ s' = ?f y @ t'" for x y s' t'
      using 1(1) [OF that(1) _ _ that(3,4,5)] that(1,2) 1(2,3) b by (auto simp: list_all_iff)
    show "?f x \<noteq> [] \<and> \<not> delim (?f x)" if "x \<in> set xs \<union> set ys" for x
      using canonical_start [of x compareStrings] that 1(2,3) b by (fastforce simp: list_all_iff)
    show "join '','' (map ?f xs) @ CHR '']'' # s = join '','' (map ?f ys) @ CHR '']'' # t"
      using 1(6) b by simp
  qed simp
  with b show ?case by simp
next
  case (2 es)
  then obtain es' where b: "b = JObj es'"
    using canonical_start [OF 2(2), of compareStrings] canonical_start [OF 2(3), of compareStrings]
    by (cases b) (auto split: if_splits)
  let ?f = "\<lambda>(k, v). json_string k @ '':'' @ canonicalJsonBy compareStrings v"
  let ?g = "\<lambda>e. (fst e, normalize (snd e))"
  let ?S = "js_sort (\<lambda>a b. compareStrings (fst a) (fst b))"
  have "map ?g (?S es) = map ?g (?S es') \<and> s = t"
  proof (rule join_unique [where f = ?f and cl = "CHR ''}''"])
    show "?g x = ?g y \<and> s' = t'"
      if x: "x \<in> set (?S es)" and y: "y \<in> set (?S es')" and "delim s'" "delim t'" "?f x @ s' = ?f y @ t'"
      for x y s' t'
    proof -
      have "json_string (fst x) @ CHR '':'' # canonicalJsonBy compareStrings (snd x) @ s'
          = json_string (fst y) @ CHR '':'' # canonicalJsonBy compareStrings (snd y) @ t'"
        using that(5) by (cases x; cases y) simp
      from json_string_prefix [OF this] have k: "fst x = fst y" and
        v: "canonicalJsonBy compareStrings (snd x) @ s' = canonicalJsonBy compareStrings (snd y) @ t'"
        by auto
      have "is_json (snd x)" "is_json (snd y)" using x y 2(2,3) b by (auto simp: list_all_iff)
      with 2(1) [of x, OF _ _ _ that(3,4) v] x k show ?thesis by auto
    qed
    show "?f x \<noteq> [] \<and> \<not> delim (?f x)" for x
      by (cases x) (simp add: json_string_def delim_def)
    show "join '','' (map ?f (?S es)) @ CHR ''}'' # s = join '','' (map ?f (?S es')) @ CHR ''}'' # t"
      using 2(6) b by simp
  qed simp
  with b show ?case by (simp only: normalize_obj)
next
  case (5 r)
  then obtain q where b: "b = JNum q"
    using canonical_start [OF 5(1), of compareStrings] canonical_start [OF 5(2), of compareStrings]
    by (cases b) (auto split: if_splits)
  have "num_str r @ s = num_str q @ t" using 5(5) b by simp
  then have "num_str r = num_str q \<and> s = t"
    by (rule split_unique [where P = num_char]) (use num_str_chars num_not_delim 5(3,4) in blast)+
  with 5(1,2) b num_str_inj show ?case by auto
next
  case (7 u)
  then obtain w where b: "b = JStr w"
    using canonical_start [OF 7(1), of compareStrings] canonical_start [OF 7(2), of compareStrings]
    by (cases b) (auto split: if_splits)
  with 7(5) have "json_string u @ s = json_string w @ t" by simp
  from json_string_prefix [OF this] b show ?case by simp
next
  case (3 b)
  then show ?case
    using canonical_start [OF 3(2), of compareStrings] by (cases b) (auto simp: char_kind_def split: if_splits)
next
  case (4 x)
  then show ?case
    using canonical_start [OF 4(2), of compareStrings]
    by (cases b) (auto simp: char_kind_def split: if_splits)
qed simp_all


interpretation entry_key: comparator "\<lambda>a b :: string \<times> 'a. compareStrings (fst a) (fst b)"
  by (rule comparator_key [OF cu.comparator_axioms])

lemma canonical_normalize:
  "canonicalJsonBy compareStrings (normalize v) = canonicalJsonBy compareStrings v"
proof (induction v rule: normalize.induct)
  case (1 xs)
  then have eq: "map (\<lambda>x. canonicalJsonBy compareStrings (normalize x)) xs
      = map (canonicalJsonBy compareStrings) xs"
    by simp
  show ?case by (simp only: normalize.simps canonicalJsonBy.simps map_map comp_def eq)
next
  case (2 es)
  let ?S = "js_sort (\<lambda>a b. compareStrings (fst a) (fst b))"
  let ?f = "\<lambda>(k, v). json_string k @ '':'' @ canonicalJsonBy compareStrings v"
  let ?g = "\<lambda>e. (fst e, normalize (snd e))"
  have "?S (map ?g (?S es)) = map ?g (?S es)"
    by (simp only: js_sort_map fst_conv entry_key.sort_idem)
  moreover have "map ?f (map ?g (?S es)) = map ?f (?S es)"
    using 2 by (auto simp: comp_def)
  ultimately show ?case
    by (simp only: normalize_obj canonicalJsonBy.simps)
qed simp_all

lemma same_json_entries:
  assumes "mset es = mset es'" and "distinct (map fst es)"
  shows "same_json (JObj es) (JObj es')"
proof -
  have "js_sort (\<lambda>a b. compareStrings (fst a) (fst b)) es
      = js_sort (\<lambda>a b. compareStrings (fst a) (fst b)) es'"
  proof (rule entry_key.sort_unique [OF assms(1)])
    show "x = y" if "x \<in> set es" "y \<in> set es"
      "compareStrings (fst x) (fst y) \<le> 0" "compareStrings (fst y) (fst x) \<le> 0" for x y
    proof -
      have "fst x = fst y" using that(3,4) by (rule cu.antisym)
      with that(1,2) assms(2) show ?thesis by (metis eq_key_imp_eq_value prod.collapse)
    qed
  qed
  then show ?thesis by (simp only: same_json_def normalize_obj)
qed

lemma canonical_same_iff:
  assumes "is_json a" and "is_json b"
  shows "canonicalJson_protocol a = canonicalJson_protocol b \<longleftrightarrow> same_json a b"
proof
  assume "canonicalJson_protocol a = canonicalJson_protocol b"
  then have "canonicalJsonBy compareStrings a @ [] = canonicalJsonBy compareStrings b @ []"
    by (simp add: canonicalJson_protocol_def)
  from canonical_prefix [OF assms _ _ this] show "same_json a b"
    by (simp add: same_json_def delim_def)
next
  assume "same_json a b"
  then show "canonicalJson_protocol a = canonicalJson_protocol b"
    unfolding same_json_def canonicalJson_protocol_def
    using canonical_normalize [of a] canonical_normalize [of b] by simp
qed

end
