(* ===== verification/Demo_Events.thy ===== *)
theory Demo_Events
  imports Protocol
begin

text \<open>
  Concrete events on which the properties are instantiated: a tool request, the file change it
  makes and its completion; two agents changing one symbol in two worktrees; a read, a dependency
  and the dependent write that relies on both.
\<close>

definition demo_source :: "source_kind \<Rightarrow> string \<Rightarrow> source" where
  "demo_source k run = \<lparr>sr_kind = k, sr_sourceId = ''src'', sr_instanceId = run\<rparr>"

definition demo_event :: "string \<Rightarrow> source_kind \<Rightarrow> string option \<Rightarrow> nat option \<Rightarrow> payload \<Rightarrow> event" where
  "demo_event i k cause n p = \<lparr>eventId = i, source = demo_source k ''run'', timestamp = ''2026-01-01T00:00:00Z'',
     repositoryId = ''repo'', workspaceId = ''ws'', worktreeId = ''wt'', agentId = Some ''agent'',
     taskId = Some ''task'', correlationId = ''corr'', causationId = cause, sourceSequence = n, payload = p\<rparr>"

definition demo_resource :: "resource_kind \<Rightarrow> string \<Rightarrow> logical_resource" where
  "demo_resource k r = \<lparr>lr_resourceId = r, lr_repositoryId = ''repo'', lr_kind = k, lr_locator = ''src/a.ts''\<rparr>"

definition demo_version :: "string \<Rightarrow> string \<Rightarrow> string \<Rightarrow> resource_version" where
  "demo_version r wt v = \<lparr>rv_resourceId = r, rv_domain = \<lparr>vd_repositoryId = ''repo'', vd_workspaceId = ''ws'',
     vd_worktreeId = wt\<rparr>, rv_kind = VK_content_hash, rv_value = Some v, rv_evidenceEventIds = [''e'']\<rparr>"

definition demo_file_change :: "string \<Rightarrow> string \<Rightarrow> resource_changed" where
  "demo_file_change r v = \<lparr>rc_resource = demo_resource RK_file r, rc_beforeVersion = None,
     rc_afterVersion = demo_version r ''wt'' v, rc_changeKind = CK_modified, rc_attribution = Some AL_call\<rparr>"

definition demo_tool :: tool_requested where
  "demo_tool = \<lparr>tq_toolName = TN_edit_file, tq_operation = ''edit'', tq_targetResourceId = None,
     tq_opaque = False, tq_hostToolName = None\<rparr>"

definition demo_done :: "string \<Rightarrow> string list \<Rightarrow> tool_completed" where
  "demo_done q effects = \<lparr>tc_requestEventId = q, tc_outcome = Succeeded, tc_exitCode = Some 0,
     tc_effectEventIds = effects, tc_deterministicallyAttributedEffectEventIds = Some effects\<rparr>"

definition demo_request :: event where
  "demo_request = demo_event ''evt_q'' Adapter None (Some 1) (ToolRequested demo_tool)"

definition demo_change :: event where
  "demo_change = demo_event ''evt_f'' Watcher (Some ''evt_q'') (Some 1)
     (FileChanged (demo_file_change ''res'' ''v1''))"

definition demo_completion :: event where
  "demo_completion = demo_event ''evt_c'' Adapter (Some ''evt_q'') (Some 2)
     (ToolCompleted (demo_done ''evt_q'' [''evt_f'']))"

definition demo_tool_run :: "event list" where
  "demo_tool_run = [demo_request, demo_change, demo_completion]"

lemmas demo_simps = demo_source_def demo_event_def demo_resource_def demo_version_def
  demo_file_change_def demo_tool_def demo_done_def demo_request_def demo_change_def
  demo_completion_def demo_tool_run_def

section \<open>Two agents, one symbol\<close>

definition demo_snapshot :: target_snapshot where
  "demo_snapshot = \<lparr>ts_targetSnapshotId = ''snapshot_h'', ts_integrationTargetId = ''main'',
     ts_repositoryId = ''repo'', ts_kind = TK_branch, ts_locator = ''main'', ts_baseCommit = ''c0'',
     ts_candidateIds = [], ts_digest = ''h''\<rparr>"

definition demo_as :: "string \<Rightarrow> string \<Rightarrow> string \<Rightarrow> string \<Rightarrow> event \<Rightarrow> event" where
  "demo_as agent task wt corr e = e\<lparr>agentId := Some agent, taskId := Some task, worktreeId := wt,
     correlationId := corr, source := demo_source (sr_kind (source e)) agent\<rparr>"

definition demo_symbol_change :: "string \<Rightarrow> resource_changed" where
  "demo_symbol_change wt = \<lparr>rc_resource = demo_resource RK_symbol ''sym'', rc_beforeVersion = None,
     rc_afterVersion = demo_version ''sym'' wt ''v1'', rc_changeKind = CK_modified, rc_attribution = None\<rparr>"

definition demo_symbol_run :: "string \<Rightarrow> event list" where
  "demo_symbol_run x = map (demo_as (''a'' @ x) (''t'' @ x) (''wt'' @ x) (''c'' @ x))
     [demo_event (''q'' @ x) Adapter None (Some 1) (ToolRequested demo_tool),
      demo_event (''s'' @ x) Analyzer (Some (''q'' @ x)) None (SymbolChanged (demo_symbol_change (''wt'' @ x))),
      demo_event (''d'' @ x) Adapter (Some (''q'' @ x)) (Some 2)
        (ToolCompleted \<lparr>tc_requestEventId = ''q'' @ x, tc_outcome = Succeeded, tc_exitCode = None,
           tc_effectEventIds = [''s'' @ x], tc_deterministicallyAttributedEffectEventIds = None\<rparr>)]"

definition demo_observation :: concurrency_observation where
  "demo_observation = \<lparr>co_firstTaskId = ''t1'', co_secondTaskId = ''t2'', co_firstChangeEventId = ''s1'',
     co_secondChangeEventId = ''s2'', co_integrationTarget = ''main'', co_coverageId = ''cov''\<rparr>"

definition demo_concurrency_proof :: concurrency_proof where
  "demo_concurrency_proof = \<lparr>cp_firstAgentId = ''a1'', cp_secondAgentId = ''a2'',
     cp_firstWorktreeId = ''wt1'', cp_secondWorktreeId = ''wt2'', cp_targetSnapshot = demo_snapshot,
     cp_overlapProof = Executor_owned_tool_windows \<lparr>tw_firstWindowId = ''w1'', tw_secondWindowId = ''w2'',
       tw_firstRequestEventId = ''q1'', tw_firstCompletionEventId = ''d1'',
       tw_secondRequestEventId = ''q2'', tw_secondCompletionEventId = ''d2''\<rparr>\<rparr>"

definition demo_concurrency :: event where
  "demo_concurrency = demo_event ''evt_o'' Gateway None None
     (TaskConcurrencyV3 demo_observation demo_concurrency_proof)"

definition demo_overlap_run :: "event list" where
  "demo_overlap_run = demo_symbol_run ''1'' @ demo_symbol_run ''2'' @ [demo_concurrency]"

section \<open>A dependent write\<close>

definition demo_read_payload :: resource_observed where
  "demo_read_payload = \<lparr>ro_resource = demo_resource RK_file ''dep'', ro_version = demo_version ''dep'' ''wt'' ''v0'',
     ro_access = AK_read\<rparr>"

definition demo_read :: event where
  "demo_read = demo_event ''evt_r'' Adapter (Some ''evt_q'') (Some 3) (FileRead demo_read_payload)"

definition demo_dependency :: dependency where
  "demo_dependency = \<lparr>dp_dependencyId = ''d1'', dp_dependentResourceId = ''res'', dp_dependencyResourceId = ''dep'',
     dp_dependentVersion = demo_version ''res'' ''wt'' ''v0'', dp_dependencyVersion = demo_version ''dep'' ''wt'' ''v0'',
     dp_observations = [], dp_evidenceEventIds = []\<rparr>"

definition demo_dependency_event :: event where
  "demo_dependency_event = demo_event ''evt_d'' Analyzer (Some ''evt_q'') None (DependencyChanged demo_dependency)"

definition demo_dep_change :: event where
  "demo_dep_change = demo_event ''evt_x'' Watcher (Some ''evt_q'') (Some 7)
     (FileChanged (demo_file_change ''dep'' ''v9''))"

definition demo_link :: write_link where
  "demo_link = \<lparr>wl_dependencyId = ''d1'', wl_resourceId = ''res'', wl_dependsOnReadEventId = ''evt_r'',
     wl_coverageId = ''cov''\<rparr>"

definition demo_token :: observed_read_token where
  "demo_token = \<lparr>rt_schemaVersion = 1, rt_tokenDigest = ''sha256:h'', rt_repositoryId = ''repo'',
     rt_workspaceId = ''ws'', rt_worktreeId = ''wt'', rt_taskId = ''task'', rt_resourceId = ''dep'',
     rt_observedVersion = demo_version ''dep'' ''wt'' ''v0'', rt_readEventId = ''evt_r'',
     rt_targetSnapshot = demo_snapshot\<rparr>"

definition demo_comparison :: write_comparison where
  "demo_comparison = \<lparr>wc_changedEventId = ''evt_x'', wc_coverageId = ''cov'', wc_integrationTarget = ''main''\<rparr>"

definition demo_write_proof :: write_proof where
  "demo_write_proof = \<lparr>wp_readToken = demo_token, wp_targetSnapshot = demo_snapshot,
     wp_writeEffectEventId = ''evt_f'', wp_writeEffectCoverageId = ''cov'', wp_completionEventId = ''evt_c''\<rparr>"

definition demo_write :: event where
  "demo_write = demo_event ''evt_w'' Gateway (Some ''evt_f'') None
     (WriteDependentV3 demo_link demo_comparison demo_write_proof)"

definition demo_write_run :: "event list" where
  "demo_write_run = demo_tool_run @ [demo_read, demo_dependency_event, demo_dep_change, demo_write]"

end
