(* ===== verification/Valid_Events.thy ===== *)
theory Valid_Events
  imports Validation Canonical_Unique Demo_Events
begin

text \<open>
  What an empty result of \<open>validateEventSet\<close> guarantees: the events form a well-founded causal
  forest with one root per correlation, and every relationship event is bound to the events it names.
\<close>

section \<open>Comparing canonical texts compares values\<close>


lemma map_of_map_snd: "map_of (map (\<lambda>e. (fst e, f (snd e))) xs) k = map_option f (map_of xs k)"
  by (induction xs) auto

lemma same_json_field:
  assumes "same_json (JObj es) (JObj es')" and "distinct (map fst es)" "distinct (map fst es')"
  shows "map_option normalize (map_of es k) = map_option normalize (map_of es' k)"
proof -
  have sorted: "map_of (js_sort (\<lambda>a b. compareStrings (fst a) (fst b)) us) = map_of us"
    if "distinct (map fst us)" for us :: "(string \<times> jsval) list"
  proof -
    have "mset (js_sort (\<lambda>a b. compareStrings (fst a) (fst b)) us) = mset us" by simp
    moreover from this have "distinct (map fst (js_sort (\<lambda>a b. compareStrings (fst a) (fst b)) us))"
      using that by (metis mset_map mset_eq_imp_distinct_iff)
    ultimately show ?thesis using that by (simp add: map_of_inject_set)
  qed
  have "map (\<lambda>e. (fst e, normalize (snd e))) (js_sort (\<lambda>a b. compareStrings (fst a) (fst b)) es)
      = map (\<lambda>e. (fst e, normalize (snd e))) (js_sort (\<lambda>a b. compareStrings (fst a) (fst b)) es')"
    using assms(1) by (simp only: same_json_def normalize_obj jsval.inject)
  then have "map_of (map (\<lambda>e. (fst e, normalize (snd e))) (js_sort (\<lambda>a b. compareStrings (fst a) (fst b)) es)) k
     = map_of (map (\<lambda>e. (fst e, normalize (snd e))) (js_sort (\<lambda>a b. compareStrings (fst a) (fst b)) es')) k"
    by simp
  then show ?thesis
    using sorted [OF assms(2)] sorted [OF assms(3)] by (simp add: map_of_map_snd)
qed


lemma is_json_str [simp]: "is_json (j_strs xs)" "is_json (j_null_str x)"
  by (cases x; simp add: j_strs_def j_null_str_def list_all_iff)+

lemma normalize_strs [simp]: "normalize (j_strs xs) = j_strs xs" "normalize (j_null_str x) = j_null_str x"
  by (cases x; simp add: j_strs_def j_null_str_def comp_def)+

lemma j_strs_inject [simp]: "j_strs xs = j_strs ys \<longleftrightarrow> xs = ys"
  by (simp add: j_strs_def inj_map_eq_map inj_def)

lemma j_null_str_inject [simp]: "j_null_str x = j_null_str y \<longleftrightarrow> x = y"
  by (cases x; cases y) (simp_all add: j_null_str_def)

lemma version_kind_str_inject [simp]: "version_kind_str x = version_kind_str y \<longleftrightarrow> x = y"
  by (cases x; cases y) simp_all

lemma integration_target_kind_str_inject [simp]:
  "integration_target_kind_str x = integration_target_kind_str y \<longleftrightarrow> x = y"
  by (cases x; cases y) simp_all

lemma version_domain_same: "normalize (version_domain_json a) = normalize (version_domain_json b) \<longleftrightarrow> a = b"
proof
  assume "normalize (version_domain_json a) = normalize (version_domain_json b)"
  then have "same_json (version_domain_json a) (version_domain_json b)" by (simp add: same_json_def)
  note field = same_json_field [OF this [unfolded version_domain_json_def]]
  show "a = b"
    using field [of "''repositoryId''"] field [of "''workspaceId''"] field [of "''worktreeId''"]
    by (intro version_domain.equality) simp_all
qed simp

lemma version_text_inject: "version_text a = version_text b \<longleftrightarrow> a = b"
proof
  assume "version_text a = version_text b"
  moreover have "is_json (resource_version_json v)" for v
    by (simp add: resource_version_json_def version_domain_json_def)
  ultimately have "same_json (resource_version_json a) (resource_version_json b)"
    by (simp add: canonical_same_iff)
  note field = same_json_field [OF this [unfolded resource_version_json_def]]
  show "a = b"
    using field [of "''resourceId''"] field [of "''domain''"] field [of "''kind''"] field [of "''value''"]
      field [of "''evidenceEventIds''"]
    by (intro resource_version.equality) (simp_all add: version_domain_same)
qed simp

lemma snapshot_text_inject: "snapshot_text a = snapshot_text b \<longleftrightarrow> a = b"
proof
  assume "snapshot_text a = snapshot_text b"
  moreover have "is_json (target_snapshot_json v)" for v
    by (simp add: target_snapshot_json_def)
  ultimately have "same_json (target_snapshot_json a) (target_snapshot_json b)"
    by (simp add: canonical_same_iff)
  then have es: "same_json (JObj [(''targetSnapshotId'', JStr (ts_targetSnapshotId a)),
      (''integrationTargetId'', JStr (ts_integrationTargetId a)), (''repositoryId'', JStr (ts_repositoryId a)),
      (''kind'', JStr (integration_target_kind_str (ts_kind a))), (''locator'', JStr (ts_locator a)),
      (''baseCommit'', JStr (ts_baseCommit a)), (''candidateIds'', j_strs (ts_candidateIds a)),
      (''digest'', JStr (ts_digest a))]) (target_snapshot_json b)"
    by (simp only: target_snapshot_json_def)
  have ids: "distinct (map fst [(''targetSnapshotId'', JStr (ts_targetSnapshotId c)),
      (''integrationTargetId'', JStr (ts_integrationTargetId c)), (''repositoryId'', JStr (ts_repositoryId c)),
      (''kind'', JStr (integration_target_kind_str (ts_kind c))), (''locator'', JStr (ts_locator c)),
      (''baseCommit'', JStr (ts_baseCommit c)), (''candidateIds'', j_strs (ts_candidateIds c)),
      (''digest'', JStr (ts_digest c))])" for c
    by simp
  note field = same_json_field [OF es [unfolded target_snapshot_json_def] ids ids]
  have "ts_targetSnapshotId a = ts_targetSnapshotId b" using field [of "''targetSnapshotId''"] by simp
  moreover have "ts_integrationTargetId a = ts_integrationTargetId b"
    using field [of "''integrationTargetId''"] by simp
  moreover have "ts_repositoryId a = ts_repositoryId b" using field [of "''repositoryId''"] by simp
  moreover have "ts_kind a = ts_kind b" using field [of "''kind''"] by simp
  moreover have "ts_locator a = ts_locator b" using field [of "''locator''"] by simp
  moreover have "ts_baseCommit a = ts_baseCommit b" using field [of "''baseCommit''"] by simp
  moreover have "ts_candidateIds a = ts_candidateIds b" using field [of "''candidateIds''"] by simp
  moreover have "ts_digest a = ts_digest b" using field [of "''digest''"] by simp
  ultimately show "a = b" by (intro target_snapshot.equality) simp_all
qed simp

section \<open>What an empty list of diagnostics means\<close>

definition by_id :: "event list \<Rightarrow> events_by_id" where
  "by_id events = map (\<lambda>e. (eventId e, e)) events"

definition causes :: "event list \<Rightarrow> (string \<times> string) set" where
  "causes events = {(cause, eventId e) | cause e. e \<in> set events \<and> causationId e = Some cause}"

lemma index_events_fresh:
  assumes "distinct (map eventId events)" and "set (map eventId events) \<inter> set (map_keys byId) = {}"
  shows "index_events byId events = ([], byId @ by_id events)"
  using assms
proof (induction events arbitrary: byId)
  case Nil
  then show ?case by (simp add: by_id_def)
next
  case (Cons e es)
  then have "eventId e \<notin> set (map_keys byId)" by auto
  then have "map_get byId (eventId e) = None" "map_set (eventId e) e byId = byId @ [(eventId e, e)]"
    by (simp_all add: map_of_eq_None_iff map_set_fresh)
  moreover have "index_events (byId @ [(eventId e, e)]) es = ([], (byId @ [(eventId e, e)]) @ by_id es)"
    by (rule Cons.IH) (use Cons.prems in auto)
  ultimately show ?case by (simp add: by_id_def)
qed

lemma index_events_distinct: "distinct (map eventId events) \<Longrightarrow> index_events [] events = ([], by_id events)"
  using index_events_fresh [of events "[]"] by simp

lemma by_id_get: "distinct (map eventId events) \<Longrightarrow> e \<in> set events \<Longrightarrow> map_get (by_id events) (eventId e) = Some e"
  unfolding by_id_def by (rule map_of_map_key)

lemma by_id_getD: "map_get (by_id events) k = Some e \<Longrightarrow> e \<in> set events \<and> eventId e = k"
  unfolding by_id_def by (rule map_of_map_key_SomeD)

lemma sortDiagnostics_Nil [diag_simps]: "sortDiagnostics lc ds = [] \<longleftrightarrow> ds = []"
  by (simp add: sortDiagnostics_def)

text \<open>The four passes, separated.\<close>

lemma validateEventSet_passes:
  assumes "distinct (map eventId events)"
  shows "validateEventSet sha lc events = [] \<longleftrightarrow>
    validate_each sha lc (by_id events) [] [] events = []
    \<and> (\<forall>e \<in> set events. \<not> causal_cycle (by_id events) [eventId e] (causationId e))
    \<and> validate_proofs [] events = []"
  using assms
  by (auto simp: validateEventSet_def index_events_distinct diag_simps validate_acyclic_def)

lemma validate_each_Nil:
  assumes "validate_each sha lc byId roots sequences events = []" and "e \<in> set events"
  shows "\<exists>roots sequences. fst (validate_causation byId roots e) = []
    \<and> fst (validate_sequence sequences e) = [] \<and> validate_typed sha lc byId e = []"
  using assms
proof (induction events arbitrary: roots sequences)
  case (Cons x xs)
  obtain c roots' where c: "validate_causation byId roots x = (c, roots')" by force
  obtain s sequences' where s: "validate_sequence sequences x = (s, sequences')" by force
  from Cons.prems(1) have parts: "c = []" "s = []" "validate_typed sha lc byId x = []"
    "validate_each sha lc byId roots' sequences' xs = []" by (simp_all add: c s)
  show ?case
  proof (cases "e = x")
    case True
    with c s parts show ?thesis by (intro exI [of _ roots] exI [of _ sequences]) simp
  next
    case False
    with Cons parts show ?thesis by auto
  qed
qed simp

lemma validate_causation_parent:
  assumes "fst (validate_causation byId roots e) = []" and "causationId e = Some cause"
  obtains parent where "map_get byId cause = Some parent" "correlationId parent = correlationId e"
    "cause \<noteq> eventId e" "producerKey (source parent) = producerKey (source e) \<Longrightarrow>
       sourceSequence parent = Some m \<Longrightarrow> sourceSequence e = Some n \<Longrightarrow> m < n"
proof -
  from assms have "cause \<noteq> eventId e" by (auto simp: validate_causation_def)
  moreover from assms this obtain parent where p: "map_get byId cause = Some parent"
    "validate_parent e parent = []"
    by (auto simp: validate_causation_def split: option.splits if_splits)
  moreover from p have "correlationId parent = correlationId e"
    "producerKey (source parent) = producerKey (source e) \<Longrightarrow>
       sourceSequence parent = Some m \<Longrightarrow> sourceSequence e = Some n \<Longrightarrow> m < n"
    by (auto simp: validate_parent_def diag_simps)
  ultimately show ?thesis using that by blast
qed

text \<open>A walk that never meets a visited identifier ends, so every identifier on it is accessible.\<close>

lemma causal_cycle_acc:
  assumes ids: "distinct (map eventId events)"
    and "\<not> causal_cycle (by_id events) visited cause" and "cause = Some c"
  shows "c \<in> Wellfounded.acc (causes events)"
  using assms(2,3)
proof (induction "by_id events" visited cause arbitrary: c rule: causal_cycle.induct)
  case (1 visited cause)
  have walk: "c \<notin> set visited"
    "\<And>parent. map_get (by_id events) c = Some parent \<Longrightarrow>
       \<not> causal_cycle (by_id events) (c # visited) (causationId parent)"
    using "1.prems" by (subst (asm) causal_cycle.simps; simp split: if_splits)+
  show ?case
  proof (rule accI)
    fix p assume "(p, c) \<in> causes events"
    then obtain e where e: "e \<in> set events" "eventId e = c" "causationId e = Some p"
      by (auto simp: causes_def)
    then have get: "map_get (by_id events) c = Some e" using by_id_get [OF ids] by auto
    show "p \<in> Wellfounded.acc (causes events)"
      using "1.hyps" [OF "1.prems"(2) walk(1) get walk(2) [OF get] e(3)] .
  qed
qed

lemma acyclic_passes_wf:
  assumes ids: "distinct (map eventId events)"
    and "\<forall>e \<in> set events. \<not> causal_cycle (by_id events) [eventId e] (causationId e)"
  shows "wf (causes events)"
proof (rule acc_wfI, rule allI)
  fix c show "c \<in> Wellfounded.acc (causes events)"
  proof (rule accI)
    fix p assume "(p, c) \<in> causes events"
    then obtain e where "e \<in> set events" "causationId e = Some p" by (auto simp: causes_def)
    with assms show "p \<in> Wellfounded.acc (causes events)" using causal_cycle_acc by blast
  qed
qed

text \<open>Claims: within one pass no two events hold the same key.\<close>

lemma claim_fst: "fst (claim cl key i d) = [] \<longleftrightarrow> \<not> claimed_by_other cl key i"
  by (simp add: claim_def)

lemma claim_Nil:
  assumes "fst (claim cl key i d) = []"
  shows "snd (claim cl key i d) = map_set key i cl"
  using assms by (simp add: claim_def split: if_splits)

lemma validate_roots:
  assumes "validate_each sha lc byId roots sequences events = []" and "e \<in> set events"
    and "causationId e = None" and "map_get roots (correlationId e) = Some r" and "r \<noteq> []"
  shows "eventId e = r"
  using assms
proof (induction events arbitrary: roots sequences)
  case (Cons x xs)
  obtain c roots' where c: "validate_causation byId roots x = (c, roots')" by force
  obtain s sequences' where s: "validate_sequence sequences x = (s, sequences')" by force
  from Cons.prems(1) have parts: "c = []" 
    "validate_each sha lc byId roots' sequences' xs = []" by (simp_all add: c s)
  show ?case
  proof (cases "e = x")
    case True
    with c parts(1) Cons.prems show ?thesis
      by (auto simp: validate_causation_def claim_def claimed_by_other_def split: if_splits)
  next
    case False
    have "map_get roots' (correlationId e) = Some r"
      using c parts(1) Cons.prems(4,5)
      by (auto simp: validate_causation_def claim_def claimed_by_other_def js_simps
          split: if_splits option.splits)
    with Cons False parts(2) show ?thesis by auto
  qed
qed simp

lemma validate_one_root:
  assumes "validate_each sha lc byId roots sequences events = []" and "e \<in> set events" "e' \<in> set events"
    and "causationId e = None" "causationId e' = None" "correlationId e = correlationId e'"
    and "eventId e \<noteq> []" "eventId e' \<noteq> []"
  shows "eventId e = eventId e'"
  using assms
proof (induction events arbitrary: roots sequences)
  case (Cons x xs)
  obtain c roots' where c: "validate_causation byId roots x = (c, roots')" by force
  obtain s sequences' where s: "validate_sequence sequences x = (s, sequences')" by force
  from Cons.prems(1) have parts: "c = []" 
    "validate_each sha lc byId roots' sequences' xs = []" by (simp_all add: c s)
  have root: "map_get roots' (correlationId x) = Some (eventId x)" if "causationId x = None"
    using c parts(1) that by (auto simp: validate_causation_def claim_def js_simps split: if_splits)
  show ?case
  proof (cases "e = x"; cases "e' = x")
    assume "e = x" "e' \<noteq> x"
    then show ?thesis
      using validate_roots [OF parts(2), of e'] root Cons.prems by simp
  next
    assume "e \<noteq> x" "e' = x"
    then show ?thesis
      using validate_roots [OF parts(2), of e] root Cons.prems by simp
  next
    assume "e \<noteq> x" "e' \<noteq> x"
    then show ?thesis
      using Cons.IH [OF parts(2)] Cons.prems by simp
  qed simp
qed simp

text \<open>The order of the events is a well-founded causal forest, one tree per correlation.\<close>

lemma valid_parent:
  assumes ids: "distinct (map eventId events)" and valid: "validateEventSet sha lc events = []"
    and "e \<in> set events" and "causationId e = Some cause"
  obtains parent where "parent \<in> set events" "eventId parent = cause"
    "correlationId parent = correlationId e" "cause \<noteq> eventId e"
proof -
  from valid have "validate_each sha lc (by_id events) [] [] events = []"
    by (simp add: validateEventSet_passes [OF ids])
  from validate_each_Nil [OF this assms(3)] obtain roots
    where "fst (validate_causation (by_id events) roots e) = []" by blast
  from validate_causation_parent [OF this assms(4)] that show ?thesis
    by (metis by_id_getD)
qed

lemma valid_wf:
  assumes "distinct (map eventId events)" and "validateEventSet sha lc events = []"
  shows "wf (causes events)"
  using assms by (intro acyclic_passes_wf) (simp_all add: validateEventSet_passes)

lemma valid_root_exists:
  assumes ids: "distinct (map eventId events)" and valid: "validateEventSet sha lc events = []"
    and "e \<in> set events"
  shows "\<exists>r \<in> set events. causationId r = None \<and> correlationId r = correlationId e
    \<and> (eventId r, eventId e) \<in> (causes events)\<^sup>*"
proof -
  have "\<forall>e \<in> set events. eventId e = i \<longrightarrow> (\<exists>r \<in> set events. causationId r = None
    \<and> correlationId r = correlationId e \<and> (eventId r, eventId e) \<in> (causes events)\<^sup>*)" for i
  proof (induction i rule: wf_induct_rule [OF valid_wf [OF ids valid]])
    case (1 i)
    show ?case
    proof (intro ballI impI)
      fix e assume e: "e \<in> set events" "eventId e = i"
      show "\<exists>r \<in> set events. causationId r = None \<and> correlationId r = correlationId e
        \<and> (eventId r, eventId e) \<in> (causes events)\<^sup>*"
      proof (cases "causationId e")
        case None
        with e show ?thesis by auto
      next
        case (Some cause)
        from valid_parent [OF ids valid e(1) this] obtain parent where
          p: "parent \<in> set events" "eventId parent = cause" "correlationId parent = correlationId e" .
        from e Some have edge: "(cause, i) \<in> causes events" by (auto simp: causes_def)
        from 1 [OF this] p obtain r where "r \<in> set events" "causationId r = None"
          "correlationId r = correlationId e" "(eventId r, cause) \<in> (causes events)\<^sup>*" by auto
        moreover from this(4) edge have "(eventId r, eventId e) \<in> (causes events)\<^sup>*"
          using e(2) by auto
        ultimately show ?thesis by blast
      qed
    qed
  qed
  with assms(3) show ?thesis by blast
qed

lemma valid_typed:
  assumes ids: "distinct (map eventId events)" and valid: "validateEventSet sha lc events = []"
    and "e \<in> set events"
  shows "validate_typed sha lc (by_id events) e = []"
  using validate_each_Nil [OF _ assms(3)] valid by (auto simp: validateEventSet_passes [OF ids])

lemma valid_roots_unique:
  assumes ids: "distinct (map eventId events)" and valid: "validateEventSet sha lc events = []"
    and "r \<in> set events" "r' \<in> set events" "causationId r = None" "causationId r' = None"
    and "correlationId r = correlationId r'" and "eventId r \<noteq> []" "eventId r' \<noteq> []"
  shows "r = r'"
proof -
  from valid have "validate_each sha lc (by_id events) [] [] events = []"
    by (simp add: validateEventSet_passes [OF ids])
  from validate_one_root [OF this] assms(3-) have "eventId r = eventId r'" by blast
  with ids assms(3,4) show ?thesis by (meson distinct_map inj_onD)
qed

section \<open>Reading one validator's silence\<close>

lemma eventType_symbol_changed: "eventType e = ET_symbol_changed \<longleftrightarrow> (\<exists>c. payload e = SymbolChanged c)"
  unfolding eventType_def by (cases "payload e") auto

lemma payload_symbol_changed_Some: "payload_symbol_changed q = Some c \<longleftrightarrow> q = SymbolChanged c"
  by (cases q) auto

lemma payload_completed_Some: "payload_completed q = Some c \<longleftrightarrow> q = ToolCompleted c"
  by (cases q) auto

lemma payload_file_changed_Some: "payload_file_changed q = Some c \<longleftrightarrow> q = FileChanged c"
  by (cases q) auto

lemma payload_dependency_Some: "payload_dependency q = Some c \<longleftrightarrow> q = DependencyChanged c"
  by (cases q) auto

lemma validate_concurrent_symbol:
  "validate_concurrent_change e changeId task byId name = [] \<Longrightarrow>
   \<exists>change c. map_get byId changeId = Some change \<and> payload change = SymbolChanged c"
  by (auto simp: validate_concurrent_change_def Let_def eventType_symbol_changed
      split: option.splits if_splits)

text \<open>The tool call of a window: a request and its completion, which declares the change.\<close>

definition window_encloses :: "event list \<Rightarrow> string \<Rightarrow> string \<Rightarrow> event \<Rightarrow> bool" where
  "window_encloses events requestId completionId change \<longleftrightarrow>
     (\<exists>rq \<in> set events. \<exists>co \<in> set events. \<exists>tq tc. eventId rq = requestId \<and> payload rq = ToolRequested tq
        \<and> eventId co = completionId \<and> payload co = ToolCompleted tc \<and> tc_requestEventId tc = requestId
        \<and> eventId change \<in> set (tc_effectEventIds tc) \<and> taskId rq = taskId change
        \<and> taskId co = taskId change \<and> sameDomain rq change \<and> sameDomain co change)"

lemma payload_requested_Some: "payload_requested q = Some c \<longleftrightarrow> q = ToolRequested c"
  by (cases q) auto

lemma validate_window_bound:
  assumes "validate_window (by_id events) path requestId completionId task (Some change) = []"
    and "taskId change = Some task"
  shows "window_encloses events requestId completionId change"
proof -
  from assms(1) obtain rq co where get: "map_get (by_id events) requestId = Some rq"
    "map_get (by_id events) completionId = Some co"
    by (auto simp: validate_window_def diag_simps split: option.splits)
  from assms(1) have facts: "payload_requested (payload rq) \<noteq> None" "taskId rq = Some task"
    "taskId co = Some task" "sameDomain rq change" "sameDomain co change"
    by (simp_all add: validate_window_def get diag_simps)
  from assms(1) obtain tc where tc: "payload_completed (payload co) = Some tc"
    "tc_requestEventId tc = requestId" "eventId change \<in> set (tc_effectEventIds tc)"
    by (cases "payload_completed (payload co)") (simp_all add: validate_window_def get diag_simps)
  from facts(1) obtain tq where tq: "payload rq = ToolRequested tq"
    unfolding not_None_eq payload_requested_Some by blast
  show ?thesis
    unfolding window_encloses_def
    by (intro bexI [of _ rq] bexI [of _ co] exI [of _ tq] exI [of _ tc])
      (simp_all add: facts tq tc [unfolded payload_completed_Some] assms(2)
        by_id_getD [OF get(1)] by_id_getD [OF get(2)])
qed

lemma validate_write_read_bound:
  "validate_write_read e l byId = [] \<Longrightarrow> \<exists>read r. map_get byId (wl_dependsOnReadEventId l) = Some read
     \<and> payload_read (payload read) = Some r \<and> sameDomain e read \<and> taskId e \<noteq> None \<and> taskId read = taskId e"
  by (cases "map_get byId (wl_dependsOnReadEventId l)")
    (simp_all add: validate_write_read_def Let_def diag_simps not_None_eq [symmetric] del: not_None_eq
      split: if_splits)

lemma find_dependency_bound:
  assumes "find_dependency (by_id events) i = Some (de, d)"
  shows "de \<in> set events \<and> payload de = DependencyChanged d \<and> dp_dependencyId d = i"
proof -
  let ?P = "\<lambda>candidate. case payload_dependency (payload candidate) of
     None \<Rightarrow> False | Some d \<Rightarrow> dp_dependencyId d = i"
  from assms have found: "List.find ?P (map_values (by_id events)) = Some de"
    and d: "payload_dependency (payload de) = Some d"
    unfolding find_dependency_def
    by (cases "List.find ?P (map_values (by_id events))"; simp; blast)+
  from find_SomeD [OF found] d show ?thesis
    by (auto simp: by_id_def payload_dependency_Some)
qed

lemma validate_write_dependency_bound:
  assumes "validate_write_dependency e l (by_id events) = []"
    and "map_get (by_id events) (wl_dependsOnReadEventId l) = Some read" "payload_read (payload read) = Some r"
  shows "\<exists>de \<in> set events. \<exists>d. payload de = DependencyChanged d \<and> dp_dependencyId d = wl_dependencyId l
    \<and> dp_dependentResourceId d = wl_resourceId l \<and> dp_dependencyResourceId d = lr_resourceId (ro_resource r)"
proof (cases "find_dependency (by_id events) (wl_dependencyId l)")
  case None
  with assms(1) show ?thesis by (simp add: validate_write_dependency_def)
next
  case (Some found)
  obtain de d where found: "found = (de, d)" by (cases found)
  with Some have "find_dependency (by_id events) (wl_dependencyId l) = Some (de, d)" by simp
  from assms(1) find_dependency_bound [OF this] show ?thesis
    by (intro bexI [of _ de] exI [of _ d])
      (simp_all add: validate_write_dependency_def Some found assms(2,3) diag_simps)
qed

lemma validate_write_cause_bound:
  "validate_write_cause e l (by_id events) = [] \<Longrightarrow> \<exists>changed \<in> set events. \<exists>c.
     causationId e = Some (eventId changed) \<and> payload_changed (payload changed) = Some c
     \<and> lr_resourceId (rc_resource c) = wl_resourceId l"
  by (cases "Option.bind (causationId e) (map_get (by_id events))")
    (auto simp: validate_write_cause_def diag_simps bind_eq_Some_conv split: option.splits
      dest!: by_id_getD)

section \<open>Concrete valid sets\<close>

lemma demo_tool_run_valid: "validateEventSet (\<lambda>_. ''h'') compareStrings demo_tool_run = []"
  by code_simp

lemma demo_overlap_run_valid: "validateEventSet (\<lambda>_. ''h'') compareStrings demo_overlap_run = []"
  by code_simp

lemma demo_write_run_valid: "validateEventSet (\<lambda>_. ''h'') compareStrings demo_write_run = []"
  by code_simp

lemma demo_distinct: "distinct (map eventId demo_tool_run)" "distinct (map eventId demo_overlap_run)"
  "distinct (map eventId demo_write_run)"
  by code_simp+

section \<open>Properties\<close>

text \<open>
  C6: A set of events with distinct, non-empty identifiers that validates without diagnostics is a
  causal forest: the "causes" relation is well-founded (no cycle), and every event descends from
  exactly one root event (an event without a cause) of its own correlation.
\<close>

theorem valid_causal_forest:
  assumes "distinct (map eventId events)" and "\<forall>e \<in> set events. eventId e \<noteq> []"
    and "validateEventSet sha lc events = []"
  shows "wf (causes events)
    \<and> (\<forall>e \<in> set events. \<exists>!r. r \<in> set events \<and> causationId r = None \<and> correlationId r = correlationId e
         \<and> (eventId r, eventId e) \<in> (causes events)\<^sup>*)"
proof (intro conjI ballI)
  show "wf (causes events)" using assms by (intro valid_wf)
  fix e assume e: "e \<in> set events"
  from valid_root_exists [OF assms(1,3) e] obtain r where r: "r \<in> set events" "causationId r = None"
    "correlationId r = correlationId e" "(eventId r, eventId e) \<in> (causes events)\<^sup>*" by blast
  moreover have "r' = r" if "r' \<in> set events" "causationId r' = None"
    "correlationId r' = correlationId e" for r'
    using valid_roots_unique [OF assms(1,3) that(1) r(1) that(2) r(2)] that r assms(2) by simp
  ultimately show "\<exists>!r. r \<in> set events \<and> causationId r = None \<and> correlationId r = correlationId e
      \<and> (eventId r, eventId e) \<in> (causes events)\<^sup>*" by blast
qed

theorem valid_causal_forest_witness:
  "wf (causes demo_tool_run) \<and> (\<exists>!r. r \<in> set demo_tool_run \<and> causationId r = None
     \<and> correlationId r = ''corr'' \<and> (eventId r, ''evt_c'') \<in> (causes demo_tool_run)\<^sup>*)"
proof -
  have ids: "\<forall>e \<in> set demo_tool_run. eventId e \<noteq> []" by (simp add: demo_simps)
  have e: "demo_completion \<in> set demo_tool_run" by (simp add: demo_tool_run_def)
  note forest = valid_causal_forest [OF demo_distinct(1) ids demo_tool_run_valid]
  from forest e show ?thesis by (force simp: demo_completion_def demo_event_def)
qed

text \<open>
  In a valid set every tool completion names a \<open>tool.requested\<close> event of the same domain and
  correlation and is caused by it or by one of its declared effects; and every effect it attributes
  deterministically is a declared watcher \<open>file.changed\<close> event of the same domain, correlation,
  agent and task, of a completion that succeeded.
\<close>

theorem valid_tool_completion:
  assumes "distinct (map eventId events)" and "validateEventSet sha lc events = []"
    and "e \<in> set events" and "payload e = ToolCompleted p"
  shows "(\<exists>request \<in> set events. eventId request = tc_requestEventId p
      \<and> eventType request = ET_tool_requested \<and> sameDomain e request
      \<and> correlationId request = correlationId e
      \<and> (causationId e = Some (eventId request) \<or> (\<exists>c \<in> set (tc_effectEventIds p). causationId e = Some c)))
    \<and> (\<forall>f \<in> set (case tc_deterministicallyAttributedEffectEventIds p of None \<Rightarrow> [] | Some fs \<Rightarrow> fs).
         tc_outcome p = Succeeded \<and> f \<in> set (tc_effectEventIds p)
         \<and> (\<exists>effect \<in> set events. eventId effect = f \<and> eventType effect = ET_file_changed
              \<and> sr_kind (source effect) = Watcher \<and> sameDomain e effect
              \<and> correlationId effect = correlationId e \<and> agentId effect = agentId e
              \<and> taskId effect = taskId e))"
proof -
  have diags: "validateToolCompletion e (by_id events) = []"
    using valid_typed [OF assms(1-3)] by (simp add: validate_typed_def)
  then obtain request where get: "map_get (by_id events) (tc_requestEventId p) = Some request"
    by (auto simp: validateToolCompletion_def Let_def assms(4) split: option.splits)
  have effect: "validate_effect e p (by_id events) f = []"
    if "f \<in> set (case tc_deterministicallyAttributedEffectEventIds p of None \<Rightarrow> [] | Some fs \<Rightarrow> fs)" for f
    using diags that by (simp add: validateToolCompletion_def Let_def assms(4) get)
  have rq: "eventType request = ET_tool_requested \<and> sameDomain e request
      \<and> correlationId request = correlationId e
      \<and> (causationId e = Some (tc_requestEventId p) \<or> (\<exists>c \<in> set (tc_effectEventIds p). causationId e = Some c))"
    using diags by (auto simp: validateToolCompletion_def Let_def assms(4) get diag_simps split: option.splits)
  have effects: "tc_outcome p = Succeeded \<and> f \<in> set (tc_effectEventIds p)
      \<and> (\<exists>effect \<in> set events. eventId effect = f \<and> eventType effect = ET_file_changed
            \<and> sr_kind (source effect) = Watcher \<and> sameDomain e effect
            \<and> correlationId effect = correlationId e \<and> agentId effect = agentId e
            \<and> taskId effect = taskId e)"
    if "f \<in> set (case tc_deterministicallyAttributedEffectEventIds p of None \<Rightarrow> [] | Some fs \<Rightarrow> fs)" for f
    using effect [OF that]
    by (auto simp: validate_effect_def Let_def diag_simps dest!: by_id_getD split: if_splits option.splits)
  show ?thesis
    using rq by_id_getD [OF get] by (intro conjI ballI effects bexI [of _ request]) auto
qed

theorem valid_tool_completion_witness:
  "\<exists>request \<in> set demo_tool_run. eventId request = ''evt_q'' \<and> sameDomain demo_completion request"
proof -
  have e: "demo_completion \<in> set demo_tool_run" by (simp add: demo_tool_run_def)
  have p: "payload demo_completion = ToolCompleted (demo_done ''evt_q'' [''evt_f''])"
    by (simp add: demo_completion_def demo_event_def)
  from valid_tool_completion [OF demo_distinct(1) demo_tool_run_valid e p]
  show ?thesis by (auto simp: demo_done_def)
qed

text \<open>
  C35: In a valid set a version 3 concurrency proof really is about two agents, two tasks and two
  worktrees that changed one symbol: both changes are persisted \<open>symbol.changed\<close> events made by
  the declared agent, task and worktree, on the same resource; and when the proof rests on tool
  windows, each window is a request and a completion of that request, in the domain of its change
  and by its task, whose declared effects contain the change.
\<close>

theorem valid_concurrency_proof:
  assumes "distinct (map eventId events)" and "validateEventSet sha lc events = []"
    and "e \<in> set events" and "payload e = TaskConcurrencyV3 ob p"
  shows "\<exists>first \<in> set events. \<exists>second \<in> set events. \<exists>c d.
      eventId first = co_firstChangeEventId ob \<and> payload first = SymbolChanged c
    \<and> eventId second = co_secondChangeEventId ob \<and> payload second = SymbolChanged d
    \<and> agentId first \<noteq> agentId second \<and> taskId first \<noteq> taskId second
    \<and> worktreeId first \<noteq> worktreeId second \<and> repositoryId first = repositoryId second
    \<and> lr_resourceId (rc_resource c) = lr_resourceId (rc_resource d)
    \<and> agentId first = Some (cp_firstAgentId p) \<and> taskId first = Some (co_firstTaskId ob)
    \<and> agentId second = Some (cp_secondAgentId p) \<and> taskId second = Some (co_secondTaskId ob)
    \<and> worktreeId first = cp_firstWorktreeId p \<and> worktreeId second = cp_secondWorktreeId p
    \<and> (\<forall>w. cp_overlapProof p = Executor_owned_tool_windows w \<longrightarrow>
         window_encloses events (tw_firstRequestEventId w) (tw_firstCompletionEventId w) first
       \<and> window_encloses events (tw_secondRequestEventId w) (tw_secondCompletionEventId w) second)"
proof -
  have diags: "validateTaskConcurrencyObservation e (by_id events) = []"
    "validateProofConcurrency sha e (by_id events) = []"
    using valid_typed [OF assms(1-3)] by (simp_all add: validate_typed_def)
  note observed = diags(1) [unfolded validateTaskConcurrencyObservation_def assms(4), simplified Let_def, simplified]
  obtain first c where first: "map_get (by_id events) (co_firstChangeEventId ob) = Some first"
    "payload first = SymbolChanged c"
    using observed validate_concurrent_symbol by blast
  obtain second d where second: "map_get (by_id events) (co_secondChangeEventId ob) = Some second"
    "payload second = SymbolChanged d"
    using observed validate_concurrent_symbol by blast
  note bindings = diags(2) [unfolded validateProofConcurrency_def assms(4)]
  have bound: "cp_firstAgentId p \<noteq> cp_secondAgentId p" "co_firstTaskId ob \<noteq> co_secondTaskId ob"
    "cp_firstWorktreeId p \<noteq> cp_secondWorktreeId p"
    "repositoryId first = repositoryId e" "repositoryId second = repositoryId e"
    "agentId first = Some (cp_firstAgentId p)" "agentId second = Some (cp_secondAgentId p)"
    "taskId first = Some (co_firstTaskId ob)" "taskId second = Some (co_secondTaskId ob)"
    "worktreeId first = cp_firstWorktreeId p" "worktreeId second = cp_secondWorktreeId p"
    "lr_resourceId (rc_resource c) = lr_resourceId (rc_resource d)"
    using bindings first second by (auto simp: Let_def diag_simps)
  have windows: "\<forall>w. cp_overlapProof p = Executor_owned_tool_windows w \<longrightarrow>
         window_encloses events (tw_firstRequestEventId w) (tw_firstCompletionEventId w) first
       \<and> window_encloses events (tw_secondRequestEventId w) (tw_secondCompletionEventId w) second"
    using bindings first second bound(8,9) by (auto simp: Let_def intro!: validate_window_bound)
  have "first \<in> set events" "second \<in> set events" "eventId first = co_firstChangeEventId ob"
    "eventId second = co_secondChangeEventId ob"
    using first second by_id_getD by blast+
  then show ?thesis
    using first(2) second(2) bound windows
    by (intro bexI [of _ first] bexI [of _ second] exI [of _ c] exI [of _ d]) simp_all
qed

theorem valid_concurrency_proof_witness:
  "\<exists>first \<in> set demo_overlap_run. \<exists>second \<in> set demo_overlap_run.
     agentId first \<noteq> agentId second \<and> worktreeId first \<noteq> worktreeId second
     \<and> window_encloses demo_overlap_run ''q1'' ''d1'' first
     \<and> window_encloses demo_overlap_run ''q2'' ''d2'' second"
proof -
  have e: "demo_concurrency \<in> set demo_overlap_run" by (simp add: demo_overlap_run_def)
  have p: "payload demo_concurrency = TaskConcurrencyV3 demo_observation demo_concurrency_proof"
    by (simp add: demo_concurrency_def demo_event_def)
  from valid_concurrency_proof [OF demo_distinct(2) demo_overlap_run_valid e p]
  show ?thesis by (fastforce simp: demo_concurrency_proof_def)
qed

text \<open>
  C36: In a valid set a version 3 dependent write is bound to everything it names: its read is a
  persisted read by the same task of the dependency's dependency resource, at exactly the version
  the observed-read token records; the resource it writes is the dependent of that dependency and
  is changed by its cause; and its effect is a file change of the written resource by the same
  task, attributed deterministically by a completion that succeeded.
\<close>

theorem valid_dependent_write:
  assumes "distinct (map eventId events)" and "validateEventSet sha lc events = []"
    and "e \<in> set events" and "payload e = WriteDependentV3 l cmp p"
  shows "\<exists>read \<in> set events. \<exists>de \<in> set events. \<exists>changed \<in> set events. \<exists>effect \<in> set events.
    \<exists>co \<in> set events. \<exists>r d c f tc.
      eventId read = wl_dependsOnReadEventId l \<and> payload_read (payload read) = Some r
    \<and> taskId read = taskId e \<and> taskId e \<noteq> None \<and> sameDomain e read
    \<and> rt_readEventId (wp_readToken p) = eventId read
    \<and> rt_observedVersion (wp_readToken p) = ro_version r
    \<and> rt_targetSnapshot (wp_readToken p) = wp_targetSnapshot p
    \<and> payload de = DependencyChanged d \<and> dp_dependencyId d = wl_dependencyId l
    \<and> dp_dependentResourceId d = wl_resourceId l
    \<and> dp_dependencyResourceId d = lr_resourceId (ro_resource r)
    \<and> causationId e = Some (eventId changed) \<and> payload_changed (payload changed) = Some c
    \<and> lr_resourceId (rc_resource c) = wl_resourceId l
    \<and> eventId effect = wp_writeEffectEventId p \<and> payload effect = FileChanged f
    \<and> lr_resourceId (rc_resource f) = wl_resourceId l \<and> taskId effect = taskId e
    \<and> eventId co = wp_completionEventId p \<and> payload co = ToolCompleted tc \<and> tc_outcome tc = Succeeded
    \<and> taskId co = taskId e
    \<and> eventId effect \<in> set (the (tc_deterministicallyAttributedEffectEventIds tc))"
proof -
  have observed: "validateDependentWrite e (by_id events) = []"
    and bound: "validateProofDependentWrite sha e (by_id events) = []"
    using valid_typed [OF assms(1-3)] by (simp_all add: validate_typed_def)
  from observed have parts: "validate_write_read e l (by_id events) = []"
    "validate_write_dependency e l (by_id events) = []" "validate_write_cause e l (by_id events) = []"
    by (simp_all add: validateDependentWrite_def assms(4))
  from validate_write_read_bound [OF parts(1)] obtain read r where read:
    "map_get (by_id events) (wl_dependsOnReadEventId l) = Some read" "payload_read (payload read) = Some r"
    "sameDomain e read" "taskId e \<noteq> None" "taskId read = taskId e" by blast
  from validate_write_dependency_bound [OF parts(2) read(1,2)] obtain de d where de: "de \<in> set events"
    "payload de = DependencyChanged d" "dp_dependencyId d = wl_dependencyId l"
    "dp_dependentResourceId d = wl_resourceId l" "dp_dependencyResourceId d = lr_resourceId (ro_resource r)"
    by blast
  from validate_write_cause_bound [OF parts(3)] obtain changed c where changed: "changed \<in> set events"
    "causationId e = Some (eventId changed)" "payload_changed (payload changed) = Some c"
    "lr_resourceId (rc_resource c) = wl_resourceId l" by blast
  note proofs = bound [unfolded validateProofDependentWrite_def assms(4), simplified payload.case Let_def]
  from proofs have token: "rt_readEventId (wp_readToken p) = wl_dependsOnReadEventId l"
    "rt_targetSnapshot (wp_readToken p) = wp_targetSnapshot p"
    by (simp_all add: diag_simps snapshot_text_inject)
  from proofs token(1) read(1,2) have version: "rt_observedVersion (wp_readToken p) = ro_version r"
    by (simp add: diag_simps version_text_inject)
  from proofs obtain effect f where effect: "map_get (by_id events) (wp_writeEffectEventId p) = Some effect"
    "payload effect = FileChanged f" "lr_resourceId (rc_resource f) = wl_resourceId l" "taskId effect = taskId e"
    by (auto simp: diag_simps payload_file_changed_Some split: option.splits)
  from proofs obtain co tc where co: "map_get (by_id events) (wp_completionEventId p) = Some co"
    "payload co = ToolCompleted tc" "tc_outcome tc = Succeeded" "taskId co = taskId e"
    "wp_writeEffectEventId p \<in> set (the (tc_deterministicallyAttributedEffectEventIds tc))"
    by (auto simp: diag_simps payload_completed_Some split: option.splits)
  have ids: "read \<in> set events" "eventId read = wl_dependsOnReadEventId l"
    "effect \<in> set events" "eventId effect = wp_writeEffectEventId p"
    "co \<in> set events" "eventId co = wp_completionEventId p"
    using by_id_getD [OF read(1)] by_id_getD [OF effect(1)] by_id_getD [OF co(1)] by blast+
  have names: "rt_readEventId (wp_readToken p) = eventId read"
    "eventId effect \<in> set (the (tc_deterministicallyAttributedEffectEventIds tc))"
    using token(1) co(5) by (simp_all only: ids)
  show ?thesis
    by (intro bexI [OF _ ids(1)] bexI [OF _ de(1)] bexI [OF _ changed(1)] bexI [OF _ ids(3)]
        bexI [OF _ ids(5)] exI [of _ r] exI [of _ d] exI [of _ c] exI [of _ f] exI [of _ tc] conjI; fact)
qed

theorem valid_dependent_write_witness:
  "\<exists>read \<in> set demo_write_run. eventId read = ''evt_r'' \<and> taskId read = taskId demo_write
     \<and> payload_read (payload read) \<noteq> None"
proof -
  have e: "demo_write \<in> set demo_write_run" by (simp add: demo_write_run_def)
  have p: "payload demo_write = WriteDependentV3 demo_link demo_comparison demo_write_proof"
    by (simp add: demo_write_def demo_event_def)
  from valid_dependent_write [OF demo_distinct(3) demo_write_run_valid e p]
  show ?thesis by (fastforce simp: demo_link_def)
qed

end
