(* ===== verification/Min_Heap.thy ===== *)
theory Min_Heap
  imports Prelude
begin

text \<open>
  The class \<open>MinHeap\<close> of \<open>packages/storage/src/replay.ts\<close>: a binary heap in an array, and the
  interface its client needs.  The array is a list; a read outside the array is \<open>undefined\<close>, which
  is \<open>None\<close> here, and the two while loops are \<open>sift_up\<close> and \<open>sift_down\<close>.
\<close>

section \<open>The code\<close>

definition value_at :: "'a list \<Rightarrow> nat \<Rightarrow> 'a option" where
  "value_at vals index = (if index < length vals then Some (vals ! index) else None)"

function sift_up :: "('a \<Rightarrow> 'a \<Rightarrow> int) \<Rightarrow> 'a list \<Rightarrow> nat \<Rightarrow> 'a list" where
  "sift_up compare vals index =
     (if index > 0
      then let parent = (index - 1) div 2
           in case (value_at vals index, value_at vals parent) of
                (Some current, Some parentValue) \<Rightarrow>
                  if compare current parentValue \<ge> 0 then vals
                  else sift_up compare (vals[index := parentValue, parent := current]) parent
              | _ \<Rightarrow> vals
      else vals)"
  by pat_completeness auto

termination
  by (relation "measure (\<lambda>(compare, vals, index). index)") auto

definition heap_push :: "('a \<Rightarrow> 'a \<Rightarrow> int) \<Rightarrow> 'a \<Rightarrow> 'a list \<Rightarrow> 'a list" where
  "heap_push compare v vals = sift_up compare (vals @ [v]) (length vals)"

definition below :: "('a \<Rightarrow> 'a \<Rightarrow> int) \<Rightarrow> 'a list \<Rightarrow> nat \<Rightarrow> nat \<Rightarrow> bool" where
  "below compare vals i j = (case (value_at vals i, value_at vals j) of
     (Some x, Some y) \<Rightarrow> compare x y < 0 | _ \<Rightarrow> False)"

definition smallest_of :: "('a \<Rightarrow> 'a \<Rightarrow> int) \<Rightarrow> 'a list \<Rightarrow> nat \<Rightarrow> nat" where
  "smallest_of compare vals index =
     (let left = index * 2 + 1;
          right = left + 1;
          smallest = (if below compare vals left index then left else index)
      in if below compare vals right smallest then right else smallest)"

lemma smallest_of_cases: "smallest_of compare vals index = index
    \<or> (index < smallest_of compare vals index \<and> smallest_of compare vals index < length vals)"
  by (auto simp: smallest_of_def below_def value_at_def Let_def)

function sift_down :: "('a \<Rightarrow> 'a \<Rightarrow> int) \<Rightarrow> 'a list \<Rightarrow> nat \<Rightarrow> 'a list" where
  "sift_down compare vals index =
     (let smallest = smallest_of compare vals index
      in if smallest = index then vals
         else sift_down compare (vals[index := vals ! smallest, smallest := vals ! index]) smallest)"
  by pat_completeness auto

termination
proof (relation "measure (\<lambda>(compare, vals, index). length vals - index)")
  fix compare :: "'a \<Rightarrow> 'a \<Rightarrow> int" and vals :: "'a list" and index smallest :: nat
  assume "smallest = smallest_of compare vals index" "smallest \<noteq> index"
  then show "((compare, vals[index := vals ! smallest, smallest := vals ! index], smallest),
      compare, vals, index) \<in> measure (\<lambda>(compare, vals, index). length vals - index)"
    using smallest_of_cases [of compare vals index] by auto
qed simp

definition heap_pop :: "('a \<Rightarrow> 'a \<Rightarrow> int) \<Rightarrow> 'a list \<Rightarrow> 'a option \<times> 'a list" where
  "heap_pop compare vals =
     (case vals of
        [] \<Rightarrow> (None, [])
      | first # rest \<Rightarrow>
          if rest = [] then (Some first, [])
          else (Some first, sift_down compare ((butlast vals)[0 := last vals]) 0))"

declare sift_up.simps [simp del] sift_down.simps [simp del]

section \<open>The interface of a priority queue\<close>

locale priority_queue =
  fixes cmp :: "'a \<Rightarrow> 'a \<Rightarrow> int"
    and empty :: 'q
    and push :: "'a \<Rightarrow> 'q \<Rightarrow> 'q"
    and pop :: "'q \<Rightarrow> 'a option \<times> 'q"
    and elems :: "'q \<Rightarrow> 'a multiset"
    and inv :: "'q \<Rightarrow> bool"
  assumes empty_elems: "elems empty = {#}" and empty_inv: "inv empty"
    and push_elems: "elems (push x q) = add_mset x (elems q)"
    and push_inv: "inv q \<Longrightarrow> inv (push x q)"
    and pop_None: "fst (pop q) = None \<longleftrightarrow> elems q = {#}"
    and pop_elems: "fst (pop q) = Some x \<Longrightarrow> elems q = add_mset x (elems (snd (pop q)))"
    and pop_inv: "inv q \<Longrightarrow> inv (snd (pop q))"
    and pop_least: "inv q \<Longrightarrow> fst (pop q) = Some x \<Longrightarrow> y \<in># elems q \<Longrightarrow> cmp x y \<le> 0"
begin

lemma push_all_elems: "elems (foldl (\<lambda>q x. push x q) q xs) = elems q + mset xs"
  by (induction xs arbitrary: q) (simp_all add: push_elems)

lemma push_all_inv: "inv q \<Longrightarrow> inv (foldl (\<lambda>q x. push x q) q xs)"
  by (induction xs arbitrary: q) (simp_all add: push_inv)

end

section \<open>The array is a heap\<close>

definition heap_edge :: "('a \<Rightarrow> 'a \<Rightarrow> int) \<Rightarrow> 'a list \<Rightarrow> nat \<Rightarrow> bool" where
  "heap_edge cmp xs i \<longleftrightarrow> cmp (xs ! ((i - 1) div 2)) (xs ! i) \<le> 0"

definition is_heap :: "('a \<Rightarrow> 'a \<Rightarrow> int) \<Rightarrow> 'a list \<Rightarrow> bool" where
  "is_heap cmp xs \<longleftrightarrow> (\<forall>i. 0 < i \<and> i < length xs \<longrightarrow> heap_edge cmp xs i)"

text \<open>
  \<open>up_heap i\<close>: a heap except that entry \<open>i\<close> may be smaller than its parent; its children are not
  below its parent.  \<open>down_heap i\<close>: a heap except that entry \<open>i\<close> may be larger than its children.
\<close>

definition up_heap :: "('a \<Rightarrow> 'a \<Rightarrow> int) \<Rightarrow> 'a list \<Rightarrow> nat \<Rightarrow> bool" where
  "up_heap cmp xs i \<longleftrightarrow> (\<forall>j. 0 < j \<and> j < length xs \<and> j \<noteq> i \<longrightarrow> heap_edge cmp xs j)
     \<and> (\<forall>j. 0 < i \<and> j < length xs \<and> 0 < j \<and> (j - 1) div 2 = i \<longrightarrow> cmp (xs ! ((i - 1) div 2)) (xs ! j) \<le> 0)"

definition down_heap :: "('a \<Rightarrow> 'a \<Rightarrow> int) \<Rightarrow> 'a list \<Rightarrow> nat \<Rightarrow> bool" where
  "down_heap cmp xs i \<longleftrightarrow> (\<forall>j. 0 < j \<and> j < length xs \<and> (j - 1) div 2 \<noteq> i \<longrightarrow> heap_edge cmp xs j)
     \<and> (\<forall>j. 0 < i \<and> j < length xs \<and> 0 < j \<and> (j - 1) div 2 = i \<longrightarrow> cmp (xs ! ((i - 1) div 2)) (xs ! j) \<le> 0)"

lemma swap_mset:
  "i < length xs \<Longrightarrow> j < length xs \<Longrightarrow> mset (xs[i := xs ! j, j := xs ! i]) = mset xs"
  by (rule mset_swap)

lemma sift_up_mset: "index < length vals \<Longrightarrow> mset (sift_up cmp vals index) = mset vals"
proof (induction cmp vals index rule: sift_up.induct)
  case (1 cmp vals index)
  show ?case
  proof (cases "0 < index \<and> cmp (vals ! index) (vals ! ((index - 1) div 2)) < 0")
    case True
    let ?p = "(index - 1) div 2"
    have p: "?p < length vals" using "1.prems" by linarith
    have "mset (sift_up cmp (vals[index := vals ! ?p, ?p := vals ! index]) ?p) = mset vals"
      using "1.IH" [OF _ refl refl] True p "1.prems" by (simp add: value_at_def swap_mset)
    then show ?thesis
      using True p "1.prems" by (subst sift_up.simps) (simp add: value_at_def Let_def)
  next
    case False
    then show ?thesis
      by (subst sift_up.simps) (auto simp: value_at_def Let_def)
  qed
qed

lemma sift_down_mset: "index < length vals \<Longrightarrow> mset (sift_down cmp vals index) = mset vals"
proof (induction cmp vals index rule: sift_down.induct)
  case (1 cmp vals index)
  show ?case
  proof (cases "smallest_of cmp vals index = index")
    case True
    then show ?thesis by (subst sift_down.simps) simp
  next
    case False
    then have s: "smallest_of cmp vals index < length vals"
      using smallest_of_cases [of cmp vals index] by simp
    then show ?thesis
      using "1.IH" [OF refl False] False "1.prems"
      by (subst sift_down.simps) (simp add: Let_def swap_mset)
  qed
qed


subsection \<open>Sifting up\<close>

lemma nth_swap: "i < length xs \<Longrightarrow> j < length xs \<Longrightarrow>
    (xs[i := xs ! j, j := xs ! i]) ! k = (if k = j then xs ! i else if k = i then xs ! j else xs ! k)"
  by (cases "i = j") (simp_all add: nth_list_update)

lemma up_heap_step:
  assumes c: "comparator cmp" and h: "up_heap cmp xs i" and i: "0 < i" "i < length xs"
    and less: "cmp (xs ! i) (xs ! ((i - 1) div 2)) < 0"
  shows "up_heap cmp (xs[i := xs ! ((i - 1) div 2), (i - 1) div 2 := xs ! i]) ((i - 1) div 2)"
proof -
  let ?p = "(i - 1) div 2"
  let ?ys = "xs[i := xs ! ?p, ?p := xs ! i]"
  have p: "?p < i" "?p < length xs" using i by linarith+
  note nth = nth_swap [OF i(2) p(2)]
  note refl = comparator.refl [OF c] and trans = comparator.trans_le [OF c]
  have edge: "cmp (xs ! ((j - 1) div 2)) (xs ! j) \<le> 0" if "0 < j" "j < length xs" "j \<noteq> i" for j
    using h that by (auto simp: up_heap_def heap_edge_def)
  have grand: "cmp (xs ! ?p) (xs ! j) \<le> 0" if "j < length xs" "0 < j" "(j - 1) div 2 = i" for j
    using h that i by (auto simp: up_heap_def)
  have "heap_edge cmp ?ys j" if j: "0 < j" "j < length ?ys" "j \<noteq> ?p" for j
  proof -
    have jl: "j < length xs" using j(2) by simp
    consider "j = i" | "j \<noteq> i" "(j - 1) div 2 = i" | "j \<noteq> i" "(j - 1) div 2 = ?p" "?p \<noteq> i"
      | "j \<noteq> i" "(j - 1) div 2 \<noteq> i" "(j - 1) div 2 \<noteq> ?p" using p by auto
    then show ?thesis
    proof cases
      case 1
      then show ?thesis using i p less p i by (simp add: heap_edge_def nth)
    next
      case 2
      then show ?thesis using i p grand [OF jl j(1)] j p by (simp add: heap_edge_def nth)
    next
      case 3
      have "cmp (xs ! i) (xs ! j) \<le> 0"
        using trans [of "xs ! i" "xs ! ?p" "xs ! j"] less edge [OF j(1) jl 3(1)] 3 by simp
      then show ?thesis using i p 3 j by (simp add: heap_edge_def nth)
    next
      case 4
      then show ?thesis using i p edge [OF j(1) jl] j by (simp add: heap_edge_def nth)
    qed
  qed
  moreover have "cmp (?ys ! ((?p - 1) div 2)) (?ys ! j) \<le> 0"
    if j: "0 < ?p" "j < length ?ys" "0 < j" "(j - 1) div 2 = ?p" for j
  proof -
    have jl: "j < length xs" using j(2) by simp
    let ?g = "(?p - 1) div 2"
    have g: "?g \<noteq> ?p" "?g \<noteq> i" using j(1) p by linarith+
    have top: "cmp (xs ! ?g) (xs ! ?p) \<le> 0" using edge [OF j(1) p(2)] p by simp
    have "j \<noteq> ?p" using j(3,4) by linarith
    show ?thesis
    proof (cases "j = i")
      case True
      then show ?thesis using i p top g p by (simp add: nth)
    next
      case False
      then have "cmp (xs ! ?g) (xs ! j) \<le> 0"
        using trans [OF top] edge [OF j(3) jl False] j(4) by simp
      then show ?thesis using i p False g \<open>j \<noteq> ?p\<close> by (simp add: nth)
    qed
  qed
  ultimately show ?thesis unfolding up_heap_def by blast
qed

lemma sift_up_heap:
  assumes c: "comparator cmp"
  shows "up_heap cmp xs i \<Longrightarrow> i < length xs \<Longrightarrow> is_heap cmp (sift_up cmp xs i)"
proof (induction i arbitrary: xs rule: less_induct)
  case (less i)
  let ?p = "(i - 1) div 2"
  show ?case
  proof (cases "0 < i \<and> cmp (xs ! i) (xs ! ?p) < 0")
    case True
    then have p: "?p < i" "?p < length xs" using less.prems(2) by linarith+
    have "is_heap cmp (sift_up cmp (xs[i := xs ! ?p, ?p := xs ! i]) ?p)"
      using less.IH [OF p(1)] up_heap_step [OF c less.prems(1) _ less.prems(2)] True p by simp
    then show ?thesis
      using True p less.prems by (subst sift_up.simps) (simp add: value_at_def Let_def)
  next
    case False
    then have stop: "sift_up cmp xs i = xs"
      using less.prems by (subst sift_up.simps) (auto simp: value_at_def Let_def)
    have "heap_edge cmp xs i" if "0 < i"
      using False that comparator.flip [OF c, of "xs ! i" "xs ! ?p"] by (simp add: heap_edge_def)
    then show ?thesis
      using less.prems unfolding stop is_heap_def up_heap_def by blast
  qed
qed

lemma push_heap:
  assumes c: "comparator cmp" and "is_heap cmp xs"
  shows "is_heap cmp (heap_push cmp x xs)"
  unfolding heap_push_def
proof (rule sift_up_heap [OF c])
  show "up_heap cmp (xs @ [x]) (length xs)"
    unfolding up_heap_def
  proof (intro conjI allI impI)
    fix j assume "0 < j \<and> j < length (xs @ [x]) \<and> j \<noteq> length xs"
    then have "0 < j" "j < length xs" "(j - 1) div 2 < length xs" by auto
    then show "heap_edge cmp (xs @ [x]) j"
      using assms(2) by (simp add: is_heap_def heap_edge_def nth_append)
  next
    fix j assume "0 < length xs \<and> j < length (xs @ [x]) \<and> 0 < j \<and> (j - 1) div 2 = length xs"
    then have False by auto
    then show "cmp ((xs @ [x]) ! ((length xs - 1) div 2)) ((xs @ [x]) ! j) \<le> 0" ..
  qed
qed simp

subsection \<open>Sifting down\<close>

lemma smallest_of_least:
  assumes c: "comparator cmp" and "i < length xs" and "j < length xs" "0 < j" "(j - 1) div 2 = i"
  shows "cmp (xs ! smallest_of cmp xs i) (xs ! j) \<le> 0"
proof -
  have j: "j = i * 2 + 1 \<or> j = i * 2 + 2" using assms(4,5) by linarith
  note flip = comparator.flip [OF c] and refl = comparator.refl [OF c]
    and trans = comparator.trans_le [OF c]
  show ?thesis
    using j assms(2,3) flip [of "xs ! (i * 2 + 1)" "xs ! i"] flip [of "xs ! (i * 2 + 2)" "xs ! i"]
      flip [of "xs ! (i * 2 + 2)" "xs ! (i * 2 + 1)"]
      trans [of "xs ! (i * 2 + 2)" "xs ! i" "xs ! (i * 2 + 1)"]
    by (auto simp: smallest_of_def below_def value_at_def Let_def refl not_less
        dest: order.strict_implies_order split: if_splits)
qed

lemma smallest_of_edge:
  assumes "smallest_of cmp xs i \<noteq> i"
  shows "0 < smallest_of cmp xs i \<and> (smallest_of cmp xs i - 1) div 2 = i"
  using assms by (auto simp: smallest_of_def Let_def split: if_splits)

lemma smallest_of_below:
  assumes c: "comparator cmp" and "smallest_of cmp xs i \<noteq> i"
  shows "cmp (xs ! smallest_of cmp xs i) (xs ! i) \<le> 0"
proof -
  note trans = comparator.trans_le [OF c, of "xs ! (i * 2 + 2)" "xs ! (i * 2 + 1)" "xs ! i"]
  show ?thesis
    using assms(2) trans
    by (auto simp: smallest_of_def below_def value_at_def Let_def split: if_splits)
qed

lemma down_heap_step:
  assumes c: "comparator cmp" and h: "down_heap cmp xs i" and i: "i < length xs"
    and move: "smallest_of cmp xs i \<noteq> i"
  defines "s \<equiv> smallest_of cmp xs i"
  shows "down_heap cmp (xs[i := xs ! s, s := xs ! i]) s"
proof -
  let ?ys = "xs[i := xs ! s, s := xs ! i]"
  have s: "i < s" "s < length xs" "0 < s" "(s - 1) div 2 = i"
    using move smallest_of_cases [of cmp xs i] smallest_of_edge [OF move] by (auto simp: s_def)
  note nth = nth_swap [OF i s(2)]
  have edge: "cmp (xs ! ((j - 1) div 2)) (xs ! j) \<le> 0" if "0 < j" "j < length xs" "(j - 1) div 2 \<noteq> i" for j
    using h that by (auto simp: down_heap_def heap_edge_def)
  have grand: "cmp (xs ! ((i - 1) div 2)) (xs ! j) \<le> 0" if "0 < i" "j < length xs" "0 < j" "(j - 1) div 2 = i" for j
    using h that by (auto simp: down_heap_def)
  have "heap_edge cmp ?ys j" if j: "0 < j" "j < length ?ys" "(j - 1) div 2 \<noteq> s" for j
  proof -
    have jl: "j < length xs" using j(2) by simp
    consider "j = s" | "j \<noteq> s" "(j - 1) div 2 = i" | "j = i" | "j \<noteq> s" "j \<noteq> i" "(j - 1) div 2 \<noteq> i"
      by blast
    then show ?thesis
    proof cases
      case 1
      then show ?thesis using smallest_of_below [OF c move] s by (simp add: heap_edge_def nth s_def)
    next
      case 2
      then have "j \<noteq> i" using j(1) by linarith
      then show ?thesis
        using 2 smallest_of_least [OF c i jl j(1) 2(2)] s by (simp add: heap_edge_def nth s_def)
    next
      case 3
      then have "(j - 1) div 2 \<noteq> i" using j(1) by linarith
      then show ?thesis using 3 grand [OF _ s(2) s(3) s(4)] j s by (simp add: heap_edge_def nth)
    next
      case 4
      then show ?thesis using edge [OF j(1) jl] j by (simp add: heap_edge_def nth)
    qed
  qed
  moreover have "cmp (?ys ! ((s - 1) div 2)) (?ys ! j) \<le> 0"
    if j: "0 < s" "j < length ?ys" "0 < j" "(j - 1) div 2 = s" for j
  proof -
    have "j \<noteq> s" "j \<noteq> i" using j(3,4) s by linarith+
    moreover have "cmp (xs ! s) (xs ! j) \<le> 0" using edge [OF j(3)] j s by simp
    ultimately show ?thesis using s by (simp add: nth)
  qed
  ultimately show ?thesis unfolding down_heap_def by blast
qed

lemma sift_down_heap:
  assumes c: "comparator cmp"
  shows "down_heap cmp xs i \<Longrightarrow> i < length xs \<Longrightarrow> is_heap cmp (sift_down cmp xs i)"
proof (induction "length xs - i" arbitrary: xs i rule: less_induct)
  case less
  let ?s = "smallest_of cmp xs i"
  show ?case
  proof (cases "?s = i")
    case True
    have "heap_edge cmp xs j" if "0 < j" "j < length xs" "(j - 1) div 2 = i" for j
      using smallest_of_least [OF c less.prems(2) that(2,1,3)] True that by (simp add: heap_edge_def)
    then have "is_heap cmp xs" using less.prems(1) by (auto simp: is_heap_def down_heap_def)
    then show ?thesis using True by (subst sift_down.simps) simp
  next
    case False
    then have s: "i < ?s" "?s < length xs" using smallest_of_cases [of cmp xs i] by auto
    have "is_heap cmp (sift_down cmp (xs[i := xs ! ?s, ?s := xs ! i]) ?s)"
      by (rule less.hyps) (use s less.prems down_heap_step [OF c less.prems False] in simp_all)
    then show ?thesis using False by (subst sift_down.simps) (simp add: Let_def)
  qed
qed

lemma heap_root_least:
  assumes c: "comparator cmp" and "is_heap cmp xs"
  shows "i < length xs \<Longrightarrow> cmp (xs ! 0) (xs ! i) \<le> 0"
proof (induction i rule: less_induct)
  case (less i)
  show ?case
  proof (cases "i = 0")
    case True
    then show ?thesis by (simp add: comparator.refl [OF c])
  next
    case False
    then have p: "(i - 1) div 2 < i" "(i - 1) div 2 < length xs" using less.prems by linarith+
    have "cmp (xs ! ((i - 1) div 2)) (xs ! i) \<le> 0"
      using assms(2) False less.prems by (auto simp: is_heap_def heap_edge_def)
    then show ?thesis using less.IH [OF p] comparator.trans_le [OF c] by blast
  qed
qed

lemma heap_pop_cases:
  "heap_pop cmp [] = (None, [])"
  "heap_pop cmp [x] = (Some x, [])"
  "heap_pop cmp (x # y # ys) = (Some x, sift_down cmp ((butlast (x # y # ys))[0 := last (y # ys)]) 0)"
  by (simp_all add: heap_pop_def)

lemma heap_pop_elems:
  assumes "fst (heap_pop cmp xs) = Some x"
  shows "mset xs = add_mset x (mset (snd (heap_pop cmp xs)))"
proof (cases xs rule: remdups_adj.cases)
  case (3 a b ys)
  have "mset (sift_down cmp ((butlast xs)[0 := last (b # ys)]) 0) = mset ((butlast xs)[0 := last (b # ys)])"
    using 3 by (intro sift_down_mset) simp
  also have "\<dots> = mset (last (b # ys) # butlast (b # ys))" using 3 by simp
  also have "\<dots> = mset (butlast (b # ys) @ [last (b # ys)])" by simp
  also have "\<dots> = mset (b # ys)" by (simp only: append_butlast_last_id [OF list.discI] refl)
  finally show ?thesis using assms 3 by (simp add: heap_pop_cases)
qed (use assms in \<open>auto simp: heap_pop_cases\<close>)

lemma heap_pop_heap:
  assumes c: "comparator cmp" and h: "is_heap cmp xs"
  shows "is_heap cmp (snd (heap_pop cmp xs))"
proof (cases xs rule: remdups_adj.cases)
  case (3 a b ys)
  let ?zs = "(butlast xs)[0 := last (b # ys)]"
  have "down_heap cmp ?zs 0"
    unfolding down_heap_def
  proof (intro conjI allI impI)
    fix j assume j: "0 < j \<and> j < length ?zs \<and> (j - 1) div 2 \<noteq> 0"
    then have "heap_edge cmp xs j" using h by (auto simp: is_heap_def)
    moreover have "j < length xs - 1" "(j - 1) div 2 < length xs - 1" using j by auto
    ultimately show "heap_edge cmp ?zs j"
      using j by (simp add: heap_edge_def nth_butlast)
  qed simp
  then have "is_heap cmp (sift_down cmp ?zs 0)"
    using 3 by (intro sift_down_heap [OF c]) simp_all
  then show ?thesis using 3 by (simp add: heap_pop_cases)
qed (auto simp: heap_pop_cases is_heap_def)

lemma heap_priority_queue:
  assumes "comparator cmp"
  shows "priority_queue cmp [] (heap_push cmp) (heap_pop cmp) mset (is_heap cmp)"
proof unfold_locales
  show "mset (heap_push cmp x q) = add_mset x (mset q)" for x q
    by (simp add: heap_push_def sift_up_mset)
  show "is_heap cmp (heap_push cmp x q)" if "is_heap cmp q" for x q
    by (rule push_heap [OF assms that])
  show "fst (heap_pop cmp q) = None \<longleftrightarrow> mset q = {#}" for q
    by (cases q rule: remdups_adj.cases) (simp_all add: heap_pop_cases)
  show "mset q = add_mset x (mset (snd (heap_pop cmp q)))" if "fst (heap_pop cmp q) = Some x" for x q
    by (rule heap_pop_elems [OF that])
  show "is_heap cmp (snd (heap_pop cmp q))" if "is_heap cmp q" for q
    by (rule heap_pop_heap [OF assms that])
  show "cmp x y \<le> 0" if h: "is_heap cmp q" and x: "fst (heap_pop cmp q) = Some x" and y: "y \<in># mset q" for q x y
  proof -
    from x have "q \<noteq> [] \<and> q ! 0 = x"
      by (cases q rule: remdups_adj.cases) (simp_all add: heap_pop_cases)
    moreover obtain i where "i < length q" "q ! i = y" using y by (auto simp: in_set_conv_nth)
    ultimately show ?thesis using heap_root_least [OF assms h] by blast
  qed
qed (simp_all add: is_heap_def)

end
