(* ===== verification/Replay.thy ===== *)
theory Replay
  imports Valid_Events Min_Heap
begin

text \<open>
  Causal replay: \<open>packages/storage/src/replay.ts\<close>.

  \<open>causalOrder\<close> is the loop of the source: it pops the ready event with the smallest identifier and
  pushes that event's children, until no event is pending.  The loop is a \<open>partial_function\<close> over the
  two operations of the queue, so that ending is a theorem (\<open>causal_order_total\<close>) and not a
  consequence of how it is written; \<open>causalOrder\<close> runs it on the binary heap.  A thrown
  \<open>StorageError\<close> is the left summand.  \<open>deepFreeze\<close> has no effect on a value of this model.
\<close>

section \<open>The code\<close>

datatype storage_error =
  Storage_error (se_code: string) (se_message: string) (se_details: "(string \<times> string) list")

fun index_unique :: "events_by_id \<Rightarrow> event list \<Rightarrow> storage_error + events_by_id" where
  "index_unique byId [] = Inr byId"
| "index_unique byId (e # es) =
     (if map_has byId (eventId e)
      then Inl (Storage_error ''PHASE0_ID_CONFLICT'' ''replay input contains a duplicate event ID''
                  [(''eventId'', eventId e)])
      else index_unique (map_set (eventId e) e byId) es)"

type_synonym children = "(string, event list) js_map"

definition children_of :: "children \<Rightarrow> string \<Rightarrow> event list" where
  "children_of children parent = (case map_get children parent of None \<Rightarrow> [] | Some es \<Rightarrow> es)"

fun seed_ready :: "(event \<Rightarrow> 'q \<Rightarrow> 'q) \<Rightarrow> children \<Rightarrow> 'q \<Rightarrow> event list \<Rightarrow> children \<times> 'q" where
  "seed_ready push children ready [] = (children, ready)"
| "seed_ready push children ready (e # es) =
     (case causationId e of
        None \<Rightarrow> seed_ready push children (push e ready) es
      | Some cause \<Rightarrow>
          seed_ready push (map_set cause (children_of children cause @ [e]) children) ready es)"

definition unresolved :: "events_by_id \<Rightarrow> events_by_id \<Rightarrow> storage_error" where
  "unresolved byId pending =
     (case List.find (\<lambda>e. case causationId e of None \<Rightarrow> False | Some c \<Rightarrow> \<not> map_has byId c)
             (map_values pending) of
        Some missing \<Rightarrow> Storage_error ''PHASE0_REFERENCE_MISSING'' ''causal parent is absent''
          [(''eventId'', eventId missing),
           (''causationId'', case causationId missing of None \<Rightarrow> '''' | Some c \<Rightarrow> c)]
      | None \<Rightarrow> Storage_error ''M2_REPLAY_CAUSALITY_UNRESOLVED''
          ''causal replay contains an unresolved dependency'' [])"

partial_function (option) drain ::
    "(event \<Rightarrow> 'q \<Rightarrow> 'q) \<Rightarrow> ('q \<Rightarrow> event option \<times> 'q) \<Rightarrow> events_by_id \<Rightarrow> children \<Rightarrow> 'q
     \<Rightarrow> events_by_id \<Rightarrow> event list \<Rightarrow> (storage_error + event list) option" where
  "drain push pop byId children ready pending ordered =
     (if pending = [] then Some (Inr ordered)
      else case pop ready of
          (None, ready') \<Rightarrow> Some (Inl (unresolved byId pending))
        | (Some next, ready') \<Rightarrow>
            drain push pop byId children
              (foldl (\<lambda>q child. push child q) ready' (children_of children (eventId next)))
              (AList.delete (eventId next) pending) (ordered @ [next]))"

declare drain.simps [code]

definition by_event_id :: "event \<Rightarrow> event \<Rightarrow> int" where
  "by_event_id left right = compareStrings (eventId left) (eventId right)"

definition causalOrder :: "event list \<Rightarrow> (storage_error + event list) option" where
  "causalOrder events =
     (case index_unique [] events of
        Inl err \<Rightarrow> Some (Inl err)
      | Inr byId \<Rightarrow>
          (case seed_ready (heap_push by_event_id) [] [] events of (children, ready) \<Rightarrow>
             drain (heap_push by_event_id) (heap_pop by_event_id) byId children ready byId []))"

section \<open>What the order is: the least ready event first\<close>

definition ready_events :: "event set \<Rightarrow> event set \<Rightarrow> event set" where
  "ready_events E D = {e \<in> E. e \<notin> D \<and> (\<forall>c. causationId e = Some c \<longrightarrow> c \<in> eventId ` D)}"

definition least_ready_first :: "event set \<Rightarrow> event list \<Rightarrow> bool" where
  "least_ready_first E out \<longleftrightarrow> (\<forall>k < length out. out ! k \<in> ready_events E (set (take k out))
     \<and> (\<forall>x \<in> ready_events E (set (take k out)). eventId (out ! k) \<le> eventId x))"

lemma least_ready_first_Nil [simp]: "least_ready_first E []"
  by (simp add: least_ready_first_def)

lemma least_ready_first_snoc:
  "least_ready_first E (out @ [x]) \<longleftrightarrow> least_ready_first E out \<and> x \<in> ready_events E (set out)
     \<and> (\<forall>y \<in> ready_events E (set out). eventId x \<le> eventId y)"
  unfolding least_ready_first_def
  by (auto simp: nth_append less_Suc_eq) 

lemma least_ready_first_subset: "least_ready_first E out \<Longrightarrow> set out \<subseteq> E \<and> distinct out"
  by (induction out rule: rev_induct) (auto simp: least_ready_first_snoc ready_events_def)

lemma least_ready_first_unique:
  assumes "inj_on eventId E"
  shows "least_ready_first E out \<Longrightarrow> least_ready_first E out' \<Longrightarrow> length out = length out' \<Longrightarrow> out = out'"
proof (induction out arbitrary: out' rule: rev_induct)
  case (snoc x out)
  then obtain y ys where out': "out' = ys @ [y]" by (cases out' rule: rev_cases) auto
  with snoc have "out = ys" by (auto simp: least_ready_first_snoc)
  moreover from this snoc out' have "eventId x = eventId y" "x \<in> E" "y \<in> E"
    by (auto simp: least_ready_first_snoc ready_events_def intro: order.antisym)
  ultimately show ?case using assms out' by (auto dest: inj_onD)
qed simp

lemma least_ready_first_parent:
  assumes "least_ready_first E out" and "k < length out" and "causationId (out ! k) = Some c"
  shows "\<exists>j < k. eventId (out ! j) = c"
proof -
  from assms have "c \<in> eventId ` set (take k out)"
    by (auto simp: least_ready_first_def ready_events_def)
  then obtain i where "i < k" "c = eventId (out ! i)"
    using assms(2) by (auto simp: in_set_conv_nth)
  then show ?thesis by blast
qed

lemma least_ready_first_closed:
  "least_ready_first E out \<Longrightarrow> e \<in> set out \<Longrightarrow> causationId e = Some c \<Longrightarrow> c \<in> eventId ` set out"
  by (induction out rule: rev_induct) (auto simp: least_ready_first_snoc ready_events_def)

section \<open>The loop, over any priority queue of events\<close>

lemma index_unique_fresh:
  assumes "set (map eventId events) \<inter> set (map_keys byId) = {}"
  shows "index_unique byId events =
    (if distinct (map eventId events) then Inr (byId @ by_id events)
     else index_unique byId events) \<and> (isl (index_unique byId events) \<longleftrightarrow> \<not> distinct (map eventId events))"
  using assms
proof (induction events arbitrary: byId)
  case Nil
  then show ?case by (simp add: by_id_def)
next
  case (Cons e es)
  have fresh: "eventId e \<notin> set (map_keys byId)" using Cons.prems by auto
  then have step: "index_unique byId (e # es) = index_unique (byId @ [(eventId e, e)]) es"
    by (simp add: map_set_fresh map_of_eq_None_iff)
  show ?case
  proof (cases "eventId e \<in> set (map eventId es)")
    case True
    have "isl (index_unique byId' es)" if "eventId e \<in> set (map_keys byId')" for byId'
      using True that
    proof (induction es arbitrary: byId')
      case (Cons x xs)
      show ?case
      proof (cases "map_has byId' (eventId x)")
        case False
        with Cons.prems have "eventId e \<noteq> eventId x" by (auto simp: map_of_eq_None_iff image_iff)
        with Cons.prems have "eventId e \<in> set (map eventId xs)" by auto
        moreover from Cons.prems(2) have "eventId e \<in> set (map_keys (map_set (eventId x) x byId'))"
          by (simp add: map_keys_set del: set_map)
        ultimately show ?thesis using Cons.IH False by simp
      qed simp
    qed simp
    with step True show ?thesis by simp
  next
    case False
    then have "set (map eventId es) \<inter> set (map_keys (byId @ [(eventId e, e)])) = {}"
      using Cons.prems by auto
    from Cons.IH [OF this] step False show ?thesis by (auto simp: by_id_def)
  qed
qed

lemma index_unique_eq: "distinct (map eventId events) \<Longrightarrow> index_unique [] events = Inr (by_id events)"
  using index_unique_fresh [of events "[]"] by simp

lemma index_unique_dup: "\<not> distinct (map eventId events) \<Longrightarrow> \<exists>err. index_unique [] events = Inl err"
  using index_unique_fresh [of events "[]"] by (cases "index_unique [] events") auto

definition children_spec :: "event list \<Rightarrow> string \<Rightarrow> event list" where
  "children_spec events c = filter (\<lambda>e. causationId e = Some c) events"

lemma seed_children:
  "children_of (fst (seed_ready push children ready events)) c
   = children_of children c @ children_spec events c"
proof (induction events arbitrary: children ready)
  case (Cons e es)
  then show ?case
    by (cases "causationId e") (auto simp: children_of_def children_spec_def js_simps)
qed (simp add: children_spec_def)

lemma seed_queue:
  "snd (seed_ready push children ready events)
   = foldl (\<lambda>q e. push e q) ready (filter (\<lambda>e. causationId e = None) events)"
  by (induction events arbitrary: children ready) (auto split: option.splits)

definition still_pending :: "event list \<Rightarrow> event set \<Rightarrow> events_by_id" where
  "still_pending events D = by_id (filter (\<lambda>e. e \<notin> D) events)"

lemma still_pending_Nil: "still_pending events D = [] \<longleftrightarrow> set events \<subseteq> D"
  by (auto simp: still_pending_def by_id_def filter_empty_conv)

lemma still_pending_delete:
  assumes "distinct (map eventId events)" and "x \<in> set events"
  shows "AList.delete (eventId x) (still_pending events D) = still_pending events (insert x D)"
proof -
  have "eventId x \<noteq> eventId e \<longleftrightarrow> e \<noteq> x" if "e \<in> set events" for e
    using assms that by (auto dest: distinct_map [THEN iffD1] inj_onD)
  then have "filter (\<lambda>e. e \<notin> D \<and> eventId x \<noteq> eventId e) events = filter (\<lambda>e. e \<notin> insert x D) events"
    by (intro filter_cong) auto
  then show ?thesis
    by (simp add: still_pending_def by_id_def AList.delete_eq filter_map comp_def conj_commute)
qed

lemma ready_step:
  assumes "inj_on eventId E" and "D \<subseteq> E" and "\<forall>e \<in> D. \<forall>c. causationId e = Some c \<longrightarrow> c \<in> eventId ` D"
    and "x \<in> ready_events E D"
  shows "ready_events E (insert x D)
      = (ready_events E D - {x}) \<union> {e \<in> E. causationId e = Some (eventId x)}"
    and "{e \<in> E. causationId e = Some (eventId x)} \<inter> ready_events E D = {}"
proof -
  have "x \<in> E" "x \<notin> D" using assms(4) by (auto simp: ready_events_def)
  moreover from this have "eventId x \<notin> eventId ` D"
    using inj_on_image_mem_iff [OF assms(1) _ assms(2)] by blast
  ultimately have x: "x \<in> E" "x \<notin> D" "eventId x \<notin> eventId ` D" "causationId x \<noteq> Some (eventId x)"
    using assms(4) by (auto simp: ready_events_def)
  show "{e \<in> E. causationId e = Some (eventId x)} \<inter> ready_events E D = {}"
    using x(3) by (auto simp: ready_events_def)
  show "ready_events E (insert x D)
      = (ready_events E D - {x}) \<union> {e \<in> E. causationId e = Some (eventId x)}"
    using x assms(3) by (auto simp: ready_events_def)
qed

locale event_queue = priority_queue by_event_id empty push pop elems inv
  for empty :: 'q and push :: "event \<Rightarrow> 'q \<Rightarrow> 'q" and pop :: "'q \<Rightarrow> event option \<times> 'q"
    and elems :: "'q \<Rightarrow> event multiset" and inv :: "'q \<Rightarrow> bool"
begin

lemma drain_result:
  assumes ids: "distinct (map eventId events)"
    and children: "\<And>c. children_of children c = children_spec events c"
  shows "inv q \<Longrightarrow> elems q = mset_set (ready_events (set events) (set ordered))
    \<Longrightarrow> least_ready_first (set events) ordered
    \<Longrightarrow> (\<exists>out. drain push pop (by_id events) children q (still_pending events (set ordered)) ordered
               = Some (Inr out) \<and> least_ready_first (set events) out \<and> set out = set events)
      \<or> (\<exists>D. drain push pop (by_id events) children q (still_pending events (set ordered)) ordered
               = Some (Inl (unresolved (by_id events) (still_pending events D)))
             \<and> D \<subset> set events \<and> ready_events (set events) D = {}
             \<and> (\<forall>e \<in> D. \<forall>c. causationId e = Some c \<longrightarrow> c \<in> eventId ` D))"
proof (induction "card (set events - set ordered)" arbitrary: q ordered rule: less_induct)
  case less
  let ?E = "set events" and ?D = "set ordered"
  have inj: "inj_on eventId ?E" using ids by (simp add: distinct_map)
  have sub: "?D \<subseteq> ?E" using less.prems(3) least_ready_first_subset by blast
  have closed: "\<forall>e \<in> ?D. \<forall>c. causationId e = Some c \<longrightarrow> c \<in> eventId ` ?D"
    using least_ready_first_closed [OF less.prems(3)] by blast
  show ?case
  proof (cases "?E \<subseteq> ?D")
    case True
    then have "drain push pop (by_id events) children q (still_pending events ?D) ordered = Some (Inr ordered)"
      by (subst drain.simps) (simp add: still_pending_Nil)
    with True sub less.prems(3) show ?thesis by blast
  next
    case pending: False
    show ?thesis
    proof (cases "fst (pop q)")
      case None
      then have "drain push pop (by_id events) children q (still_pending events ?D) ordered
          = Some (Inl (unresolved (by_id events) (still_pending events ?D)))"
        using pending by (subst drain.simps) (auto simp: still_pending_Nil split: prod.splits)
      moreover have "ready_events ?E ?D = {}"
        using None pop_None [of q] less.prems(2) by (simp add: mset_set_empty_iff ready_events_def)
      ultimately show ?thesis using pending sub closed by blast
    next
      case (Some x)
      let ?q = "foldl (\<lambda>q child. push child q) (snd (pop q)) (children_spec events (eventId x))"
      have fin: "finite (ready_events ?E ?D)" by (simp add: ready_events_def)
      have members: "y \<in># elems q \<longleftrightarrow> y \<in> ready_events ?E ?D" for y
        using less.prems(2) fin by simp
      have x: "x \<in> ready_events ?E ?D"
        using pop_elems [OF Some] members [of x] by simp
      have least: "\<forall>y \<in> ready_events ?E ?D. eventId x \<le> eventId y"
        using pop_least [OF less.prems(1) Some] members by (simp add: by_event_id_def compareStrings_le)
      have "mset_set (ready_events ?E ?D) = add_mset x (mset_set (ready_events ?E ?D - {x}))"
        using x fin by (rule mset_set.remove [OF _ _, rotated])
      then have rest: "elems (snd (pop q)) = mset_set (ready_events ?E ?D - {x})"
        using pop_elems [OF Some] less.prems(2) by simp
      have kids: "mset (children_spec events (eventId x)) = mset_set {e \<in> ?E. causationId e = Some (eventId x)}"
        using ids
        by (simp add: children_spec_def mset_set_set [symmetric] distinct_map)
      note step = ready_step [OF inj sub closed x]
      have elems: "elems ?q = mset_set (ready_events ?E (set (ordered @ [x])))"
        using step(2) fin by (simp add: push_all_elems rest kids step(1))
          (subst mset_set_Union; auto)
      have "inv ?q" by (intro push_all_inv pop_inv less.prems(1))
      moreover have "least_ready_first ?E (ordered @ [x])"
        using less.prems(3) x least by (simp add: least_ready_first_snoc)
      moreover have "card (?E - set (ordered @ [x])) < card (?E - ?D)"
        using x by (intro psubset_card_mono) (auto simp: ready_events_def)
      moreover have "drain push pop (by_id events) children q (still_pending events ?D) ordered
          = drain push pop (by_id events) children ?q (still_pending events (set (ordered @ [x]))) (ordered @ [x])"
        using pending Some x still_pending_delete [OF ids]
        by (subst drain.simps) (auto simp: still_pending_Nil children ready_events_def split: prod.splits)
      ultimately show ?thesis using less.hyps [OF _ _ elems] by simp
    qed
  qed
qed

lemma drain_seeded:
  assumes ids: "distinct (map eventId events)" and seed: "seed_ready push [] empty events = (children, q)"
  shows "(\<exists>out. drain push pop (by_id events) children q (by_id events) [] = Some (Inr out)
             \<and> least_ready_first (set events) out \<and> set out = set events)
      \<or> (\<exists>D. drain push pop (by_id events) children q (by_id events) []
               = Some (Inl (unresolved (by_id events) (still_pending events D)))
             \<and> D \<subset> set events \<and> ready_events (set events) D = {}
             \<and> (\<forall>e \<in> D. \<forall>c. causationId e = Some c \<longrightarrow> c \<in> eventId ` D))"
proof -
  have q: "q = foldl (\<lambda>q e. push e q) empty (filter (\<lambda>e. causationId e = None) events)"
    using seed_queue [of push "[]" empty events] seed by simp
  have "mset (filter (\<lambda>e. causationId e = None) events) = mset_set (ready_events (set events) {})"
    using ids by (auto simp: distinct_map ready_events_def mset_set_set [symmetric]
        intro!: arg_cong [where f = mset_set] split: option.splits)
  then have elems: "elems q = mset_set (ready_events (set events) (set []))"
    by (simp add: q push_all_elems empty_elems)
  have "inv q" unfolding q by (intro push_all_inv empty_inv)
  moreover have "children_of children c = children_spec events c" for c
    using seed_children [of push "[]" empty events c] seed by (simp add: children_of_def)
  ultimately show ?thesis
    using drain_result [OF ids _ _ elems, of children] by (simp add: still_pending_def)
qed

end

lemma comparator_event_id: "comparator by_event_id"
  unfolding by_event_id_def by (rule comparator_key [OF cu.comparator_axioms])

interpretation heapq: event_queue "[]" "heap_push by_event_id" "heap_pop by_event_id" mset "is_heap by_event_id"
  unfolding event_queue_def by (rule heap_priority_queue [OF comparator_event_id])

section \<open>Sequence gaps\<close>

record gap_range =
  gr_from :: nat
  gr_to :: nat

record sequence_gap =
  sg_source :: source
  sg_missingRanges :: "gap_range list"

type_synonym sequence_groups = "(string, source \<times> nat list) js_map"

fun group_sequences :: "sequence_groups \<Rightarrow> event list \<Rightarrow> sequence_groups" where
  "group_sequences groups [] = groups"
| "group_sequences groups (e # es) =
     (case sourceSequence e of
        None \<Rightarrow> group_sequences groups es
      | Some n \<Rightarrow>
          (let key = producerKey (source e)
           in case map_get groups key of
                Some (src, sequences) \<Rightarrow> group_sequences (map_set key (src, sequences @ [n]) groups) es
              | None \<Rightarrow> group_sequences (map_set key (source e, [n]) groups) es))"

fun ranges_between :: "nat list \<Rightarrow> gap_range list" where
  "ranges_between (previous # current # rest) =
     (if current \<le> previous + 1 then ranges_between (current # rest)
      else \<lparr>gr_from = previous + 1, gr_to = current - 1\<rparr> # ranges_between (current # rest))"
| "ranges_between _ = []"

definition missing_ranges :: "nat list \<Rightarrow> gap_range list" where
  "missing_ranges sequences =
     ranges_between (js_sort (\<lambda>left right. int left - int right) (js_uniq sequences))"

definition sourceSequenceGaps :: "event list \<Rightarrow> sequence_gap list" where
  "sourceSequenceGaps events =
     filter (\<lambda>gap. sg_missingRanges gap \<noteq> [])
       (map (\<lambda>(src, sequences). \<lparr>sg_source = src, sg_missingRanges = missing_ranges sequences\<rparr>)
         (js_sort (\<lambda>left right. compareStrings (producerKey (fst left)) (producerKey (fst right)))
           (map_values (group_sequences [] events))))"

section \<open>Replaying\<close>

definition transition_messages :: "string list" where
  "transition_messages =
    [''tool completion request must be a tool.requested event'',
     ''tool completion does not match its request domain'',
     ''tool completion must be caused by its request or declared effect'',
     ''child must inherit parent correlation ID'',
     ''causal child must advance its producer sequence'',
     ''one correlation cannot have multiple roots'',
     ''attribution target crosses repository, domain, or correlation'',
     ''attribution correction must supply an identity'']"

definition replayValidationError :: "diagnostic list \<Rightarrow> storage_error" where
  "replayValidationError diagnostics =
     (let code = (if \<exists>d \<in> set diagnostics. dg_code d = ''PHASE0_REFERENCE_MISSING''
                  then ''PHASE0_REFERENCE_MISSING''
                  else if \<exists>d \<in> set diagnostics. dg_message d \<in> set transition_messages
                  then ''PHASE0_TRANSITION_INVALID''
                  else case diagnostics of [] \<Rightarrow> ''PHASE0_TRANSITION_INVALID'' | d # _ \<Rightarrow> dg_code d)
      in Storage_error code ''replay event-set validation failed'' [(''diagnosticCode'', code)])"

record 's replay_result =
  rr_orderedEvents :: "event list"
  rr_sourceSequenceGaps :: "sequence_gap list"
  rr_state :: 's

definition replayEvents ::
    "(string \<Rightarrow> string) \<Rightarrow> (string \<Rightarrow> string \<Rightarrow> int) \<Rightarrow> 's \<Rightarrow> ('s \<Rightarrow> event \<Rightarrow> 's) \<Rightarrow> event list
     \<Rightarrow> (storage_error + 's replay_result) option" where
  "replayEvents sha lc initialState apply_event events =
     map_option (\<lambda>r. raise_bind r (\<lambda>orderedEvents.
       let diagnostics = validateEventSet sha lc orderedEvents
       in if diagnostics \<noteq> [] then Inl (replayValidationError diagnostics)
          else Inr \<lparr>rr_orderedEvents = orderedEvents,
                    rr_sourceSequenceGaps = sourceSequenceGaps orderedEvents,
                    rr_state = foldl apply_event initialState orderedEvents\<rparr>))
     (causalOrder events)"

section \<open>The loop on the heap\<close>

lemma causalOrder_cases:
  "(\<not> distinct (map eventId events) \<and> (\<exists>err. index_unique [] events = Inl err \<and> causalOrder events = Some (Inl err)))
   \<or> (distinct (map eventId events) \<and>
       ((\<exists>out. causalOrder events = Some (Inr out) \<and> least_ready_first (set events) out \<and> set out = set events)
        \<or> (\<exists>D. causalOrder events = Some (Inl (unresolved (by_id events) (still_pending events D)))
             \<and> D \<subset> set events \<and> ready_events (set events) D = {}
             \<and> (\<forall>e \<in> D. \<forall>c. causationId e = Some c \<longrightarrow> c \<in> eventId ` D))))"
proof (cases "distinct (map eventId events)")
  case True
  obtain children q where seed: "seed_ready (heap_push by_event_id) [] [] events = (children, q)" by force
  show ?thesis
    using heapq.drain_seeded [OF True seed] True seed
    by (simp add: causalOrder_def index_unique_eq)
next
  case False
  then show ?thesis using index_unique_dup [OF False] by (auto simp: causalOrder_def)
qed

lemma causalOrder_ok:
  "causalOrder events = Some (Inr out) \<longleftrightarrow>
   distinct (map eventId events) \<and> least_ready_first (set events) out \<and> set out = set events"
proof
  assume "causalOrder events = Some (Inr out)"
  then show "distinct (map eventId events) \<and> least_ready_first (set events) out \<and> set out = set events"
    using causalOrder_cases [of events] by auto
next
  assume r: "distinct (map eventId events) \<and> least_ready_first (set events) out \<and> set out = set events"
  then have inj: "inj_on eventId (set events)" by (simp add: distinct_map)
  from causalOrder_cases [of events] r consider
      out' where "causalOrder events = Some (Inr out')" "least_ready_first (set events) out'" "set out' = set events"
    | D where "D \<subset> set events" "ready_events (set events) D = {}" by blast
  then show "causalOrder events = Some (Inr out)"
  proof cases
    case 1
    then have "length out' = length out"
      using r least_ready_first_subset by (metis distinct_card)
    then show ?thesis using 1 least_ready_first_unique [OF inj, of out' out] r by simp
  next
    case 2
    define k where "k = (LEAST k. k < length out \<and> out ! k \<notin> D)"
    from 2(1) r obtain j where "j < length out \<and> out ! j \<notin> D" by (metis in_set_conv_nth psubset_imp_ex_mem DiffE)
    then have k: "k < length out" "out ! k \<notin> D" and before: "\<And>i. i < k \<Longrightarrow> i < length out \<Longrightarrow> out ! i \<in> D"
      unfolding k_def using LeastI [of "\<lambda>k. k < length out \<and> out ! k \<notin> D"] not_less_Least by blast+
    then have "set (take k out) \<subseteq> D" by (auto simp: in_set_conv_nth)
    moreover have "out ! k \<in> ready_events (set events) (set (take k out))"
      using r k(1) by (auto simp: least_ready_first_def)
    ultimately have "out ! k \<in> ready_events (set events) D"
      using k(2) by (auto simp: ready_events_def) blast
    with 2(2) show ?thesis by simp
  qed
qed

lemma parents_in_order:
  assumes "least_ready_first E out" and "set out = E" and "inj_on eventId E"
  shows "wf {(cause, eventId e) | cause e. e \<in> E \<and> causationId e = Some cause}"
proof -
  let ?pos = "\<lambda>i. LEAST k. k < length out \<and> eventId (out ! k) = i"
  have pos: "?pos (eventId (out ! k)) = k" if "k < length out" for k
  proof (rule Least_equality)
    fix j assume j: "j < length out \<and> eventId (out ! j) = eventId (out ! k)"
    then have "out ! j = out ! k" using that assms(2,3) by (metis inj_onD nth_mem)
    moreover have "distinct out" using assms(1) least_ready_first_subset by blast
    ultimately show "k \<le> j" using j that by (metis nth_eq_iff_index_eq order_refl)
  qed (use that in simp)
  have "{(cause, eventId e) | cause e. e \<in> E \<and> causationId e = Some cause} \<subseteq> measure ?pos"
  proof clarify
    fix cause e assume e: "e \<in> E" "causationId e = Some cause"
    then obtain k where k: "k < length out" "out ! k = e" using assms(2) by (metis in_set_conv_nth)
    then obtain j where j: "j < k" "eventId (out ! j) = cause"
      using least_ready_first_parent [OF assms(1) k(1)] e by auto
    have "?pos (eventId (out ! k)) = k" "?pos (eventId (out ! j)) = j" using pos k(1) j(1) by auto
    then show "(cause, eventId e) \<in> measure ?pos" using k j by simp
  qed
  then show ?thesis by (rule wf_subset [OF wf_measure])
qed

lemma stuck_not_wf:
  assumes "D \<subset> set events" and "ready_events (set events) D = {}" and wf: "wf (causes events)"
    and present: "\<forall>e \<in> set events. \<forall>c. causationId e = Some c \<longrightarrow> c \<in> eventId ` set events"
    and ids: "inj_on eventId (set events)"
  shows False
proof -
  let ?P = "eventId ` (set events - D)"
  from assms(1) have "?P \<noteq> {}" by auto
  then obtain i where "i \<in> ?P" and least: "\<And>c. (c, i) \<in> causes events \<Longrightarrow> c \<notin> ?P"
    using wf by (metis wfE_min ex_in_conv)
  then obtain e where e: "e \<in> set events" "e \<notin> D" "i = eventId e" by auto
  with assms(2) obtain c where c: "causationId e = Some c" "c \<notin> eventId ` D"
    by (auto simp: ready_events_def)
  with e have "c \<notin> ?P" by (intro least) (auto simp: causes_def)
  moreover from present e c have "c \<in> eventId ` set events" by blast
  ultimately show False using c(2) by blast
qed

section \<open>Gaps are exact\<close>

interpretation seqs: strict_comparator "\<lambda>left right. int left - int right"
  by unfold_locales auto

definition sequences_of :: "event list \<Rightarrow> string \<Rightarrow> nat list" where
  "sequences_of events key = List.map_filter (\<lambda>e. sourceSequence e)
     (filter (\<lambda>e. producerKey (source e) = key) events)"

lemma set_sequences_of: "set (sequences_of events key)
    = {n. \<exists>e \<in> set events. producerKey (source e) = key \<and> sourceSequence e = Some n}"
  by (auto simp: sequences_of_def map_filter_def image_iff) force

definition groups_ok :: "sequence_groups \<Rightarrow> bool" where
  "groups_ok groups \<longleftrightarrow> distinct (map_keys groups)
     \<and> (\<forall>key src ss. map_get groups key = Some (src, ss) \<longrightarrow> producerKey src = key)"

definition group_numbers :: "sequence_groups \<Rightarrow> string \<Rightarrow> nat list" where
  "group_numbers groups key = (case map_get groups key of None \<Rightarrow> [] | Some (src, ss) \<Rightarrow> ss)"

lemma group_sequences_spec:
  "groups_ok groups \<Longrightarrow> groups_ok (group_sequences groups events)
     \<and> group_numbers (group_sequences groups events) key = group_numbers groups key @ sequences_of events key"
proof (induction events arbitrary: groups)
  case Nil
  then show ?case by (simp add: sequences_of_def map_filter_simps)
next
  case (Cons e es)
  show ?case
  proof (cases "sourceSequence e")
    case None
    with Cons show ?thesis by (simp add: sequences_of_def map_filter_simps)
  next
    case (Some n)
    let ?k = "producerKey (source e)"
    define v where "v = (case map_get groups ?k of None \<Rightarrow> (source e, [n]) | Some (src, ss) \<Rightarrow> (src, ss @ [n]))"
    have step: "group_sequences groups (e # es) = group_sequences (map_set ?k v groups) es"
      using Some by (simp add: v_def Let_def split: option.splits)
    have ok: "groups_ok (map_set ?k v groups)"
      using Cons.prems by (auto simp: groups_ok_def map_get_set v_def distinct_map_set
          simp del: split_paired_Ex split: option.splits if_splits)
    have "group_numbers (map_set ?k v groups) key
        = group_numbers groups key @ (if key = ?k then [n] else [])"
      by (auto simp: group_numbers_def map_get_set v_def split: option.splits)
    then show ?thesis
      using Cons.IH [OF ok] Some unfolding step by (simp add: sequences_of_def map_filter_simps)
  qed
qed

lemma ranges_between_exact:
  "sorted_wrt (<) xs \<Longrightarrow>
   (\<exists>r \<in> set (ranges_between xs). gr_from r \<le> n \<and> n \<le> gr_to r)
   \<longleftrightarrow> n \<notin> set xs \<and> (\<exists>a \<in> set xs. \<exists>b \<in> set xs. a < n \<and> n < b)"
proof (induction xs rule: ranges_between.induct)
  case (1 previous current rest)
  then have pc: "previous < current" and rest: "\<forall>x \<in> set rest. current < x" by auto
  from 1 have IH: "(\<exists>r \<in> set (ranges_between (current # rest)). gr_from r \<le> n \<and> n \<le> gr_to r)
   \<longleftrightarrow> n \<notin> set (current # rest) \<and> (\<exists>a \<in> set (current # rest). \<exists>b \<in> set (current # rest). a < n \<and> n < b)"
    by (cases "current \<le> previous + 1") auto
  show ?case
  proof (cases "n < current")
    case True
    then have "\<not> (\<exists>r \<in> set (ranges_between (current # rest)). gr_from r \<le> n \<and> n \<le> gr_to r)"
      using IH rest by auto
    then show ?thesis using True pc rest by auto
  next
    case False
    then have "(\<exists>a \<in> set (previous # current # rest). \<exists>b \<in> set (previous # current # rest). a < n \<and> n < b)
        \<and> n \<notin> set (previous # current # rest)
      \<longleftrightarrow> n \<notin> set (current # rest) \<and> (\<exists>a \<in> set (current # rest). \<exists>b \<in> set (current # rest). a < n \<and> n < b)"
      using pc rest by (auto simp: not_less)
    then show ?thesis using IH False pc by auto
  qed
qed auto

lemma missing_ranges_exact:
  "(\<exists>r \<in> set (missing_ranges xs). gr_from r \<le> n \<and> n \<le> gr_to r)
   \<longleftrightarrow> n \<notin> set xs \<and> (\<exists>a \<in> set xs. \<exists>b \<in> set xs. a < n \<and> n < b)"
proof -
  let ?ys = "js_sort (\<lambda>left right. int left - int right) (js_uniq xs)"
  have "sorted ?ys" using seqs.sorted_sort [of "js_uniq xs"] by simp
  moreover have "distinct ?ys" by simp
  ultimately have "sorted_wrt (<) ?ys" by (simp add: strict_sorted_iff)
  from ranges_between_exact [OF this] show ?thesis by (simp add: missing_ranges_def)
qed

lemma sourceSequenceGaps_member:
  "gap \<in> set (sourceSequenceGaps events) \<longleftrightarrow> (\<exists>src ss. sg_source gap = src \<and> sg_missingRanges gap = missing_ranges ss
     \<and> missing_ranges ss \<noteq> [] \<and> map_get (group_sequences [] events) (producerKey src) = Some (src, ss))"
proof -
  have ok: "groups_ok (group_sequences [] events)"
    using group_sequences_spec [of "[]" events] by (simp add: groups_ok_def)
  have member: "(src, ss) \<in> set (map_values (group_sequences [] events))
      \<longleftrightarrow> map_get (group_sequences [] events) (producerKey src) = Some (src, ss)" for src ss
  proof
    assume "(src, ss) \<in> set (map_values (group_sequences [] events))"
    then obtain k where "(k, src, ss) \<in> set (group_sequences [] events)" by auto
    with ok show "map_get (group_sequences [] events) (producerKey src) = Some (src, ss)"
      by (metis groups_ok_def map_of_is_SomeI)
  qed (auto dest!: map_of_SomeD intro: rev_image_eqI)
  define vs where "vs = map_values (group_sequences [] events)"
  show ?thesis
    unfolding sourceSequenceGaps_def member [symmetric] vs_def [symmetric]
    by (cases gap) force
qed

section \<open>Properties\<close>


text \<open>
  C1: \<open>causalOrder\<close> returns \<open>out\<close> exactly when the identifiers are distinct and \<open>out\<close> lists all the
  events so that each next event is the one with the smallest identifier among those whose parent is
  already listed.  The array heap therefore implements the abstract choice of the least ready event,
  and nothing else about the arrival order matters.
\<close>

theorem causal_order_least: "causalOrder events = Some (Inr out) \<longleftrightarrow>
   distinct (map eventId events) \<and> least_ready_first (set events) out \<and> set out = set events"
  by (rule causalOrder_ok)

text \<open>
  A replay order is a permutation of the input in which every cause stands before its effects.
\<close>

theorem causal_order_parents:
  assumes "causalOrder events = Some (Inr out)"
  shows "mset out = mset events
    \<and> (\<forall>k < length out. \<forall>c. causationId (out ! k) = Some c \<longrightarrow> (\<exists>j < k. eventId (out ! j) = c))"
proof -
  from assms have ok: "distinct (map eventId events)" "least_ready_first (set events) out" "set out = set events"
    by (simp_all add: causalOrder_ok)
  then have "distinct events" "distinct out" using least_ready_first_subset by (auto simp: distinct_map)
  with ok(3) have "mset out = mset events" by (simp add: set_eq_iff_mset_eq_distinct)
  with least_ready_first_parent [OF ok(2)] show ?thesis by blast
qed

theorem causal_order_parents_witness:
  "\<exists>out. causalOrder (rev demo_tool_run) = Some (Inr out) \<and> mset out = mset (rev demo_tool_run)"
proof -
  have "causalOrder (rev demo_tool_run) = Some (Inr [demo_request, demo_completion, demo_change])"
    by code_simp
  from causal_order_parents [OF this] this show ?thesis by blast
qed

text \<open>
  Replay does not depend on arrival order: two arrivals of the same events that one of them
  replays give the same causal order, and the whole replay - validation verdict, sequence gaps and
  reduced state, or the error thrown - is the same for both.
\<close>

theorem replay_arrival_order:
  assumes "mset events = mset arrival" and "causalOrder events = Some (Inr out)"
  shows "causalOrder arrival = Some (Inr out)
    \<and> replayEvents sha lc s f arrival = replayEvents sha lc s f events"
proof -
  have ids: "mset (map eventId events) = mset (map eventId arrival)" using assms(1) by simp
  have "distinct (map eventId arrival)"
    using mset_eq_imp_distinct_iff [OF ids] assms(2) by (simp add: causalOrder_ok)
  moreover have "set arrival = set events" using mset_eq_setD [OF assms(1)] by simp
  ultimately have "causalOrder arrival = Some (Inr out)" using assms(2) by (simp add: causalOrder_ok)
  with assms(2) show ?thesis by (simp add: replayEvents_def)
qed

theorem replay_arrival_order_witness:
  "causalOrder (rev demo_tool_run) = causalOrder demo_tool_run
   \<and> replayEvents (\<lambda>_. ''h'') compareStrings [] (\<lambda>s e. s @ [eventId e]) (rev demo_tool_run)
     = replayEvents (\<lambda>_. ''h'') compareStrings [] (\<lambda>s e. s @ [eventId e]) demo_tool_run"
proof -
  have order: "causalOrder demo_tool_run = Some (Inr [demo_request, demo_completion, demo_change])"
    by code_simp
  have "mset demo_tool_run = mset (rev demo_tool_run)" by simp
  from replay_arrival_order [OF this order] order show ?thesis by simp
qed

text \<open>
  For events with distinct identifiers replay succeeds exactly when every named cause is present
  and the "causes" relation is well-founded.
\<close>

lemma causal_order_can_succeed:
  assumes "distinct (map eventId events)"
  shows "(\<exists>out. causalOrder events = Some (Inr out)) \<longleftrightarrow> wf (causes events)
    \<and> (\<forall>e \<in> set events. \<forall>c. causationId e = Some c \<longrightarrow> c \<in> eventId ` set events)"
proof
  assume "\<exists>out. causalOrder events = Some (Inr out)"
  then obtain out where out: "least_ready_first (set events) out" "set out = set events"
    by (auto simp: causalOrder_ok)
  then show "wf (causes events)
      \<and> (\<forall>e \<in> set events. \<forall>c. causationId e = Some c \<longrightarrow> c \<in> eventId ` set events)"
    using parents_in_order [OF out] least_ready_first_closed [OF out(1)] assms
    by (simp add: causes_def distinct_map)
next
  assume r: "wf (causes events)
      \<and> (\<forall>e \<in> set events. \<forall>c. causationId e = Some c \<longrightarrow> c \<in> eventId ` set events)"
  from assms have "inj_on eventId (set events)" by (simp add: distinct_map)
  with causalOrder_cases [of events] assms r stuck_not_wf show "\<exists>out. causalOrder events = Some (Inr out)"
    by blast
qed

lemma error_codes:
  assumes "causalOrder events = Some (Inl err)"
  shows "se_code err =
    (if \<not> distinct (map eventId events) then ''PHASE0_ID_CONFLICT''
     else if \<exists>e \<in> set events. \<exists>c. causationId e = Some c \<and> c \<notin> eventId ` set events
     then ''PHASE0_REFERENCE_MISSING'' else ''M2_REPLAY_CAUSALITY_UNRESOLVED'')"
proof (cases "distinct (map eventId events)")
  case False
  then have "index_unique [] events = Inl err"
    using causalOrder_cases [of events] assms by auto
  moreover have "index_unique byId es = Inl err \<Longrightarrow> se_code err = ''PHASE0_ID_CONFLICT''" for byId es
    by (induction byId es rule: index_unique.induct) (auto split: if_splits)
  ultimately show ?thesis using False by simp
next
  case True
  with causalOrder_cases [of events] assms obtain D where
    D: "err = unresolved (by_id events) (still_pending events D)" "ready_events (set events) D = {}"
      "D \<subset> set events" "\<forall>e \<in> D. \<forall>c. causationId e = Some c \<longrightarrow> c \<in> eventId ` D"
    by auto
  have has: "map_has (by_id events) c \<longleftrightarrow> c \<in> eventId ` set events" for c
    unfolding by_id_def using map_of_map_key_None [of eventId events c] by auto
  have absent: "e \<notin> D" if "e \<in> set events" "causationId e = Some c" "c \<notin> eventId ` set events" for e c
    using that D(3,4) by (metis image_mono psubset_imp_subset subsetD)
  let ?absent = "\<lambda>e. case causationId e of None \<Rightarrow> False | Some c \<Rightarrow> \<not> map_has (by_id events) c"
  have left: "set (map_values (still_pending events D)) = {e \<in> set events. e \<notin> D}"
    by (auto simp: still_pending_def by_id_def image_iff)
  show ?thesis
  proof (cases "List.find ?absent (map_values (still_pending events D))")
    case None
    then have no: "\<not> ?absent e" if "e \<in> set events" "e \<notin> D" for e
      using that left unfolding find_None_iff by blast
    have "c \<in> eventId ` set events" if "e \<in> set events" "causationId e = Some c" for e c
    proof (rule ccontr)
      assume c: "c \<notin> eventId ` set events"
      from no [OF that(1) absent [OF that c]] have "map_has (by_id events) c" by (simp add: that(2))
      with c has show False by blast
    qed
    then have "\<not> (\<exists>e \<in> set events. \<exists>c. causationId e = Some c \<and> c \<notin> eventId ` set events)" by blast
    then show ?thesis using None True D(1) by (simp add: unresolved_def)
  next
    case (Some e)
    from find_SomeD [OF Some] have "e \<in> set events" "?absent e" using left by auto
    moreover from this(2) obtain c where "causationId e = Some c" "\<not> map_has (by_id events) c"
      by (cases "causationId e") auto
    moreover from this(2) has have "c \<notin> eventId ` set events" by blast
    ultimately have "\<exists>e \<in> set events. \<exists>c. causationId e = Some c \<and> c \<notin> eventId ` set events" by blast
    then show ?thesis using Some True D(1) by (simp add: unresolved_def)
  qed
qed

lemma finite_causes: "finite (causes events)"
proof (rule finite_subset)
  show "causes events \<subseteq> (\<lambda>e. (the (causationId e), eventId e)) ` set events"
    by (auto simp: causes_def image_iff) force
qed simp

text \<open>
  C32: \<open>causalOrder\<close> always returns, and every error has the code of its cause: it throws \<open>PHASE0_ID_CONFLICT\<close>
  exactly for a repeated identifier; otherwise \<open>PHASE0_REFERENCE_MISSING\<close> exactly when a named cause is absent;
  otherwise \<open>M2_REPLAY_CAUSALITY_UNRESOLVED\<close> exactly when some event is, through named causes, its own cause.
\<close>

theorem causal_order_errors:
  "((\<exists>err. causalOrder events = Some (Inl err) \<and> se_code err = ''PHASE0_ID_CONFLICT'')
      \<longleftrightarrow> \<not> distinct (map eventId events))
   \<and> ((\<exists>err. causalOrder events = Some (Inl err) \<and> se_code err = ''PHASE0_REFERENCE_MISSING'')
      \<longleftrightarrow> distinct (map eventId events)
         \<and> (\<exists>e \<in> set events. \<exists>c. causationId e = Some c \<and> c \<notin> eventId ` set events))
   \<and> ((\<exists>err. causalOrder events = Some (Inl err) \<and> se_code err = ''M2_REPLAY_CAUSALITY_UNRESOLVED'')
      \<longleftrightarrow> distinct (map eventId events)
         \<and> \<not> (\<exists>e \<in> set events. \<exists>c. causationId e = Some c \<and> c \<notin> eventId ` set events)
         \<and> (\<exists>e \<in> set events. (eventId e, eventId e) \<in> (causes events)\<^sup>+))
   \<and> causalOrder events \<noteq> None"
proof -
  let ?absent = "\<exists>e \<in> set events. \<exists>c. causationId e = Some c \<and> c \<notin> eventId ` set events"
    and ?cycle = "\<exists>e \<in> set events. (eventId e, eventId e) \<in> (causes events)\<^sup>+"
  have some: "causalOrder events \<noteq> None"
    using causalOrder_cases [of events] by fastforce
  have cycle: "?cycle \<longleftrightarrow> \<not> wf (causes events)"
  proof -
    have "\<exists>e \<in> set events. i = eventId e" if "(i, i) \<in> (causes events)\<^sup>+" for i
      using tranclD2 [OF that] by (auto simp: causes_def)
    then show ?thesis using wf_iff_acyclic_if_finite [OF finite_causes, of events] by (auto simp: acyclic_def)
  qed
  have fails: "(\<exists>err. causalOrder events = Some (Inl err)) \<longleftrightarrow> \<not> distinct (map eventId events) \<or> ?absent \<or> ?cycle"
  proof (cases "distinct (map eventId events)")
    case True
    have "(\<exists>err. causalOrder events = Some (Inl err)) \<longleftrightarrow> \<not> (\<exists>out. causalOrder events = Some (Inr out))"
      using some by (cases "causalOrder events") (auto, metis sum.exhaust)
    then show ?thesis using causal_order_can_succeed [OF True] True cycle by blast
  next
    case False
    then show ?thesis using causalOrder_cases [of events] by auto
  qed
  define code where "code = (if \<not> distinct (map eventId events) then ''PHASE0_ID_CONFLICT''
    else if ?absent then ''PHASE0_REFERENCE_MISSING'' else ''M2_REPLAY_CAUSALITY_UNRESOLVED'')"
  have "se_code err = code" if "causalOrder events = Some (Inl err)" for err
    unfolding code_def by (rule error_codes [OF that])
  then have same: "(\<exists>err. causalOrder events = Some (Inl err) \<and> se_code err = c) \<longleftrightarrow>
      (\<exists>err. causalOrder events = Some (Inl err)) \<and> c = code" for c by blast
  have codes: "(\<not> D \<or> A \<or> C) \<and> ''PHASE0_ID_CONFLICT'' = (if \<not> D then ''PHASE0_ID_CONFLICT'' else if A
        then ''PHASE0_REFERENCE_MISSING'' else ''M2_REPLAY_CAUSALITY_UNRESOLVED'') \<longleftrightarrow> \<not> D"
      "(\<not> D \<or> A \<or> C) \<and> ''PHASE0_REFERENCE_MISSING'' = (if \<not> D then ''PHASE0_ID_CONFLICT'' else if A
        then ''PHASE0_REFERENCE_MISSING'' else ''M2_REPLAY_CAUSALITY_UNRESOLVED'') \<longleftrightarrow> D \<and> A"
      "(\<not> D \<or> A \<or> C) \<and> ''M2_REPLAY_CAUSALITY_UNRESOLVED'' = (if \<not> D then ''PHASE0_ID_CONFLICT'' else if A
        then ''PHASE0_REFERENCE_MISSING'' else ''M2_REPLAY_CAUSALITY_UNRESOLVED'') \<longleftrightarrow> D \<and> \<not> A \<and> C" for A C D
    by (cases D; cases A; simp)+
  show ?thesis unfolding same fails code_def codes using some by blast
qed

text \<open>
  A set that validates replays: if \<open>validateEventSet\<close> accepts events with distinct identifiers,
  in any arrival order, \<open>causalOrder\<close> orders them and never throws.
\<close>

theorem valid_set_replays:
  assumes "distinct (map eventId events)" and "validateEventSet sha lc events = []"
  shows "\<exists>out. causalOrder events = Some (Inr out) \<and> mset out = mset events"
proof -
  have present: "\<forall>e \<in> set events. \<forall>c. causationId e = Some c \<longrightarrow> c \<in> eventId ` set events"
    using valid_parent [OF assms] by (metis imageI)
  have wf: "wf (causes events)" by (rule valid_wf [OF assms])
  have inj: "inj_on eventId (set events)" using assms(1) by (simp add: distinct_map)
  from causalOrder_cases [of events] assms(1) consider
      out where "causalOrder events = Some (Inr out)"
    | D where "D \<subset> set events" "ready_events (set events) D = {}" by blast
  then show ?thesis
  proof cases
    case 1
    then have "least_ready_first (set events) out" "set out = set events" by (simp_all add: causalOrder_ok)
    moreover from least_ready_first_subset [OF this(1)] have "distinct out" by blast
    moreover have "distinct events" using assms(1) by (simp add: distinct_map)
    ultimately have "mset out = mset events" by (simp add: set_eq_iff_mset_eq_distinct [symmetric])
    with 1 show ?thesis by blast
  next
    case 2
    from stuck_not_wf [OF this wf present inj] show ?thesis ..
  qed
qed

theorem valid_set_replays_witness:
  "\<exists>out. causalOrder demo_write_run = Some (Inr out) \<and> mset out = mset demo_write_run"
  by (rule valid_set_replays [OF demo_distinct(3) demo_write_run_valid])

text \<open>
  C34: The reported sequence gaps are exact: number \<open>n\<close> lies in a range reported for a producer
  exactly when the producer emitted a smaller and a larger number but not \<open>n\<close>.
\<close>

theorem sequence_gaps_exact:
  "(\<exists>gap \<in> set (sourceSequenceGaps events). producerKey (sg_source gap) = key
      \<and> (\<exists>r \<in> set (sg_missingRanges gap). gr_from r \<le> n \<and> n \<le> gr_to r))
   \<longleftrightarrow> n \<notin> set (sequences_of events key)
     \<and> (\<exists>a \<in> set (sequences_of events key). \<exists>b \<in> set (sequences_of events key). a < n \<and> n < b)"
proof -
  let ?groups = "group_sequences [] events"
  have ok: "groups_ok ?groups" and numbers: "group_numbers ?groups key = sequences_of events key"
    using group_sequences_spec [of "[]" events key] by (simp_all add: groups_ok_def group_numbers_def)
  show ?thesis
  proof (cases "map_get ?groups key")
    case None
    then have "sequences_of events key = []" using numbers by (simp add: group_numbers_def)
    moreover have "producerKey (sg_source gap) \<noteq> key" if "gap \<in> set (sourceSequenceGaps events)" for gap
      using that None unfolding sourceSequenceGaps_member by auto
    ultimately show ?thesis by auto
  next
    case (Some v)
    obtain src ss where v: "v = (src, ss)" by (cases v)
    have key: "producerKey src = key" "ss = sequences_of events key"
      using ok numbers Some v by (auto simp: groups_ok_def group_numbers_def)
    have "(\<exists>gap \<in> set (sourceSequenceGaps events). producerKey (sg_source gap) = key
        \<and> (\<exists>r \<in> set (sg_missingRanges gap). gr_from r \<le> n \<and> n \<le> gr_to r))
      \<longleftrightarrow> (\<exists>r \<in> set (missing_ranges ss). gr_from r \<le> n \<and> n \<le> gr_to r)"
    proof
      assume "\<exists>gap \<in> set (sourceSequenceGaps events). producerKey (sg_source gap) = key
        \<and> (\<exists>r \<in> set (sg_missingRanges gap). gr_from r \<le> n \<and> n \<le> gr_to r)"
      then obtain gap where gap: "gap \<in> set (sourceSequenceGaps events)" "producerKey (sg_source gap) = key"
        "\<exists>r \<in> set (sg_missingRanges gap). gr_from r \<le> n \<and> n \<le> gr_to r" by blast
      from gap(1,2) Some v have "sg_missingRanges gap = missing_ranges ss"
        unfolding sourceSequenceGaps_member by auto
      with gap(3) show "\<exists>r \<in> set (missing_ranges ss). gr_from r \<le> n \<and> n \<le> gr_to r" by simp
    next
      assume r: "\<exists>r \<in> set (missing_ranges ss). gr_from r \<le> n \<and> n \<le> gr_to r"
      then have "missing_ranges ss \<noteq> []" by auto
      then have "\<lparr>sg_source = src, sg_missingRanges = missing_ranges ss\<rparr> \<in> set (sourceSequenceGaps events)"
        unfolding sourceSequenceGaps_member using Some v key(1) by simp
      with r key(1) show "\<exists>gap \<in> set (sourceSequenceGaps events). producerKey (sg_source gap) = key
        \<and> (\<exists>r \<in> set (sg_missingRanges gap). gr_from r \<le> n \<and> n \<le> gr_to r)"
        by (metis sequence_gap.select_convs)
    qed
    then show ?thesis by (simp only: missing_ranges_exact key(2))
  qed
qed

end
