(* ===== verification/Coverage.thy ===== *)
theory Coverage
  imports Replay
begin

text \<open>
  Identities and coverage of the work graph: \<open>packages/storage/src/work-graph-ids.ts\<close>,
  \<open>work-graph-coverage.ts\<close> and the coverage types of \<open>work-graph-types.ts\<close>.

  \<open>canonicalDigest\<close> is \<open>sha\<close> of the canonical text; the digested values are plain, so the source's
  \<open>canonicalDigest\<close> never throws on them (\<open>version_digest_ok\<close>, \<open>coverage_digest_ok\<close>).
\<close>

section \<open>Types\<close>

datatype coverage_mode = CM_intercepted | CM_verified | CM_inferred | CM_unknown

datatype gap_kind = GK_opaque | GK_unverified | GK_unattributed | GK_missing_sequence

record coverage_gap =
  cg_kind :: gap_kind
  cg_scope :: string
  cg_reason :: string
  cg_evidenceEventIds :: "string list"

datatype presentation = PR_sufficient | PR_degraded | PR_unknown

record projection_coverage =
  pc_coverageId :: string
  pc_scope :: string
  pc_modes :: "coverage_mode list"
  pc_gaps :: "coverage_gap list"
  pc_evidenceEventIds :: "string list"
  pc_presentation :: presentation

fun coverage_mode_str :: "coverage_mode \<Rightarrow> string" where
  "coverage_mode_str CM_intercepted = ''intercepted''"
| "coverage_mode_str CM_verified = ''verified''"
| "coverage_mode_str CM_inferred = ''inferred''"
| "coverage_mode_str CM_unknown = ''unknown''"

fun gap_kind_str :: "gap_kind \<Rightarrow> string" where
  "gap_kind_str GK_opaque = ''opaque''"
| "gap_kind_str GK_unverified = ''unverified''"
| "gap_kind_str GK_unattributed = ''unattributed''"
| "gap_kind_str GK_missing_sequence = ''missing_sequence''"

section \<open>Identities\<close>

definition agentNodeId :: "string \<Rightarrow> string" where
  "agentNodeId agent = ''agent:'' @ agent"

definition taskNodeId :: "string \<Rightarrow> string" where
  "taskNodeId task = ''task:'' @ task"

definition resourceNodeId :: "logical_resource \<Rightarrow> string" where
  "resourceNodeId resource = ''resource:'' @ lr_resourceId resource"

lemma canonicalDigest_plain: "plain v \<Longrightarrow> canonicalDigest sha v = Inr (sha (canonicalJson_protocol v))"
  by (simp add: canonicalDigest_def canonicalJson_def canonicalize_plain)

definition version_identity_json :: "resource_version \<Rightarrow> jsval" where
  "version_identity_json v = JObj
     [(''resourceId'', JStr (rv_resourceId v)), (''domain'', version_domain_json (rv_domain v)),
      (''kind'', JStr (version_kind_str (rv_kind v))), (''value'', j_null_str (rv_value v))]"

definition versionNodeId :: "(string \<Rightarrow> string) \<Rightarrow> resource_version \<Rightarrow> string" where
  "versionNodeId sha v = ''version:'' @ sha (canonicalJson_protocol (version_identity_json v))"

lemma version_digest_ok:
  "canonicalDigest sha (version_identity_json v) = Inr (sha (canonicalJson_protocol (version_identity_json v)))"
  by (rule canonicalDigest_plain) (simp add: version_identity_json_def)

datatype edge_kind = EK_performs | EK_reads | EK_changes | EK_depends_on | EK_references_version

fun edge_kind_str :: "edge_kind \<Rightarrow> string" where
  "edge_kind_str EK_performs = ''performs''"
| "edge_kind_str EK_reads = ''reads''"
| "edge_kind_str EK_changes = ''changes''"
| "edge_kind_str EK_depends_on = ''depends_on''"
| "edge_kind_str EK_references_version = ''references_version''"

definition edgeId :: "edge_kind \<Rightarrow> string option \<Rightarrow> string \<Rightarrow> string \<Rightarrow> string" where
  "edgeId kind fromNode toNode discriminator =
     edge_kind_str kind @ '':'' @ (case fromNode of None \<Rightarrow> ''unattributed'' | Some n \<Rightarrow> n)
       @ '':'' @ toNode @ '':'' @ discriminator"

definition coverage_gap_json :: "coverage_gap \<Rightarrow> jsval" where
  "coverage_gap_json g = JObj
     [(''kind'', JStr (gap_kind_str (cg_kind g))), (''scope'', JStr (cg_scope g)),
      (''reason'', JStr (cg_reason g)), (''evidenceEventIds'', j_strs (cg_evidenceEventIds g))]"

definition coverage_gap_order :: "coverage_gap \<Rightarrow> coverage_gap \<Rightarrow> int" where
  "coverage_gap_order left right =
     js_or (compareStrings (gap_kind_str (cg_kind left)) (gap_kind_str (cg_kind right)))
       (js_or (compareStrings (cg_scope left) (cg_scope right))
         (js_or (compareStrings (cg_reason left) (cg_reason right))
           (compareStrings (join '','' (cg_evidenceEventIds left)) (join '','' (cg_evidenceEventIds right)))))"

definition coverage_identity_json ::
    "string \<Rightarrow> coverage_mode list \<Rightarrow> coverage_gap list \<Rightarrow> string list \<Rightarrow> jsval" where
  "coverage_identity_json scope modes gaps evidence = JObj
     [(''scope'', JStr scope),
      (''modes'', j_strs (sortedUnique (map coverage_mode_str modes))),
      (''gaps'', JArr (map coverage_gap_json (js_sort coverage_gap_order
         (map (\<lambda>g. g\<lparr>cg_evidenceEventIds := sortedUnique (cg_evidenceEventIds g)\<rparr>) gaps)))),
      (''evidenceEventIds'', j_strs (sortedUnique evidence))]"

definition coverageId ::
    "(string \<Rightarrow> string) \<Rightarrow> string \<Rightarrow> coverage_mode list \<Rightarrow> coverage_gap list \<Rightarrow> string list \<Rightarrow> string" where
  "coverageId sha scope modes gaps evidence =
     ''coverage_'' @ take 32 (sha (canonicalJson_protocol (coverage_identity_json scope modes gaps evidence)))"

lemma coverage_digest_ok:
  "canonicalDigest sha (coverage_identity_json scope modes gaps evidence)
   = Inr (sha (canonicalJson_protocol (coverage_identity_json scope modes gaps evidence)))"
  by (rule canonicalDigest_plain)
    (simp add: coverage_identity_json_def coverage_gap_json_def list_all_iff)

section \<open>Coverage of one tool call\<close>

record attribution_override =
  ao_eventId :: string
  ao_correction :: attribution_corrected

type_synonym corrections = "(string, attribution_override) js_map"

definition effectiveAttribution :: "event \<Rightarrow> corrections \<Rightarrow> string option \<times> string option" where
  "effectiveAttribution e corrections =
     (case map_get corrections (eventId e) of
        None \<Rightarrow> (agentId e, taskId e)
      | Some ov \<Rightarrow> (ac_attributedAgentId (ao_correction ov), ac_attributedTaskId (ao_correction ov)))"

definition gap :: "gap_kind \<Rightarrow> string \<Rightarrow> string \<Rightarrow> string list \<Rightarrow> coverage_gap" where
  "gap kind scope reason evidence = \<lparr>cg_kind = kind, cg_scope = scope, cg_reason = reason,
     cg_evidenceEventIds = sortedUnique evidence\<rparr>"

definition createCoverage ::
    "(string \<Rightarrow> string) \<Rightarrow> string \<Rightarrow> coverage_mode list \<Rightarrow> coverage_gap list \<Rightarrow> string list
     \<Rightarrow> projection_coverage" where
  "createCoverage sha scope modes gaps evidence =
     (let sortedEvidence = sortedUnique evidence;
          sortedGaps = js_sort (\<lambda>left right.
            js_or (compareStrings (gap_kind_str (cg_kind left)) (gap_kind_str (cg_kind right)))
              (js_or (compareStrings (cg_scope left) (cg_scope right))
                (compareStrings (cg_reason left) (cg_reason right)))) gaps;
          canonicalModes = filter (\<lambda>mode. mode \<in> set modes)
            [CM_intercepted, CM_verified, CM_inferred, CM_unknown]
      in \<lparr>pc_coverageId = coverageId sha scope canonicalModes sortedGaps sortedEvidence,
          pc_scope = scope, pc_modes = canonicalModes, pc_gaps = sortedGaps,
          pc_evidenceEventIds = sortedEvidence,
          pc_presentation = (if sortedGaps \<noteq> [] then PR_degraded
            else if CM_verified \<in> set canonicalModes then PR_sufficient else PR_unknown)\<rparr>)"

type_synonym id_index = "(string, string list) js_map"

abbreviation indexed :: "id_index \<Rightarrow> string \<Rightarrow> string list" where
  "indexed index k \<equiv> (case map_get index k of None \<Rightarrow> [] | Some ids \<Rightarrow> ids)"

text \<open>The loop over the declared effects: the evidence and the gaps it adds, in order.\<close>

fun declared_effects ::
    "string \<Rightarrow> string list \<Rightarrow> events_by_id \<Rightarrow> string list \<Rightarrow> string list \<times> coverage_gap list" where
  "declared_effects scope attributed byId [] = ([], [])"
| "declared_effects scope attributed byId (effectId # rest) =
     (case declared_effects scope attributed byId rest of (evidence, gaps) \<Rightarrow>
        case map_get byId effectId of
          None \<Rightarrow> (evidence,
            gap GK_unverified scope ''declared effect event is absent or not a resource change'' [effectId] # gaps)
        | Some effect \<Rightarrow>
            if payload_changed (payload effect) = None
            then (evidence,
              gap GK_unverified scope ''declared effect event is absent or not a resource change'' [effectId] # gaps)
            else (eventId effect # evidence,
              (if sr_kind (source effect) = Watcher \<and> eventId effect \<notin> set attributed
               then [gap GK_unverified scope
                 ''snapshot-observed effect origin cannot be proven solely from the intercepted operation''
                 [eventId effect]]
               else []) @ gaps))"

definition toolCoverage ::
    "(string \<Rightarrow> string) \<Rightarrow> event \<Rightarrow> tool_requested \<Rightarrow> (event \<times> tool_completed) option \<Rightarrow> events_by_id
     \<Rightarrow> id_index \<Rightarrow> id_index \<Rightarrow> projection_coverage" where
  "toolCoverage sha request rq completion byId observedEffects observedReads =
     (let scope = ''tool:'' @ eventId request
      in case completion of
           None \<Rightarrow> createCoverage sha scope [CM_intercepted, CM_unknown]
             [gap GK_unverified scope ''tool completion evidence is absent'' [eventId request]]
             [eventId request]
         | Some (done_event, p) \<Rightarrow>
             (let attributed = (case tc_deterministicallyAttributedEffectEventIds p of None \<Rightarrow> [] | Some ids \<Rightarrow> ids);
                  observedReadIds = indexed observedReads (eventId request);
                  declared = declared_effects scope attributed byId (tc_effectEventIds p);
                  gaps = snd declared;
                  bound = indexed observedEffects (eventId done_event);
                  evidence = [eventId request, eventId done_event] @ observedReadIds @ fst declared @ bound;
                  effectsObserved = (tc_effectEventIds p \<noteq> [] \<or> bound \<noteq> []);
                  effectsBound = (effectsObserved \<and> gaps = [])
              in if tq_opaque rq \<and> \<not> effectsBound
                 then createCoverage sha scope [CM_intercepted, CM_unknown]
                   (gaps @ [gap GK_opaque scope ''opaque operation effects are not prospectively enumerable''
                              [eventId request]]) evidence
                 else if (effectsObserved \<or> observedReadIds \<noteq> []) \<and> gaps = []
                 then createCoverage sha scope [CM_intercepted, CM_verified] gaps evidence
                 else createCoverage sha scope [CM_intercepted, CM_unknown] gaps evidence))"

section \<open>Coverage of a ledger\<close>

definition index_add :: "string \<Rightarrow> string \<Rightarrow> id_index \<Rightarrow> id_index" where
  "index_add k i index = (case map_get index k of
     None \<Rightarrow> map_set k [i] index | Some ids \<Rightarrow> map_set k (ids @ [i]) index)"

record coverage_index =
  ci_completionsByRequest :: "(string, event \<times> tool_completed) js_map"
  ci_observedEffectsByCause :: id_index
  ci_observedReadsByCause :: id_index

definition index_event :: "event \<Rightarrow> coverage_index \<Rightarrow> coverage_index" where
  "index_event e ix =
     (let completions = (case payload_completed (payload e) of
            None \<Rightarrow> ci_completionsByRequest ix
          | Some p \<Rightarrow> map_set (tc_requestEventId p) (e, p) (ci_completionsByRequest ix));
          effects = (case (payload_changed (payload e), causationId e) of
            (Some c, Some cause) \<Rightarrow> index_add cause (eventId e) (ci_observedEffectsByCause ix)
          | _ \<Rightarrow> ci_observedEffectsByCause ix);
          reads = (case (payload_read (payload e), causationId e) of
            (Some r, Some cause) \<Rightarrow> index_add cause (eventId e) (ci_observedReadsByCause ix)
          | _ \<Rightarrow> ci_observedReadsByCause ix)
      in \<lparr>ci_completionsByRequest = completions, ci_observedEffectsByCause = effects,
          ci_observedReadsByCause = reads\<rparr>)"

definition coverage_index_of :: "event list \<Rightarrow> coverage_index" where
  "coverage_index_of events = foldl (\<lambda>ix e. index_event e ix)
     \<lparr>ci_completionsByRequest = [], ci_observedEffectsByCause = [], ci_observedReadsByCause = []\<rparr> events"

definition event_coverage ::
    "(string \<Rightarrow> string) \<Rightarrow> events_by_id \<Rightarrow> coverage_index \<Rightarrow> corrections \<Rightarrow> event \<Rightarrow> projection_coverage list" where
  "event_coverage sha byId ix corrections e =
     (case payload_requested (payload e) of
        None \<Rightarrow> []
      | Some rq \<Rightarrow> [toolCoverage sha e rq (map_get (ci_completionsByRequest ix) (eventId e)) byId
                     (ci_observedEffectsByCause ix) (ci_observedReadsByCause ix)])
     @ (case payload_changed (payload e) of
          None \<Rightarrow> []
        | Some c \<Rightarrow>
            if causationId e = None \<and> effectiveAttribution e corrections = (None, None)
            then [createCoverage sha (''event:'' @ eventId e) [CM_unknown]
                    [gap GK_unattributed (''event:'' @ eventId e)
                       ''resource change has no intercepted causal parent or attribution'' [eventId e]]
                    [eventId e]]
            else [])"

definition gap_coverage :: "(string \<Rightarrow> string) \<Rightarrow> sequence_gap \<Rightarrow> projection_coverage" where
  "gap_coverage sha g =
     (let scope = ''source:'' @ producerKey (sg_source g)
      in createCoverage sha ''event-stream'' [CM_unknown]
           (map (\<lambda>r. gap GK_missing_sequence scope
              (''source sequence gap '' @ nat_str (gr_from r) @ ''-'' @ nat_str (gr_to r)) [])
              (sg_missingRanges g)) [])"

definition by_coverage_id :: "projection_coverage \<Rightarrow> projection_coverage \<Rightarrow> int" where
  "by_coverage_id left right = compareStrings (pc_coverageId left) (pc_coverageId right)"

definition deriveProjectionCoverage ::
    "(string \<Rightarrow> string) \<Rightarrow> event list \<Rightarrow> sequence_gap list \<Rightarrow> corrections \<Rightarrow> projection_coverage list" where
  "deriveProjectionCoverage sha events gaps corrections =
     (let byId = map_index eventId events;
          ix = coverage_index_of events
      in js_sort by_coverage_id
           (concat (map (event_coverage sha byId ix corrections) events) @ map (gap_coverage sha) gaps))"

section \<open>The indexes hold what a scan of the ledger would find\<close>

definition changes_caused_by :: "event list \<Rightarrow> string \<Rightarrow> string list" where
  "changes_caused_by events cause =
     map eventId (filter (\<lambda>e. payload_changed (payload e) \<noteq> None \<and> causationId e = Some cause) events)"

definition reads_caused_by :: "event list \<Rightarrow> string \<Rightarrow> string list" where
  "reads_caused_by events cause =
     map eventId (filter (\<lambda>e. payload_read (payload e) \<noteq> None \<and> causationId e = Some cause) events)"

definition completions_of :: "event list \<Rightarrow> string \<Rightarrow> (event \<times> tool_completed) list" where
  "completions_of events request = List.map_filter (\<lambda>e. case payload_completed (payload e) of
     None \<Rightarrow> None | Some p \<Rightarrow> if tc_requestEventId p = request then Some (e, p) else None) events"

definition last_option :: "'a list \<Rightarrow> 'a option" where
  "last_option xs = (if xs = [] then None else Some (last xs))"

lemma indexed_add: "indexed (index_add k i index) c = indexed index c @ (if k = c then [i] else [])"
  by (auto simp: index_add_def js_simps split: option.splits)

lemma coverage_index_of_snoc:
  "coverage_index_of (events @ [e]) = index_event e (coverage_index_of events)"
  by (simp add: coverage_index_of_def)

lemma observed_effects_scan:
  "indexed (ci_observedEffectsByCause (coverage_index_of events)) c = changes_caused_by events c"
proof (induction events rule: rev_induct)
  case (snoc e events)
  then show ?case
    by (cases "payload_changed (payload e)"; cases "causationId e")
      (simp_all add: coverage_index_of_snoc index_event_def changes_caused_by_def indexed_add)
qed (simp add: coverage_index_of_def changes_caused_by_def)

lemma observed_reads_scan:
  "indexed (ci_observedReadsByCause (coverage_index_of events)) c = reads_caused_by events c"
proof (induction events rule: rev_induct)
  case (snoc e events)
  then show ?case
    by (cases "payload_read (payload e)"; cases "causationId e")
      (simp_all add: coverage_index_of_snoc index_event_def reads_caused_by_def indexed_add)
qed (simp add: coverage_index_of_def reads_caused_by_def)

lemma completions_scan:
  "map_get (ci_completionsByRequest (coverage_index_of events)) r = last_option (completions_of events r)"
proof (induction events rule: rev_induct)
  case (snoc e events)
  then show ?case
    by (cases "payload_completed (payload e)")
      (simp_all add: coverage_index_of_snoc index_event_def completions_of_def map_filter_def
        last_option_def js_simps)
qed (simp add: coverage_index_of_def completions_of_def last_option_def map_filter_simps)

section \<open>Presentation\<close>

lemma createCoverage_presentation:
  "pc_presentation (createCoverage sha scope modes gaps evidence) =
    (if gaps \<noteq> [] then PR_degraded else if CM_verified \<in> set modes then PR_sufficient else PR_unknown)"
  by (simp add: createCoverage_def Let_def)

lemma declared_effects_gaps:
  "snd (declared_effects scope attributed byId ids) = [] \<longleftrightarrow>
   (\<forall>i \<in> set ids. \<exists>effect. map_get byId i = Some effect \<and> payload_changed (payload effect) \<noteq> None
      \<and> (sr_kind (source effect) = Watcher \<longrightarrow> eventId effect \<in> set attributed))"
proof (induction ids)
  case (Cons i ids)
  obtain ev gs where rest: "declared_effects scope attributed byId ids = (ev, gs)" by force
  show ?case
  proof (cases "map_get byId i")
    case None
    then show ?thesis by (simp add: rest)
  next
    case (Some effect)
    with Cons rest show ?thesis
      by (cases "payload_changed (payload effect)") (simp_all add: rest)
  qed
qed simp

definition effect_bound :: "events_by_id \<Rightarrow> tool_completed \<Rightarrow> string \<Rightarrow> bool" where
  "effect_bound byId p i \<longleftrightarrow> (\<exists>effect. map_get byId i = Some effect \<and> payload_changed (payload effect) \<noteq> None
     \<and> (sr_kind (source effect) = Watcher \<longrightarrow>
          (\<exists>ids. tc_deterministicallyAttributedEffectEventIds p = Some ids \<and> eventId effect \<in> set ids)))"

lemma toolCoverage_sufficient:
  "pc_presentation (toolCoverage sha request rq completion byId effects reads) = PR_sufficient \<longleftrightarrow>
   (\<exists>co p. completion = Some (co, p)
      \<and> (\<forall>i \<in> set (tc_effectEventIds p). effect_bound byId p i)
      \<and> (tc_effectEventIds p \<noteq> [] \<or> indexed effects (eventId co) \<noteq> []
         \<or> (indexed reads (eventId request) \<noteq> [] \<and> \<not> tq_opaque rq)))"
proof (cases completion)
  case None
  then show ?thesis by (simp add: toolCoverage_def Let_def createCoverage_presentation)
next
  case (Some c)
  obtain co p where c: "completion = Some (co, p)" using Some by (cases c) auto
  define attributed where "attributed = (case tc_deterministicallyAttributedEffectEventIds p of None \<Rightarrow> [] | Some ids \<Rightarrow> ids)"
  define gaps where "gaps = snd (declared_effects (''tool:'' @ eventId request) attributed byId (tc_effectEventIds p))"
  have gaps: "gaps = [] \<longleftrightarrow> (\<forall>i \<in> set (tc_effectEventIds p). effect_bound byId p i)"
    unfolding gaps_def declared_effects_gaps effect_bound_def attributed_def
    by (cases "tc_deterministicallyAttributedEffectEventIds p") auto
  show ?thesis
    unfolding c toolCoverage_def Let_def option.case prod.case attributed_def [symmetric] gaps_def [symmetric]
    by (simp add: createCoverage_presentation gaps [symmetric]) blast
qed

section \<open>Coverage of a request in a ledger\<close>

lemma createCoverage_scope [simp]: "pc_scope (createCoverage sha scope modes gaps evidence) = scope"
  by (simp add: createCoverage_def Let_def)

lemma toolCoverage_scope [simp]:
  "pc_scope (toolCoverage sha request rq completion byId effects reads) = ''tool:'' @ eventId request"
  by (simp add: toolCoverage_def Let_def split: option.splits prod.splits)

lemma event_coverage_scope:
  assumes "cov \<in> set (event_coverage sha byId ix corrections e)" and "pc_scope cov = ''tool:'' @ i"
  shows "eventId e = i \<and> (\<exists>rq. payload e = ToolRequested rq
    \<and> cov = toolCoverage sha e rq (map_get (ci_completionsByRequest ix) (eventId e)) byId
        (ci_observedEffectsByCause ix) (ci_observedReadsByCause ix))"
  using assms
  by (cases "payload e") (auto simp: event_coverage_def split: if_splits)

lemma tool_coverage_unique:
  assumes ids: "distinct (map eventId events)" and e: "e \<in> set events" and rq: "payload e = ToolRequested rq"
  shows "cov \<in> set (deriveProjectionCoverage sha events gaps corrections) \<and> pc_scope cov = ''tool:'' @ eventId e
    \<longleftrightarrow> cov = toolCoverage sha e rq (map_get (ci_completionsByRequest (coverage_index_of events)) (eventId e))
         (by_id events) (ci_observedEffectsByCause (coverage_index_of events))
         (ci_observedReadsByCause (coverage_index_of events))" (is "?l \<longleftrightarrow> cov = ?cov")
proof
  assume l: ?l
  have "\<not> (\<exists>g. cov = gap_coverage sha g)" using l by (auto simp: gap_coverage_def Let_def)
  with l obtain d where d: "d \<in> set events"
    "cov \<in> set (event_coverage sha (by_id events) (coverage_index_of events) corrections d)"
    by (auto simp: deriveProjectionCoverage_def Let_def map_index_distinct [OF ids] by_id_def [symmetric])
  from event_coverage_scope [OF d(2)] l have "eventId d = eventId e" and cov: "\<exists>rq. payload d = ToolRequested rq
    \<and> cov = toolCoverage sha d rq (map_get (ci_completionsByRequest (coverage_index_of events)) (eventId d))
         (by_id events) (ci_observedEffectsByCause (coverage_index_of events))
         (ci_observedReadsByCause (coverage_index_of events))"
    by blast+
  then have "d = e" using ids d(1) e by (meson distinct_map inj_onD)
  with cov rq show "cov = ?cov" by auto
next
  assume cov: "cov = ?cov"
  have "cov \<in> set (event_coverage sha (by_id events) (coverage_index_of events) corrections e)"
    by (simp add: event_coverage_def rq cov)
  with e cov show ?l
    by (auto simp: deriveProjectionCoverage_def Let_def map_index_distinct [OF ids] by_id_def [symmetric])
qed

section \<open>Properties\<close>

text \<open>
  C9: In a ledger with distinct identifiers every tool request has exactly one coverage record, and
  that record says \<open>sufficient\<close> exactly when the call completed, every effect its last completion
  declares is a recorded resource change (one seen by the watcher must also be attributed
  deterministically), and something was observed: a declared effect, a change the completion caused,
  or - unless the call was opaque - a read it caused.
\<close>

theorem tool_coverage_sufficient:
  assumes "distinct (map eventId events)" and "e \<in> set events" and "payload e = ToolRequested rq"
  shows "(\<exists>!cov. cov \<in> set (deriveProjectionCoverage sha events gaps corrections)
      \<and> pc_scope cov = ''tool:'' @ eventId e)
    \<and> (\<forall>cov \<in> set (deriveProjectionCoverage sha events gaps corrections).
      pc_scope cov = ''tool:'' @ eventId e \<longrightarrow>
      (pc_presentation cov = PR_sufficient \<longleftrightarrow>
        (\<exists>co p. last_option (completions_of events (eventId e)) = Some (co, p)
          \<and> (\<forall>i \<in> set (tc_effectEventIds p). \<exists>effect \<in> set events. eventId effect = i
               \<and> payload_changed (payload effect) \<noteq> None
               \<and> (sr_kind (source effect) = Watcher \<longrightarrow>
                    (\<exists>ids. tc_deterministicallyAttributedEffectEventIds p = Some ids \<and> i \<in> set ids)))
          \<and> (tc_effectEventIds p \<noteq> [] \<or> changes_caused_by events (eventId co) \<noteq> []
             \<or> (reads_caused_by events (eventId e) \<noteq> [] \<and> \<not> tq_opaque rq)))))"
proof (intro conjI ballI impI)
  show "\<exists>!cov. cov \<in> set (deriveProjectionCoverage sha events gaps corrections)
      \<and> pc_scope cov = ''tool:'' @ eventId e"
    unfolding tool_coverage_unique [OF assms] by simp
next
  fix cov assume cov: "cov \<in> set (deriveProjectionCoverage sha events gaps corrections)"
    "pc_scope cov = ''tool:'' @ eventId e"
  have bound: "effect_bound (by_id events) p i \<longleftrightarrow> (\<exists>effect \<in> set events. eventId effect = i
      \<and> payload_changed (payload effect) \<noteq> None
      \<and> (sr_kind (source effect) = Watcher \<longrightarrow>
           (\<exists>ids. tc_deterministicallyAttributedEffectEventIds p = Some ids \<and> i \<in> set ids)))" for p i
    unfolding effect_bound_def using by_id_get [OF assms(1)] by_id_getD [of events] by metis
  from cov have eq: "cov = toolCoverage sha e rq
      (map_get (ci_completionsByRequest (coverage_index_of events)) (eventId e))
      (by_id events) (ci_observedEffectsByCause (coverage_index_of events))
      (ci_observedReadsByCause (coverage_index_of events))"
    using tool_coverage_unique [OF assms, of cov sha gaps corrections] by blast
  show "pc_presentation cov = PR_sufficient \<longleftrightarrow>
        (\<exists>co p. last_option (completions_of events (eventId e)) = Some (co, p)
          \<and> (\<forall>i \<in> set (tc_effectEventIds p). \<exists>effect \<in> set events. eventId effect = i
               \<and> payload_changed (payload effect) \<noteq> None
               \<and> (sr_kind (source effect) = Watcher \<longrightarrow>
                    (\<exists>ids. tc_deterministicallyAttributedEffectEventIds p = Some ids \<and> i \<in> set ids)))
          \<and> (tc_effectEventIds p \<noteq> [] \<or> changes_caused_by events (eventId co) \<noteq> []
             \<or> (reads_caused_by events (eventId e) \<noteq> [] \<and> \<not> tq_opaque rq)))"
    unfolding eq toolCoverage_sufficient completions_scan observed_effects_scan observed_reads_scan bound ..
qed

theorem tool_coverage_sufficient_witness:
  "\<exists>!cov. cov \<in> set (deriveProjectionCoverage (\<lambda>_. ''h'') demo_tool_run [] [])
     \<and> pc_scope cov = ''tool:evt_q''"
proof -
  have "demo_request \<in> set demo_tool_run" "payload demo_request = ToolRequested demo_tool"
    by (simp_all add: demo_simps)
  from tool_coverage_sufficient [OF demo_distinct(1) this, of "\<lambda>_. ''h''" "[]" "[]"]
  show ?thesis by (simp add: demo_request_def demo_event_def)
qed

end
