(* ===== verification/Work_Graph.thy ===== *)
theory Work_Graph
  imports Coverage
begin

text \<open>
  The work-graph projection: \<open>packages/storage/src/work-graph.ts\<close> and \<open>work-graph-types.ts\<close>.

  The source mutates the maps of a fresh state; here each \<open>add...\<close> function takes the two maps it
  touches (nodes and edges) and returns them.  \<open>deepFreeze\<close> is the identity on values.
\<close>

section \<open>Types\<close>

datatype graph_node =
  Agent_node (gn_id: string) (gn_agentId: string) (gn_evidence: "string list")
| Task_node (gn_id: string) (gn_taskId: string) (gn_evidence: "string list")
    (gn_completionEventIds: "string list") (gn_workProductIds: "string list")
| Resource_node (gn_id: string) (gn_resource: logical_resource) (gn_evidence: "string list")
| Version_node (gn_id: string) (gn_version: resource_version) (gn_evidence: "string list")

fun node_kind_str :: "graph_node \<Rightarrow> string" where
  "node_kind_str (Agent_node _ _ _) = ''agent''"
| "node_kind_str (Task_node _ _ _ _ _) = ''task''"
| "node_kind_str (Resource_node _ _ _) = ''resource''"
| "node_kind_str (Version_node _ _ _) = ''version''"

fun with_evidence :: "string list \<Rightarrow> graph_node \<Rightarrow> graph_node" where
  "with_evidence ids (Agent_node n a _) = Agent_node n a ids"
| "with_evidence ids (Task_node n t _ c w) = Task_node n t ids c w"
| "with_evidence ids (Resource_node n r _) = Resource_node n r ids"
| "with_evidence ids (Version_node n v _) = Version_node n v ids"

record graph_edge =
  ge_edgeId :: string
  ge_kind :: edge_kind
  ge_fromNodeId :: "string option"
  ge_toNodeId :: string
  ge_evidenceEventIds :: "string list"
  ge_agentId :: "string option"
  ge_taskId :: "string option"
  ge_changeKind :: "change_kind option"
  ge_beforeVersionId :: "string option option"
  ge_afterVersionId :: "string option"
  ge_dependency :: "dependency option"

record feedback_view =
  fv_eventId :: string
  fv_feedback :: finding_feedback

record finding_view =
  vf_finding :: finding
  vf_feedback :: "feedback_view list"
  vf_status :: finding_status
  vf_eventIds :: "string list"

record decision_view =
  vd_decision :: decision
  vd_deliveries :: "decision_delivery list"
  vd_feedback :: "feedback_view list"
  vd_eventIds :: "string list"

type_synonym node_map = "(string, graph_node) js_map"
type_synonym edge_map = "(string, graph_edge) js_map"
type_synonym graph = "node_map \<times> edge_map"
type_synonym finding_views = "(string, finding_view) js_map"
type_synonym decision_views = "(string, decision_view) js_map"

record work_graph_state =
  wg_eventsById :: events_by_id
  wg_corrections :: corrections
  wg_graph :: graph
  wg_findings :: finding_views
  wg_decisions :: decision_views
  wg_coverageInputs :: "projection_coverage list"

record work_graph_snapshot =
  sn_nodes :: "graph_node list"
  sn_edges :: "graph_edge list"
  sn_coverage :: "projection_coverage list"
  sn_findings :: "finding_view list"
  sn_decisions :: "decision_view list"

definition wg_initialState :: work_graph_state where
  "wg_initialState = \<lparr>wg_eventsById = [], wg_corrections = [], wg_graph = ([], []), wg_findings = [],
     wg_decisions = [], wg_coverageInputs = []\<rparr>"

section \<open>Mapping one event\<close>

definition upsertNode :: "graph_node \<Rightarrow> graph \<Rightarrow> graph" where
  "upsertNode node g = (case g of (nodes, edges) \<Rightarrow>
     (map_set (gn_id node) (case map_get nodes (gn_id node) of
         None \<Rightarrow> node
       | Some existing \<Rightarrow> with_evidence (gn_evidence existing @ gn_evidence node) existing) nodes, edges))"

definition upsertEdge :: "graph_edge \<Rightarrow> graph \<Rightarrow> graph" where
  "upsertEdge edge g = (case g of (nodes, edges) \<Rightarrow>
     (nodes, map_set (ge_edgeId edge) (case map_get edges (ge_edgeId edge) of
         None \<Rightarrow> edge
       | Some existing \<Rightarrow> existing\<lparr>ge_evidenceEventIds :=
           ge_evidenceEventIds existing @ ge_evidenceEventIds edge\<rparr>) edges))"

definition sourceNodeId :: "event \<Rightarrow> string option" where
  "sourceNodeId e = (case taskId e of
     Some t \<Rightarrow> Some (taskNodeId t)
   | None \<Rightarrow> (case agentId e of Some a \<Rightarrow> Some (agentNodeId a) | None \<Rightarrow> None))"

definition effectiveEvent :: "event \<Rightarrow> corrections \<Rightarrow> event" where
  "effectiveEvent e corrections =
     (case map_get corrections (eventId e) of
        None \<Rightarrow> e
      | Some ov \<Rightarrow>
          if schemaVersion e = 3 then e
          else e\<lparr>agentId := ac_attributedAgentId (ao_correction ov),
                 taskId := ac_attributedTaskId (ao_correction ov)\<rparr>)"

text \<open>An edge attributed to the event, with no field of a particular edge kind.\<close>

definition plain_edge ::
    "edge_kind \<Rightarrow> string option \<Rightarrow> string \<Rightarrow> string \<Rightarrow> string list \<Rightarrow> event \<Rightarrow> graph_edge" where
  "plain_edge kind fromNode toNode discriminator evidence e =
     \<lparr>ge_edgeId = edgeId kind fromNode toNode discriminator, ge_kind = kind, ge_fromNodeId = fromNode,
      ge_toNodeId = toNode, ge_evidenceEventIds = evidence, ge_agentId = agentId e,
      ge_taskId = taskId e, ge_changeKind = None, ge_beforeVersionId = None, ge_afterVersionId = None,
      ge_dependency = None\<rparr>"

definition addEnvelopeNodes :: "event \<Rightarrow> graph \<Rightarrow> graph" where
  "addEnvelopeNodes e g =
     (let g1 = (case agentId e of None \<Rightarrow> g
                | Some a \<Rightarrow> upsertNode (Agent_node (agentNodeId a) a [eventId e]) g);
          g2 = (case taskId e of None \<Rightarrow> g1
                | Some t \<Rightarrow> upsertNode (Task_node (taskNodeId t) t [eventId e] [] []) g1)
      in case (agentId e, taskId e) of
           (Some a, Some t) \<Rightarrow>
             upsertEdge (plain_edge EK_performs (Some (agentNodeId a)) (taskNodeId t) ''attribution''
               [eventId e] e) g2
         | _ \<Rightarrow> g2)"

definition addResourceNode :: "logical_resource \<Rightarrow> string \<Rightarrow> graph \<Rightarrow> graph" where
  "addResourceNode resource ident = upsertNode (Resource_node (resourceNodeId resource) resource [ident])"

definition addVersionNode :: "(string \<Rightarrow> string) \<Rightarrow> resource_version \<Rightarrow> string \<Rightarrow> graph \<Rightarrow> graph" where
  "addVersionNode sha version ident =
     upsertNode (Version_node (versionNodeId sha version) version (ident # rv_evidenceEventIds version))"

definition addVersionReference :: "event \<Rightarrow> logical_resource \<Rightarrow> string \<Rightarrow> graph \<Rightarrow> graph" where
  "addVersionReference e resource versionNode =
     upsertEdge (plain_edge EK_references_version (Some (resourceNodeId resource)) versionNode
       ''resource-version'' [eventId e] e)"

definition addObservedResource :: "(string \<Rightarrow> string) \<Rightarrow> event \<Rightarrow> resource_observed \<Rightarrow> graph \<Rightarrow> graph" where
  "addObservedResource sha e p g =
     upsertEdge (plain_edge EK_reads (sourceNodeId e) (resourceNodeId (ro_resource p)) (eventId e) [eventId e] e)
       (addVersionReference e (ro_resource p) (versionNodeId sha (ro_version p))
         (addVersionNode sha (ro_version p) (eventId e)
           (addResourceNode (ro_resource p) (eventId e) g)))"

definition addChangedResource :: "(string \<Rightarrow> string) \<Rightarrow> event \<Rightarrow> resource_changed \<Rightarrow> graph \<Rightarrow> graph" where
  "addChangedResource sha e p g =
     (let before = map_option (versionNodeId sha) (rc_beforeVersion p);
          after = versionNodeId sha (rc_afterVersion p);
          g1 = addResourceNode (rc_resource p) (eventId e) g;
          g2 = (case rc_beforeVersion p of None \<Rightarrow> g1 | Some v \<Rightarrow> addVersionNode sha v (eventId e) g1);
          g3 = addVersionNode sha (rc_afterVersion p) (eventId e) g2;
          g4 = (case before of None \<Rightarrow> g3 | Some b \<Rightarrow> addVersionReference e (rc_resource p) b g3);
          g5 = addVersionReference e (rc_resource p) after g4
      in upsertEdge ((plain_edge EK_changes (sourceNodeId e) (resourceNodeId (rc_resource p)) (eventId e)
             [eventId e] e)
             \<lparr>ge_changeKind := Some (rc_changeKind p), ge_beforeVersionId := Some before,
              ge_afterVersionId := Some after\<rparr>) g5)"

definition addTaskCompletion :: "event \<Rightarrow> graph \<Rightarrow> graph" where
  "addTaskCompletion e g =
     (case (payload_task_completed (payload e), taskId e) of
        (Some p, Some t) \<Rightarrow>
          (case g of (nodes, edges) \<Rightarrow>
            (case map_get nodes (taskNodeId t) of
               Some (Task_node n task evidence completions products) \<Rightarrow>
                 (map_set n (Task_node n task (sortedUnique (evidence @ [eventId e]))
                    (sortedUnique (completions @ [eventId e]))
                    (sortedUnique (products @ [tk_workProductId p]))) nodes, edges)
             | _ \<Rightarrow> (nodes, edges)))
      | _ \<Rightarrow> g)"

definition addDependency :: "(string \<Rightarrow> string) \<Rightarrow> event \<Rightarrow> dependency \<Rightarrow> graph \<Rightarrow> graph" where
  "addDependency sha e d g =
     upsertEdge ((plain_edge EK_depends_on (Some (''resource:'' @ dp_dependentResourceId d))
         (''resource:'' @ dp_dependencyResourceId d) (dp_dependencyId d)
         (sortedUnique (eventId e # dp_evidenceEventIds d)) e)\<lparr>ge_dependency := Some d\<rparr>)
       (addVersionNode sha (dp_dependencyVersion d) (eventId e)
         (addVersionNode sha (dp_dependentVersion d) (eventId e) g))"

definition mapEvent :: "(string \<Rightarrow> string) \<Rightarrow> event \<Rightarrow> graph \<Rightarrow> graph" where
  "mapEvent sha e g =
     (let g1 = addEnvelopeNodes e g;
          g2 = (case payload_read (payload e) of None \<Rightarrow> g1 | Some p \<Rightarrow> addObservedResource sha e p g1);
          g3 = (case payload_changed (payload e) of None \<Rightarrow> g2 | Some p \<Rightarrow> addChangedResource sha e p g2);
          g4 = addTaskCompletion e g3
      in case payload_dependency (payload e) of None \<Rightarrow> g4 | Some d \<Rightarrow> addDependency sha e d g4)"

text \<open>The body of the loop shared by \<open>buildProjection\<close>, \<open>rebuildProjection\<close> and \<open>extendProjection\<close>.\<close>

definition project_event :: "(string \<Rightarrow> string) \<Rightarrow> corrections \<Rightarrow> graph \<Rightarrow> event \<Rightarrow> graph" where
  "project_event sha corrections g e =
     (if eventType e = ET_attribution_corrected then addEnvelopeNodes e g
      else mapEvent sha (effectiveEvent e corrections) g)"

section \<open>Finding and decision views\<close>

record view_index =
  vi_findings :: finding_views
  vi_decisions :: decision_views
  vi_feedback :: "(string, feedback_view list) js_map"
  vi_deliveries :: "(string, (string, decision_delivery) js_map) js_map"

fun index_view :: "event \<Rightarrow> payload \<Rightarrow> view_index \<Rightarrow> view_index" where
  "index_view e (FindingCreated f) ix = ix\<lparr>vi_findings := map_set (fi_findingId f)
     \<lparr>vf_finding = f, vf_feedback = [], vf_status = fi_status f, vf_eventIds = [eventId e]\<rparr> (vi_findings ix)\<rparr>"
| "index_view e (FindingFeedbackCreated fb) ix = ix\<lparr>vi_feedback := map_set (ff_findingId fb)
     ((case map_get (vi_feedback ix) (ff_findingId fb) of None \<Rightarrow> [] | Some current \<Rightarrow> current)
       @ [\<lparr>fv_eventId = eventId e, fv_feedback = fb\<rparr>]) (vi_feedback ix)\<rparr>"
| "index_view e (DecisionCreated d) ix = ix\<lparr>vi_decisions := map_set (dc_decisionId d)
     \<lparr>vd_decision = d, vd_deliveries = [], vd_feedback = [], vd_eventIds = [eventId e]\<rparr> (vi_decisions ix)\<rparr>"
| "index_view e (DecisionDeliveryChanged p) ix =
     (let byDelivery = (case map_get (vi_deliveries ix) (dl_decisionId p) of None \<Rightarrow> [] | Some m \<Rightarrow> m);
          delivery = dl_delivery p;
          replaces = (case map_get byDelivery (dd_deliveryId delivery) of
            None \<Rightarrow> True
          | Some existing \<Rightarrow> length (dd_eventIds existing) \<le> length (dd_eventIds delivery))
      in ix\<lparr>vi_deliveries := map_set (dl_decisionId p)
           (if replaces then map_set (dd_deliveryId delivery) delivery byDelivery else byDelivery)
           (vi_deliveries ix)\<rparr>)"
| "index_view e _ ix = ix"

definition view_index_of :: "event list \<Rightarrow> view_index" where
  "view_index_of events = foldl (\<lambda>ix e. index_view e (payload e) ix)
     \<lparr>vi_findings = [], vi_decisions = [], vi_feedback = [], vi_deliveries = []\<rparr>
     (js_sort by_event_id events)"

definition by_feedback_event :: "feedback_view \<Rightarrow> feedback_view \<Rightarrow> int" where
  "by_feedback_event left right = compareStrings (fv_eventId left) (fv_eventId right)"

definition feedback_of :: "view_index \<Rightarrow> string \<Rightarrow> feedback_view list" where
  "feedback_of ix findingId = (case map_get (vi_feedback ix) findingId of None \<Rightarrow> [] | Some fs \<Rightarrow> fs)"

definition complete_finding :: "view_index \<Rightarrow> string \<Rightarrow> finding_view \<Rightarrow> finding_view" where
  "complete_finding ix findingId view =
     (let fb = js_sort by_feedback_event (feedback_of ix findingId)
      in view\<lparr>vf_feedback := fb,
           vf_status := (if \<exists>entry \<in> set fb. ff_disposition (fv_feedback entry) = FD_dismissed
                         then FS_dismissed else vf_status view),
           vf_eventIds := filter (\<lambda>i. i \<noteq> [])
             (sortedUnique ((case vf_eventIds view of [] \<Rightarrow> '''' | i # _ \<Rightarrow> i) # map fv_eventId fb))\<rparr>)"

definition complete_decision :: "view_index \<Rightarrow> string \<Rightarrow> decision_view \<Rightarrow> decision_view" where
  "complete_decision ix decisionId view =
     (let fb = js_sort by_feedback_event
            (filter (\<lambda>entry. ff_decisionId (fv_feedback entry) = Some decisionId)
              (feedback_of ix (dc_findingId (vd_decision view))));
          deliveries = js_sort (\<lambda>left right. compareStrings (dd_deliveryId left) (dd_deliveryId right))
            (case map_get (vi_deliveries ix) decisionId of None \<Rightarrow> [] | Some m \<Rightarrow> map_values m)
      in view\<lparr>vd_deliveries := deliveries, vd_feedback := fb,
           vd_eventIds := filter (\<lambda>i. i \<noteq> [])
             (sortedUnique ((case vd_eventIds view of [] \<Rightarrow> '''' | i # _ \<Rightarrow> i)
               # concat (map dd_eventIds deliveries) @ map fv_eventId fb))\<rparr>)"

definition derived_findings :: "event list \<Rightarrow> finding_views" where
  "derived_findings events =
     (let ix = view_index_of events
      in map (\<lambda>(k, view). (k, complete_finding ix k view)) (vi_findings ix))"

definition derived_decisions :: "event list \<Rightarrow> decision_views" where
  "derived_decisions events =
     (let ix = view_index_of events
      in map (\<lambda>(k, view). (k, complete_decision ix k view)) (vi_decisions ix))"

section \<open>Projections\<close>

text \<open>The derivations that close every projection: views and coverage of all recorded events.\<close>

definition derive_all :: "(string \<Rightarrow> string) \<Rightarrow> work_graph_state \<Rightarrow> work_graph_state" where
  "derive_all sha st =
     (let events = map_values (wg_eventsById st)
      in st\<lparr>wg_findings := derived_findings events, wg_decisions := derived_decisions events,
            wg_coverageInputs := deriveProjectionCoverage sha events [] (wg_corrections st)\<rparr>)"

definition record_correction :: "event \<Rightarrow> corrections \<Rightarrow> corrections" where
  "record_correction e corrections = (case payload_correction (payload e) of
     None \<Rightarrow> corrections
   | Some c \<Rightarrow> map_set (ac_targetEventId c) \<lparr>ao_eventId = ac_targetEventId c, ao_correction = c\<rparr> corrections)"

definition record_event :: "work_graph_state \<Rightarrow> event \<Rightarrow> work_graph_state" where
  "record_event st e = st\<lparr>wg_eventsById := map_set (eventId e) e (wg_eventsById st),
     wg_corrections := record_correction e (wg_corrections st)\<rparr>"

definition map_all :: "(string \<Rightarrow> string) \<Rightarrow> event list \<Rightarrow> work_graph_state \<Rightarrow> work_graph_state" where
  "map_all sha events st =
     st\<lparr>wg_graph := foldl (project_event sha (wg_corrections st)) (wg_graph st) events\<rparr>"

definition rebuildProjection :: "(string \<Rightarrow> string) \<Rightarrow> work_graph_state \<Rightarrow> work_graph_state" where
  "rebuildProjection sha st =
     derive_all sha (map_all sha (map_values (wg_eventsById st))
       (wg_initialState\<lparr>wg_eventsById := wg_eventsById st, wg_corrections := wg_corrections st\<rparr>))"

definition applyEvent :: "(string \<Rightarrow> string) \<Rightarrow> work_graph_state \<Rightarrow> event \<Rightarrow> work_graph_state" where
  "applyEvent sha st e =
     (let next = record_event st e
      in if eventType e = ET_attribution_corrected then rebuildProjection sha next
         else derive_all sha (next\<lparr>wg_graph :=
                mapEvent sha (effectiveEvent e (wg_corrections next)) (wg_graph next)\<rparr>))"

definition buildProjection :: "(string \<Rightarrow> string) \<Rightarrow> event list \<Rightarrow> work_graph_state" where
  "buildProjection sha events =
     derive_all sha (map_all sha events (foldl record_event wg_initialState events))"

definition reduceEvents :: "(string \<Rightarrow> string) \<Rightarrow> event list \<Rightarrow> work_graph_state" where
  "reduceEvents sha events = foldl (applyEvent sha) wg_initialState events"

definition extendProjection ::
    "(string \<Rightarrow> string) \<Rightarrow> work_graph_state \<Rightarrow> event list \<Rightarrow> work_graph_state option" where
  "extendProjection sha base suffix =
     (if \<exists>e \<in> set suffix. case payload_correction (payload e) of
           None \<Rightarrow> False | Some c \<Rightarrow> ac_targetEventId c \<notin> set (map eventId suffix)
      then None
      else Some (derive_all sha (map_all sha suffix (foldl record_event base suffix))))"

section \<open>Snapshots\<close>

definition edge_order :: "graph_edge \<Rightarrow> graph_edge \<Rightarrow> int" where
  "edge_order left right =
     (let fromNode = (\<lambda>e. case ge_fromNodeId e of None \<Rightarrow> '''' | Some n \<Rightarrow> n)
      in js_or (compareStrings (edge_kind_str (ge_kind left)) (edge_kind_str (ge_kind right)))
           (js_or (compareStrings (fromNode left) (fromNode right))
             (js_or (compareStrings (ge_toNodeId left) (ge_toNodeId right))
               (compareStrings (ge_edgeId left) (ge_edgeId right)))))"

definition snapshotFromState ::
    "(string \<Rightarrow> string) \<Rightarrow> work_graph_state \<Rightarrow> sequence_gap list \<Rightarrow> work_graph_snapshot" where
  "snapshotFromState sha st gaps =
     (let nodes = js_sort (\<lambda>left right.
            js_or (compareStrings (node_kind_str left) (node_kind_str right))
              (compareStrings (gn_id left) (gn_id right))) (map_values (fst (wg_graph st)));
          edges = js_sort edge_order (map_values (snd (wg_graph st)));
          coverage = (if gaps = [] then wg_coverageInputs st
            else deriveProjectionCoverage sha (map_values (wg_eventsById st)) gaps (wg_corrections st))
      in \<lparr>sn_nodes = map (\<lambda>n. with_evidence (sortedUnique (gn_evidence n)) n) nodes,
          sn_edges = map (\<lambda>e. e\<lparr>ge_evidenceEventIds := sortedUnique (ge_evidenceEventIds e)\<rparr>) edges,
          sn_coverage = js_sort by_coverage_id coverage,
          sn_findings = js_sort (\<lambda>left right.
            compareStrings (fi_findingId (vf_finding left)) (fi_findingId (vf_finding right)))
            (map_values (wg_findings st)),
          sn_decisions = js_sort (\<lambda>left right.
            compareStrings (dc_decisionId (vd_decision left)) (dc_decisionId (vd_decision right)))
            (map_values (wg_decisions st))\<rparr>)"

record work_graph_result =
  wr_orderedEvents :: "event list"
  wr_sourceSequenceGaps :: "sequence_gap list"
  wr_state :: work_graph_state
  wr_snapshot :: work_graph_snapshot

definition projectWorkGraph ::
    "(string \<Rightarrow> string) \<Rightarrow> (string \<Rightarrow> string \<Rightarrow> int) \<Rightarrow> event list
     \<Rightarrow> (storage_error + work_graph_result) option" where
  "projectWorkGraph sha lc events =
     map_option (\<lambda>r. raise_bind r (\<lambda>replay.
       let st = buildProjection sha (rr_orderedEvents replay)
       in Inr \<lparr>wr_orderedEvents = rr_orderedEvents replay,
               wr_sourceSequenceGaps = rr_sourceSequenceGaps replay, wr_state = st,
               wr_snapshot = snapshotFromState sha st (rr_sourceSequenceGaps replay)\<rparr>))
     (replayEvents sha lc () (\<lambda>s e. ()) events)"

section \<open>Recording events\<close>

lemma correction_type: "eventType e = ET_attribution_corrected \<longleftrightarrow> (\<exists>c. payload e = AttributionCorrected c)"
  unfolding eventType_def by (cases "payload e") auto

lemma record_events_fields:
  "wg_graph (foldl record_event st events) = wg_graph st"
  "wg_findings (foldl record_event st events) = wg_findings st"
  "wg_decisions (foldl record_event st events) = wg_decisions st"
  "wg_coverageInputs (foldl record_event st events) = wg_coverageInputs st"
  "wg_corrections (foldl record_event st events) = foldl (\<lambda>c e. record_correction e c) (wg_corrections st) events"
  "wg_eventsById (foldl record_event st events) = map_index_from eventId (wg_eventsById st) events"
  by (induction events arbitrary: st) (simp_all add: record_event_def)

lemma derive_all_state:
  "derive_all sha (st\<lparr>wg_findings := f, wg_decisions := d, wg_coverageInputs := c\<rparr>) = derive_all sha st"
  by (simp add: derive_all_def Let_def)

text \<open>A correction matters only for the event it targets.\<close>

lemma record_corrections_other:
  assumes "\<forall>e \<in> set events. \<forall>c. payload e = AttributionCorrected c \<longrightarrow> ac_targetEventId c \<noteq> i"
  shows "map_get (foldl (\<lambda>c e. record_correction e c) corrections events) i = map_get corrections i"
  using assms
proof (induction events arbitrary: corrections)
  case (Cons e es)
  have "map_get (record_correction e corrections) i = map_get corrections i"
    using Cons.prems by (cases "payload e") (auto simp: record_correction_def js_simps)
  with Cons show ?case by simp
qed simp

lemma effectiveEvent_cong: "map_get c (eventId e) = map_get d (eventId e) \<Longrightarrow> effectiveEvent e c = effectiveEvent e d"
  by (simp add: effectiveEvent_def)

lemma project_events_cong:
  assumes "\<forall>e \<in> set events. map_get c (eventId e) = map_get d (eventId e)"
  shows "foldl (project_event sha c) g events = foldl (project_event sha d) g events"
  using assms
proof (induction events arbitrary: g)
  case (Cons e es)
  then have "project_event sha c g e = project_event sha d g e"
    by (simp add: project_event_def effectiveEvent_cong [of c e d])
  with Cons show ?case by simp
qed simp

section \<open>One pass, incremental and resumed projection agree\<close>

lemma derive_all_cong:
  assumes "wg_eventsById a = wg_eventsById b" and "wg_corrections a = wg_corrections b"
    and "wg_graph a = wg_graph b"
  shows "derive_all sha a = derive_all sha b"
  using assms by (simp add: derive_all_def Let_def)

lemma derive_all_fields [simp]:
  "wg_eventsById (derive_all sha st) = wg_eventsById st"
  "wg_corrections (derive_all sha st) = wg_corrections st"
  "wg_graph (derive_all sha st) = wg_graph st"
  by (simp_all add: derive_all_def Let_def)

lemma map_all_fields [simp]:
  "wg_eventsById (map_all sha events st) = wg_eventsById st"
  "wg_corrections (map_all sha events st) = wg_corrections st"
  "wg_graph (map_all sha events st) = foldl (project_event sha (wg_corrections st)) (wg_graph st) events"
  by (simp_all add: map_all_def)

lemma initial_fields [simp]:
  "wg_eventsById wg_initialState = []" "wg_corrections wg_initialState = []"
  "wg_graph wg_initialState = ([], [])"
  by (simp_all add: wg_initialState_def)

definition corrections_of :: "event list \<Rightarrow> corrections" where
  "corrections_of events = foldl (\<lambda>c e. record_correction e c) [] events"

lemma buildProjection_fields:
  "wg_eventsById (buildProjection sha events) = map_index eventId events"
  "wg_corrections (buildProjection sha events) = corrections_of events"
  "wg_graph (buildProjection sha events) = foldl (project_event sha (corrections_of events)) ([], []) events"
  by (simp_all add: buildProjection_def record_events_fields map_index_def corrections_of_def)

lemma extend_build:
  assumes ids: "distinct (map eventId (prefix @ suffix))"
    and inside: "\<forall>e \<in> set suffix. \<forall>c. payload e = AttributionCorrected c \<longrightarrow> ac_targetEventId c \<in> eventId ` set suffix"
  shows "derive_all sha (map_all sha suffix (foldl record_event (buildProjection sha prefix) suffix))
    = buildProjection sha (prefix @ suffix)"
proof -
  have other: "map_get (corrections_of (prefix @ suffix)) (eventId e) = map_get (corrections_of prefix) (eventId e)"
    if "e \<in> set prefix" for e
  proof -
    have "eventId e \<notin> eventId ` set suffix" using ids that by auto
    then show ?thesis
      using record_corrections_other [of suffix "eventId e" "corrections_of prefix"] inside
      by (fastforce simp: corrections_of_def)
  qed
  have "foldl (project_event sha (corrections_of prefix)) ([], []) prefix
      = foldl (project_event sha (corrections_of (prefix @ suffix))) ([], []) prefix"
    by (rule project_events_cong) (simp add: other)
  then show ?thesis
    unfolding buildProjection_def [of sha "prefix @ suffix"]
    by (intro derive_all_cong)
      (simp_all add: record_events_fields buildProjection_fields map_index_def map_index_from_append
        corrections_of_def)
qed

lemma no_correction_inside:
  "(\<exists>e \<in> set suffix. case payload_correction (payload e) of
      None \<Rightarrow> False | Some c \<Rightarrow> ac_targetEventId c \<notin> set (map eventId suffix))
   \<longleftrightarrow> \<not> (\<forall>e \<in> set suffix. \<forall>c. payload e = AttributionCorrected c \<longrightarrow> ac_targetEventId c \<in> eventId ` set suffix)"
proof -
  have "(case payload_correction (payload e) of None \<Rightarrow> False | Some c \<Rightarrow> ac_targetEventId c \<notin> set (map eventId suffix))
    \<longleftrightarrow> \<not> (\<forall>c. payload e = AttributionCorrected c \<longrightarrow> ac_targetEventId c \<in> eventId ` set suffix)" for e
    by (cases "payload e") auto
  then show ?thesis by blast
qed

lemma apply_build:
  assumes ids: "distinct (map eventId (events @ [e]))"
  shows "applyEvent sha (buildProjection sha events) e = buildProjection sha (events @ [e])"
proof (cases "eventType e = ET_attribution_corrected")
  case True
  have "map_values (map_index eventId (events @ [e])) = events @ [e]"
    by (simp only: map_index_distinct [OF ids]) (simp add: comp_def)
  then show ?thesis
    using True unfolding applyEvent_def Let_def rebuildProjection_def buildProjection_def [of sha "events @ [e]"]
    by (simp, intro derive_all_cong)
      (simp_all add: record_events_fields record_event_def buildProjection_fields map_index_def
        map_index_from_append corrections_of_def)
next
  case False
  then have none: "payload_correction (payload e) = None"
    by (cases "payload e") (auto simp: correction_type)
  then have same: "corrections_of (events @ [e]) = corrections_of events"
    by (simp add: corrections_of_def record_correction_def)
  then show ?thesis
    using False none unfolding applyEvent_def Let_def buildProjection_def [of sha "events @ [e]"]
    by (simp, intro derive_all_cong)
      (simp_all add: record_events_fields record_event_def buildProjection_fields map_index_def
        map_index_from_append corrections_of_def record_correction_def project_event_def)
qed

section \<open>Properties\<close>

text \<open>
  C8: The one-pass projection is the incremental one: on events with distinct identifiers
  \<open>buildProjection\<close> - which collects corrections first and derives every view once - gives exactly the
  state that \<open>reduceEvents\<close> reaches by applying one event at a time and rebuilding after each correction.
\<close>

theorem reduce_is_build:
  assumes "distinct (map eventId events)"
  shows "reduceEvents sha events = buildProjection sha events"
  using assms
proof (induction events rule: rev_induct)
  case Nil
  show ?case
    by (simp add: reduceEvents_def buildProjection_def map_all_def derive_all_def wg_initialState_def
        derived_findings_def derived_decisions_def view_index_of_def deriveProjectionCoverage_def Let_def)
next
  case (snoc e events)
  then have "reduceEvents sha (events @ [e]) = applyEvent sha (buildProjection sha events) e"
    by (simp add: reduceEvents_def)
  also have "\<dots> = buildProjection sha (events @ [e])"
    by (rule apply_build) (use snoc in simp)
  finally show ?case .
qed

theorem reduce_is_build_witness:
  "reduceEvents (\<lambda>_. ''h'') demo_write_run = buildProjection (\<lambda>_. ''h'') demo_write_run"
  by (rule reduce_is_build [OF demo_distinct(3)])

text \<open>
  C3: Resuming from a checkpoint is exact: for a suffix with fresh, distinct identifiers
  \<open>extendProjection\<close> declines exactly when a correction in the suffix targets an event outside it, and
  otherwise gives the state of \<open>buildProjection\<close> on the prefix followed by the suffix.
\<close>

theorem extend_is_build:
  assumes "distinct (map eventId (prefix @ suffix))"
  shows "extendProjection sha (buildProjection sha prefix) suffix =
    (if \<forall>e \<in> set suffix. \<forall>c. payload e = AttributionCorrected c \<longrightarrow> ac_targetEventId c \<in> eventId ` set suffix
     then Some (buildProjection sha (prefix @ suffix)) else None)"
  unfolding extendProjection_def no_correction_inside
  using extend_build [OF assms] by simp

theorem extend_is_build_witness:
  "extendProjection (\<lambda>_. ''h'') (buildProjection (\<lambda>_. ''h'') [demo_request]) [demo_change, demo_completion]
   = Some (buildProjection (\<lambda>_. ''h'') demo_tool_run)"
proof -
  have "distinct (map eventId ([demo_request] @ [demo_change, demo_completion]))" by (simp add: demo_simps)
  from extend_is_build [OF this, of "\<lambda>_. ''h''"] show ?thesis by (simp add: demo_simps)
qed

section \<open>The graph is closed\<close>

definition has_node :: "graph \<Rightarrow> string \<Rightarrow> bool" where
  "has_node g k \<longleftrightarrow> map_get (fst g) k \<noteq> None"

definition edge_closed :: "graph \<Rightarrow> graph_edge \<Rightarrow> bool" where
  "edge_closed g e \<longleftrightarrow> ge_kind e = EK_depends_on
     \<or> (has_node g (ge_toNodeId e) \<and> (case ge_fromNodeId e of
          None \<Rightarrow> ge_kind e = EK_reads \<or> ge_kind e = EK_changes | Some n \<Rightarrow> has_node g n))"

definition nodes_ok :: "node_map \<Rightarrow> bool" where
  "nodes_ok nodes \<longleftrightarrow> distinct (map_keys nodes)
     \<and> (\<forall>k n. map_get nodes k = Some n \<longrightarrow> gn_id n = k \<and> gn_evidence n \<noteq> [])"

definition edges_ok :: "graph \<Rightarrow> bool" where
  "edges_ok g \<longleftrightarrow> distinct (map_keys (snd g))
     \<and> (\<forall>k e. map_get (snd g) k = Some e \<longrightarrow> ge_edgeId e = k \<and> ge_evidenceEventIds e \<noteq> [] \<and> edge_closed g e)"

definition graph_ok :: "graph \<Rightarrow> bool" where
  "graph_ok g \<longleftrightarrow> nodes_ok (fst g) \<and> edges_ok g"

named_theorems graph_simps \<open>nodes present after an operation\<close>

lemma with_evidence_simps [simp]:
  "gn_id (with_evidence ids n) = gn_id n" "gn_evidence (with_evidence ids n) = ids"
  by (cases n; simp)+

lemma has_node_upsertNode [graph_simps]:
  "has_node (upsertNode node g) k \<longleftrightarrow> k = gn_id node \<or> has_node g k"
  by (cases g) (simp add: has_node_def upsertNode_def js_simps)

lemma has_node_upsertEdge [graph_simps]: "has_node (upsertEdge edge g) k \<longleftrightarrow> has_node g k"
  by (cases g) (simp add: has_node_def upsertEdge_def)

lemma edge_closed_mono: "edge_closed g e \<Longrightarrow> (\<And>k. has_node g k \<Longrightarrow> has_node h k) \<Longrightarrow> edge_closed h e"
  by (auto simp: edge_closed_def split: option.splits)

lemma nodes_ok_set:
  assumes "nodes_ok nodes" and "gn_id n = k" and "gn_evidence n \<noteq> []"
  shows "nodes_ok (map_set k n nodes)"
  using assms unfolding nodes_ok_def by (simp add: map_get_set distinct_update)

lemma edges_ok_mono:
  assumes "edges_ok g" and "snd h = snd g" and "\<And>k. has_node g k \<Longrightarrow> has_node h k"
  shows "edges_ok h"
  using assms edge_closed_mono [of g _ h] unfolding edges_ok_def by simp

lemma graph_ok_upsertNode:
  assumes "graph_ok g" and "gn_evidence node \<noteq> []"
  shows "graph_ok (upsertNode node g)"
proof -
  obtain nodes edges where g: "g = (nodes, edges)" by (cases g)
  have ok: "nodes_ok nodes" "edges_ok g" using assms(1) by (simp_all add: graph_ok_def g)
  have "edges_ok (upsertNode node g)"
  proof (rule edges_ok_mono [OF ok(2)])
    show "snd (upsertNode node g) = snd g" by (simp add: upsertNode_def g)
    show "has_node (upsertNode node g) k" if "has_node g k" for k
      using that by (simp add: has_node_upsertNode)
  qed
  moreover have "nodes_ok (fst (upsertNode node g))"
  proof (cases "map_get nodes (gn_id node)")
    case None
    then show ?thesis using ok(1) assms(2) by (simp add: upsertNode_def g nodes_ok_set)
  next
    case (Some existing)
    then have "gn_id existing = gn_id node" using ok(1) by (simp add: nodes_ok_def)
    then show ?thesis using ok(1) assms(2) Some by (simp add: upsertNode_def g nodes_ok_set)
  qed
  ultimately show ?thesis by (simp add: graph_ok_def)
qed

lemma graph_ok_upsertEdge:
  assumes "graph_ok g" and "ge_evidenceEventIds edge \<noteq> []" and "edge_closed g edge"
  shows "graph_ok (upsertEdge edge g)"
proof -
  obtain nodes edges where g: "g = (nodes, edges)" by (cases g)
  have closed: "edge_closed (upsertEdge edge g) e = edge_closed g e" for e
    by (simp add: edge_closed_def has_node_upsertEdge cong: option.case_cong)
  let ?new = "case map_get edges (ge_edgeId edge) of None \<Rightarrow> edge
    | Some existing \<Rightarrow> existing\<lparr>ge_evidenceEventIds := ge_evidenceEventIds existing @ ge_evidenceEventIds edge\<rparr>"
  have ok: "edges_ok g" "nodes_ok nodes" using assms(1) by (simp_all add: graph_ok_def g)
  have new: "ge_edgeId ?new = ge_edgeId edge \<and> ge_evidenceEventIds ?new \<noteq> [] \<and> edge_closed g ?new"
  proof (cases "map_get edges (ge_edgeId edge)")
    case None
    then show ?thesis using assms by simp
  next
    case (Some existing)
    then have "ge_edgeId existing = ge_edgeId edge" "edge_closed g existing"
      using ok(1) by (simp_all add: edges_ok_def g)
    then show ?thesis using Some assms(2) by (auto simp: edge_closed_def split: option.splits)
  qed
  have edges: "snd (upsertEdge edge g) = map_set (ge_edgeId edge) ?new edges"
    by (simp add: upsertEdge_def g)
  have "edges_ok (upsertEdge edge g)"
    using ok(1) new unfolding edges_ok_def closed edges by (simp add: map_get_set distinct_update g)
  then show ?thesis using ok(2) by (simp add: graph_ok_def upsertEdge_def g)
qed

lemma plain_edge_simps [simp]:
  "ge_kind (plain_edge k f t d ids e) = k" "ge_fromNodeId (plain_edge k f t d ids e) = f"
  "ge_toNodeId (plain_edge k f t d ids e) = t" "ge_evidenceEventIds (plain_edge k f t d ids e) = ids"
  by (simp_all add: plain_edge_def)

lemma graph_ok_envelope:
  assumes "graph_ok g"
  shows "graph_ok (addEnvelopeNodes e g)"
    and "sourceNodeId e = Some n \<Longrightarrow> has_node (addEnvelopeNodes e g) n"
  using assms
  by (auto simp: addEnvelopeNodes_def Let_def sourceNodeId_def edge_closed_def graph_simps
      intro!: graph_ok_upsertEdge graph_ok_upsertNode split: option.splits)

lemma graph_ok_observed:
  assumes "graph_ok g" and "\<forall>n. sourceNodeId e = Some n \<longrightarrow> has_node g n"
  shows "graph_ok (addObservedResource sha e p g)"
  using assms
  by (auto simp: addObservedResource_def addVersionReference_def addVersionNode_def addResourceNode_def
      edge_closed_def graph_simps intro!: graph_ok_upsertEdge graph_ok_upsertNode split: option.splits)

lemma graph_ok_changed:
  assumes "graph_ok g" and "\<forall>n. sourceNodeId e = Some n \<longrightarrow> has_node g n"
  shows "graph_ok (addChangedResource sha e p g)"
  using assms
  by (cases "rc_beforeVersion p")
    (auto simp: addChangedResource_def Let_def addVersionReference_def addVersionNode_def addResourceNode_def
      edge_closed_def graph_simps intro!: graph_ok_upsertEdge graph_ok_upsertNode split: option.splits)

lemma has_node_changes:
  "has_node g n \<Longrightarrow> has_node (addObservedResource sha e p g) n"
  by (simp add: addObservedResource_def addVersionReference_def addVersionNode_def addResourceNode_def graph_simps)

lemma graph_ok_completion:
  assumes "graph_ok g"
  shows "graph_ok (addTaskCompletion e g)"
proof -
  obtain nodes edges where g: "g = (nodes, edges)" by (cases g)
  have ok: "nodes_ok nodes" "edges_ok g" using assms by (simp_all add: graph_ok_def g)
  show ?thesis
  proof (cases "\<exists>p t n task ev cs ps. payload_task_completed (payload e) = Some p \<and> taskId e = Some t
      \<and> map_get nodes (taskNodeId t) = Some (Task_node n task ev cs ps)")
    case False
    then have "addTaskCompletion e g = g"
      unfolding addTaskCompletion_def g by (auto split: option.splits graph_node.splits)
    then show ?thesis using assms by simp
  next
    case True
    then obtain p t n task ev cs ps where t: "payload_task_completed (payload e) = Some p" "taskId e = Some t"
      "map_get nodes (taskNodeId t) = Some (Task_node n task ev cs ps)" by blast
    let ?node = "Task_node n task (sortedUnique (ev @ [eventId e])) (sortedUnique (cs @ [eventId e]))
      (sortedUnique (ps @ [tk_workProductId p]))"
    have eq: "addTaskCompletion e g = (map_set n ?node nodes, edges)"
      using t by (simp add: addTaskCompletion_def g)
    have evidence: "sortedUnique (ev @ [eventId e]) \<noteq> []"
      by (metis append_is_Nil_conv list.distinct(1) set_empty set_sortedUnique)
    have "nodes_ok (map_set n ?node nodes)"
      by (rule nodes_ok_set [OF ok(1)]) (simp_all add: evidence)
    moreover have "edges_ok (map_set n ?node nodes, edges)"
      by (rule edges_ok_mono [OF ok(2)]) (simp_all add: g has_node_def map_get_set)
    ultimately show ?thesis by (simp add: eq graph_ok_def)
  qed
qed

lemma graph_ok_dependency:
  assumes "graph_ok g"
  shows "graph_ok (addDependency sha e d g)"
proof -
  have "sortedUnique (eventId e # ids) \<noteq> []" for ids
    by (metis list.distinct(1) set_empty set_sortedUnique)
  then show ?thesis
    using assms by (auto simp: addDependency_def addVersionNode_def edge_closed_def
        intro!: graph_ok_upsertEdge graph_ok_upsertNode)
qed

lemma graph_ok_project: "graph_ok g \<Longrightarrow> graph_ok (project_event sha c g e)"
  unfolding project_event_def mapEvent_def Let_def
  by (auto intro!: graph_ok_envelope(1) graph_ok_dependency graph_ok_completion graph_ok_changed
      graph_ok_observed graph_ok_envelope(2) has_node_changes split: option.splits)


definition demo_reader :: "string \<Rightarrow> string \<Rightarrow> event" where
  "demo_reader i task = (demo_event i Adapter None None (FileRead demo_read_payload))
     \<lparr>agentId := None, taskId := Some task, correlationId := i\<rparr>"

lemma demo_reader_order:
  "causalOrder [demo_reader ''b'' ''t2'', demo_reader ''a'' ''t1'']
   = Some (Inr [demo_reader ''a'' ''t1'', demo_reader ''b'' ''t2''])"
  by code_simp

lemma demo_reader_valid:
  "validateEventSet (\<lambda>s. s) compareStrings [demo_reader ''a'' ''t1'', demo_reader ''b'' ''t2''] = []"
  by code_simp

lemma demo_reader_snapshot:
  "snapshotFromState (\<lambda>s. s) (buildProjection (\<lambda>s. s) [demo_reader ''b'' ''t2'', demo_reader ''a'' ''t1'']) []
   \<noteq> snapshotFromState (\<lambda>s. s) (buildProjection (\<lambda>s. s) [demo_reader ''a'' ''t1'', demo_reader ''b'' ''t2'']) []"
  by code_simp

text \<open>
  Processing order is observable in a snapshot.  Two reads of one version by two tasks are a valid
  set; when the one with the larger identifier is recorded first and the projection is resumed from
  it, the snapshot differs from that of the full projection of the same ledger, because an edge keeps
  the attribution of the first event that created it.  (The digest here is the identity, so no
  collision is involved.)
\<close>

theorem resumed_snapshot_differs:
  "\<exists>prefix suffix ordered st. causalOrder (prefix @ suffix) = Some (Inr ordered)
     \<and> validateEventSet (\<lambda>s. s) compareStrings ordered = []
     \<and> extendProjection (\<lambda>s. s) (buildProjection (\<lambda>s. s) prefix) suffix = Some st
     \<and> snapshotFromState (\<lambda>s. s) st [] \<noteq> snapshotFromState (\<lambda>s. s) (buildProjection (\<lambda>s. s) ordered) []"
proof -
  let ?a = "demo_reader ''a'' ''t1''" and ?b = "demo_reader ''b'' ''t2''"
  have ids: "distinct (map eventId ([?b] @ [?a]))"
    and inside: "\<forall>e \<in> set [?a]. \<forall>c. payload e = AttributionCorrected c \<longrightarrow> ac_targetEventId c \<in> eventId ` set [?a]"
    by (simp_all add: demo_reader_def demo_event_def)
  have "extendProjection (\<lambda>s. s) (buildProjection (\<lambda>s. s) [?b]) [?a]
      = Some (buildProjection (\<lambda>s. s) ([?b] @ [?a]))"
    unfolding extendProjection_def no_correction_inside using extend_build [OF ids inside] inside by simp
  then show ?thesis
    using demo_reader_order demo_reader_valid demo_reader_snapshot
    by (intro exI [of _ "[?b]"] exI [of _ "[?a]"] exI [of _ "[?a, ?b]"]
        exI [of _ "buildProjection (\<lambda>s. s) [?b, ?a]"]) simp
qed

section \<open>Views\<close>

lemma by_event_id_antisym:
  "distinct (map eventId events) \<Longrightarrow> x \<in> set events \<Longrightarrow> y \<in> set events
   \<Longrightarrow> by_event_id x y \<le> 0 \<Longrightarrow> by_event_id y x \<le> 0 \<Longrightarrow> x = y"
  by (auto simp: by_event_id_def compareStrings_le distinct_map dest: inj_onD order.antisym)

interpretation event_ids: comparator by_event_id
  by (rule comparator_event_id)

lemma view_index_perm:
  assumes "distinct (map eventId events)" and "mset events = mset arrival"
  shows "view_index_of events = view_index_of arrival"
proof -
  have "js_sort by_event_id events = js_sort by_event_id arrival"
    by (rule event_ids.sort_unique [OF assms(2) by_event_id_antisym [OF assms(1)]])
  then show ?thesis by (simp add: view_index_of_def)
qed

definition feedback_events :: "event list \<Rightarrow> string \<Rightarrow> feedback_view list" where
  "feedback_events events findingId = List.map_filter (\<lambda>e. case payload_feedback (payload e) of
     None \<Rightarrow> None
   | Some fb \<Rightarrow> if ff_findingId fb = findingId then Some \<lparr>fv_eventId = eventId e, fv_feedback = fb\<rparr> else None)
     events"

lemma feedback_of_index_view:
  "feedback_of (index_view e (payload e) ix) k = feedback_of ix k @ feedback_events [e] k"
  by (cases "payload e") (auto simp: feedback_of_def feedback_events_def map_filter_simps js_simps Let_def)

lemma feedback_events_append: "feedback_events (xs @ ys) k = feedback_events xs k @ feedback_events ys k"
  by (simp add: feedback_events_def map_filter_def)

lemma feedback_of_fold:
  "feedback_of (foldl (\<lambda>ix e. index_view e (payload e) ix) ix events) k = feedback_of ix k @ feedback_events events k"
proof (induction events rule: rev_induct)
  case (snoc e events)
  then show ?case by (simp add: feedback_of_index_view feedback_events_append)
qed (simp add: feedback_events_def map_filter_simps)

lemma set_feedback_of_index:
  "set (feedback_of (view_index_of events) k)
   = {\<lparr>fv_eventId = eventId e, fv_feedback = fb\<rparr> | e fb. e \<in> set events
       \<and> payload e = FindingFeedbackCreated fb \<and> ff_findingId fb = k}"
proof -
  have narrow: "payload_feedback p = Some fb \<longleftrightarrow> p = FindingFeedbackCreated fb" for p fb
    by (cases p) auto
  have "set (feedback_events es k) = {\<lparr>fv_eventId = eventId e, fv_feedback = fb\<rparr> | e fb. e \<in> set es
       \<and> payload e = FindingFeedbackCreated fb \<and> ff_findingId fb = k}" for es
    by (induction es)
      (auto simp: feedback_events_def map_filter_simps narrow split: option.splits if_splits)
  then show ?thesis
    by (simp add: view_index_of_def feedback_of_fold) (simp add: feedback_of_def)
qed

lemma findings_fold:
  "map_get (vi_findings (foldl (\<lambda>ix e. index_view e (payload e) ix) ix events)) k =
    (case last_option (List.map_filter (\<lambda>e. case payload_finding (payload e) of
        None \<Rightarrow> None | Some f \<Rightarrow> if fi_findingId f = k then Some (e, f) else None) events) of
       Some (e, f) \<Rightarrow> Some \<lparr>vf_finding = f, vf_feedback = [], vf_status = fi_status f, vf_eventIds = [eventId e]\<rparr>
     | None \<Rightarrow> map_get (vi_findings ix) k)"
proof (induction events rule: rev_induct)
  case (snoc e events)
  then show ?case
    by (cases "payload e") (simp_all add: map_filter_def last_option_def js_simps Let_def)
qed (simp add: map_filter_simps last_option_def)

lemma map_get_map_values: "map_get (map (\<lambda>(k, v). (k, f k v)) m) k = map_option (f k) (map_get m k)"
  by (induction m) auto

text \<open>
  Finding and decision views do not depend on the order in which events arrive or are processed.
\<close>

theorem views_arrival_order:
  assumes "distinct (map eventId events)" and "mset events = mset arrival"
  shows "derived_findings events = derived_findings arrival
    \<and> derived_decisions events = derived_decisions arrival"
  using view_index_perm [OF assms] by (simp add: derived_findings_def derived_decisions_def)

theorem views_arrival_order_witness:
  "derived_findings (rev demo_write_run) = derived_findings demo_write_run"
proof -
  have "distinct (map eventId (rev demo_write_run))"
    using demo_distinct(3) by (simp add: rev_map [symmetric])
  from views_arrival_order [OF this, of demo_write_run] show ?thesis by simp
qed

text \<open>
  The view of a finding created once shows that finding with all the feedback given to it and
  nothing else; its status is \<open>dismissed\<close> exactly when some feedback dismissed it, and otherwise the
  status it was created with.
\<close>

theorem finding_view:
  assumes "e \<in> set events" and "payload e = FindingCreated f"
    and once: "\<forall>d \<in> set events. \<forall>g. payload d = FindingCreated g \<and> fi_findingId g = fi_findingId f \<longrightarrow> d = e"
  shows "\<exists>view. map_get (derived_findings events) (fi_findingId f) = Some view \<and> vf_finding view = f
    \<and> set (vf_feedback view) = {\<lparr>fv_eventId = eventId d, fv_feedback = fb\<rparr> | d fb. d \<in> set events
         \<and> payload d = FindingFeedbackCreated fb \<and> ff_findingId fb = fi_findingId f}
    \<and> vf_status view = (if \<exists>d \<in> set events. \<exists>fb. payload d = FindingFeedbackCreated fb
           \<and> ff_findingId fb = fi_findingId f \<and> ff_disposition fb = FD_dismissed
         then FS_dismissed else fi_status f)"
proof -
  let ?k = "fi_findingId f" and ?ix = "view_index_of events"
  let ?pick = "\<lambda>e. case payload_finding (payload e) of
      None \<Rightarrow> None | Some g \<Rightarrow> if fi_findingId g = ?k then Some (e, g) else None"
  have narrow: "payload_finding p = Some g \<longleftrightarrow> p = FindingCreated g" for p g by (cases p) auto
  have pick: "?pick d = Some (c, g) \<longleftrightarrow> c = d \<and> payload d = FindingCreated g \<and> fi_findingId g = ?k" for d c g
    by (auto simp: narrow split: option.splits)
  have members: "(d, g) \<in> set (List.map_filter ?pick es) \<longleftrightarrow> d \<in> set es \<and> payload d = FindingCreated g
      \<and> fi_findingId g = ?k" for d g es
    by (induction es) (auto simp: map_filter_simps narrow split: option.splits if_splits)
  let ?found = "List.map_filter ?pick (js_sort by_event_id events)"
  have "(e, f) \<in> set ?found" unfolding members using assms(1,2) by simp
  then have ne: "?found \<noteq> []" by auto
  obtain d g where last: "last ?found = (d, g)" by (cases "last ?found")
  have "last ?found \<in> set ?found" using ne by (rule last_in_set)
  then have dg: "d \<in> set events \<and> payload d = FindingCreated g \<and> fi_findingId g = ?k"
    unfolding last members by simp
  then have "d = e" "payload d = FindingCreated g" using once by blast+
  then have "last ?found = (e, f)" using last assms(2) by simp
  then have view: "map_get (vi_findings ?ix) ?k
      = Some \<lparr>vf_finding = f, vf_feedback = [], vf_status = fi_status f, vf_eventIds = [eventId e]\<rparr>"
    using ne unfolding view_index_of_def findings_fold by (simp add: last_option_def)
  have dismissed: "(\<exists>entry \<in> set (feedback_of ?ix ?k). ff_disposition (fv_feedback entry) = FD_dismissed)
    \<longleftrightarrow> (\<exists>d \<in> set events. \<exists>fb. payload d = FindingFeedbackCreated fb
           \<and> ff_findingId fb = ?k \<and> ff_disposition fb = FD_dismissed)"
    unfolding set_feedback_of_index by force
  let ?view = "complete_finding ?ix ?k
    \<lparr>vf_finding = f, vf_feedback = [], vf_status = fi_status f, vf_eventIds = [eventId e]\<rparr>"
  have get: "map_get (derived_findings events) ?k = Some ?view"
    by (simp add: derived_findings_def Let_def map_get_map_values view)
  have status: "vf_status ?view
      = (if \<exists>entry \<in> set (feedback_of ?ix ?k). ff_disposition (fv_feedback entry) = FD_dismissed
         then FS_dismissed else fi_status f)"
    and fields: "vf_finding ?view = f" "set (vf_feedback ?view) = set (feedback_of ?ix ?k)"
    by (simp_all add: complete_finding_def Let_def)
  show ?thesis
    by (intro exI [of _ ?view] conjI get fields(1) status [unfolded dismissed]
        fields(2) [unfolded set_feedback_of_index])
qed

definition demo_finding :: finding where
  "demo_finding = \<lparr>fi_findingId = ''f1'', fi_findingType = Same_symbol_overlap, fi_status = FS_open,
     fi_subjectResourceId = ''sym'', fi_affectedTaskId = None, fi_dependencyIds = [], fi_evidenceEventIds = [],
     fi_confidence = 1, fi_confidenceBand = Band_high, fi_severity = Sev_warning, fi_coverageIds = [],
     fi_detector = \<lparr>de_detectorId = ''d'', de_version = ''1''\<rparr>\<rparr>"

definition demo_feedback :: finding_feedback where
  "demo_feedback = \<lparr>ff_feedbackId = ''fb1'', ff_findingId = ''f1'', ff_decisionId = None,
     ff_actor = \<lparr>dt_agentId = Some ''agent'', dt_taskId = Some ''task''\<rparr>, ff_disposition = FD_dismissed,
     ff_useful = None, ff_reason = None, ff_evidenceEventIds = []\<rparr>"

theorem finding_view_witness:
  "\<exists>view. map_get (derived_findings [demo_event ''x1'' Core None None (FindingCreated demo_finding),
       demo_event ''x2'' Core (Some ''x1'') None (FindingFeedbackCreated demo_feedback)]) ''f1'' = Some view
     \<and> vf_status view = FS_dismissed"
proof -
  let ?es = "[demo_event ''x1'' Core None None (FindingCreated demo_finding),
       demo_event ''x2'' Core (Some ''x1'') None (FindingFeedbackCreated demo_feedback)]"
  have "hd ?es \<in> set ?es" "payload (hd ?es) = FindingCreated demo_finding"
    "\<forall>d \<in> set ?es. \<forall>g. payload d = FindingCreated g \<and> fi_findingId g = fi_findingId demo_finding \<longrightarrow> d = hd ?es"
    by (simp_all add: demo_event_def)
  from finding_view [OF this] show ?thesis
    by (force simp: demo_event_def demo_feedback_def demo_finding_def)
qed

end
