(* ===== verification/Event_Store.thy ===== *)
theory Event_Store
  imports Replay
begin

text \<open>
  The durable ledger: \<open>packages/storage/src/event-store.ts\<close> over the tables of
  \<open>migrations/001_events.sql\<close> and \<open>002_pending_events.sql\<close>.

  A table is the list of its rows in \<open>AUTOINCREMENT\<close> order together with the next position.  A
  transaction is a function from the store to a result and a store; when it throws, the caller keeps
  the store it had (\<open>ROLLBACK\<close>).  Outside the repository, hence arguments: \<open>sha\<close>, the collation \<open>lc\<close>,
  and \<open>parse\<close>, which reconstructs an event from stored text (\<open>JSON.parse\<close>, then the compiled schema
  validators): \<open>None\<close> is the thrown \<open>STORAGE_CORRUPT_EVENT\<close>.  An input is the outcome of
  \<open>parseEvent\<close> on it.
\<close>

section \<open>Tables\<close>

record event_row =
  er_insertion_position :: nat
  er_event_id :: string
  er_content_digest :: string
  er_canonical_event :: string
  er_schema_version :: nat
  er_event_type :: event_type
  er_source :: source
  er_source_sequence :: "nat option"
  er_timestamp :: string
  er_domain :: version_domain
  er_agent_id :: "string option"
  er_task_id :: "string option"
  er_correlation_id :: string
  er_causation_id :: "string option"

record pending_row =
  pr_buffered_position :: nat
  pr_event_id :: string
  pr_content_digest :: string
  pr_canonical_event :: string
  pr_causation_id :: string
  pr_buffered_at :: string

record store =
  st_events :: "event_row list"
  st_next_position :: nat
  st_pending :: "pending_row list"
  st_next_buffered :: nat
  st_closed :: bool

datatype store_error =
  Thrown storage_error
| Invalid_event "diagnostic list"
| Unique_constraint string

definition store_open :: store where
  "store_open = \<lparr>st_events = [], st_next_position = 1, st_pending = [], st_next_buffered = 1,
     st_closed = False\<rparr>"

definition corrupt :: "string \<Rightarrow> store_error" where
  "corrupt ident = Thrown (Storage_error ''STORAGE_CORRUPT_EVENT'' ''stored event cannot be reconstructed''
     [(''eventId'', ident)])"

definition id_conflict :: "string \<Rightarrow> store_error" where
  "id_conflict ident = Thrown (Storage_error ''PHASE0_ID_CONFLICT'' ''event ID has conflicting content''
     [(''eventId'', ident)])"

definition store_closed :: store_error where
  "store_closed = Thrown (Storage_error ''STORAGE_CLOSED'' ''PatchMesh event store is closed'' [])"

definition parseStored :: "(string \<Rightarrow> event option) \<Rightarrow> string \<Rightarrow> string \<Rightarrow> store_error + event" where
  "parseStored parse ident text = (case parse text of None \<Rightarrow> Inl (corrupt ident) | Some e \<Rightarrow> Inr e)"

section \<open>Candidates\<close>

record candidate =
  ca_event :: event
  ca_text :: string
  ca_digest :: string
  ca_inputIndex :: nat

definition parseCanonicalEvent ::
    "(string \<Rightarrow> string) \<Rightarrow> nat \<times> (diagnostic list + event) \<Rightarrow> store_error + candidate" where
  "parseCanonicalEvent sha input = (case input of
     (i, Inl diagnostics) \<Rightarrow> Inl (Invalid_event diagnostics)
   | (i, Inr e) \<Rightarrow> Inr \<lparr>ca_event = e, ca_text = event_canonical e, ca_digest = event_digest sha e,
                      ca_inputIndex = i\<rparr>)"

abbreviation ca_id :: "candidate \<Rightarrow> string" where
  "ca_id c \<equiv> eventId (ca_event c)"

type_synonym candidates_by_id = "(string, candidate) js_map"

fun first_candidates :: "candidates_by_id \<Rightarrow> candidate list \<Rightarrow> store_error + candidates_by_id" where
  "first_candidates firsts [] = Inr firsts"
| "first_candidates firsts (c # cs) =
     (case map_get firsts (ca_id c) of
        None \<Rightarrow> first_candidates (map_set (ca_id c) c firsts) cs
      | Some first \<Rightarrow>
          if ca_digest first \<noteq> ca_digest c then Inl (id_conflict (ca_id c))
          else first_candidates firsts cs)"

definition lookup_row :: "store \<Rightarrow> string \<Rightarrow> event_row option" where
  "lookup_row st ident = List.find (\<lambda>r. er_event_id r = ident) (st_events st)"

definition lookup_pending :: "store \<Rightarrow> string \<Rightarrow> pending_row option" where
  "lookup_pending st ident = List.find (\<lambda>r. pr_event_id r = ident) (st_pending st)"

text \<open>Splits the candidates into those already durable and those genuinely new.\<close>

fun split_existing ::
    "(string \<Rightarrow> event option) \<Rightarrow> store \<Rightarrow> candidate list
     \<Rightarrow> store_error + (string, event) js_map \<times> candidate list" where
  "split_existing parse st [] = Inr ([], [])"
| "split_existing parse st (c # cs) =
     (case lookup_row st (ca_id c) of
        None \<Rightarrow> raise_bind (split_existing parse st cs) (\<lambda>(existing, new). Inr (existing, c # new))
      | Some row \<Rightarrow>
          if er_content_digest row \<noteq> ca_digest c then Inl (id_conflict (ca_id c))
          else raise_bind (parseStored parse (er_event_id row) (er_canonical_event row)) (\<lambda>e.
            raise_bind (split_existing parse st cs) (\<lambda>(existing, new).
              Inr ((ca_id c, e) # existing, new))))"

section \<open>Resolving causal parents\<close>

text \<open>
  One backward pass of the fixpoint loop over the undecided items: an item whose parent is resolved
  (or which has none) is admitted and resolves its own identifier for the items before it.
\<close>

fun resolve_pass ::
    "('a \<Rightarrow> string) \<Rightarrow> ('a \<Rightarrow> string option) \<Rightarrow> string list \<Rightarrow> 'a list \<Rightarrow> string list \<times> 'a list \<times> 'a list" where
  "resolve_pass ident parent resolved [] = (resolved, [], [])"
| "resolve_pass ident parent resolved (x # backwards) =
     (if (case parent x of None \<Rightarrow> False | Some p \<Rightarrow> p \<notin> set resolved)
      then (case resolve_pass ident parent resolved backwards of
              (resolved', admitted, left) \<Rightarrow> (resolved', admitted, x # left))
      else (case resolve_pass ident parent (ident x # resolved) backwards of
              (resolved', admitted, left) \<Rightarrow> (resolved', x # admitted, left)))"

lemma resolve_pass_length:
  "resolve_pass ident parent resolved xs = (resolved', admitted, left)
   \<Longrightarrow> length xs = length admitted + length left"
  by (induction xs arbitrary: resolved resolved' admitted left)
    (auto split: if_splits prod.splits)

function resolve_all ::
    "('a \<Rightarrow> string) \<Rightarrow> ('a \<Rightarrow> string option) \<Rightarrow> string list \<Rightarrow> 'a list \<Rightarrow> string list \<times> 'a list \<times> 'a list" where
  "resolve_all ident parent resolved undecided =
     (case resolve_pass ident parent resolved (rev undecided) of
        (resolved', admitted, left) \<Rightarrow>
          if admitted = [] then (resolved, [], undecided)
          else (case resolve_all ident parent resolved' (rev left) of
                  (resolved'', admitted', left') \<Rightarrow> (resolved'', admitted @ admitted', left')))"
  by pat_completeness auto

termination
proof (relation "measure (\<lambda>(ident, parent, resolved, undecided). length undecided)", goal_cases)
  case (2 ident parent resolved undecided resolved' rest admitted left)
  then have "resolve_pass ident parent resolved (rev undecided) = (resolved', admitted, left)" by simp
  from resolve_pass_length [OF this] 2(3) show ?case by simp
qed simp

declare resolve_all.simps [simp del]

section \<open>Writing rows\<close>

definition row_of :: "nat \<Rightarrow> event \<Rightarrow> string \<Rightarrow> string \<Rightarrow> event_row" where
  "row_of position e digest text =
     \<lparr>er_insertion_position = position, er_event_id = eventId e, er_content_digest = digest,
      er_canonical_event = text, er_schema_version = schemaVersion e, er_event_type = eventType e,
      er_source = source e, er_source_sequence = sourceSequence e, er_timestamp = timestamp e,
      er_domain = \<lparr>vd_repositoryId = repositoryId e, vd_workspaceId = workspaceId e,
                   vd_worktreeId = worktreeId e\<rparr>,
      er_agent_id = agentId e, er_task_id = taskId e, er_correlation_id = correlationId e,
      er_causation_id = causationId e\<rparr>"

definition insertEvent :: "event \<Rightarrow> string \<Rightarrow> string \<Rightarrow> store \<Rightarrow> store_error + store" where
  "insertEvent e digest text st =
     (if lookup_row st (eventId e) \<noteq> None then Inl (Unique_constraint (eventId e))
      else Inr (st\<lparr>st_events := st_events st @ [row_of (st_next_position st) e digest text],
                   st_next_position := Suc (st_next_position st)\<rparr>))"

fun insert_all :: "(event \<times> string \<times> string) list \<Rightarrow> store \<Rightarrow> store_error + store" where
  "insert_all [] st = Inr st"
| "insert_all ((e, digest, text) # rest) st = raise_bind (insertEvent e digest text st) (insert_all rest)"

definition remove_pending :: "string list \<Rightarrow> store \<Rightarrow> store" where
  "remove_pending ids st = st\<lparr>st_pending := filter (\<lambda>r. pr_event_id r \<notin> set ids) (st_pending st)\<rparr>"

fun buffer_all :: "string \<Rightarrow> candidate list \<Rightarrow> store \<Rightarrow> store_error + store" where
  "buffer_all now [] st = Inr st"
| "buffer_all now (c # cs) st =
     (case lookup_pending st (ca_id c) of
        Some row \<Rightarrow>
          if pr_content_digest row \<noteq> ca_digest c then Inl (id_conflict (ca_id c))
          else buffer_all now cs st
      | None \<Rightarrow> buffer_all now cs (st\<lparr>st_pending := st_pending st @
            [\<lparr>pr_buffered_position = st_next_buffered st, pr_event_id = ca_id c,
              pr_content_digest = ca_digest c, pr_canonical_event = ca_text c,
              pr_causation_id = (case causationId (ca_event c) of None \<Rightarrow> '''' | Some p \<Rightarrow> p),
              pr_buffered_at = now\<rparr>], st_next_buffered := Suc (st_next_buffered st)\<rparr>))"

section \<open>Reading\<close>

record event_query =
  eq_eventId :: "string option"
  eq_eventType :: "event_type option"
  eq_eventTypes :: "event_type list option"
  eq_correlationId :: "string option"
  eq_causationId :: "string option option"
  eq_since :: "string option"
  eq_afterPosition :: "nat option"

definition all_events :: event_query where
  "all_events = \<lparr>eq_eventId = None, eq_eventType = None, eq_eventTypes = None, eq_correlationId = None,
     eq_causationId = None, eq_since = None, eq_afterPosition = None\<rparr>"

definition asks :: "('a \<Rightarrow> bool) \<Rightarrow> 'a option \<Rightarrow> bool" where
  "asks P q = (case q of None \<Rightarrow> True | Some v \<Rightarrow> P v)"

definition row_matches :: "event_query \<Rightarrow> event_row \<Rightarrow> bool" where
  "row_matches q r \<longleftrightarrow>
     asks (\<lambda>v. er_event_id r = v) (eq_eventId q)
     \<and> asks (\<lambda>v. er_event_type r = v) (eq_eventType q)
     \<and> asks (\<lambda>vs. er_event_type r \<in> set vs) (eq_eventTypes q)
     \<and> asks (\<lambda>v. v \<le> er_timestamp r) (eq_since q)
     \<and> asks (\<lambda>v. v < er_insertion_position r) (eq_afterPosition q)
     \<and> asks (\<lambda>v. er_correlation_id r = v) (eq_correlationId q)
     \<and> asks (\<lambda>v. er_causation_id r = v) (eq_causationId q)"

definition query_rows :: "store \<Rightarrow> event_query \<Rightarrow> event_row list" where
  "query_rows st q = filter (row_matches q) (st_events st)"

definition read_events ::
    "(string \<Rightarrow> event option) \<Rightarrow> event_query \<Rightarrow> store \<Rightarrow> store_error + event list" where
  "read_events parse q st =
     (if st_closed st then Inl store_closed
      else map_raise (\<lambda>r. parseStored parse (er_event_id r) (er_canonical_event r)) (query_rows st q))"

definition readPending :: "(string \<Rightarrow> event option) \<Rightarrow> store \<Rightarrow> store_error + event list" where
  "readPending parse st =
     (if st_closed st then Inl store_closed
      else map_raise (\<lambda>r. parseStored parse (pr_event_id r) (pr_canonical_event r)) (st_pending st))"

definition assertOpen :: "store \<Rightarrow> 'a \<Rightarrow> store_error + 'a" where
  "assertOpen st x = (if st_closed st then Inl store_closed else Inr x)"

definition store_count :: "store \<Rightarrow> store_error + nat" where
  "store_count st = assertOpen st (length (st_events st))"

definition latestTimestamp :: "store \<Rightarrow> store_error + string option" where
  "latestTimestamp st = assertOpen st
     (if st_events st = [] then None else Some (Max (set (map er_timestamp (st_events st)))))"

definition latestPosition :: "store \<Rightarrow> store_error + nat" where
  "latestPosition st = assertOpen st
     (if st_events st = [] then 0 else Max (set (map er_insertion_position (st_events st))))"

definition store_close :: "store \<Rightarrow> store" where
  "store_close st = st\<lparr>st_closed := True\<rparr>"

section \<open>Appending\<close>

datatype append_result = Inserted event | Duplicate event | Buffered event

record append_options =
  ao_requireValidEventSet :: bool
  ao_bufferUnresolvedCausalParents :: bool

definition no_options :: append_options where
  "no_options = \<lparr>ao_requireValidEventSet = False, ao_bufferUnresolvedCausalParents = False\<rparr>"

text \<open>What a batch will write: admitted and deferred candidates, promoted rows, superseded row ids.\<close>

record append_plan =
  ap_admitted :: "candidate list"
  ap_deferred :: "candidate list"
  ap_promoted :: "pending_row list"
  ap_superseded :: "string list"

definition plan_append :: "append_options \<Rightarrow> store \<Rightarrow> candidate list \<Rightarrow> append_plan" where
  "plan_append options st new =
     (if \<not> ao_bufferUnresolvedCausalParents options
      then \<lparr>ap_admitted = new, ap_deferred = [], ap_promoted = [], ap_superseded = []\<rparr>
      else
        case resolve_all ca_id (\<lambda>c. causationId (ca_event c)) (map er_event_id (st_events st)) new of
          (resolved, admitted, deferred) \<Rightarrow>
            let deferredIds = map ca_id deferred;
                resubmitted = deferredIds @ map ca_id admitted;
                superseded = filter (\<lambda>i. i \<in> set resubmitted \<and> i \<notin> set deferredIds)
                  (map pr_event_id (st_pending st));
                waiting = filter (\<lambda>r. pr_event_id r \<notin> set resubmitted) (st_pending st)
            in case resolve_all pr_event_id (\<lambda>r. Some (pr_causation_id r)) resolved waiting of
                 (resolved', promoted, left) \<Rightarrow>
                   \<lparr>ap_admitted = admitted, ap_deferred = deferred, ap_promoted = promoted,
                    ap_superseded = superseded\<rparr>)"

definition parse_promoted ::
    "(string \<Rightarrow> event option) \<Rightarrow> pending_row list \<Rightarrow> store_error + (event \<times> string \<times> string) list" where
  "parse_promoted parse rows = map_raise (\<lambda>r.
     raise_bind (parseStored parse (pr_event_id r) (pr_canonical_event r))
       (\<lambda>e. Inr (e, pr_content_digest r, pr_canonical_event r))) rows"

definition check_event_set ::
    "(string \<Rightarrow> string) \<Rightarrow> (string \<Rightarrow> string \<Rightarrow> int) \<Rightarrow> (string \<Rightarrow> event option) \<Rightarrow> append_options
     \<Rightarrow> store \<Rightarrow> append_plan \<Rightarrow> store_error + unit" where
  "check_event_set sha lc parse options st plan =
     (if \<not> ao_requireValidEventSet options then Inr ()
      else raise_bind (read_events parse all_events st) (\<lambda>durable.
        raise_bind (parse_promoted parse (ap_promoted plan)) (\<lambda>promoted.
          let diagnostics = validateEventSet sha lc
            (durable @ map ca_event (ap_admitted plan) @ map fst promoted)
          in if diagnostics \<noteq> [] then Inl (Invalid_event diagnostics) else Inr ())))"

definition commit_plan ::
    "(string \<Rightarrow> event option) \<Rightarrow> string \<Rightarrow> append_plan \<Rightarrow> store \<Rightarrow> store_error + store" where
  "commit_plan parse now plan st =
     raise_bind (insert_all (map (\<lambda>c. (ca_event c, ca_digest c, ca_text c)) (ap_admitted plan)) st) (\<lambda>st1.
       raise_bind (parse_promoted parse (ap_promoted plan)) (\<lambda>promoted.
         raise_bind (insert_all promoted st1) (\<lambda>st2.
           buffer_all now (ap_deferred plan)
             (remove_pending (map pr_event_id (ap_promoted plan) @ ap_superseded plan) st2))))"

definition result_of ::
    "(string, event) js_map \<Rightarrow> candidates_by_id \<Rightarrow> string list \<Rightarrow> candidate \<Rightarrow> append_result" where
  "result_of existing firsts deferredIds c =
     (case map_get existing (ca_id c) of
        Some e \<Rightarrow> Duplicate e
      | None \<Rightarrow>
          (case map_get firsts (ca_id c) of
             None \<Rightarrow> Inserted (ca_event c)
           | Some first \<Rightarrow>
               if ca_id first \<in> set deferredIds then Buffered (ca_event first)
               else if ca_inputIndex c = ca_inputIndex first then Inserted (ca_event first)
               else Duplicate (ca_event first)))"

definition append_transaction ::
    "(string \<Rightarrow> string) \<Rightarrow> (string \<Rightarrow> string \<Rightarrow> int) \<Rightarrow> (string \<Rightarrow> event option) \<Rightarrow> string
     \<Rightarrow> (diagnostic list + event) list \<Rightarrow> append_options \<Rightarrow> store
     \<Rightarrow> store_error + append_result list \<times> store" where
  "append_transaction sha lc parse now inputs options st =
     (if st_closed st then Inl store_closed
      else if inputs = [] then Inr ([], st)
      else
        raise_bind (map_raise (parseCanonicalEvent sha) (enumerate 0 inputs)) (\<lambda>candidates.
        raise_bind (first_candidates [] candidates) (\<lambda>firsts.
        raise_bind (split_existing parse st (map_values firsts)) (\<lambda>(existing, new).
          let plan = plan_append options st new
          in raise_bind (check_event_set sha lc parse options st plan) (\<lambda>_.
             raise_bind (commit_plan parse now plan st) (\<lambda>st'.
               Inr (map (result_of existing firsts (map ca_id (ap_deferred plan))) candidates, st')))))))"

text \<open>\<open>appendAtomic\<close> with its rollback: a thrown error leaves the store as it was.\<close>

definition appendAtomic ::
    "(string \<Rightarrow> string) \<Rightarrow> (string \<Rightarrow> string \<Rightarrow> int) \<Rightarrow> (string \<Rightarrow> event option) \<Rightarrow> string
     \<Rightarrow> (diagnostic list + event) list \<Rightarrow> append_options \<Rightarrow> store
     \<Rightarrow> (store_error + append_result list) \<times> store" where
  "appendAtomic sha lc parse now inputs options st =
     (case append_transaction sha lc parse now inputs options st of
        Inl err \<Rightarrow> (Inl err, st)
      | Inr (results, st') \<Rightarrow> (Inr results, st'))"

definition store_append ::
    "(string \<Rightarrow> string) \<Rightarrow> (string \<Rightarrow> string \<Rightarrow> int) \<Rightarrow> (string \<Rightarrow> event option) \<Rightarrow> string
     \<Rightarrow> diagnostic list + event \<Rightarrow> store \<Rightarrow> (store_error + append_result) \<times> store" where
  "store_append sha lc parse now input st =
     (case appendAtomic sha lc parse now [input] no_options st of
        (Inl err, st') \<Rightarrow> (Inl err, st')
      | (Inr results, st') \<Rightarrow> (Inr (hd results), st'))"

definition store_replay ::
    "(string \<Rightarrow> string) \<Rightarrow> (string \<Rightarrow> string \<Rightarrow> int) \<Rightarrow> (string \<Rightarrow> event option) \<Rightarrow> 's \<Rightarrow> ('s \<Rightarrow> event \<Rightarrow> 's)
     \<Rightarrow> store \<Rightarrow> (store_error + 's replay_result) option" where
  "store_replay sha lc parse initialState apply_event st =
     (case read_events parse all_events st of
        Inl err \<Rightarrow> Some (Inl err)
      | Inr events \<Rightarrow> map_option (map_sum Thrown id) (replayEvents sha lc initialState apply_event events))"

section \<open>Retention\<close>

function protect :: "event_row list \<Rightarrow> string list \<Rightarrow> string list" where
  "protect rows ids =
     (let new = filter (\<lambda>p. p \<notin> set ids)
        (List.map_filter er_causation_id (filter (\<lambda>r. er_event_id r \<in> set ids) rows))
      in if new = [] then ids else protect rows (new @ ids))"
  by pat_completeness auto

termination
proof (relation "measure (\<lambda>(rows, ids). card (set (List.map_filter er_causation_id rows) - set ids))", goal_cases)
  case (2 rows ids new)
  then have "new \<noteq> []" by simp
  then obtain p where p: "p \<in> set new" using hd_in_set by blast
  with 2(1) have "p \<in> set (List.map_filter er_causation_id rows) - set ids"
    by (auto simp: map_filter_set)
  with p have "set (List.map_filter er_causation_id rows) - set (new @ ids)
      \<subset> set (List.map_filter er_causation_id rows) - set ids" by auto
  then show ?case by (simp add: psubset_card_mono del: set_append)
qed simp

declare protect.simps [simp del]

definition protected_ids :: "string \<Rightarrow> event_row list \<Rightarrow> string list" where
  "protected_ids cutoff rows =
     protect rows (List.map_filter er_causation_id (filter (\<lambda>r. cutoff \<le> er_timestamp r) rows))"

definition prune_store :: "string \<Rightarrow> store \<Rightarrow> store" where
  "prune_store cutoff st =
     (let protected = protected_ids cutoff (st_events st)
      in st\<lparr>st_events := filter (\<lambda>r. \<not> (er_timestamp r < cutoff \<and> er_event_id r \<notin> set protected)) (st_events st),
            st_pending := []\<rparr>)"

record prune_result =
  pn_removed :: nat
  pn_retained :: nat

definition prune :: "string \<Rightarrow> store \<Rightarrow> (store_error + prune_result) \<times> store" where
  "prune cutoff st =
     (if st_closed st then (Inl store_closed, st)
      else let st' = prune_store cutoff st
           in (Inr \<lparr>pn_removed = length (st_events st) - length (st_events st'),
             pn_retained = length (st_events st')\<rparr>, st'))"

section \<open>What resolving admits\<close>

lemma resolve_pass_spec:
  assumes "resolve_pass ident parent resolved xs = (resolved', admitted, left)"
  shows "mset xs = mset admitted + mset left \<and> set resolved' = ident ` set admitted \<union> set resolved"
  using assms
proof (induction xs arbitrary: resolved resolved' admitted left)
  case (Cons x xs)
  show ?case
  proof (cases "case parent x of None \<Rightarrow> False | Some p \<Rightarrow> p \<notin> set resolved")
    case True
    obtain l where "resolve_pass ident parent resolved xs = (resolved', admitted, l)" "left = x # l"
      using Cons.prems True by (auto split: prod.splits)
    with Cons.IH show ?thesis by fastforce
  next
    case False
    obtain a where "resolve_pass ident parent (ident x # resolved) xs = (resolved', a, left)" "admitted = x # a"
      using Cons.prems False by (auto split: prod.splits)
    with Cons.IH show ?thesis by fastforce
  qed
qed simp

text \<open>Every admitted item has no parent, or its parent was resolved before it was admitted.\<close>

definition parents_first :: "('a \<Rightarrow> string) \<Rightarrow> ('a \<Rightarrow> string option) \<Rightarrow> string set \<Rightarrow> 'a list \<Rightarrow> bool" where
  "parents_first ident parent known xs \<longleftrightarrow> (\<forall>k < length xs. \<forall>p. parent (xs ! k) = Some p
     \<longrightarrow> p \<in> known \<union> ident ` set (take k xs))"

lemma parents_first_Nil [simp]: "parents_first ident parent known []"
  by (simp add: parents_first_def)

lemma parents_first_Cons [simp]:
  "parents_first ident parent known (x # xs) \<longleftrightarrow>
     (\<forall>p. parent x = Some p \<longrightarrow> p \<in> known) \<and> parents_first ident parent (insert (ident x) known) xs"
  unfolding parents_first_def length_Cons All_less_Suc2 by simp

lemma parents_first_append:
  "parents_first ident parent known (xs @ ys) \<longleftrightarrow>
     parents_first ident parent known xs \<and> parents_first ident parent (ident ` set xs \<union> known) ys"
  by (induction xs arbitrary: known) auto

lemma resolve_pass_order:
  "resolve_pass ident parent resolved xs = (resolved', admitted, left)
   \<Longrightarrow> parents_first ident parent (set resolved) admitted"
proof (induction xs arbitrary: resolved resolved' admitted left)
  case (Cons x xs)
  show ?case
  proof (cases "case parent x of None \<Rightarrow> False | Some p \<Rightarrow> p \<notin> set resolved")
    case True
    then obtain l where "resolve_pass ident parent resolved xs = (resolved', admitted, l)"
      using Cons.prems by (auto split: prod.splits)
    then show ?thesis by (rule Cons.IH)
  next
    case False
    then obtain a where a: "resolve_pass ident parent (ident x # resolved) xs = (resolved', a, left)" "admitted = x # a"
      using Cons.prems by (auto split: prod.splits)
    from Cons.IH [OF a(1)] False a(2) show ?thesis by (auto split: option.splits)
  qed
qed simp

lemma resolve_pass_stuck:
  "resolve_pass ident parent resolved xs = (resolved', [], left)
   \<Longrightarrow> left = xs \<and> resolved' = resolved \<and> (\<forall>x \<in> set xs. \<exists>p. parent x = Some p \<and> p \<notin> set resolved)"
  by (induction xs arbitrary: left) (auto split: if_splits prod.splits option.splits)

lemma resolve_all_spec:
  "resolve_all ident parent resolved undecided = (resolved', admitted, left)
   \<Longrightarrow> mset undecided = mset admitted + mset left \<and> set resolved' = ident ` set admitted \<union> set resolved
     \<and> parents_first ident parent (set resolved) admitted
     \<and> (\<forall>x \<in> set left. \<exists>p. parent x = Some p \<and> p \<notin> set resolved')"
proof (induction ident parent resolved undecided arbitrary: resolved' admitted left rule: resolve_all.induct)
  case (1 ident parent resolved undecided)
  obtain r a l where pass: "resolve_pass ident parent resolved (rev undecided) = (r, a, l)"
    by (cases "resolve_pass ident parent resolved (rev undecided)")
  show ?case
  proof (cases "a = []")
    case True
    then have "resolved' = resolved" "admitted = []" "left = undecided"
      using "1.prems" pass by (simp_all add: resolve_all.simps)
    then show ?thesis using resolve_pass_stuck [OF pass [unfolded True]] by simp
  next
    case False
    obtain r' a' l' where rest: "resolve_all ident parent r (rev l) = (r', a', l')"
      by (cases "resolve_all ident parent r (rev l)")
    have eqs: "resolved' = r'" "admitted = a @ a'" "left = l'"
      using "1.prems" pass False rest by (simp_all add: resolve_all.simps [of ident parent resolved])
    have IH: "mset (rev l) = mset a' + mset l' \<and> set r' = ident ` set a' \<union> set r
        \<and> parents_first ident parent (set r) a' \<and> (\<forall>x \<in> set l'. \<exists>p. parent x = Some p \<and> p \<notin> set r')"
      by (rule "1.IH" [OF pass [symmetric] refl False rest])
    from resolve_pass_spec [OF pass] have spec: "mset undecided = mset a + mset l"
      "set r = ident ` set a \<union> set resolved" by simp_all
    show ?thesis
      unfolding eqs using IH spec resolve_pass_order [OF pass]
      by (auto simp: parents_first_append image_Un Un_assoc Un_left_commute)
  qed
qed

section \<open>Rows written by a batch\<close>

fun rows_from :: "nat \<Rightarrow> (event \<times> string \<times> string) list \<Rightarrow> event_row list" where
  "rows_from position [] = []"
| "rows_from position ((e, digest, text) # rest) = row_of position e digest text # rows_from (Suc position) rest"

abbreviation durable_ids :: "store \<Rightarrow> string list" where
  "durable_ids st \<equiv> map er_event_id (st_events st)"

abbreviation pending_ids :: "store \<Rightarrow> string list" where
  "pending_ids st \<equiv> map pr_event_id (st_pending st)"

lemma row_of_id [simp]: "er_event_id (row_of n e d t) = eventId e" "er_insertion_position (row_of n e d t) = n"
  "er_causation_id (row_of n e d t) = causationId e" "er_content_digest (row_of n e d t) = d"
  "er_canonical_event (row_of n e d t) = t" "er_timestamp (row_of n e d t) = timestamp e"
  by (simp_all add: row_of_def)

lemma rows_from_ids [simp]: "map er_event_id (rows_from n xs) = map (\<lambda>x. eventId (fst x)) xs"
  by (induction n xs rule: rows_from.induct) simp_all

lemma lookup_row_None: "lookup_row st i = None \<longleftrightarrow> i \<notin> set (durable_ids st)"
  by (auto simp: lookup_row_def find_None_iff)

lemma lookup_row_Some: "lookup_row st i = Some r \<Longrightarrow> r \<in> set (st_events st) \<and> er_event_id r = i"
  unfolding lookup_row_def by (drule find_SomeD) simp

lemma lookup_pending_None: "lookup_pending st i = None \<longleftrightarrow> i \<notin> set (pending_ids st)"
  by (auto simp: lookup_pending_def find_None_iff)

lemma insert_all_spec:
  "insert_all xs st = Inr st' \<longleftrightarrow>
     distinct (map (\<lambda>x. eventId (fst x)) xs) \<and> set (map (\<lambda>x. eventId (fst x)) xs) \<inter> set (durable_ids st) = {}
     \<and> st' = st\<lparr>st_events := st_events st @ rows_from (st_next_position st) xs,
                st_next_position := st_next_position st + length xs\<rparr>"
proof (induction xs arbitrary: st)
  case (Cons x xs)
  obtain e d t where x: "x = (e, d, t)" by (cases x)
  show ?case
  proof (cases "eventId e \<in> set (durable_ids st)")
    case True
    then show ?thesis by (simp add: x insertEvent_def lookup_row_None)
  next
    case False
    then show ?thesis
      unfolding x by (simp add: insertEvent_def lookup_row_None [THEN iffD2] Cons.IH) auto
  qed
qed (auto simp: eq_commute)

lemma insert_all_error: "insert_all xs st = Inl err \<Longrightarrow> \<exists>i. err = Unique_constraint i"
proof (induction xs arbitrary: st)
  case (Cons x xs)
  obtain e d t where "x = (e, d, t)" by (cases x)
  with Cons show ?case by (auto simp: insertEvent_def split: if_splits)
qed simp

definition pending_of :: "nat \<Rightarrow> string \<Rightarrow> candidate \<Rightarrow> pending_row" where
  "pending_of n now c = \<lparr>pr_buffered_position = n, pr_event_id = ca_id c, pr_content_digest = ca_digest c,
     pr_canonical_event = ca_text c,
     pr_causation_id = (case causationId (ca_event c) of None \<Rightarrow> '''' | Some p \<Rightarrow> p), pr_buffered_at = now\<rparr>"

lemma pending_of_id [simp]: "pr_event_id (pending_of n now c) = ca_id c"
  by (simp add: pending_of_def)

lemma buffer_all_spec:
  "buffer_all now cs st = Inr st' \<Longrightarrow>
     st_events st' = st_events st \<and> st_next_position st' = st_next_position st \<and> st_closed st' = st_closed st
     \<and> (\<exists>rows. st_pending st' = st_pending st @ rows \<and> (\<forall>r \<in> set rows. \<exists>n. \<exists>c \<in> set cs. r = pending_of n now c))
     \<and> set (pending_ids st') = set (pending_ids st) \<union> ca_id ` set cs
     \<and> (distinct (pending_ids st) \<longrightarrow> distinct (pending_ids st'))"
proof (induction cs arbitrary: st)
  case (Cons c cs)
  show ?case
  proof (cases "lookup_pending st (ca_id c)")
    case None
    let ?st = "st\<lparr>st_pending := st_pending st @ [pending_of (st_next_buffered st) now c],
       st_next_buffered := Suc (st_next_buffered st)\<rparr>"
    have "buffer_all now cs ?st = Inr st'" using Cons.prems None by (simp add: pending_of_def)
    note IH = Cons.IH [OF this]
    from IH obtain rows where rows: "st_pending st' = st_pending ?st @ rows"
      "\<forall>r \<in> set rows. \<exists>n. \<exists>c \<in> set cs. r = pending_of n now c" by blast
    let ?rows = "pending_of (st_next_buffered st) now c # rows"
    have "st_pending st' = st_pending st @ ?rows"
      using rows(1) by simp
    moreover have "\<forall>r \<in> set ?rows. \<exists>n. \<exists>c' \<in> set (c # cs). r = pending_of n now c'"
      using rows(2) by (metis list.set_intros(1,2) set_ConsD)
    moreover have "set (pending_ids st') = set (pending_ids st) \<union> ca_id ` set (c # cs)" using IH by auto
    moreover have "distinct (pending_ids st')" if "distinct (pending_ids st)"
      using IH that None by (simp add: lookup_pending_None)
    ultimately show ?thesis using IH by auto
  next
    case (Some row)
    then have "ca_id c \<in> set (pending_ids st)" using lookup_pending_None [of st "ca_id c"] by auto
    moreover have rest: "buffer_all now cs st = Inr st'"
      using Cons.prems Some by (simp split: if_splits)
    moreover obtain rows where "st_pending st' = st_pending st @ rows"
      "\<forall>r \<in> set rows. \<exists>n. \<exists>c \<in> set cs. r = pending_of n now c"
      using Cons.IH [OF rest] by blast
    moreover from this(2) have "\<forall>r \<in> set rows. \<exists>n. \<exists>c' \<in> set (c # cs). r = pending_of n now c'"
      by (metis list.set_intros(2))
    moreover have "set (pending_ids st') = set (pending_ids st) \<union> ca_id ` set (c # cs)"
      using Cons.IH [OF rest] \<open>ca_id c \<in> set (pending_ids st)\<close> by auto
    ultimately show ?thesis using Cons.IH [OF rest] by blast
  qed
qed auto

section \<open>The invariant of the ledger\<close>

definition row_ok :: "(string \<Rightarrow> string) \<Rightarrow> (string \<Rightarrow> event option) \<Rightarrow> event_row \<Rightarrow> bool" where
  "row_ok sha parse r \<longleftrightarrow> (\<exists>e. parse (er_canonical_event r) = Some e
     \<and> r = row_of (er_insertion_position r) e (event_digest sha e) (event_canonical e))"

definition pending_ok :: "(string \<Rightarrow> string) \<Rightarrow> (string \<Rightarrow> event option) \<Rightarrow> pending_row \<Rightarrow> bool" where
  "pending_ok sha parse r \<longleftrightarrow> (\<exists>e. parse (pr_canonical_event r) = Some e
     \<and> pr_canonical_event r = event_canonical e \<and> pr_content_digest r = event_digest sha e
     \<and> pr_event_id r = eventId e \<and> causationId e = Some (pr_causation_id r))"

definition store_ok :: "(string \<Rightarrow> string) \<Rightarrow> (string \<Rightarrow> event option) \<Rightarrow> store \<Rightarrow> bool" where
  "store_ok sha parse st \<longleftrightarrow>
     distinct (durable_ids st) \<and> (\<forall>r \<in> set (st_events st). row_ok sha parse r)
     \<and> sorted_wrt (<) (map er_insertion_position (st_events st))
     \<and> (\<forall>r \<in> set (st_events st). er_insertion_position r < st_next_position st)
     \<and> distinct (pending_ids st) \<and> (\<forall>r \<in> set (st_pending st). pending_ok sha parse r)"

text \<open>The log is causal when every event stands after its cause.\<close>

definition log_causal :: "store \<Rightarrow> bool" where
  "log_causal st \<longleftrightarrow> parents_first er_event_id er_causation_id {} (st_events st)"

definition parse_inverts :: "(string \<Rightarrow> event option) \<Rightarrow> (diagnostic list + event) list \<Rightarrow> bool" where
  "parse_inverts parse inputs \<longleftrightarrow> (\<forall>e. Inr e \<in> set inputs \<longrightarrow> parse (event_canonical e) = Some e)"

lemma insert_all_append: "insert_all (xs @ ys) st = raise_bind (insert_all xs st) (insert_all ys)"
proof (induction xs arbitrary: st)
  case (Cons x xs)
  obtain e d t where "x = (e, d, t)" by (cases x)
  with Cons show ?case by (cases "insertEvent e d t st") simp_all
qed simp

definition candidate_row :: "candidate \<Rightarrow> event \<times> string \<times> string" where
  "candidate_row c = (ca_event c, ca_digest c, ca_text c)"

lemma commit_plan_ok:
  assumes "commit_plan parse now plan st = Inr st'"
  shows "\<exists>promoted st2. parse_promoted parse (ap_promoted plan) = Inr promoted
    \<and> insert_all (map candidate_row (ap_admitted plan) @ promoted) st = Inr st2
    \<and> buffer_all now (ap_deferred plan)
        (remove_pending (map pr_event_id (ap_promoted plan) @ ap_superseded plan) st2) = Inr st'"
  using assms unfolding commit_plan_def insert_all_append candidate_row_def
  by (auto dest!: raise_bind_InrD)

lemma parse_promoted_spec:
  assumes "parse_promoted parse rows = Inr promoted" and "\<forall>r \<in> set rows. pending_ok sha parse r"
  shows "map (\<lambda>x. eventId (fst x)) promoted = map pr_event_id rows
    \<and> map (\<lambda>x. causationId (fst x)) promoted = map (\<lambda>r. Some (pr_causation_id r)) rows
    \<and> (\<forall>x \<in> set promoted. \<exists>e. x = (e, event_digest sha e, event_canonical e)
         \<and> parse (event_canonical e) = Some e)"
  using assms
proof (induction rows arbitrary: promoted)
  case (Cons r rows)
  from Cons.prems(2) obtain e where e: "parse (pr_canonical_event r) = Some e"
    "pr_canonical_event r = event_canonical e" "pr_content_digest r = event_digest sha e"
    "pr_event_id r = eventId e" "causationId e = Some (pr_causation_id r)"
    unfolding pending_ok_def by auto
  from Cons.prems(1) e(1) obtain ps where ps: "parse_promoted parse rows = Inr ps"
    "promoted = (e, pr_content_digest r, pr_canonical_event r) # ps"
    by (auto simp: parse_promoted_def parseStored_def dest!: raise_bind_InrD)
  from Cons.IH [OF ps(1)] Cons.prems(2) ps(2) e show ?case by simp
qed (simp add: parse_promoted_def)

lemma first_candidates_spec:
  "first_candidates firsts cs = Inr firsts' \<Longrightarrow> distinct (map_keys firsts)
   \<Longrightarrow> (\<forall>k c. map_get firsts k = Some c \<longrightarrow> ca_id c = k \<and> c \<in> S)
   \<Longrightarrow> distinct (map_keys firsts') \<and> (\<forall>k c. map_get firsts' k = Some c \<longrightarrow> ca_id c = k \<and> c \<in> S \<union> set cs)"
proof (induction cs arbitrary: firsts S)
  case (Cons c cs)
  show ?case
  proof (cases "map_get firsts (ca_id c)")
    case None
    then have rest: "first_candidates (map_set (ca_id c) c firsts) cs = Inr firsts'" using Cons.prems(1) by simp
    have "distinct (map_keys firsts') \<and> (\<forall>k d. map_get firsts' k = Some d \<longrightarrow> ca_id d = k \<and> d \<in> insert c S \<union> set cs)"
      by (rule Cons.IH [OF rest]) (use Cons.prems(2,3) in \<open>auto simp: distinct_update map_get_set split: if_splits\<close>)
    then show ?thesis by auto
  next
    case (Some first)
    then have rest: "first_candidates firsts cs = Inr firsts'" using Cons.prems(1) by (simp split: if_splits)
    from Cons.IH [OF rest Cons.prems(2,3)] show ?thesis by auto
  qed
qed auto

lemma distinct_values:
  "distinct (map_keys m) \<Longrightarrow> (\<forall>k c. map_get m k = Some c \<longrightarrow> f c = k) \<Longrightarrow> map f (map_values m) = map_keys m"
proof -
  assume "distinct (map_keys m)" "\<forall>k c. map_get m k = Some c \<longrightarrow> f c = k"
  then have "f (snd x) = fst x" if "x \<in> set m" for x
    using that by (metis map_of_is_SomeI prod.collapse)
  then show ?thesis by simp
qed

lemma split_existing_spec:
  "split_existing parse st cs = Inr (existing, new) \<Longrightarrow>
     new = filter (\<lambda>c. ca_id c \<notin> set (durable_ids st)) cs
     \<and> map_keys existing = map ca_id (filter (\<lambda>c. ca_id c \<in> set (durable_ids st)) cs)"
proof (induction cs arbitrary: existing new)
  case (Cons c cs)
  show ?case
  proof (cases "lookup_row st (ca_id c)")
    case None
    then obtain n where "split_existing parse st cs = Inr (existing, n)" "new = c # n"
      using Cons.prems by (auto dest!: raise_bind_InrD)
    with Cons.IH None show ?thesis by (simp add: lookup_row_None)
  next
    case (Some row)
    then obtain e ex where "split_existing parse st cs = Inr (ex, new)" "existing = (ca_id c, e) # ex"
      using Cons.prems by (auto dest!: raise_bind_InrD split: if_splits)
    moreover have "ca_id c \<in> set (durable_ids st)" using Some lookup_row_None [of st "ca_id c"] by auto
    ultimately show ?thesis using Cons.IH by simp
  qed
qed simp

definition candidate_ok :: "(string \<Rightarrow> string) \<Rightarrow> (string \<Rightarrow> event option) \<Rightarrow> candidate \<Rightarrow> bool" where
  "candidate_ok sha parse c \<longleftrightarrow> ca_text c = event_canonical (ca_event c)
     \<and> ca_digest c = event_digest sha (ca_event c) \<and> parse (ca_text c) = Some (ca_event c)"

lemma parseCanonicalEvent_cases:
  "parseCanonicalEvent sha (i, Inl ds) = Inl (Invalid_event ds)"
  "parseCanonicalEvent sha (i, Inr e) = Inr \<lparr>ca_event = e, ca_text = event_canonical e,
     ca_digest = event_digest sha e, ca_inputIndex = i\<rparr>"
  by (simp_all add: parseCanonicalEvent_def)

lemma parsed_candidates:
  "map_raise (parseCanonicalEvent sha) (enumerate n inputs) = Inr candidates \<Longrightarrow> parse_inverts parse inputs
   \<Longrightarrow> \<forall>c \<in> set candidates. candidate_ok sha parse c \<and> Inr (ca_event c) \<in> set inputs"
proof (induction inputs arbitrary: n candidates)
  case (Cons i inputs)
  then obtain e cs where e: "i = Inr e" "map_raise (parseCanonicalEvent sha) (enumerate (Suc n) inputs) = Inr cs"
    "candidates = \<lparr>ca_event = e, ca_text = event_canonical e, ca_digest = event_digest sha e, ca_inputIndex = n\<rparr> # cs"
    by (cases i) (auto simp: parseCanonicalEvent_cases dest!: raise_bind_InrD)
  moreover have "parse_inverts parse inputs" "parse (event_canonical e) = Some e"
    using Cons.prems(2) e(1) by (auto simp: parse_inverts_def)
  moreover note Cons.IH [OF e(2) this(1)]
  ultimately show ?case by (auto simp: candidate_ok_def)
qed simp

lemma plan_spec:
  assumes "plan = plan_append options st new"
  shows "set (ap_admitted plan) \<union> set (ap_deferred plan) = set new
    \<and> set (ap_promoted plan) \<subseteq> set (st_pending st)
    \<and> (\<forall>c \<in> set (ap_deferred plan). \<exists>p. causationId (ca_event c) = Some p)"
proof (cases "ao_bufferUnresolvedCausalParents options")
  case True
  obtain resolved admitted deferred where r: "resolve_all ca_id (\<lambda>c. causationId (ca_event c)) (durable_ids st) new
      = (resolved, admitted, deferred)" by (metis prod_cases3)
  obtain resolved' promoted left where p: "resolve_all pr_event_id (\<lambda>r. Some (pr_causation_id r)) resolved
      (filter (\<lambda>r. pr_event_id r \<notin> set (map ca_id deferred @ map ca_id admitted)) (st_pending st))
      = (resolved', promoted, left)" by (metis prod_cases3)
  have plan: "ap_admitted plan = admitted" "ap_deferred plan = deferred" "ap_promoted plan = promoted"
    using True r p by (simp_all add: assms plan_append_def Let_def)
  have "set new = set admitted \<union> set deferred"
    using resolve_all_spec [OF r] by (metis set_mset_mset set_mset_union)
  moreover have "set promoted \<subseteq> set (st_pending st)"
    using resolve_all_spec [OF p] by (metis filter_is_subset le_sup_iff set_mset_mset set_mset_union)
  moreover have "\<forall>c \<in> set deferred. \<exists>p. causationId (ca_event c) = Some p"
    using resolve_all_spec [OF r] by blast
  ultimately show ?thesis unfolding plan by blast
qed (simp add: assms plan_append_def)

lemma plan_parents:
  assumes "plan = plan_append options st new" and "ao_bufferUnresolvedCausalParents options"
  shows "parents_first ca_id (\<lambda>c. causationId (ca_event c)) (set (durable_ids st)) (ap_admitted plan)
    \<and> parents_first pr_event_id (\<lambda>r. Some (pr_causation_id r))
        (ca_id ` set (ap_admitted plan) \<union> set (durable_ids st)) (ap_promoted plan)
    \<and> ca_id ` set (ap_admitted plan) \<inter> pr_event_id ` set (ap_promoted plan) = {}"
proof -
  obtain resolved admitted deferred where r: "resolve_all ca_id (\<lambda>c. causationId (ca_event c)) (durable_ids st) new
      = (resolved, admitted, deferred)" by (metis prod_cases3)
  let ?waiting = "filter (\<lambda>r. pr_event_id r \<notin> set (map ca_id deferred @ map ca_id admitted)) (st_pending st)"
  obtain resolved' promoted left where p: "resolve_all pr_event_id (\<lambda>r. Some (pr_causation_id r)) resolved ?waiting
      = (resolved', promoted, left)" by (metis prod_cases3)
  have plan: "ap_admitted plan = admitted" "ap_promoted plan = promoted"
    using assms r p by (simp_all add: plan_append_def Let_def)
  have "set promoted \<subseteq> set ?waiting"
    using resolve_all_spec [OF p] by (metis Un_upper1 set_mset_mset set_mset_union)
  then have other: "pr_event_id r \<notin> ca_id ` set admitted" if "r \<in> set promoted" for r using that by auto
  have "x \<notin> pr_event_id ` set promoted" if "x \<in> ca_id ` set admitted" for x
  proof
    assume "x \<in> pr_event_id ` set promoted"
    then obtain r where r: "r \<in> set promoted" "x = pr_event_id r" by blast
    show False using other [OF r(1)] that r(2) by simp
  qed
  then have "ca_id ` set admitted \<inter> pr_event_id ` set promoted = {}" by blast
  then show ?thesis
    unfolding plan using resolve_all_spec [OF r] resolve_all_spec [OF p] by simp
qed

lemma append_shape:
  assumes "append_transaction sha lc parse now inputs options st = Inr (results, st')"
    and "parse_inverts parse inputs"
  shows "st' = st \<or> (\<exists>new plan. plan = plan_append options st new \<and> distinct (map ca_id new)
    \<and> (\<forall>c \<in> set new. candidate_ok sha parse c \<and> Inr (ca_event c) \<in> set inputs \<and> ca_id c \<notin> set (durable_ids st))
    \<and> commit_plan parse now plan st = Inr st')"
proof (cases "inputs = []")
  case False
  from assms(1) have open_store: "\<not> st_closed st" by (auto simp: append_transaction_def)
  from assms(1) False open_store obtain candidates firsts existing new where steps:
    "map_raise (parseCanonicalEvent sha) (enumerate 0 inputs) = Inr candidates"
    "first_candidates [] candidates = Inr firsts"
    "split_existing parse st (map_values firsts) = Inr (existing, new)"
    "commit_plan parse now (plan_append options st new) st = Inr st'"
    by (auto simp: append_transaction_def Let_def dest!: raise_bind_InrD)
  have firsts: "distinct (map_keys firsts)" "\<forall>k c. map_get firsts k = Some c \<longrightarrow> ca_id c = k \<and> c \<in> set candidates"
    using first_candidates_spec [OF steps(2), of "{}"] by simp_all
  have keys: "map ca_id (map_values firsts) = map_keys firsts"
    by (rule distinct_values [OF firsts(1)]) (use firsts(2) in blast)
  have members: "set (map_values firsts) \<subseteq> set candidates"
    using firsts by (auto dest!: map_of_is_SomeI)
  have new: "new = filter (\<lambda>c. ca_id c \<notin> set (durable_ids st)) (map_values firsts)"
    using split_existing_spec [OF steps(3)] by simp
  have "distinct (map ca_id (map_values firsts))" by (simp only: keys firsts(1))
  then have "distinct (map ca_id new)" unfolding new by (rule distinct_map_filter)
  moreover have "\<forall>c \<in> set new. candidate_ok sha parse c \<and> Inr (ca_event c) \<in> set inputs \<and> ca_id c \<notin> set (durable_ids st)"
    using parsed_candidates [OF steps(1) assms(2)] members unfolding new by auto
  ultimately show ?thesis using steps(4) by blast
qed (use assms(1) in \<open>auto simp: append_transaction_def split: if_splits\<close>)

section \<open>Appending keeps the invariant\<close>

lemma rows_from_row_ok:
  "\<forall>x \<in> set xs. \<exists>e. x = (e, event_digest sha e, event_canonical e) \<and> parse (event_canonical e) = Some e
   \<Longrightarrow> \<forall>r \<in> set (rows_from n xs). row_ok sha parse r"
  by (induction n xs rule: rows_from.induct) (auto simp: row_ok_def)

lemma rows_from_positions:
  "sorted_wrt (<) (map er_insertion_position (rows_from n xs))
   \<and> (\<forall>r \<in> set (rows_from n xs). n \<le> er_insertion_position r \<and> er_insertion_position r < n + length xs)"
  by (induction n xs rule: rows_from.induct) fastforce+

lemma store_ok_insert:
  assumes "store_ok sha parse st" and "insert_all xs st = Inr st'"
    and "\<forall>x \<in> set xs. \<exists>e. x = (e, event_digest sha e, event_canonical e) \<and> parse (event_canonical e) = Some e"
  shows "store_ok sha parse st'"
proof -
  let ?rows = "rows_from (st_next_position st) xs"
  from assms(2) have ids: "distinct (map er_event_id ?rows)" "set (map er_event_id ?rows) \<inter> set (durable_ids st) = {}"
    and st': "st' = st\<lparr>st_events := st_events st @ ?rows, st_next_position := st_next_position st + length xs\<rparr>"
    by (simp_all only: insert_all_spec rows_from_ids)
  have "sorted_wrt (<) (map er_insertion_position (st_events st @ ?rows))"
    using assms(1) rows_from_positions [of "st_next_position st" xs]
    by (fastforce simp: store_ok_def sorted_wrt_append)
  moreover have "\<forall>r \<in> set (st_events st @ ?rows). er_insertion_position r < st_next_position st + length xs"
    using assms(1) rows_from_positions [of "st_next_position st" xs] by (fastforce simp: store_ok_def)
  moreover have "\<forall>r \<in> set (st_events st @ ?rows). row_ok sha parse r"
    using assms(1) rows_from_row_ok [OF assms(3)] by (auto simp: store_ok_def)
  moreover have "distinct (map er_event_id (st_events st @ ?rows))"
    using assms(1) ids by (auto simp: store_ok_def)
  ultimately show ?thesis using assms(1) by (simp add: store_ok_def st')
qed

lemma store_ok_remove: "store_ok sha parse st \<Longrightarrow> store_ok sha parse (remove_pending ids st)"
  by (auto simp: store_ok_def remove_pending_def intro: distinct_map_filter)

lemma store_ok_buffer:
  assumes "store_ok sha parse st" and "buffer_all now cs st = Inr st'"
    and "\<forall>c \<in> set cs. candidate_ok sha parse c \<and> (\<exists>p. causationId (ca_event c) = Some p)"
  shows "store_ok sha parse st'"
proof -
  from buffer_all_spec [OF assms(2)] obtain rows where b: "st_events st' = st_events st"
    "st_next_position st' = st_next_position st" "st_pending st' = st_pending st @ rows"
    "\<forall>r \<in> set rows. \<exists>n. \<exists>c \<in> set cs. r = pending_of n now c" "distinct (pending_ids st) \<longrightarrow> distinct (pending_ids st')"
    by blast
  have ok: "pending_ok sha parse (pending_of n now c)" if "c \<in> set cs" for n c
    using assms(3) that by (auto simp: pending_ok_def pending_of_def candidate_ok_def)
  have "\<forall>r \<in> set rows. pending_ok sha parse r" using b(4) ok by auto
  then show ?thesis using assms(1) b(1,2,3,5) by (auto simp: store_ok_def)
qed

lemma committed_rows:
  assumes ok: "store_ok sha parse st" and plan: "plan = plan_append options st new"
    and cands: "\<forall>c \<in> set new. candidate_ok sha parse c"
    and commit: "commit_plan parse now plan st = Inr st'"
  obtains promoted st2 where "insert_all (map candidate_row (ap_admitted plan) @ promoted) st = Inr st2"
    "buffer_all now (ap_deferred plan)
       (remove_pending (map pr_event_id (ap_promoted plan) @ ap_superseded plan) st2) = Inr st'"
    "map (\<lambda>x. eventId (fst x)) promoted = map pr_event_id (ap_promoted plan)"
    "map (\<lambda>x. causationId (fst x)) promoted = map (\<lambda>r. Some (pr_causation_id r)) (ap_promoted plan)"
    "\<forall>x \<in> set (map candidate_row (ap_admitted plan) @ promoted).
       \<exists>e. x = (e, event_digest sha e, event_canonical e) \<and> parse (event_canonical e) = Some e"
proof -
  from commit_plan_ok [OF commit] obtain promoted st2 where c:
    "parse_promoted parse (ap_promoted plan) = Inr promoted"
    "insert_all (map candidate_row (ap_admitted plan) @ promoted) st = Inr st2"
    "buffer_all now (ap_deferred plan)
        (remove_pending (map pr_event_id (ap_promoted plan) @ ap_superseded plan) st2) = Inr st'"
    by blast
  have "\<forall>r \<in> set (ap_promoted plan). pending_ok sha parse r"
    using ok plan_spec [OF plan] by (auto simp: store_ok_def)
  note promoted = parse_promoted_spec [OF c(1) this]
  have "\<forall>c \<in> set (ap_admitted plan). candidate_ok sha parse c" using cands plan_spec [OF plan] by blast
  then have "\<forall>x \<in> set (map candidate_row (ap_admitted plan)).
       \<exists>e. x = (e, event_digest sha e, event_canonical e) \<and> parse (event_canonical e) = Some e"
    by (auto simp: candidate_ok_def candidate_row_def)
  with promoted have all: "\<forall>x \<in> set (map candidate_row (ap_admitted plan) @ promoted).
       \<exists>e. x = (e, event_digest sha e, event_canonical e) \<and> parse (event_canonical e) = Some e"
    by (metis Un_iff set_append)
  from that [OF c(2,3) _ _ all] promoted show ?thesis by blast
qed

lemma append_keeps_ok:
  assumes ok: "store_ok sha parse st" and inv: "parse_inverts parse inputs"
  shows "store_ok sha parse (snd (appendAtomic sha lc parse now inputs options st))"
proof (cases "append_transaction sha lc parse now inputs options st")
  case (Inl err)
  then show ?thesis using ok by (simp add: appendAtomic_def)
next
  case (Inr r)
  obtain results st' where r: "append_transaction sha lc parse now inputs options st = Inr (results, st')"
    using Inr by (cases r) auto
  from append_shape [OF r inv] have "store_ok sha parse st'"
  proof
    assume "\<exists>new plan. plan = plan_append options st new \<and> distinct (map ca_id new)
      \<and> (\<forall>c \<in> set new. candidate_ok sha parse c \<and> Inr (ca_event c) \<in> set inputs \<and> ca_id c \<notin> set (durable_ids st))
      \<and> commit_plan parse now plan st = Inr st'"
    then obtain new plan where p: "plan = plan_append options st new" "\<forall>c \<in> set new. candidate_ok sha parse c"
      "commit_plan parse now plan st = Inr st'" by blast
    from committed_rows [OF ok p] obtain promoted st2 where c:
      "insert_all (map candidate_row (ap_admitted plan) @ promoted) st = Inr st2"
      "buffer_all now (ap_deferred plan)
         (remove_pending (map pr_event_id (ap_promoted plan) @ ap_superseded plan) st2) = Inr st'"
      "\<forall>x \<in> set (map candidate_row (ap_admitted plan) @ promoted).
         \<exists>e. x = (e, event_digest sha e, event_canonical e) \<and> parse (event_canonical e) = Some e" .
    have "\<forall>c \<in> set (ap_deferred plan). candidate_ok sha parse c \<and> (\<exists>p. causationId (ca_event c) = Some p)"
      using p(2) plan_spec [OF p(1)] by blast
    with store_ok_buffer [OF store_ok_remove [OF store_ok_insert [OF ok c(1,3)]] c(2)]
    show ?thesis by blast
  qed (use ok in simp)
  then show ?thesis by (simp add: appendAtomic_def r)
qed

section \<open>Appending with buffering keeps the log causal\<close>

lemma parents_first_pairs:
  "parents_first ident parent known xs \<longleftrightarrow> parents_first fst snd known (map (\<lambda>x. (ident x, parent x)) xs)"
  by (induction xs arbitrary: known) auto

lemma parents_first_same:
  assumes "map ident xs = map ident' ys" and "map parent xs = map parent' ys"
  shows "parents_first ident parent known xs \<longleftrightarrow> parents_first ident' parent' known ys"
proof -
  have "zip (map ident xs) (map parent xs) = zip (map ident' ys) (map parent' ys)" using assms by simp
  then have "map (\<lambda>x. (ident x, parent x)) xs = map (\<lambda>y. (ident' y, parent' y)) ys"
    by (simp add: zip_map_map zip_same_conv_map comp_def)
  then show ?thesis by (simp only: parents_first_pairs [of ident parent] parents_first_pairs [of ident' parent'])
qed

lemma rows_from_causes [simp]: "map er_causation_id (rows_from n xs) = map (\<lambda>x. causationId (fst x)) xs"
  by (induction n xs rule: rows_from.induct) simp_all

lemma append_keeps_causal:
  assumes ok: "store_ok sha parse st" and inv: "parse_inverts parse inputs"
    and buffering: "ao_bufferUnresolvedCausalParents options" and causal: "log_causal st"
  shows "log_causal (snd (appendAtomic sha lc parse now inputs options st))"
proof (cases "append_transaction sha lc parse now inputs options st")
  case (Inl err)
  then show ?thesis using causal by (simp add: appendAtomic_def)
next
  case (Inr r)
  obtain results st' where r: "append_transaction sha lc parse now inputs options st = Inr (results, st')"
    using Inr by (cases r) auto
  from append_shape [OF r inv] have "log_causal st'"
  proof
    assume "\<exists>new plan. plan = plan_append options st new \<and> distinct (map ca_id new)
      \<and> (\<forall>c \<in> set new. candidate_ok sha parse c \<and> Inr (ca_event c) \<in> set inputs \<and> ca_id c \<notin> set (durable_ids st))
      \<and> commit_plan parse now plan st = Inr st'"
    then obtain new plan where p: "plan = plan_append options st new" "\<forall>c \<in> set new. candidate_ok sha parse c"
      "commit_plan parse now plan st = Inr st'" by blast
    from committed_rows [OF ok p] obtain promoted st2 where c:
      "insert_all (map candidate_row (ap_admitted plan) @ promoted) st = Inr st2"
      "buffer_all now (ap_deferred plan)
         (remove_pending (map pr_event_id (ap_promoted plan) @ ap_superseded plan) st2) = Inr st'"
      "map (\<lambda>x. eventId (fst x)) promoted = map pr_event_id (ap_promoted plan)"
      "map (\<lambda>x. causationId (fst x)) promoted = map (\<lambda>r. Some (pr_causation_id r)) (ap_promoted plan)" .
    let ?rows = "rows_from (st_next_position st) (map candidate_row (ap_admitted plan) @ promoted)"
    have events: "st_events st' = st_events st @ ?rows"
      using buffer_all_spec [OF c(2)] c(1) by (simp add: insert_all_spec remove_pending_def)
    have admitted: "map (\<lambda>x. eventId (fst x)) (map candidate_row (ap_admitted plan)) = map ca_id (ap_admitted plan)"
      "map (\<lambda>x. causationId (fst x)) (map candidate_row (ap_admitted plan))
        = map (\<lambda>c. causationId (ca_event c)) (ap_admitted plan)"
      by (simp_all add: candidate_row_def)
    note parents = plan_parents [OF p(1) buffering]
    have "parents_first (\<lambda>x. eventId (fst x)) (\<lambda>x. causationId (fst x)) (set (durable_ids st))
        (map candidate_row (ap_admitted plan))"
      unfolding parents_first_same [OF admitted] using parents by blast
    moreover have "parents_first (\<lambda>x. eventId (fst x)) (\<lambda>x. causationId (fst x))
        (ca_id ` set (ap_admitted plan) \<union> set (durable_ids st)) promoted"
      unfolding parents_first_same [OF c(3,4)] using parents by blast
    moreover have "(\<lambda>x. eventId (fst x)) ` set (map candidate_row (ap_admitted plan)) = ca_id ` set (ap_admitted plan)"
      using arg_cong [OF admitted(1), of set] by (simp only: set_map)
    ultimately have "parents_first (\<lambda>x. eventId (fst x)) (\<lambda>x. causationId (fst x)) (set (durable_ids st))
        (map candidate_row (ap_admitted plan) @ promoted)"
      by (simp only: parents_first_append)
    then have "parents_first er_event_id er_causation_id (set (durable_ids st)) ?rows"
      by (simp only: parents_first_same [OF rows_from_ids rows_from_causes])
    then show ?thesis
      using causal unfolding log_causal_def events parents_first_append by (simp only: set_map Un_empty_right)
  qed (use causal in simp)
  then show ?thesis by (simp add: appendAtomic_def r)
qed

end
