(* ===== verification/Ledger.thy ===== *)
theory Ledger
  imports Event_Store
begin

text \<open>
  What the ledger promises: retention keeps whole causal chains, the log stays causal and reads back
  as the events that were appended, and an append is idempotent and all or nothing.
\<close>

section \<open>Retention\<close>

definition row_causes :: "event_row list \<Rightarrow> (string \<times> string) set" where
  "row_causes rows = {(p, er_event_id r) | p r. r \<in> set rows \<and> er_causation_id r = Some p}"

lemma protect_spec: "set (protect rows ids) = {p. \<exists>i \<in> set ids. (p, i) \<in> (row_causes rows)\<^sup>*}"
proof (induction rows ids rule: protect.induct)
  case (1 rows ids)
  define new where "new = filter (\<lambda>p. p \<notin> set ids)
    (List.map_filter er_causation_id (filter (\<lambda>r. er_event_id r \<in> set ids) rows))"
  have new: "p \<in> set new \<longleftrightarrow> p \<notin> set ids \<and> (\<exists>i \<in> set ids. (p, i) \<in> row_causes rows)" for p
    by (auto simp: new_def map_filter_set row_causes_def)
  have step: "protect rows ids = (if new = [] then ids else protect rows (new @ ids))"
    by (simp only: protect.simps [of rows ids] Let_def new_def [symmetric])
  show ?case
  proof (cases "new = []")
    case True
    have "p \<in> set ids" if "(p, i) \<in> (row_causes rows)\<^sup>*" "i \<in> set ids" for p i
      using that by (induction rule: converse_rtrancl_induct) (use new True in auto)
    then show ?thesis using step True by auto
  next
    case False
    have "set (protect rows (new @ ids)) = {p. \<exists>i \<in> set (new @ ids). (p, i) \<in> (row_causes rows)\<^sup>*}"
      using "1.IH" [OF new_def] False by simp
    also have "\<dots> = {p. \<exists>i \<in> set ids. (p, i) \<in> (row_causes rows)\<^sup>*}"
      using new by (auto intro: rtrancl_into_rtrancl)
    finally show ?thesis using step False by simp
  qed
qed

lemma protected_ids_spec:
  assumes ids: "distinct (map er_event_id rows)"
  shows "set (protected_ids cutoff rows)
   = {p. \<exists>r \<in> set rows. cutoff \<le> er_timestamp r \<and> (p, er_event_id r) \<in> (row_causes rows)\<^sup>+}"
proof -
  have "set (List.map_filter er_causation_id (filter (\<lambda>r. cutoff \<le> er_timestamp r) rows))
      = {p. \<exists>r \<in> set rows. cutoff \<le> er_timestamp r \<and> er_causation_id r = Some p}"
    by (auto simp: map_filter_set)
  then have "set (protected_ids cutoff rows) = {p. \<exists>r \<in> set rows. \<exists>i. cutoff \<le> er_timestamp r
      \<and> er_causation_id r = Some i \<and> (p, i) \<in> (row_causes rows)\<^sup>*}"
    unfolding protected_ids_def protect_spec by auto
  also have "\<dots> = {p. \<exists>r \<in> set rows. cutoff \<le> er_timestamp r \<and> (p, er_event_id r) \<in> (row_causes rows)\<^sup>+}"
  proof (intro Collect_cong iffI)
    fix p assume "\<exists>r \<in> set rows. \<exists>i. cutoff \<le> er_timestamp r \<and> er_causation_id r = Some i
        \<and> (p, i) \<in> (row_causes rows)\<^sup>*"
    then obtain r i where "r \<in> set rows" "cutoff \<le> er_timestamp r" "(i, er_event_id r) \<in> row_causes rows"
      "(p, i) \<in> (row_causes rows)\<^sup>*" by (auto simp: row_causes_def)
    then show "\<exists>r \<in> set rows. cutoff \<le> er_timestamp r \<and> (p, er_event_id r) \<in> (row_causes rows)\<^sup>+"
      by (meson rtrancl_into_trancl1)
  next
    fix p assume "\<exists>r \<in> set rows. cutoff \<le> er_timestamp r \<and> (p, er_event_id r) \<in> (row_causes rows)\<^sup>+"
    then obtain r i where r: "r \<in> set rows" "cutoff \<le> er_timestamp r" "(p, i) \<in> (row_causes rows)\<^sup>*"
      "(i, er_event_id r) \<in> row_causes rows" by (meson tranclD2)
    show "\<exists>r \<in> set rows. \<exists>i. cutoff \<le> er_timestamp r \<and> er_causation_id r = Some i
        \<and> (p, i) \<in> (row_causes rows)\<^sup>*"
    proof -
      from r(4) obtain r' where r': "r' \<in> set rows" "er_event_id r' = er_event_id r" "er_causation_id r' = Some i"
        by (auto simp: row_causes_def)
      then have "r' = r" using ids r(1) by (meson distinct_map inj_onD)
      with r r' show ?thesis by blast
    qed
  qed
  finally show ?thesis .
qed

lemma parents_first_snoc: "parents_first ident parent {} (xs @ [x]) \<longleftrightarrow>
    parents_first ident parent {} xs \<and> (\<forall>p. parent x = Some p \<longrightarrow> p \<in> ident ` set xs)"
  unfolding parents_first_append by simp

lemma parents_first_filter:
  "parents_first ident parent {} xs
   \<Longrightarrow> (\<And>x y. x \<in> set xs \<Longrightarrow> y \<in> set xs \<Longrightarrow> Q x \<Longrightarrow> parent x = Some (ident y) \<Longrightarrow> Q y)
   \<Longrightarrow> parents_first ident parent {} (filter Q xs)"
proof (induction xs rule: rev_induct)
  case (snoc x xs)
  have IH: "parents_first ident parent {} (filter Q xs)"
  proof (rule snoc.IH)
    show "parents_first ident parent {} xs" using snoc.prems(1) by (simp add: parents_first_snoc)
    show "Q y" if "z \<in> set xs" "y \<in> set xs" "Q z" "parent z = Some (ident y)" for z y
      using snoc.prems(2) [of z y] that by simp
  qed
  show ?case
  proof (cases "Q x")
    case True
    have "p \<in> ident ` set (filter Q xs)" if p: "parent x = Some p" for p
    proof -
      from snoc.prems(1) p obtain y where y: "y \<in> set xs" "p = ident y"
        unfolding parents_first_snoc by blast
      then have "Q y" using snoc.prems(2) [of x y] True p by simp
      with y show ?thesis by simp
    qed
    with IH True show ?thesis by (simp add: parents_first_snoc)
  qed (use IH in simp)
qed simp

definition kept :: "string \<Rightarrow> event_row list \<Rightarrow> event_row \<Rightarrow> bool" where
  "kept cutoff rows r \<longleftrightarrow> cutoff \<le> er_timestamp r
     \<or> (\<exists>r' \<in> set rows. cutoff \<le> er_timestamp r' \<and> (er_event_id r, er_event_id r') \<in> (row_causes rows)\<^sup>+)"

lemma prune_events:
  assumes "distinct (durable_ids st)"
  shows "st_events (prune_store cutoff st) = filter (kept cutoff (st_events st)) (st_events st)"
proof -
  have "(\<not> (er_timestamp r < cutoff \<and> er_event_id r \<notin> set (protected_ids cutoff (st_events st))))
      \<longleftrightarrow> kept cutoff (st_events st) r" for r
    unfolding protected_ids_spec [OF assms] kept_def by (auto simp: not_less)
  then show ?thesis by (simp add: prune_store_def Let_def)
qed

lemma sorted_wrt_map_filter: "sorted_wrt R (map f xs) \<Longrightarrow> sorted_wrt R (map f (filter P xs))"
  by (induction xs) auto

lemma prune_keeps_ok: "store_ok sha parse st \<Longrightarrow> store_ok sha parse (prune_store cutoff st)"
  by (simp add: store_ok_def prune_store_def Let_def distinct_map_filter sorted_wrt_map_filter)

lemma kept_parent:
  assumes "r \<in> set rows" and "kept cutoff rows r" and "er_causation_id r = Some (er_event_id y)"
  shows "kept cutoff rows y"
proof -
  have step: "(er_event_id y, er_event_id r) \<in> row_causes rows"
    using assms(1,3) by (auto simp: row_causes_def)
  from assms(2) show ?thesis
    unfolding kept_def
  proof
    assume "cutoff \<le> er_timestamp r"
    with assms(1) step show "cutoff \<le> er_timestamp y \<or> (\<exists>r' \<in> set rows. cutoff \<le> er_timestamp r'
        \<and> (er_event_id y, er_event_id r') \<in> (row_causes rows)\<^sup>+)" by blast
  next
    assume "\<exists>r' \<in> set rows. cutoff \<le> er_timestamp r' \<and> (er_event_id r, er_event_id r') \<in> (row_causes rows)\<^sup>+"
    then show "cutoff \<le> er_timestamp y \<or> (\<exists>r' \<in> set rows. cutoff \<le> er_timestamp r'
        \<and> (er_event_id y, er_event_id r') \<in> (row_causes rows)\<^sup>+)"
      using step by (meson trancl_into_trancl2)
  qed
qed

lemma prune_keeps_causal:
  assumes "distinct (durable_ids st)" and "log_causal st"
  shows "log_causal (prune_store cutoff st)"
  unfolding log_causal_def prune_events [OF assms(1)]
proof (rule parents_first_filter)
  show "parents_first er_event_id er_causation_id {} (st_events st)" using assms(2) by (simp add: log_causal_def)
qed (rule kept_parent)

section \<open>Reading the log\<close>

definition event_of :: "(string \<Rightarrow> event option) \<Rightarrow> event_row \<Rightarrow> event" where
  "event_of parse r = the (parse (er_canonical_event r))"

definition event_matches :: "event_query \<Rightarrow> event \<Rightarrow> bool" where
  "event_matches q e \<longleftrightarrow>
     asks (\<lambda>v. eventId e = v) (eq_eventId q) \<and> asks (\<lambda>v. eventType e = v) (eq_eventType q)
     \<and> asks (\<lambda>vs. eventType e \<in> set vs) (eq_eventTypes q) \<and> asks (\<lambda>v. v \<le> timestamp e) (eq_since q)
     \<and> asks (\<lambda>v. correlationId e = v) (eq_correlationId q) \<and> asks (\<lambda>v. causationId e = v) (eq_causationId q)"

lemma row_ok_event:
  "row_ok sha parse r \<Longrightarrow> parseStored parse (er_event_id r) (er_canonical_event r) = Inr (event_of parse r)
     \<and> eventId (event_of parse r) = er_event_id r \<and> causationId (event_of parse r) = er_causation_id r
     \<and> timestamp (event_of parse r) = er_timestamp r"
  unfolding row_ok_def event_of_def parseStored_def by (metis option.case(2) option.sel row_of_id(1,3,6))

lemma read_events_ok:
  assumes "store_ok sha parse st" and "\<not> st_closed st"
  shows "read_events parse q st = Inr (map (event_of parse) (query_rows st q))"
proof -
  have "parseStored parse (er_event_id r) (er_canonical_event r) = Inr (event_of parse r)"
    if "r \<in> set (query_rows st q)" for r
    using assms(1) that row_ok_event by (auto simp: query_rows_def store_ok_def)
  then have "map_raise (\<lambda>r. parseStored parse (er_event_id r) (er_canonical_event r)) (query_rows st q)
      = Inr (map (event_of parse) (query_rows st q))" by (rule map_raise_Inr)
  then show ?thesis using assms(2) by (simp add: read_events_def)
qed

section \<open>Appending without buffering\<close>

text \<open>The events of a batch whose identifier is neither known nor repeated from earlier in the batch.\<close>

fun novel :: "('a \<Rightarrow> string) \<Rightarrow> string set \<Rightarrow> 'a list \<Rightarrow> 'a list" where
  "novel ident known [] = []"
| "novel ident known (x # xs) =
     (if ident x \<in> known then novel ident known xs else x # novel ident (insert (ident x) known) xs)"

lemma novel_map: "novel ident known (map f xs) = map f (novel (\<lambda>x. ident (f x)) known xs)"
  by (induction xs arbitrary: known) simp_all

lemma novel_filter: "filter (\<lambda>x. ident x \<notin> D) (novel ident known xs) = novel ident (D \<union> known) xs"
proof (induction xs arbitrary: known)
  case (Cons x xs)
  show ?case
  proof (cases "ident x \<in> D")
    case True
    then have "D \<union> insert (ident x) known = D \<union> known" by blast
    with Cons.IH [of "insert (ident x) known"] Cons.IH [of known] True show ?thesis by simp
  qed (use Cons.IH in simp)
qed simp

lemma novel_ids: "distinct (map ident (novel ident known xs))
    \<and> set (map ident (novel ident known xs)) = ident ` set xs - known
    \<and> set (novel ident known xs) \<subseteq> set xs"
proof (induction xs arbitrary: known)
  case (Cons x xs)
  show ?case
  proof (cases "ident x \<in> known")
    case False
    from Cons.IH [of "insert (ident x) known"] False show ?thesis by auto
  qed (use Cons.IH [of known] in auto)
qed simp

definition digests_agree :: "candidate list \<Rightarrow> bool" where
  "digests_agree cs \<longleftrightarrow> (\<forall>c \<in> set cs. \<forall>d \<in> set cs. ca_id c = ca_id d \<longrightarrow> ca_digest c = ca_digest d)"

lemma first_candidates_novel:
  "first_candidates firsts cs = Inr firsts' \<Longrightarrow> map_values firsts' = map_values firsts @ novel ca_id (set (map_keys firsts)) cs"
proof (induction cs arbitrary: firsts)
  case (Cons c cs)
  show ?case
  proof (cases "map_get firsts (ca_id c)")
    case None
    then have fresh: "ca_id c \<notin> set (map_keys firsts)" by (simp add: map_of_eq_None_iff)
    then have "map_set (ca_id c) c firsts = firsts @ [(ca_id c, c)]" by (induction firsts) auto
    with Cons None fresh show ?thesis by simp
  next
    case (Some first)
    then have "ca_id c \<in> set (map_keys firsts)" by (metis map_of_eq_None_iff option.distinct(1) set_map)
    moreover have "first_candidates firsts cs = Inr firsts'" using Cons.prems Some by (simp split: if_splits)
    ultimately show ?thesis using Cons.IH by simp
  qed
qed simp


lemma digests_agree_Cons: "digests_agree (c # cs) \<longleftrightarrow>
    digests_agree cs \<and> (\<forall>d \<in> set cs. ca_id d = ca_id c \<longrightarrow> ca_digest d = ca_digest c)"
  unfolding digests_agree_def by auto

lemma first_candidates_accepts:
  assumes "\<forall>k c. map_get firsts k = Some c \<longrightarrow> ca_id c = k"
  shows "(\<exists>firsts'. first_candidates firsts cs = Inr firsts') \<longleftrightarrow>
    digests_agree cs \<and> (\<forall>c \<in> set cs. \<forall>d. map_get firsts (ca_id c) = Some d \<longrightarrow> ca_digest d = ca_digest c)"
  using assms
proof (induction cs arbitrary: firsts)
  case (Cons c cs)
  show ?case
  proof (cases "map_get firsts (ca_id c)")
    case None
    let ?firsts = "map_set (ca_id c) c firsts"
    have "\<forall>k d. map_get ?firsts k = Some d \<longrightarrow> ca_id d = k" using Cons.prems by (simp add: map_get_set)
    note IH = Cons.IH [OF this]
    have "(\<exists>firsts'. first_candidates firsts (c # cs) = Inr firsts') \<longleftrightarrow>
        (\<exists>firsts'. first_candidates ?firsts cs = Inr firsts')" using None by simp
    also have "\<dots> \<longleftrightarrow> digests_agree cs
        \<and> (\<forall>d \<in> set cs. (ca_id d = ca_id c \<longrightarrow> ca_digest c = ca_digest d)
           \<and> (ca_id d \<noteq> ca_id c \<longrightarrow> (\<forall>e. map_get firsts (ca_id d) = Some e \<longrightarrow> ca_digest e = ca_digest d)))"
      unfolding IH by (auto simp: map_get_set)
    also have "\<dots> \<longleftrightarrow> digests_agree (c # cs)
        \<and> (\<forall>d \<in> set (c # cs). \<forall>e. map_get firsts (ca_id d) = Some e \<longrightarrow> ca_digest e = ca_digest d)"
      using None unfolding digests_agree_Cons by auto
    finally show ?thesis .
  next
    case (Some first)
    have "(\<exists>firsts'. first_candidates firsts (c # cs) = Inr firsts') \<longleftrightarrow>
        ca_digest first = ca_digest c \<and> (\<exists>firsts'. first_candidates firsts cs = Inr firsts')" using Some by simp
    also have "\<dots> \<longleftrightarrow> ca_digest first = ca_digest c \<and> digests_agree cs
        \<and> (\<forall>d \<in> set cs. \<forall>e. map_get firsts (ca_id d) = Some e \<longrightarrow> ca_digest e = ca_digest d)"
      unfolding Cons.IH [OF Cons.prems] by simp
    also have "\<dots> \<longleftrightarrow> digests_agree (c # cs)
        \<and> (\<forall>d \<in> set (c # cs). \<forall>e. map_get firsts (ca_id d) = Some e \<longrightarrow> ca_digest e = ca_digest d)"
      using Some unfolding digests_agree_Cons by auto
    finally show ?thesis .
  qed
qed (simp add: digests_agree_def)

definition durable_agrees :: "store \<Rightarrow> candidate \<Rightarrow> bool" where
  "durable_agrees st c \<longleftrightarrow> (\<forall>r. lookup_row st (ca_id c) = Some r \<longrightarrow> er_content_digest r = ca_digest c)"

lemma split_existing_accepts:
  assumes "store_ok sha parse st"
  shows "(\<exists>existing new. split_existing parse st cs = Inr (existing, new)) \<longleftrightarrow> (\<forall>c \<in> set cs. durable_agrees st c)"
proof (induction cs)
  case (Cons c cs)
  show ?case
  proof (cases "lookup_row st (ca_id c)")
    case None
    with Cons show ?thesis
      by (cases "split_existing parse st cs") (auto simp: durable_agrees_def)
  next
    case (Some r)
    then have "row_ok sha parse r" using assms lookup_row_Some [OF Some] by (simp add: store_ok_def)
    then have "parseStored parse (er_event_id r) (er_canonical_event r) = Inr (event_of parse r)"
      using row_ok_event by blast
    with Cons Some show ?thesis
      by (cases "split_existing parse st cs") (auto simp: durable_agrees_def)
  qed
qed simp


definition candidates_of :: "(string \<Rightarrow> string) \<Rightarrow> event list \<Rightarrow> candidate list" where
  "candidates_of sha events = map (\<lambda>(i, e). \<lparr>ca_event = e, ca_text = event_canonical e,
     ca_digest = event_digest sha e, ca_inputIndex = i\<rparr>) (enumerate 0 events)"

lemma candidates_of_events: "map ca_event (candidates_of sha events) = events"
  by (simp add: candidates_of_def comp_def case_prod_beta map_snd_enumerate)

lemma candidates_of_ids: "ca_id ` set (candidates_of sha events) = eventId ` set events"
  by (metis candidates_of_events image_image set_map)

lemma candidates_of_ok:
  "c \<in> set (candidates_of sha events) \<Longrightarrow> ca_event c \<in> set events
     \<and> ca_text c = event_canonical (ca_event c) \<and> ca_digest c = event_digest sha (ca_event c)"
  by (auto simp: candidates_of_def in_set_enumerate_eq)

lemma parse_batch: "map_raise (parseCanonicalEvent sha) (enumerate n (map Inr events))
    = Inr (map (\<lambda>(i, e). \<lparr>ca_event = e, ca_text = event_canonical e,
        ca_digest = event_digest sha e, ca_inputIndex = i\<rparr>) (enumerate n events))"
  by (induction events arbitrary: n) (simp_all add: parseCanonicalEvent_cases)

lemma commit_plain:
  "commit_plan parse now \<lparr>ap_admitted = new, ap_deferred = [], ap_promoted = [], ap_superseded = []\<rparr> st
     = insert_all (map candidate_row new) st"
proof (cases "insert_all (map candidate_row new) st")
  case (Inr st1)
  then show ?thesis
    by (simp add: commit_plan_def parse_promoted_def remove_pending_def candidate_row_def [abs_def])
qed (simp add: commit_plan_def candidate_row_def [abs_def])

lemma check_event_set_off [simp]:
  "\<not> ao_requireValidEventSet options \<Longrightarrow> check_event_set sha lc parse options st plan = Inr ()"
  by (simp add: check_event_set_def)

lemma append_plain_cases:
  assumes ok: "store_ok sha parse st" and "\<not> st_closed st" and "events \<noteq> []"
  shows "(\<exists>firsts existing.
      first_candidates [] (candidates_of sha events) = Inr firsts
      \<and> split_existing parse st (map_values firsts)
          = Inr (existing, novel ca_id (set (durable_ids st)) (candidates_of sha events))
      \<and> append_transaction sha lc parse now (map Inr events) no_options st
          = Inr (map (result_of existing firsts []) (candidates_of sha events),
              st\<lparr>st_events := st_events st @ rows_from (st_next_position st)
                    (map candidate_row (novel ca_id (set (durable_ids st)) (candidates_of sha events))),
                 st_next_position := st_next_position st
                    + length (novel ca_id (set (durable_ids st)) (candidates_of sha events))\<rparr>)
      \<and> digests_agree (candidates_of sha events) \<and> (\<forall>c \<in> set (candidates_of sha events). durable_agrees st c))
    \<or> (\<exists>err. append_transaction sha lc parse now (map Inr events) no_options st = Inl err
      \<and> \<not> (digests_agree (candidates_of sha events) \<and> (\<forall>c \<in> set (candidates_of sha events). durable_agrees st c)))"
proof -
  let ?cs = "candidates_of sha events"
  have parsed: "map_raise (parseCanonicalEvent sha) (enumerate 0 (map Inr events)) = Inr ?cs"
    by (simp add: parse_batch candidates_of_def)
  have accepts: "(\<exists>firsts. first_candidates [] ?cs = Inr firsts) \<longleftrightarrow> digests_agree ?cs"
    by (simp add: first_candidates_accepts)
  show ?thesis
  proof (cases "first_candidates [] ?cs")
    case (Inl err)
    then have "append_transaction sha lc parse now (map Inr events) no_options st = Inl err"
      using assms(2,3) parsed by (simp add: append_transaction_def)
    with accepts Inl show ?thesis by simp
  next
    case (Inr firsts)
    have firsts: "map_values firsts = novel ca_id {} ?cs" using first_candidates_novel [OF Inr] by simp
    show ?thesis
    proof (cases "split_existing parse st (map_values firsts)")
      case (Inl err)
      then have "append_transaction sha lc parse now (map Inr events) no_options st = Inl err"
        using assms(2,3) parsed Inr by (simp add: append_transaction_def)
      moreover have "\<not> (\<forall>c \<in> set (map_values firsts). durable_agrees st c)"
        using split_existing_accepts [OF ok, of "map_values firsts"] Inl by simp
      then have "\<not> (\<forall>c \<in> set ?cs. durable_agrees st c)"
        using novel_ids [of ca_id "{}" ?cs] unfolding firsts by blast
      ultimately show ?thesis by blast
    next
      case split: (Inr split)
      obtain existing new where s: "split = (existing, new)" by (cases split)
      have new: "new = novel ca_id (set (durable_ids st)) ?cs"
        using split_existing_spec [OF split [unfolded s]] unfolding firsts novel_filter by simp
      let ?st = "st\<lparr>st_events := st_events st @ rows_from (st_next_position st) (map candidate_row new),
                 st_next_position := st_next_position st + length new\<rparr>"
      have "insert_all (map candidate_row new) st = Inr ?st"
        unfolding insert_all_spec using novel_ids [of ca_id "set (durable_ids st)" ?cs]
        by (auto simp: new candidate_row_def comp_def)
      then have result: "append_transaction sha lc parse now (map Inr events) no_options st
          = Inr (map (result_of existing firsts []) ?cs, ?st)"
        using assms(2,3) parsed Inr split s
        by (simp add: append_transaction_def plan_append_def no_options_def commit_plain)
      have agree: "digests_agree ?cs" using accepts Inr by blast
      have durable: "durable_agrees st c" if c: "c \<in> set ?cs" for c
      proof -
        have "ca_id c \<in> ca_id ` set (novel ca_id {} ?cs)"
          using novel_ids [of ca_id "{}" ?cs] c by simp
        then obtain d where d: "d \<in> set (novel ca_id {} ?cs)" "ca_id d = ca_id c" by auto
        then have "durable_agrees st d"
          using split_existing_accepts [OF ok, of "map_values firsts"] split s unfolding firsts by blast
        moreover have "ca_digest d = ca_digest c"
          using agree c d novel_ids [of ca_id "{}" ?cs] unfolding digests_agree_def by blast
        ultimately show ?thesis using d(2) by (simp add: durable_agrees_def)
      qed
      show ?thesis
      proof (rule disjI1, rule exI [of _ firsts], rule exI [of _ existing], intro conjI)
        show "first_candidates [] ?cs = Inr firsts" by (rule Inr)
        show "split_existing parse st (map_values firsts)
            = Inr (existing, novel ca_id (set (durable_ids st)) ?cs)" using split unfolding s new .
        show "append_transaction sha lc parse now (map Inr events) no_options st
          = Inr (map (result_of existing firsts []) ?cs, st\<lparr>st_events := st_events st
                @ rows_from (st_next_position st) (map candidate_row (novel ca_id (set (durable_ids st)) ?cs)),
              st_next_position := st_next_position st + length (novel ca_id (set (durable_ids st)) ?cs)\<rparr>)"
          using result unfolding new .
        show "digests_agree ?cs" by (rule agree)
        show "\<forall>c \<in> set ?cs. durable_agrees st c" using durable by blast
      qed
    qed
  qed
qed


lemma parents_first_orders:
  assumes "distinct (map eventId events)" and "parents_first eventId causationId {} events"
  shows "\<exists>out. causalOrder events = Some (Inr out) \<and> mset out = mset events"
proof -
  have False if D: "D \<subset> set events" "ready_events (set events) D = {}" for D
  proof -
    define k where "k = (LEAST k. k < length events \<and> events ! k \<notin> D)"
    have "\<exists>k. k < length events \<and> events ! k \<notin> D" using D(1) by (metis in_set_conv_nth psubset_imp_ex_mem DiffD1 DiffD2)
    then have k: "k < length events" "events ! k \<notin> D" unfolding k_def by (metis (mono_tags, lifting) LeastI)+
    have "events ! j \<in> D" if "j < k" for j
      using not_less_Least [of j "\<lambda>k. k < length events \<and> events ! k \<notin> D"] that k(1) by (auto simp: k_def)
    then have "set (take k events) \<subseteq> D" using k(1) by (auto simp: in_set_conv_nth)
    moreover have "\<forall>p. causationId (events ! k) = Some p \<longrightarrow> p \<in> eventId ` set (take k events)"
      using assms(2) k(1) by (simp add: parents_first_def)
    ultimately have "events ! k \<in> ready_events (set events) D"
      using k nth_mem [OF k(1)] unfolding ready_events_def by blast
    with D(2) show False by blast
  qed
  then obtain out where out: "causalOrder events = Some (Inr out)"
    using causalOrder_cases [of events] assms(1) by blast
  then have "distinct out" "set out = set events" using causalOrder_ok least_ready_first_subset by blast+
  moreover have "distinct events" using assms(1) by (simp add: distinct_map)
  ultimately show ?thesis using out set_eq_iff_mset_eq_distinct by blast
qed

section \<open>A parser for the demonstration events\<close>

definition demo_parse :: "event list \<Rightarrow> string \<Rightarrow> event option" where
  "demo_parse events text = List.find (\<lambda>e. event_canonical e = text) events"

lemma demo_parse_inverts:
  assumes "distinct (map event_canonical events)" and "set batch \<subseteq> set events"
  shows "parse_inverts (demo_parse events) (map Inr batch)"
proof -
  have "demo_parse events (event_canonical e) = Some e" if e: "e \<in> set events" for e
  proof (cases "demo_parse events (event_canonical e)")
    case None
    then show ?thesis using e by (auto simp: demo_parse_def find_None_iff)
  next
    case (Some d)
    then have "d \<in> set events" "event_canonical d = event_canonical e"
      using find_SomeD unfolding demo_parse_def by fastforce+
    then show ?thesis using Some e assms(1) by (auto simp: distinct_map inj_on_def)
  qed
  then show ?thesis using assms(2) by (auto simp: parse_inverts_def)
qed

lemma demo_tool_texts: "distinct (map event_canonical demo_tool_run)"
  by code_simp

lemmas demo_tool_parse = demo_parse_inverts [OF demo_tool_texts]

section \<open>Properties of the ledger\<close>

text \<open>The stores reached from a fresh database by the operations of \<open>SqliteEventStore\<close>.\<close>

inductive ledger ::
    "(string \<Rightarrow> string) \<Rightarrow> (string \<Rightarrow> string \<Rightarrow> int) \<Rightarrow> (string \<Rightarrow> event option) \<Rightarrow> (append_options \<Rightarrow> bool)
     \<Rightarrow> store \<Rightarrow> bool" for sha lc parse allowed where
  ledger_open: "ledger sha lc parse allowed store_open"
| ledger_append: "ledger sha lc parse allowed st \<Longrightarrow> parse_inverts parse inputs \<Longrightarrow> allowed options
    \<Longrightarrow> ledger sha lc parse allowed (snd (appendAtomic sha lc parse now inputs options st))"
| ledger_prune: "ledger sha lc parse allowed st \<Longrightarrow> ledger sha lc parse allowed (snd (prune cutoff st))"
| ledger_close: "ledger sha lc parse allowed st \<Longrightarrow> ledger sha lc parse allowed (store_close st)"

lemma store_open_ok: "store_ok sha parse store_open" "log_causal store_open"
  by (simp_all add: store_ok_def store_open_def log_causal_def)

lemma store_close_ok: "store_ok sha parse st \<Longrightarrow> store_ok sha parse (store_close st)"
  "log_causal st \<Longrightarrow> log_causal (store_close st)"
  by (simp_all add: store_ok_def store_close_def log_causal_def)

lemma snd_prune: "snd (prune cutoff st) = (if st_closed st then st else prune_store cutoff st)"
  by (simp add: prune_def Let_def)

lemma ledger_ok: "ledger sha lc parse allowed st \<Longrightarrow> store_ok sha parse st"
  by (induction rule: ledger.induct)
    (simp_all add: store_open_ok store_close_ok append_keeps_ok snd_prune prune_keeps_ok)

lemma ledger_causal:
  "ledger sha lc parse ao_bufferUnresolvedCausalParents st \<Longrightarrow> log_causal st"
proof (induction rule: ledger.induct)
  case (ledger_prune st cutoff)
  then have "distinct (durable_ids st)" using ledger_ok by (simp add: store_ok_def)
  then show ?case using ledger_prune by (simp add: snd_prune prune_keeps_causal)
qed (simp_all add: store_open_ok store_close_ok append_keeps_causal ledger_ok)

definition demo_ledger :: store where
  "demo_ledger = snd (appendAtomic (\<lambda>_. ''h'') compareStrings (demo_parse demo_tool_run) ''now''
     (map Inr demo_tool_run) \<lparr>ao_requireValidEventSet = True, ao_bufferUnresolvedCausalParents = True\<rparr> store_open)"

lemma demo_ledger_reached:
  "allowed \<lparr>ao_requireValidEventSet = True, ao_bufferUnresolvedCausalParents = True\<rparr>
   \<Longrightarrow> ledger (\<lambda>_. ''h'') compareStrings (demo_parse demo_tool_run) allowed demo_ledger"
  unfolding demo_ledger_def by (intro ledger_append ledger_open demo_tool_parse) simp_all

lemma demo_ledger_rows: "demo_ledger = \<lparr>st_events =
     [row_of 1 demo_request ''h'' (event_canonical demo_request),
      row_of 2 demo_completion ''h'' (event_canonical demo_completion),
      row_of 3 demo_change ''h'' (event_canonical demo_change)],
   st_next_position = 4, st_pending = [], st_next_buffered = 1, st_closed = False\<rparr>"
  by code_simp

lemma demo_ledger_open [simp]: "\<not> st_closed demo_ledger"
  by (simp add: demo_ledger_rows)

lemma demo_ledger_ids: "durable_ids demo_ledger = [''evt_q'', ''evt_c'', ''evt_f'']"
  by (simp add: demo_ledger_rows demo_simps)

text \<open>
  C7: Whatever sequence of appends, prunes and closes a store went through, it is well formed: its
  identifiers are unique, every row carries the digest and the canonical text of the event it
  parses to and the columns of that event, insertion positions increase and stay below the next
  position, and every buffered row names its cause.
\<close>

theorem ledger_invariant:
  assumes "ledger sha lc parse allowed st"
  shows "distinct (durable_ids st) \<and> distinct (pending_ids st)
    \<and> (\<forall>r \<in> set (st_events st). \<exists>e. parse (er_canonical_event r) = Some e
         \<and> r = row_of (er_insertion_position r) e (event_digest sha e) (event_canonical e))
    \<and> sorted_wrt (<) (map er_insertion_position (st_events st))
    \<and> (\<forall>r \<in> set (st_events st). er_insertion_position r < st_next_position st)
    \<and> (\<forall>r \<in> set (st_pending st). \<exists>e. parse (pr_canonical_event r) = Some e
         \<and> pr_content_digest r = event_digest sha e \<and> pr_event_id r = eventId e
         \<and> causationId e = Some (pr_causation_id r))"
  using ledger_ok [OF assms] unfolding store_ok_def row_ok_def pending_ok_def by blast

theorem ledger_invariant_witness:
  "distinct (durable_ids demo_ledger) \<and> length (st_events demo_ledger) = 3
   \<and> sorted_wrt (<) (map er_insertion_position (st_events demo_ledger))"
  using ledger_invariant [OF demo_ledger_reached [where allowed = "\<lambda>_. True"]]
  by (simp add: demo_ledger_rows)

text \<open>
  C2: A store that is only ever appended to with causal buffering can always be read and put into causal order:
  reading the open store succeeds and \<open>causalOrder\<close> orders exactly the events read, also after any number of
  prunes, so retention never strands a survivor's cause.  This says nothing of the validation of the set, which
  replay performs behind \<open>causalOrder\<close> and which can fail after a prune (\<open>prune_breaks_replay\<close>).
\<close>

theorem buffered_ledger_orders:
  assumes "ledger sha lc parse ao_bufferUnresolvedCausalParents st" and "\<not> st_closed st"
  shows "\<exists>events out. read_events parse all_events st = Inr events
    \<and> causalOrder events = Some (Inr out) \<and> mset out = mset events"
proof -
  have ok: "store_ok sha parse st" by (rule ledger_ok [OF assms(1)])
  let ?events = "map (event_of parse) (st_events st)"
  have "query_rows st all_events = st_events st"
    by (simp add: query_rows_def row_matches_def all_events_def asks_def)
  then have read: "read_events parse all_events st = Inr ?events"
    using read_events_ok [OF ok assms(2)] by simp
  have row: "eventId (event_of parse r) = er_event_id r \<and> causationId (event_of parse r) = er_causation_id r"
    if "r \<in> set (st_events st)" for r using row_ok_event ok that by (auto simp: store_ok_def)
  then have ids: "map eventId ?events = durable_ids st" by simp
  have causes: "map causationId ?events = map er_causation_id (st_events st)" using row by simp
  have distinct: "distinct (map eventId ?events)" unfolding ids using ok by (simp add: store_ok_def)
  have "parents_first eventId causationId {} ?events"
    using ledger_causal [OF assms(1)] parents_first_same [OF ids causes] by (simp add: log_causal_def)
  then show ?thesis using read parents_first_orders [OF distinct] by blast
qed

theorem buffered_ledger_orders_witness:
  "\<exists>events out. read_events (demo_parse demo_tool_run) all_events (snd (prune ''2026'' demo_ledger)) = Inr events
    \<and> causalOrder events = Some (Inr out) \<and> mset out = mset events"
proof (rule buffered_ledger_orders)
  show "ledger (\<lambda>_. ''h'') compareStrings (demo_parse demo_tool_run) ao_bufferUnresolvedCausalParents
      (snd (prune ''2026'' demo_ledger))" by (intro ledger_prune demo_ledger_reached) simp
  show "\<not> st_closed (snd (prune ''2026'' demo_ledger))" by (simp add: snd_prune prune_store_def Let_def)
qed

lemma candidates_agree: "digests_agree (candidates_of sha events) \<longleftrightarrow>
    (\<forall>e \<in> set events. \<forall>d \<in> set events. eventId e = eventId d \<longrightarrow> event_digest sha e = event_digest sha d)"
proof -
  have "ca_event ` set (candidates_of sha events) = set events"
    by (metis candidates_of_events set_map)
  moreover have "digests_agree (candidates_of sha events) \<longleftrightarrow>
      (\<forall>e \<in> ca_event ` set (candidates_of sha events). \<forall>d \<in> ca_event ` set (candidates_of sha events).
         eventId e = eventId d \<longrightarrow> event_digest sha e = event_digest sha d)"
    using candidates_of_ok by (simp add: digests_agree_def)
  ultimately show ?thesis by simp
qed

lemma lookup_row_iff:
  "distinct (durable_ids st) \<Longrightarrow> lookup_row st i = Some r \<longleftrightarrow> r \<in> set (st_events st) \<and> er_event_id r = i"
proof
  assume d: "distinct (durable_ids st)" and r: "r \<in> set (st_events st) \<and> er_event_id r = i"
  then have "lookup_row st i \<noteq> None" using lookup_row_None [of st i] by auto
  then obtain q where q: "lookup_row st i = Some q" by blast
  then have "q = r" using lookup_row_Some [OF q] r d by (auto simp: distinct_map inj_on_def)
  with q show "lookup_row st i = Some r" by simp
qed (rule lookup_row_Some)

lemma candidates_durable:
  assumes "distinct (durable_ids st)"
  shows "(\<forall>c \<in> set (candidates_of sha events). durable_agrees st c) \<longleftrightarrow>
    (\<forall>e \<in> set events. \<forall>r \<in> set (st_events st). er_event_id r = eventId e
       \<longrightarrow> er_content_digest r = event_digest sha e)"
proof -
  have "ca_event ` set (candidates_of sha events) = set events"
    by (metis candidates_of_events set_map)
  moreover have "(\<forall>c \<in> set (candidates_of sha events). durable_agrees st c) \<longleftrightarrow>
      (\<forall>e \<in> ca_event ` set (candidates_of sha events). \<forall>r \<in> set (st_events st). er_event_id r = eventId e
       \<longrightarrow> er_content_digest r = event_digest sha e)"
    using candidates_of_ok by (auto simp: durable_agrees_def lookup_row_iff [OF assms])
  ultimately show ?thesis by simp
qed

lemma invalid_input_raises:
  assumes "Inl ds \<in> set inputs"
  shows "\<exists>err. map_raise (parseCanonicalEvent sha) (enumerate n inputs) = Inl err"
proof (cases "map_raise (parseCanonicalEvent sha) (enumerate n inputs)")
  case (Inr candidates)
  from assms obtain k where "k < length inputs" "inputs ! k = Inl ds" by (auto simp: in_set_conv_nth)
  then have "(n + k, Inl ds) \<in> set (enumerate n inputs)" by (simp add: in_set_enumerate_eq)
  from map_raise_InrD [OF Inr this] show ?thesis by (simp add: parseCanonicalEvent_cases)
qed simp

lemma all_Inr: "(\<forall>i \<in> set inputs. \<exists>e. i = Inr e) \<Longrightarrow> \<exists>events. inputs = map Inr events"
  by (induction inputs) (auto simp: Cons_eq_map_conv)

text \<open>
  C11: Without buffering and without the check of the event set, a batch is accepted exactly when every
  input is a valid event, no two inputs give one identifier different content, and none contradicts
  the content already stored under its identifier; content is compared by digest.
\<close>

theorem append_accepts_iff:
  assumes "store_ok sha parse st" and "\<not> st_closed st"
  shows "(\<exists>results. fst (appendAtomic sha lc parse now inputs no_options st) = Inr results) \<longleftrightarrow>
    (\<forall>i \<in> set inputs. \<exists>e. i = Inr e)
    \<and> (\<forall>e d. Inr e \<in> set inputs \<and> Inr d \<in> set inputs \<and> eventId e = eventId d
         \<longrightarrow> event_digest sha e = event_digest sha d)
    \<and> (\<forall>e r. Inr e \<in> set inputs \<and> r \<in> set (st_events st) \<and> er_event_id r = eventId e
         \<longrightarrow> er_content_digest r = event_digest sha e)"
proof (cases "\<forall>i \<in> set inputs. \<exists>e. i = Inr e")
  case True
  then obtain events where inputs: "inputs = map Inr events" using all_Inr by blast
  let ?cs = "candidates_of sha events"
  show ?thesis
  proof (cases "events = []")
    case False
    have "(\<exists>results. fst (appendAtomic sha lc parse now inputs no_options st) = Inr results) \<longleftrightarrow>
        digests_agree ?cs \<and> (\<forall>c \<in> set ?cs. durable_agrees st c)"
      using append_plain_cases [OF assms False, of lc now] unfolding inputs appendAtomic_def
      by (elim disjE exE conjE) simp_all
    also have "\<dots> \<longleftrightarrow>
        (\<forall>e \<in> set events. \<forall>d \<in> set events. eventId e = eventId d \<longrightarrow> event_digest sha e = event_digest sha d)
        \<and> (\<forall>e \<in> set events. \<forall>r \<in> set (st_events st). er_event_id r = eventId e
             \<longrightarrow> er_content_digest r = event_digest sha e)"
      using assms(1) by (simp only: candidates_agree candidates_durable store_ok_def)
    finally have accepts: "(\<exists>results. fst (appendAtomic sha lc parse now inputs no_options st) = Inr results) \<longleftrightarrow>
        (\<forall>e \<in> set events. \<forall>d \<in> set events. eventId e = eventId d \<longrightarrow> event_digest sha e = event_digest sha d)
        \<and> (\<forall>e \<in> set events. \<forall>r \<in> set (st_events st). er_event_id r = eventId e
             \<longrightarrow> er_content_digest r = event_digest sha e)" .
    have "Inr e \<in> set inputs \<longleftrightarrow> e \<in> set events" for e by (auto simp: inputs)
    then show ?thesis unfolding accepts using True by (simp add: Ball_def) meson
  qed (simp add: inputs appendAtomic_def append_transaction_def assms(2))
next
  case False
  then obtain ds where ds: "Inl ds \<in> set inputs" by (metis sum.exhaust)
  then have "inputs \<noteq> []" by auto
  obtain err where "map_raise (parseCanonicalEvent sha) (enumerate 0 inputs) = Inl err"
    using invalid_input_raises [OF ds] by blast
  then have "fst (appendAtomic sha lc parse now inputs no_options st) = Inl err"
    using assms(2) \<open>inputs \<noteq> []\<close> by (simp add: appendAtomic_def append_transaction_def)
  with False show ?thesis by simp
qed

theorem append_accepts_iff_witness:
  "\<nexists>results. fst (appendAtomic (\<lambda>_. ''h'') compareStrings (demo_parse demo_tool_run) ''now''
     [Inr demo_request, Inl []] no_options demo_ledger) = Inr results"
  using append_accepts_iff [OF ledger_ok [OF demo_ledger_reached [where allowed = "\<lambda>_. True"]]
      demo_ledger_open, of compareStrings "''now''" "[Inr demo_request, Inl []]"]
  by simp

text \<open>
  The log is append only: an accepted unbuffered batch leaves every event readable as before,
  in the same order, followed by the batch's new events in the order given, each identifier once,
  first occurrence winning; identifiers already stored add nothing.
\<close>

theorem append_extends_log:
  assumes "store_ok sha parse st" and "\<not> st_closed st"
    and "fst (appendAtomic sha lc parse now (map Inr events) no_options st) = Inr results"
    and "parse_inverts parse (map Inr events)"
  shows "\<exists>old. read_events parse all_events st = Inr old
    \<and> read_events parse all_events (snd (appendAtomic sha lc parse now (map Inr events) no_options st))
      = Inr (old @ novel eventId (eventId ` set old) events)"
proof (cases "events = []")
  case True
  have "snd (appendAtomic sha lc parse now (map Inr events) no_options st) = st"
    by (simp add: True appendAtomic_def append_transaction_def assms(2))
  then show ?thesis using read_events_ok [OF assms(1,2)] True by simp
next
  case False
  let ?cs = "candidates_of sha events"
  let ?new = "novel ca_id (set (durable_ids st)) ?cs"
  obtain st' where st': "append_transaction sha lc parse now (map Inr events) no_options st = Inr (results, st')"
    "st' = st\<lparr>st_events := st_events st @ rows_from (st_next_position st) (map candidate_row ?new),
              st_next_position := st_next_position st + length ?new\<rparr>"
    using append_plain_cases [OF assms(1,2) False, of lc now] assms(3)
    by (auto simp: appendAtomic_def)
  have snd: "snd (appendAtomic sha lc parse now (map Inr events) no_options st) = st'"
    by (simp add: appendAtomic_def st'(1))
  have ok: "store_ok sha parse st'" using append_keeps_ok [OF assms(1,4), of lc now no_options] by (simp add: snd)
  have everything: "query_rows s all_events = st_events s" for s
    by (simp add: query_rows_def row_matches_def all_events_def asks_def)
  have old: "read_events parse all_events st = Inr (map (event_of parse) (st_events st))"
    using read_events_ok [OF assms(1,2)] by (simp add: everything)
  have "map (event_of parse) (rows_from n (map candidate_row cs)) = map ca_event cs"
    if "set cs \<subseteq> set ?cs" for n cs using that
  proof (induction cs arbitrary: n)
    case (Cons c cs)
    then have c: "ca_event c \<in> set events" "ca_text c = event_canonical (ca_event c)"
      using candidates_of_ok by (simp_all, blast+)
    with assms(4) have "parse (ca_text c) = Some (ca_event c)" by (simp add: parse_inverts_def)
    with Cons show ?case by (simp add: candidate_row_def event_of_def)
  qed simp
  then have "map (event_of parse) (st_events st')
      = map (event_of parse) (st_events st) @ map ca_event ?new"
    using novel_ids [of ca_id "set (durable_ids st)" ?cs] by (simp add: st'(2))
  also have "map ca_event ?new = novel eventId (set (durable_ids st)) events"
    by (simp only: candidates_of_events flip: novel_map)
  also have "set (durable_ids st) = eventId ` set (map (event_of parse) (st_events st))"
  proof -
    have "eventId (event_of parse r) = er_event_id r" if "r \<in> set (st_events st)" for r
      using assms(1) row_ok_event that by (auto simp: store_ok_def)
    then show ?thesis by (simp add: image_image)
  qed
  finally have "read_events parse all_events st' = Inr (map (event_of parse) (st_events st)
      @ novel eventId (eventId ` set (map (event_of parse) (st_events st))) events)"
    using read_events_ok [OF ok, of all_events] assms(2) by (simp add: everything st'(2))
  with old snd show ?thesis by simp
qed

lemma demo_append_accepted:
  "\<exists>results. fst (appendAtomic (\<lambda>_. ''h'') compareStrings (demo_parse demo_tool_run) ''now''
     (map Inr demo_tool_run) no_options store_open) = Inr results"
proof -
  have "\<not> isl (fst (appendAtomic (\<lambda>_. ''h'') compareStrings (demo_parse demo_tool_run) ''now''
      (map Inr demo_tool_run) no_options store_open))" by code_simp
  then show ?thesis unfolding isl_def by (metis sum.exhaust)
qed

theorem append_extends_log_witness:
  "\<exists>old. read_events (demo_parse demo_tool_run) all_events store_open = Inr old
    \<and> read_events (demo_parse demo_tool_run) all_events (snd (appendAtomic (\<lambda>_. ''h'') compareStrings
          (demo_parse demo_tool_run) ''now'' (map Inr demo_tool_run) no_options store_open))
      = Inr (old @ novel eventId (eventId ` set old) demo_tool_run)"
proof -
  from demo_append_accepted obtain results where "fst (appendAtomic (\<lambda>_. ''h'') compareStrings
      (demo_parse demo_tool_run) ''now'' (map Inr demo_tool_run) no_options store_open) = Inr results" ..
  then show ?thesis
    by (rule append_extends_log [OF store_open_ok(1) _ _ demo_tool_parse [OF subset_refl], rotated])
      (simp add: store_open_def)
qed

lemma rows_from_candidate_Cons [simp]: "rows_from n (candidate_row c # xs)
    = row_of n (ca_event c) (ca_digest c) (ca_text c) # rows_from (Suc n) xs"
  by (simp add: candidate_row_def)

lemma rows_from_candidates:
  "r \<in> set (rows_from n (map candidate_row cs))
   \<Longrightarrow> \<exists>k. \<exists>c \<in> set cs. r = row_of k (ca_event c) (ca_digest c) (ca_text c)"
proof (induction cs arbitrary: n)
  case (Cons c cs)
  from Cons.prems consider "r = row_of n (ca_event c) (ca_digest c) (ca_text c)"
    | "r \<in> set (rows_from (Suc n) (map candidate_row cs))" by auto
  then show ?case
  proof cases
    case 2
    with Cons.IH obtain k d where "d \<in> set cs" "r = row_of k (ca_event d) (ca_digest d) (ca_text d)" by blast
    then show ?thesis by auto
  qed auto
qed simp

lemma split_existing_events:
  "store_ok sha parse st \<Longrightarrow> split_existing parse st cs = Inr (existing, new)
   \<Longrightarrow> (k, e) \<in> set existing \<Longrightarrow> eventId e = k"
proof (induction cs arbitrary: existing new)
  case (Cons c cs)
  show ?case
  proof (cases "lookup_row st (ca_id c)")
    case None
    then obtain n where "split_existing parse st cs = Inr (existing, n)"
      using Cons.prems(2) by (auto dest!: raise_bind_InrD)
    from Cons.IH [OF Cons.prems(1) this Cons.prems(3)] show ?thesis .
  next
    case (Some row)
    then obtain d ex where d: "parseStored parse (er_event_id row) (er_canonical_event row) = Inr d"
      "split_existing parse st cs = Inr (ex, new)" "existing = (ca_id c, d) # ex"
      using Cons.prems(2) by (auto dest!: raise_bind_InrD split: if_splits)
    have row: "row \<in> set (st_events st)" "er_event_id row = ca_id c" using lookup_row_Some [OF Some] by simp_all
    then have "row_ok sha parse row" using Cons.prems(1) by (simp add: store_ok_def)
    then have "eventId d = ca_id c" using d(1) row_ok_event row(2) by fastforce
    with Cons.IH [OF Cons.prems(1) d(2)] Cons.prems(3) d(3) show ?thesis by auto
  qed
qed simp

text \<open>
  Submitting an accepted batch a second time is harmless: the store does not change and every
  result is \<open>Duplicate\<close>, carrying the event stored under that identifier.
\<close>

theorem resubmission_is_duplicate:
  assumes "store_ok sha parse st" and "\<not> st_closed st" and "parse_inverts parse (map Inr events)"
    and "appendAtomic sha lc parse now (map Inr events) no_options st = (Inr results, st')"
  shows "\<exists>again. appendAtomic sha lc parse now' (map Inr events) no_options st' = (Inr again, st')
    \<and> list_all2 (\<lambda>e r. \<exists>d. r = Duplicate d \<and> eventId d = eventId e) events again"
proof (cases "events = []")
  case False
  let ?cs = "candidates_of sha events"
  let ?new = "novel ca_id (set (durable_ids st)) ?cs"
  have st': "st' = st\<lparr>st_events := st_events st @ rows_from (st_next_position st) (map candidate_row ?new),
              st_next_position := st_next_position st + length ?new\<rparr>"
    and agree: "digests_agree ?cs" "\<forall>c \<in> set ?cs. durable_agrees st c"
    using append_plain_cases [OF assms(1,2) False, of lc now] assms(4)
    by (auto simp: appendAtomic_def)
  have ok: "store_ok sha parse st'" using append_keeps_ok [OF assms(1,3), of lc now no_options] assms(4) by simp
  have ids: "durable_ids st' = durable_ids st @ map ca_id ?new"
    by (simp add: st' candidate_row_def comp_def)
  then have known: "ca_id ` set ?cs \<subseteq> set (durable_ids st')"
    using novel_ids [of ca_id "set (durable_ids st)" ?cs] by auto
  then have none: "novel ca_id (set (durable_ids st')) ?cs = []"
    using novel_ids [of ca_id "set (durable_ids st')" ?cs] by (metis Diff_eq_empty_iff set_empty map_is_Nil_conv)
  have agrees: "durable_agrees st' c" if c: "c \<in> set ?cs" for c
    unfolding durable_agrees_def
  proof (intro allI impI)
    fix r assume "lookup_row st' (ca_id c) = Some r"
    then have r: "r \<in> set (st_events st')" "er_event_id r = ca_id c" using lookup_row_Some by blast+
    then consider "r \<in> set (st_events st)" | "r \<in> set (rows_from (st_next_position st) (map candidate_row ?new))"
      by (auto simp: st')
    then show "er_content_digest r = ca_digest c"
    proof cases
      case 1
      then have "lookup_row st (ca_id c) = Some r"
        using lookup_row_iff assms(1) r(2) by (simp add: store_ok_def)
      with agree(2) c show ?thesis by (simp add: durable_agrees_def)
    next
      case 2
      then obtain n d where d: "d \<in> set ?new" "r = row_of n (ca_event d) (ca_digest d) (ca_text d)"
        using rows_from_candidates by blast
      then have "d \<in> set ?cs"
        using novel_ids [of ca_id "set (durable_ids st)" ?cs] by (meson subsetD)
      moreover have "ca_id d = ca_id c" using r(2) d(2) by simp
      ultimately have "ca_digest d = ca_digest c" using agree(1) c unfolding digests_agree_def by blast
      then show ?thesis using d(2) by simp
    qed
  qed
  have "\<not> st_closed st'" using assms(2) by (simp add: st')
  from append_plain_cases [OF ok this False, of lc now'] agree(1) agrees obtain firsts existing where again:
    "first_candidates [] ?cs = Inr firsts" "split_existing parse st' (map_values firsts) = Inr (existing, [])"
    "append_transaction sha lc parse now' (map Inr events) no_options st'
      = Inr (map (result_of existing firsts []) ?cs, st')"
    unfolding none by (elim disjE exE conjE) simp_all
  have dup: "\<exists>d. result_of existing firsts [] c = Duplicate d \<and> eventId d = ca_id c" if c: "c \<in> set ?cs" for c
  proof -
    have "ca_id c \<in> ca_id ` set (map_values firsts)"
      using first_candidates_novel [OF again(1)] novel_ids [of ca_id "{}" ?cs] c by simp
    then obtain b where b: "b \<in> set (map_values firsts)" "ca_id b = ca_id c" by (metis imageE)
    moreover have "ca_id c \<in> set (durable_ids st')" using known c by blast
    ultimately have "b \<in> set (filter (\<lambda>c. ca_id c \<in> set (durable_ids st')) (map_values firsts))" by simp
    then have "ca_id c \<in> set (map_keys existing)"
      unfolding conjunct2 [OF split_existing_spec [OF again(2)]] set_map b(2) [symmetric] by (rule imageI)
    then obtain d where "map_get existing (ca_id c) = Some d" by (metis map_of_eq_None_iff option.exhaust set_map)
    moreover from this have "eventId d = ca_id c"
      using split_existing_events [OF ok again(2)] by (metis map_of_SomeD)
    ultimately show ?thesis by (simp add: result_of_def)
  qed
  have "list_all2 (\<lambda>e r. \<exists>d. r = Duplicate d \<and> eventId d = eventId e) (map ca_event ?cs)
      (map (result_of existing firsts []) ?cs)"
    by (simp only: list_all2_map1 list_all2_map2) (rule list.rel_refl_strong, rule dup)
  then show ?thesis unfolding candidates_of_events by (simp add: appendAtomic_def again(3))
qed (use assms in \<open>simp add: appendAtomic_def append_transaction_def\<close>)

theorem resubmission_is_duplicate_witness:
  "\<exists>st again. snd (appendAtomic (\<lambda>_. ''h'') compareStrings (demo_parse demo_tool_run) ''now''
       (map Inr demo_tool_run) no_options store_open) = st
    \<and> appendAtomic (\<lambda>_. ''h'') compareStrings (demo_parse demo_tool_run) ''later'' (map Inr demo_tool_run)
       no_options st = (Inr again, st)
    \<and> list_all2 (\<lambda>e r. \<exists>d. r = Duplicate d \<and> eventId d = eventId e) demo_tool_run again"
proof -
  from demo_append_accepted obtain results st where accepted: "appendAtomic (\<lambda>_. ''h'') compareStrings
      (demo_parse demo_tool_run) ''now'' (map Inr demo_tool_run) no_options store_open = (Inr results, st)"
    by (metis prod.collapse)
  have "\<not> st_closed store_open" by (simp add: store_open_def)
  from resubmission_is_duplicate [OF store_open_ok(1) this demo_tool_parse [OF subset_refl] accepted]
  obtain again where "appendAtomic (\<lambda>_. ''h'') compareStrings (demo_parse demo_tool_run) ''later''
      (map Inr demo_tool_run) no_options st = (Inr again, st)"
    "list_all2 (\<lambda>e r. \<exists>d. r = Duplicate d \<and> eventId d = eventId e) demo_tool_run again" by blast
  then show ?thesis unfolding accepted by (intro exI [of _ st] exI [of _ again]) simp
qed

lemma row_of_columns: "er_event_type (row_of n e d t) = eventType e"
  "er_correlation_id (row_of n e d t) = correlationId e"
  by (simp_all add: row_of_def)

text \<open>
  A query returns exactly the events of a full read that satisfy its conditions, in log order:
  identifier, type, type set, inclusive timestamp bound, correlation and cause.
\<close>

theorem query_filters_log:
  assumes "store_ok sha parse st" and "\<not> st_closed st" and "eq_afterPosition q = None"
  shows "\<exists>events. read_events parse all_events st = Inr events
    \<and> read_events parse q st = Inr (filter (event_matches q) events)"
proof -
  have everything: "query_rows st all_events = st_events st"
    by (simp add: query_rows_def row_matches_def all_events_def asks_def)
  have "row_matches q r = event_matches q (event_of parse r)" if r: "r \<in> set (st_events st)" for r
  proof -
    obtain e where "parse (er_canonical_event r) = Some e"
      "r = row_of (er_insertion_position r) e (event_digest sha e) (event_canonical e)"
      using assms(1) r unfolding store_ok_def row_ok_def by blast
    then have "event_of parse r = e" "er_event_id r = eventId e" "er_event_type r = eventType e"
      "er_timestamp r = timestamp e" "er_correlation_id r = correlationId e" "er_causation_id r = causationId e"
      by (simp_all only: event_of_def option.sel) (metis row_of_columns row_of_id)+
    then show ?thesis using assms(3) by (simp add: row_matches_def event_matches_def asks_def)
  qed
  then have "map (event_of parse) (query_rows st q)
      = filter (event_matches q) (map (event_of parse) (query_rows st all_events))"
    unfolding everything unfolding query_rows_def filter_map
    by (intro arg_cong [of _ _ "map _"] filter_cong) simp_all
  then show ?thesis using read_events_ok [OF assms(1,2)] by simp
qed

theorem query_filters_log_witness:
  "\<exists>events. read_events (demo_parse demo_tool_run) all_events demo_ledger = Inr events
    \<and> read_events (demo_parse demo_tool_run) (all_events\<lparr>eq_causationId := Some (Some ''evt_q'')\<rparr>) demo_ledger
      = Inr (filter (event_matches (all_events\<lparr>eq_causationId := Some (Some ''evt_q'')\<rparr>)) events)"
  by (rule query_filters_log [OF ledger_ok [OF demo_ledger_reached [where allowed = "\<lambda>_. True"]] demo_ledger_open])
    (simp_all add: all_events_def)

text \<open>
  C10: Pruning deletes exactly the events older than the cutoff that no surviving chain of causes
  needs: an event stays when its timestamp reaches the cutoff or when an event that does descends
  from it.  The counts it reports are those of the deleted and the remaining rows.
\<close>

theorem prune_exact:
  assumes "store_ok sha parse st" and "\<not> st_closed st"
  shows "\<exists>st'. prune cutoff st = (Inr \<lparr>pn_removed = length (filter (\<lambda>r. \<not> kept cutoff (st_events st) r) (st_events st)),
        pn_retained = length (st_events st')\<rparr>, st')
    \<and> st_events st' = filter (kept cutoff (st_events st)) (st_events st)
    \<and> st_next_position st' = st_next_position st"
proof -
  have "st_events (prune_store cutoff st) = filter (kept cutoff (st_events st)) (st_events st)"
    using assms(1) by (intro prune_events) (simp add: store_ok_def)
  moreover have "length (st_events st) - length (filter P (st_events st)) = length (filter (\<lambda>r. \<not> P r) (st_events st))" for P
    using sum_length_filter_compl [of P "st_events st"] by simp
  moreover have "st_next_position (prune_store cutoff st) = st_next_position st"
    by (simp add: prune_store_def Let_def)
  ultimately show ?thesis using assms(2) by (simp add: prune_def Let_def)
qed

theorem prune_exact_witness:
  "\<exists>st'. prune ''2026'' demo_ledger = (Inr \<lparr>pn_removed = length (filter (\<lambda>r. \<not> kept ''2026'' (st_events demo_ledger) r)
          (st_events demo_ledger)), pn_retained = length (st_events st')\<rparr>, st')
    \<and> st_events st' = filter (kept ''2026'' (st_events demo_ledger)) (st_events demo_ledger)
    \<and> st_next_position st' = st_next_position demo_ledger"
  by (rule prune_exact [OF ledger_ok [OF demo_ledger_reached [where allowed = "\<lambda>_. True"]] demo_ledger_open]) simp

section \<open>Two ways to spoil a ledger\<close>

text \<open>A call whose request and change are a day older than its completion.\<close>

definition straddling_run :: "event list" where
  "straddling_run = [demo_request, demo_change, demo_completion\<lparr>timestamp := ''2026-01-02T00:00:00Z''\<rparr>]"

definition checked_buffering :: append_options where
  "checked_buffering = \<lparr>ao_requireValidEventSet = True, ao_bufferUnresolvedCausalParents = True\<rparr>"

definition buffering :: append_options where
  "buffering = \<lparr>ao_requireValidEventSet = False, ao_bufferUnresolvedCausalParents = True\<rparr>"

definition straddling_ledger :: store where
  "straddling_ledger = snd (appendAtomic (\<lambda>_. ''h'') compareStrings (demo_parse straddling_run) ''now''
     (map Inr straddling_run) checked_buffering store_open)"

definition replay_error :: "store \<Rightarrow> string option" where
  "replay_error st = (case store_replay (\<lambda>_. ''h'') compareStrings (demo_parse straddling_run) () (\<lambda>s e. s) st of
     Some (Inl (Thrown err)) \<Rightarrow> Some (se_code err) | _ \<Rightarrow> None)"

lemma straddling_rows: "straddling_ledger = \<lparr>st_events =
     [row_of 1 demo_request ''h'' (event_canonical demo_request),
      row_of 2 (demo_completion\<lparr>timestamp := ''2026-01-02T00:00:00Z''\<rparr>) ''h''
        (event_canonical (demo_completion\<lparr>timestamp := ''2026-01-02T00:00:00Z''\<rparr>)),
      row_of 3 demo_change ''h'' (event_canonical demo_change)],
   st_next_position = 4, st_pending = [], st_next_buffered = 1, st_closed = False\<rparr>"
  by code_simp

text \<open>
  Retention follows causes only.  A completed call that straddles the cutoff was accepted as a
  valid event set and replays; after pruning at its completion the request survives as a cause, but
  the change the completion reports as its effect is gone, and replay fails with
  \<open>PHASE0_REFERENCE_MISSING\<close>.
\<close>

theorem prune_breaks_replay:
  "replay_error straddling_ledger = None
   \<and> durable_ids (snd (prune ''2026-01-02T00:00:00Z'' straddling_ledger)) = [''evt_q'', ''evt_c'']
   \<and> replay_error (snd (prune ''2026-01-02T00:00:00Z'' straddling_ledger)) = Some ''PHASE0_REFERENCE_MISSING''"
  unfolding straddling_rows by code_simp

text \<open>
  An event buffered for its cause and then appended again without buffering leaves its buffered
  row behind: when the cause arrives, promoting that row hits the unique identifier of the durable
  row, so the cause can never be appended with buffering.
\<close>

theorem buffered_row_stranded:
  "let append = (\<lambda>options e st. appendAtomic (\<lambda>_. ''h'') compareStrings
        (demo_parse [demo_request, demo_change]) ''now'' [Inr e] options st);
       stored = snd (append no_options demo_change (snd (append buffering demo_change store_open)))
   in append buffering demo_request stored = (Inl (Unique_constraint ''evt_f''), stored)"
  by code_simp

end
