(* ===== verification/Iso_Time.thy ===== *)
theory Iso_Time
  imports Prelude
begin

text \<open>
  \<open>Date.prototype.toISOString\<close>: the proleptic Gregorian calendar and the text of a time value, and
  what the code relies on: the text determines the time value, and for years 0 to 9999 text order is
  time order.  Time values are integers (milliseconds since 1970).  \<open>Date.parse\<close> also reads texts of
  other, implementation-defined forms, so it stays an argument of the models that use it;
  \<open>parses_iso\<close> is what they assume of it.
\<close>

section \<open>The calendar\<close>

definition leap :: "int \<Rightarrow> bool" where
  "leap y \<longleftrightarrow> (y mod 4 = 0 \<and> y mod 100 \<noteq> 0) \<or> y mod 400 = 0"

definition year_days :: "int \<Rightarrow> int" where
  "year_days y = (if leap y then 366 else 365)"

definition month_days :: "int \<Rightarrow> int \<Rightarrow> int" where
  "month_days y m = (if m = 2 then (if leap y then 29 else 28)
     else if m = 4 \<or> m = 6 \<or> m = 9 \<or> m = 11 then 30 else 31)"

text \<open>The number of days from 1970-01-01 to the first of January of a year.\<close>

definition days_to_year :: "int \<Rightarrow> int" where
  "days_to_year y = 365 * (y - 1970) + (y - 1969) div 4 - (y - 1901) div 100 + (y - 1601) div 400"

lemma div_step:
  fixes z n :: int
  assumes n: "0 < n"
  shows "(z + 1) div n = z div n + (if (z + 1) mod n = 0 then 1 else 0)"
proof -
  define q r where "q = z div n" and "r = z mod n"
  have z: "z = n * q + r" "0 \<le> r" "r < n"
    unfolding q_def r_def using n by (simp_all only: mult_div_mod_eq pos_mod_sign pos_mod_bound)
  show ?thesis
  proof (cases "r + 1 = n")
    case True
    then have z1: "z + 1 = n * (q + 1) + 0" using z(1) by (simp add: algebra_simps)
    have "(z + 1) div n = q + 1" by (rule int_div_pos_eq [OF z1]) (use n in simp_all)
    moreover have "(z + 1) mod n = 0" by (rule int_mod_pos_eq [OF z1]) (use n in simp_all)
    ultimately show ?thesis unfolding q_def [symmetric] by simp
  next
    case False
    then have z1: "z + 1 = n * q + (r + 1)" "0 \<le> r + 1" "r + 1 < n" using z by simp_all
    have "(z + 1) div n = q" by (rule int_div_pos_eq [OF z1])
    moreover have "(z + 1) mod n = r + 1" by (rule int_mod_pos_eq [OF z1])
    ultimately show ?thesis unfolding q_def [symmetric] using z(2) by simp
  qed
qed

lemma mod_shift: "(y - 1968) mod 4 = y mod 4" "(y - 1900) mod 100 = y mod 100" "(y - 1600) mod 400 = y mod 400"
  for y :: int
  using mod_mult_self1 [of y "- 492" 4] mod_mult_self1 [of y "- 19" 100] mod_mult_self1 [of y "- 4" 400]
  by simp_all

lemma mod_chain: "y mod 400 = 0 \<Longrightarrow> y mod 100 = 0" "y mod 100 = 0 \<Longrightarrow> y mod 4 = 0" for y :: int
  using dvd_trans [of 100 400 y] dvd_trans [of 4 100 y] by (simp_all add: mod_eq_0_iff_dvd)

lemma leap_count: "365 + ((if y mod 4 = 0 then 1 else 0) - (if y mod 100 = 0 then 1 else 0)
    + (if y mod 400 = 0 then 1 else 0)) = year_days y"
  unfolding year_days_def leap_def
  by (cases "y mod 400 = 0"; cases "y mod 100 = 0"; cases "y mod 4 = 0") (simp_all only: mod_chain, simp_all)

lemma next_sum: "p' = p + a \<Longrightarrow> q' = q + b \<Longrightarrow> r' = r + c \<Longrightarrow> 365 + (a - b + c) = n
    \<Longrightarrow> 365 * (y + 1 - 1970) + p' - q' + r' = 365 * (y - 1970) + p - q + r + n" for y p q r :: int
  by simp

lemma year_shift: "y - 1969 + 1 = y - 1968" "y - 1901 + 1 = y - 1900" "y - 1601 + 1 = y - 1600"
  "y + 1 - 1969 = y - 1968" "y + 1 - 1901 = y - 1900" "y + 1 - 1601 = y - 1600" for y :: int
  by simp_all

lemma days_to_year_next: "days_to_year (y + 1) = days_to_year y + year_days y"
  unfolding days_to_year_def
proof (rule next_sum [OF _ _ _ leap_count])
  show "(y + 1 - 1969) div 4 = (y - 1969) div 4 + (if y mod 4 = 0 then 1 else 0)"
    using div_step [of 4 "y - 1969"] mod_shift(1) [of y] by (simp only: year_shift zero_less_numeral if_True simp_thms)
  show "(y + 1 - 1901) div 100 = (y - 1901) div 100 + (if y mod 100 = 0 then 1 else 0)"
    using div_step [of 100 "y - 1901"] mod_shift(2) [of y] by (simp only: year_shift zero_less_numeral if_True simp_thms)
  show "(y + 1 - 1601) div 400 = (y - 1601) div 400 + (if y mod 400 = 0 then 1 else 0)"
    using div_step [of 400 "y - 1601"] mod_shift(3) [of y] by (simp only: year_shift zero_less_numeral if_True simp_thms)
qed

lemma year_days_range: "365 \<le> year_days y" "year_days y \<le> 366"
  by (simp_all add: year_days_def)

lemma days_to_year_low: "days_to_year (1970 + (if 0 \<le> d then d div 366 else d div 365)) \<le> d"
proof -
  have up: "days_to_year (1970 + int k) \<le> 366 * int k" for k
  proof (induction k)
    case (Suc k)
    then show ?case using days_to_year_next [of "1970 + int k"] year_days_range [of "1970 + int k"]
      by (simp add: algebra_simps)
  qed (simp add: days_to_year_def)
  have down: "days_to_year (1970 - int k) \<le> - 365 * int k" for k
  proof (induction k)
    case (Suc k)
    then show ?case
      using days_to_year_next [of "1970 - int k - 1"] year_days_range [of "1970 - int k - 1"]
      by (simp add: algebra_simps)
  qed (simp add: days_to_year_def)
  show ?thesis
  proof (cases "0 \<le> d")
    case True
    then have "d div 366 = int (nat (d div 366))" by simp
    with up [of "nat (d div 366)"] True show ?thesis by simp
  next
    case False
    then have "d div 365 = - int (nat (- (d div 365)))" by simp
    with down [of "nat (- (d div 365))"] False show ?thesis by simp
  qed
qed

function year_from :: "int \<Rightarrow> int \<Rightarrow> int" where
  "year_from y d = (if days_to_year (y + 1) \<le> d then year_from (y + 1) d else y)"
  by pat_completeness auto
termination
proof (relation "measure (\<lambda>(y, d). nat (d - days_to_year y))", goal_cases)
  case (2 y d)
  then show ?case using days_to_year_next [of y] year_days_range(1) [of y] by simp
qed simp

declare year_from.simps [simp del]

definition year_of :: "int \<Rightarrow> int" where
  "year_of d = year_from (1970 + (if 0 \<le> d then d div 366 else d div 365)) d"

lemma year_from_spec:
  "days_to_year y \<le> d \<Longrightarrow> days_to_year (year_from y d) \<le> d \<and> d < days_to_year (year_from y d + 1)"
proof (induction y d rule: year_from.induct)
  case (1 y d)
  then show ?case by (cases "days_to_year (y + 1) \<le> d") (simp_all add: year_from.simps [of y])
qed

lemma year_of_spec: "days_to_year (year_of d) \<le> d \<and> d < days_to_year (year_of d + 1)"
  unfolding year_of_def by (rule year_from_spec) (rule days_to_year_low)

function month_from :: "int \<Rightarrow> int \<Rightarrow> int \<Rightarrow> int \<times> int" where
  "month_from y m d = (if d < month_days y m \<or> 12 \<le> m then (m, d)
     else month_from y (m + 1) (d - month_days y m))"
  by pat_completeness auto
termination by (relation "measure (\<lambda>(y, m, d). nat (12 - m))") auto

declare month_from.simps [simp del]

function days_to_month :: "int \<Rightarrow> int \<Rightarrow> int" where
  "days_to_month y m = (if m \<le> 1 then 0 else days_to_month y (m - 1) + month_days y (m - 1))"
  by pat_completeness auto
termination by (relation "measure (\<lambda>(y, m). nat m)") auto

declare days_to_month.simps [simp del]

lemma month_days_range: "28 \<le> month_days y m" "month_days y m \<le> 31"
  by (simp_all add: month_days_def)

lemma days_to_month_13: "days_to_month y 13 = year_days y"
  by (simp add: days_to_month.simps month_days_def year_days_def)

lemma month_from_spec:
  "1 \<le> m \<Longrightarrow> m \<le> 12 \<Longrightarrow> 0 \<le> d \<Longrightarrow> d < year_days y - days_to_month y m \<Longrightarrow> month_from y m d = (m', d')
   \<Longrightarrow> 1 \<le> m' \<and> m' \<le> 12 \<and> 0 \<le> d' \<and> d' < month_days y m' \<and> days_to_month y m' + d' = days_to_month y m + d"
proof (induction y m d arbitrary: m' d' rule: month_from.induct)
  case (1 y m d)
  have next_month: "days_to_month y (m + 1) = days_to_month y m + month_days y m"
    using "1.prems"(1) by (simp add: days_to_month.simps [of y "m + 1"])
  show ?case
  proof (cases "d < month_days y m")
    case True
    then show ?thesis using "1.prems" by (simp add: month_from.simps [of y m])
  next
    case False
    show ?thesis
    proof (cases "m = 12")
      case True
      then show ?thesis using "1.prems" False next_month days_to_month_13 [of y] by simp
    next
      case not_last: False
      have rest: "month_from y (m + 1) (d - month_days y m) = (m', d')"
        using "1.prems"(2,5) False not_last by (simp add: month_from.simps [of y m])
      have "1 \<le> m' \<and> m' \<le> 12 \<and> 0 \<le> d' \<and> d' < month_days y m'
          \<and> days_to_month y m' + d' = days_to_month y (m + 1) + (d - month_days y m)"
        by (rule "1.IH" [OF _ _ _ _ _ rest]) (use "1.prems" False not_last next_month in auto)
      then show ?thesis using next_month by simp
    qed
  qed
qed


section \<open>Fields of a time value\<close>

record date_fields =
  df_year :: int
  df_month :: int
  df_day :: int
  df_ms :: int

definition fields_of :: "int \<Rightarrow> date_fields" where
  "fields_of t =
     (let day = t div 86400000;
          y = year_of day;
          (m, d) = month_from y 1 (day - days_to_year y)
      in \<lparr>df_year = y, df_month = m, df_day = d + 1, df_ms = t mod 86400000\<rparr>)"

definition time_of :: "date_fields \<Rightarrow> int" where
  "time_of f = (days_to_year (df_year f) + days_to_month (df_year f) (df_month f) + df_day f - 1) * 86400000
     + df_ms f"

lemma fields_of_spec:
  assumes "f = fields_of t"
  shows "time_of f = t \<and> days_to_year (df_year f) * 86400000 \<le> t
    \<and> 1 \<le> df_month f \<and> df_month f \<le> 12 \<and> 1 \<le> df_day f
    \<and> df_day f \<le> month_days (df_year f) (df_month f) \<and> 0 \<le> df_ms f \<and> df_ms f < 86400000"
proof -
  define day where "day = t div 86400000"
  let ?y = "year_of day"
  obtain m d where md: "month_from ?y 1 (day - days_to_year ?y) = (m, d)" by force
  have f: "df_year f = ?y" "df_month f = m" "df_day f = d + 1" "df_ms f = t mod 86400000"
    by (simp_all add: assms fields_of_def Let_def md flip: day_def)
  have y: "days_to_year ?y \<le> day" "day < days_to_year ?y + year_days ?y"
    using year_of_spec [of day] days_to_year_next [of ?y] by simp_all
  have "1 \<le> m \<and> m \<le> 12 \<and> 0 \<le> d \<and> d < month_days ?y m
      \<and> days_to_month ?y m + d = days_to_month ?y 1 + (day - days_to_year ?y)"
    by (rule month_from_spec [OF _ _ _ _ md]) (use y in \<open>simp_all add: days_to_month.simps\<close>)
  moreover have "days_to_month ?y 1 = 0" by (simp add: days_to_month.simps)
  moreover have "t = day * 86400000 + t mod 86400000" by (simp add: day_def)
  moreover have "0 \<le> t mod 86400000" "t mod 86400000 < 86400000" by simp_all
  ultimately show ?thesis using y(1) by (simp add: time_of_def f)
qed

lemma days_to_year_mono: "y \<le> y' \<Longrightarrow> days_to_year y \<le> days_to_year y'"
proof (induction rule: int_ge_induct)
  case (step y')
  then show ?case using days_to_year_next [of y'] year_days_range(1) [of y'] by simp
qed simp

lemma days_to_month_next: "1 \<le> m \<Longrightarrow> days_to_month y (m + 1) = days_to_month y m + month_days y m"
  by (simp add: days_to_month.simps [of y "m + 1"])

lemma days_to_month_mono: "m \<le> m' \<Longrightarrow> 1 \<le> m \<Longrightarrow> days_to_month y m \<le> days_to_month y m'"
proof (induction rule: int_ge_induct)
  case (step m')
  then show ?case using days_to_month_next [of m' y] month_days_range(1) [of y m'] by simp
qed simp

text \<open>Fields are ordered as the time values are.\<close>

definition field_list :: "date_fields \<Rightarrow> int list" where
  "field_list f = [df_year f, df_month f, df_day f, df_ms f]"

lemma fields_ordered:
  assumes "t \<le> t'" and "f = fields_of t" and "f' = fields_of t'"
  shows "df_year f < df_year f' \<or> df_year f = df_year f' \<and> (df_month f < df_month f'
    \<or> df_month f = df_month f' \<and> (df_day f < df_day f' \<or> df_day f = df_day f' \<and> df_ms f \<le> df_ms f'))"
proof -
  note s = fields_of_spec [OF assms(2)] fields_of_spec [OF assms(3)]
  have in_year: "days_to_month (df_year g) (df_month g) + df_day g \<le> year_days (df_year g)"
    if "1 \<le> df_month g \<and> df_month g \<le> 12 \<and> df_day g \<le> month_days (df_year g) (df_month g)" for g
    using that days_to_month_next [of "df_month g" "df_year g"]
      days_to_month_mono [of "df_month g + 1" 13 "df_year g"] days_to_month_13 [of "df_year g"] by simp
  have year: False if "df_year f' < df_year f"
  proof -
    have "days_to_year (df_year f') + year_days (df_year f') \<le> days_to_year (df_year f)"
      using days_to_year_mono [of "df_year f' + 1" "df_year f"] that days_to_year_next [of "df_year f'"] by simp
    moreover have "0 \<le> days_to_month (df_year f) (df_month f)"
      using days_to_month_mono [of 1 "df_month f" "df_year f"] s(1) by (simp add: days_to_month.simps [of _ 1])
    moreover have "t' < (days_to_year (df_year f') + year_days (df_year f')) * 86400000"
      using s(2) in_year [of f'] by (simp add: time_of_def)
    ultimately show False using s(1) assms(1) by (simp add: time_of_def)
  qed
  have month: False if "df_year f = df_year f'" "df_month f' < df_month f"
  proof -
    have "days_to_month (df_year f') (df_month f') + month_days (df_year f') (df_month f')
        \<le> days_to_month (df_year f) (df_month f)"
      using days_to_month_mono [of "df_month f' + 1" "df_month f" "df_year f"] that s(2)
        days_to_month_next [of "df_month f'" "df_year f'"] by simp
    then show False using s assms(1) that(1) by (simp add: time_of_def)
  qed
  have day: False if "df_year f = df_year f'" "df_month f = df_month f'" "df_day f' < df_day f"
    using s assms(1) that by (simp add: time_of_def)
  have ms: "df_ms f \<le> df_ms f'" if "df_year f = df_year f'" "df_month f = df_month f'" "df_day f = df_day f'"
    using s assms(1) that by (simp add: time_of_def)
  show ?thesis using year month day ms by (metis linorder_less_linear)
qed


section \<open>The text of a time value\<close>

fun pad :: "nat \<Rightarrow> int \<Rightarrow> string" where
  "pad 0 v = []"
| "pad (Suc n) v = pad n (v div 10) @ [digit_char (nat (v mod 10))]"

definition toISOString :: "int \<Rightarrow> string" where
  "toISOString t =
     (let f = fields_of t; y = df_year f; ms = df_ms f
      in (if 0 \<le> y \<and> y \<le> 9999 then pad 4 y else if y < 0 then CHR ''-'' # pad 6 (- y) else CHR ''+'' # pad 6 y)
         @ CHR ''-'' # pad 2 (df_month f) @ CHR ''-'' # pad 2 (df_day f) @ CHR ''T'' # pad 2 (ms div 3600000)
         @ CHR '':'' # pad 2 (ms div 60000 mod 60) @ CHR '':'' # pad 2 (ms div 1000 mod 60)
         @ CHR ''.'' # pad 3 (ms mod 1000) @ ''Z'')"

lemma pad_length [simp]: "length (pad n v) = n"
  by (induction n v rule: pad.induct) simp_all

lemma digit_char_less: "d < e \<Longrightarrow> e < 10 \<Longrightarrow> digit_char d < digit_char e"
  by (simp add: digit_char_def less_char_def)

lemma lex_prefix: "length xs = length ys \<Longrightarrow> xs < ys \<Longrightarrow> xs @ us < ys @ (vs :: string)"
  by (induction xs ys rule: list_induct2) auto

lemma append_less: "us < vs \<Longrightarrow> xs @ us < xs @ (vs :: string)"
  by (induction xs) simp_all

lemma div_lex:
  fixes x y n :: int
  assumes "x < y" and "0 < n"
  shows "x div n < y div n \<or> x div n = y div n \<and> x mod n < y mod n"
proof -
  have "x div n \<le> y div n" using assms by (intro zdiv_mono1) simp_all
  moreover have "x mod n < y mod n" if "x div n = y div n"
    using assms(1) mult_div_mod_eq [of n x] mult_div_mod_eq [of n y] unfolding that by linarith
  ultimately show ?thesis by linarith
qed

lemma pad_less: "0 \<le> v \<Longrightarrow> v < w \<Longrightarrow> w < 10 ^ n \<Longrightarrow> pad n v < pad n w"
proof (induction n arbitrary: v w)
  case (Suc n)
  have bound: "w div 10 < 10 ^ n" using Suc.prems(3) by simp
  show ?case
  proof (cases "v div 10 = w div 10")
    case True
    then have "v mod 10 < w mod 10" using Suc.prems(2) div_lex [of v w 10] by simp
    then have "digit_char (nat (v mod 10)) < digit_char (nat (w mod 10))"
      by (intro digit_char_less) simp_all
    then show ?thesis using True by (simp add: append_less)
  next
    case False
    then have "v div 10 < w div 10" using Suc.prems zdiv_mono1 [of v w 10] by simp
    then have "pad n (v div 10) < pad n (w div 10)" using Suc bound by simp
    then show ?thesis by (simp add: lex_prefix)
  qed
qed simp


lemma pad_lex:
  assumes "v < w \<or> v = w \<and> us < vs" and "0 \<le> v" and "w < 10 ^ n"
  shows "pad n v @ us < pad n w @ vs"
proof (cases "v < w")
  case True
  then show ?thesis using assms by (intro lex_prefix pad_less) simp_all
next
  case False
  then have "v = w" "us < vs" using assms(1) by simp_all
  then show ?thesis by (simp add: append_less)
qed

lemma Cons_less: "us < vs \<Longrightarrow> c # us < c # (vs :: string)"
  by simp

definition clock :: "int \<Rightarrow> string" where
  "clock ms = pad 2 (ms div 3600000) @ CHR '':'' # pad 2 (ms div 60000 mod 60) @ CHR '':''
     # pad 2 (ms div 1000 mod 60) @ CHR ''.'' # pad 3 (ms mod 1000) @ ''Z''"

lemma clock_less:
  assumes "0 \<le> ms" and "ms < ms'" and "ms' < 86400000"
  shows "clock ms < clock ms'"
proof -
  define s m where "s x = x div 1000" and "m x = x div 60000" for x :: int
  have m: "m x = s x div 60" "x div 3600000 = m x div 60" for x
    unfolding s_def m_def using zdiv_zmult2_eq [of 60 x 1000] zdiv_zmult2_eq [of 60 x 60000] by simp_all
  have order: "ms div 3600000 < ms' div 3600000 \<or> ms div 3600000 = ms' div 3600000 \<and>
      (m ms mod 60 < m ms' mod 60 \<or> m ms mod 60 = m ms' mod 60 \<and>
      (s ms mod 60 < s ms' mod 60 \<or> s ms mod 60 = s ms' mod 60 \<and> ms mod 1000 < ms' mod 1000))"
  proof -
    have 1: "s ms < s ms' \<or> s ms = s ms' \<and> ms mod 1000 < ms' mod 1000"
      unfolding s_def by (rule div_lex [OF assms(2)]) simp
    have 2: "s ms < s ms' \<Longrightarrow> m ms < m ms' \<or> m ms = m ms' \<and> s ms mod 60 < s ms' mod 60"
      unfolding m(1) by (rule div_lex) simp_all
    have 3: "m ms < m ms' \<Longrightarrow> ms div 3600000 < ms' div 3600000
        \<or> ms div 3600000 = ms' div 3600000 \<and> m ms mod 60 < m ms' mod 60"
      unfolding m(2) by (rule div_lex) simp_all
    have 4: "s ms = s ms' \<Longrightarrow> m ms = m ms'" "m ms = m ms' \<Longrightarrow> ms div 3600000 = ms' div 3600000"
      unfolding m by simp_all
    from 1 2 3 4 show ?thesis by metis
  qed
  have bound: "0 \<le> ms div 3600000" "ms' div 3600000 < 10 ^ 2" using assms by simp_all
  have small: "0 \<le> x mod 60" "x mod 60 < 10 ^ 2" "0 \<le> x mod 1000" "x mod 1000 < 10 ^ 3" for x :: int
    using pos_mod_bound [of 60 x] pos_mod_bound [of 1000 x] by simp_all
  have ms_less: "pad 3 (ms mod 1000) @ ''Z'' < pad 3 (ms' mod 1000) @ ''Z''" if "ms mod 1000 < ms' mod 1000"
    by (rule pad_lex) (use that small in simp_all)
  have s_less: "pad 2 (s ms mod 60) @ CHR ''.'' # pad 3 (ms mod 1000) @ ''Z''
      < pad 2 (s ms' mod 60) @ CHR ''.'' # pad 3 (ms' mod 1000) @ ''Z''"
    if "s ms mod 60 < s ms' mod 60 \<or> s ms mod 60 = s ms' mod 60 \<and> ms mod 1000 < ms' mod 1000"
    by (rule pad_lex) (use that ms_less small in \<open>auto intro: Cons_less\<close>)
  have m_less: "pad 2 (m ms mod 60) @ CHR '':'' # pad 2 (s ms mod 60) @ CHR ''.'' # pad 3 (ms mod 1000) @ ''Z''
      < pad 2 (m ms' mod 60) @ CHR '':'' # pad 2 (s ms' mod 60) @ CHR ''.'' # pad 3 (ms' mod 1000) @ ''Z''"
    if "m ms mod 60 < m ms' mod 60 \<or> m ms mod 60 = m ms' mod 60 \<and> (s ms mod 60 < s ms' mod 60
      \<or> s ms mod 60 = s ms' mod 60 \<and> ms mod 1000 < ms' mod 1000)"
    by (rule pad_lex) (use that s_less small in \<open>auto intro: Cons_less\<close>)
  show ?thesis
    unfolding clock_def s_def [symmetric] m_def [symmetric]
    by (rule pad_lex) (use order m_less bound in \<open>auto intro: Cons_less\<close>)
qed


definition iso_limit :: int where
  "iso_limit = 253402300800000"

lemma year_range:
  assumes "0 \<le> t" and "t < iso_limit"
  shows "1970 \<le> df_year (fields_of t) \<and> df_year (fields_of t) \<le> 9999"
proof -
  have y: "df_year (fields_of t) = year_of (t div 86400000)" by (simp add: fields_of_def Let_def split: prod.splits)
  have "days_to_year 1970 = 0" "days_to_year 10000 = 2932897" by (simp_all add: days_to_year_def)
  moreover have "0 \<le> t div 86400000" "t div 86400000 < 2932897" using assms by (simp_all add: iso_limit_def)
  ultimately have "days_to_year 1970 < days_to_year (year_of (t div 86400000) + 1)"
    "days_to_year (year_of (t div 86400000)) < days_to_year 10000"
    using year_of_spec [of "t div 86400000"] by simp_all
  moreover have "days_to_year a < days_to_year b \<Longrightarrow> a < b" for a b
    using days_to_year_mono [of b a] by linarith
  ultimately have "1970 < year_of (t div 86400000) + 1" "year_of (t div 86400000) < 10000" by blast+
  then show ?thesis unfolding y by simp
qed

lemma toISOString_year:
  assumes "0 \<le> t" and "t < iso_limit"
  shows "toISOString t = pad 4 (df_year (fields_of t)) @ CHR ''-'' # pad 2 (df_month (fields_of t))
    @ CHR ''-'' # pad 2 (df_day (fields_of t)) @ CHR ''T'' # clock (df_ms (fields_of t))"
  using year_range [OF assms] by (simp add: toISOString_def clock_def Let_def)

text \<open>For years 1970 to 9999 the order of the texts is the order of the time values.\<close>

lemma toISOString_less:
  assumes "0 \<le> t" and "t < t'" and "t' < iso_limit"
  shows "toISOString t < toISOString t'"
proof -
  let ?f = "fields_of t" and ?g = "fields_of t'"
  note f = fields_of_spec [OF refl, of t] and g = fields_of_spec [OF refl, of t']
  have order: "df_year ?f < df_year ?g \<or> df_year ?f = df_year ?g \<and> (df_month ?f < df_month ?g
    \<or> df_month ?f = df_month ?g \<and> (df_day ?f < df_day ?g \<or> df_day ?f = df_day ?g \<and> df_ms ?f < df_ms ?g))"
    using fields_ordered [of t t', OF _ refl refl] assms(2) f g unfolding time_of_def
    by (metis order_le_imp_less_or_eq less_irrefl less_imp_le)
  have ms: "df_ms ?f < df_ms ?g \<Longrightarrow> clock (df_ms ?f) < clock (df_ms ?g)"
    using f g by (intro clock_less) simp_all
  have small: "df_day ?g < 10 ^ 2" "df_month ?g < 10 ^ 2" "df_year ?g < 10 ^ 4" "0 \<le> df_year ?f"
    using g month_days_range(2) [of "df_year ?g" "df_month ?g"] year_range [of t'] year_range [of t] assms by simp_all
  have day: "pad 2 (df_day ?f) @ CHR ''T'' # clock (df_ms ?f) < pad 2 (df_day ?g) @ CHR ''T'' # clock (df_ms ?g)"
    if "df_day ?f < df_day ?g \<or> df_day ?f = df_day ?g \<and> df_ms ?f < df_ms ?g"
    by (rule pad_lex) (use that ms small f in \<open>auto intro: Cons_less\<close>)
  have month: "pad 2 (df_month ?f) @ CHR ''-'' # pad 2 (df_day ?f) @ CHR ''T'' # clock (df_ms ?f)
      < pad 2 (df_month ?g) @ CHR ''-'' # pad 2 (df_day ?g) @ CHR ''T'' # clock (df_ms ?g)"
    if "df_month ?f < df_month ?g \<or> df_month ?f = df_month ?g
      \<and> (df_day ?f < df_day ?g \<or> df_day ?f = df_day ?g \<and> df_ms ?f < df_ms ?g)"
    by (rule pad_lex) (use that day small f in \<open>auto intro: Cons_less\<close>)
  have "0 \<le> t'" "t < iso_limit" using assms by simp_all
  then show ?thesis
    unfolding toISOString_year [OF assms(1) \<open>t < iso_limit\<close>] toISOString_year [OF \<open>0 \<le> t'\<close> assms(3)]
    by (intro pad_lex) (use order month small in \<open>auto intro: Cons_less\<close>)
qed

lemma toISOString_le: "0 \<le> t \<Longrightarrow> t \<le> t' \<Longrightarrow> t' < iso_limit \<Longrightarrow> toISOString t \<le> toISOString t'"
  using toISOString_less [of t t'] by (cases "t = t'") simp_all

lemma toISOString_le_iff:
  "0 \<le> t \<Longrightarrow> 0 \<le> t' \<Longrightarrow> t < iso_limit \<Longrightarrow> t' < iso_limit \<Longrightarrow> toISOString t \<le> toISOString t' \<longleftrightarrow> t \<le> t'"
  using toISOString_le [of t t'] toISOString_less [of t' t] by fastforce

section \<open>Reading it back\<close>

text \<open>What a host's \<open>Date.parse\<close> does on the texts \<open>toISOString\<close> writes.\<close>

definition parses_iso :: "(string \<Rightarrow> int option) \<Rightarrow> bool" where
  "parses_iso date_parse \<longleftrightarrow> (\<forall>t. 0 \<le> t \<and> t < iso_limit \<longrightarrow> date_parse (toISOString t) = Some t)"

definition unpad :: "string \<Rightarrow> int" where
  "unpad s = foldl (\<lambda>a c. 10 * a + (int (of_char c) - 48)) 0 s"

lemma unpad_pad: "0 \<le> v \<Longrightarrow> v < 10 ^ n \<Longrightarrow> unpad (pad n v) = v"
proof (induction n arbitrary: v)
  case (Suc n)
  have "unpad (pad n (v div 10)) = v div 10" by (rule Suc.IH) (use Suc.prems in simp_all)
  moreover have "int (of_char (digit_char (nat (v mod 10)))) - 48 = v mod 10" by (simp add: digit_char_def)
  ultimately show ?case by (simp add: unpad_def)
qed (simp add: unpad_def)

definition iso_parse :: "string \<Rightarrow> int option" where
  "iso_parse s =
     (let part = (\<lambda>n k. unpad (take k (drop n s)));
          t = time_of \<lparr>df_year = part 0 4, df_month = part 5 2, df_day = part 8 2,
                df_ms = part 11 2 * 3600000 + part 14 2 * 60000 + part 17 2 * 1000 + part 20 3\<rparr>
      in if 0 \<le> t \<and> toISOString t = s then Some t else None)"


lemma take_drop_pad: "take n (drop (length p) (p @ pad n v @ rest)) = pad n v"
  by simp

lemma ms_parts: "0 \<le> ms \<Longrightarrow> ms div 3600000 * 3600000 + ms div 60000 mod 60 * 60000 + ms div 1000 mod 60 * 1000
    + ms mod 1000 = ms" for ms :: int
proof -
  have "ms div 60000 = ms div 1000 div 60" "ms div 3600000 = ms div 1000 div 60 div 60"
    using zdiv_zmult2_eq [of 60 ms 1000] zdiv_zmult2_eq [of 60 "ms div 1000" 60]
      zdiv_zmult2_eq [of 3600 ms 1000] by simp_all
  moreover have "s div 60 div 60 * 3600 + s div 60 mod 60 * 60 + s mod 60 = s" for s :: int
    using mult_div_mod_eq [of 60 s] mult_div_mod_eq [of 60 "s div 60"] by linarith
  from this [of "ms div 1000"] mult_div_mod_eq [of 1000 ms] show ?thesis unfolding calculation by linarith
qed

lemma hour_range: "0 \<le> ms \<Longrightarrow> ms < 86400000 \<Longrightarrow> 0 \<le> ms div 3600000 \<and> ms div 3600000 < 10 ^ 2" for ms :: int
  using zdiv_mono1 [of 0 ms 3600000] zdiv_mono1 [of ms 86399999 3600000] by simp

lemma iso_parse_roundtrip: "parses_iso iso_parse"
  unfolding parses_iso_def
proof (intro allI impI)
  fix t assume t: "0 \<le> t \<and> t < iso_limit"
  let ?f = "fields_of t"
  note f = fields_of_spec [OF refl, of t]
  have bounds: "0 \<le> df_year ?f" "df_year ?f < 10 ^ 4" "0 \<le> df_month ?f" "df_month ?f < 10 ^ 2"
    "0 \<le> df_day ?f" "df_day ?f < 10 ^ 2"
    using f year_range [of t] t month_days_range(2) [of "df_year ?f" "df_month ?f"] by simp_all
  have time: "0 \<le> df_ms ?f div 3600000" "df_ms ?f div 3600000 < 10 ^ 2"
    using f hour_range [of "df_ms ?f"] by blast+
  have small: "0 \<le> x mod 60" "x mod 60 < 10 ^ 2" "0 \<le> x mod 1000" "x mod 1000 < 10 ^ 3" for x :: int
    using pos_mod_bound [of 60 x] pos_mod_bound [of 1000 x] by simp_all
  have shape: "toISOString t = pad 4 (df_year ?f) @ CHR ''-'' # pad 2 (df_month ?f)
    @ CHR ''-'' # pad 2 (df_day ?f) @ CHR ''T'' # clock (df_ms ?f)"
    by (rule toISOString_year) (use t in simp_all)
  have "\<lparr>df_year = unpad (take 4 (drop 0 (toISOString t))), df_month = unpad (take 2 (drop 5 (toISOString t))),
      df_day = unpad (take 2 (drop 8 (toISOString t))),
      df_ms = unpad (take 2 (drop 11 (toISOString t))) * 3600000 + unpad (take 2 (drop 14 (toISOString t))) * 60000
        + unpad (take 2 (drop 17 (toISOString t))) * 1000 + unpad (take 3 (drop 20 (toISOString t)))\<rparr> = ?f"
    unfolding shape clock_def
    by (simp add: bounds [simplified] time [simplified] small [simplified] unpad_pad ms_parts f)
  then show "iso_parse (toISOString t) = Some t"
    using f t by (simp add: iso_parse_def Let_def)
qed

end
