(* ===== verification/Event_Cache.thy ===== *)
theory Event_Cache
  imports Ledger Iso_Time
begin

text \<open>
  The read cache of long-lived processes: \<open>packages/storage/src/event-cache.ts\<close>.

  The files a process sees are a function from a path to the size, the modification time and the
  ledger found there.  Reading a path with no file opens a new, empty ledger.  The cache itself is the
  module's list of at most eight entries, most recently used last, and its two counters.  \<open>parse\<close> and
  \<open>raw\<close> are the two ways of reconstructing a row (\<open>JSON.parse\<close> with and without the schema
  validators); \<open>date_parse\<close> is \<open>Date.parse\<close>.
\<close>

section \<open>Reading with and without validation\<close>

definition known_schema_versions :: "nat list" where
  "known_schema_versions = [1, 2, 3]"

definition reconstructStoredEvent ::
    "(string \<Rightarrow> event option) \<Rightarrow> (string \<Rightarrow> event option) \<Rightarrow> event_row \<Rightarrow> store_error + event" where
  "reconstructStoredEvent parse raw r =
     (case raw (er_canonical_event r) of
        None \<Rightarrow> Inl (corrupt (er_event_id r))
      | Some e \<Rightarrow>
          if er_schema_version r \<notin> set known_schema_versions
          then parseStored parse (er_event_id r) (er_canonical_event r)
          else Inr e)"

definition read_with ::
    "(string \<Rightarrow> event option) \<Rightarrow> (string \<Rightarrow> event option) \<Rightarrow> bool \<Rightarrow> event_query \<Rightarrow> store
     \<Rightarrow> store_error + event list" where
  "read_with parse raw validate q st =
     (if validate then read_events parse q st
      else if st_closed st then Inl store_closed
      else map_raise (reconstructStoredEvent parse raw) (query_rows st q))"

section \<open>Files\<close>

record ledger_file =
  lf_size :: nat
  lf_mtimeMs :: rat
  lf_store :: store

type_synonym files = "string \<Rightarrow> ledger_file option"

definition ledgerFingerprint :: "files \<Rightarrow> string \<Rightarrow> string" where
  "ledgerFingerprint files path = (case files path of
     None \<Rightarrow> ''absent''
   | Some f \<Rightarrow> nat_str (lf_size f) @ '':'' @ num_str (lf_mtimeMs f))"

definition ledger_at :: "files \<Rightarrow> string \<Rightarrow> store" where
  "ledger_at files path = (case files path of None \<Rightarrow> store_open | Some f \<Rightarrow> (lf_store f)\<lparr>st_closed := False\<rparr>)"

section \<open>The cache\<close>

definition query_fields :: "event_query \<Rightarrow> string list" where
  "query_fields q =
     [case eq_eventId q of None \<Rightarrow> '''' | Some i \<Rightarrow> i,
      case eq_eventType q of None \<Rightarrow> '''' | Some ty \<Rightarrow> event_type_str ty,
      join ''+'' (map event_type_str (case eq_eventTypes q of None \<Rightarrow> [] | Some tys \<Rightarrow> tys)),
      case eq_correlationId q of None \<Rightarrow> '''' | Some i \<Rightarrow> i,
      case eq_causationId q of None \<Rightarrow> '''' | Some None \<Rightarrow> ''null'' | Some (Some i) \<Rightarrow> i,
      case eq_since q of None \<Rightarrow> '''' | Some s \<Rightarrow> s]"

definition key_text :: "string \<Rightarrow> string \<Rightarrow> bool \<Rightarrow> event_query \<Rightarrow> string" where
  "key_text path fingerprint validate q =
     join ''|'' ([path, fingerprint, if validate then ''checked'' else ''unchecked''] @ query_fields q)"

definition cacheKey :: "files \<Rightarrow> string \<Rightarrow> bool \<Rightarrow> event_query \<Rightarrow> string" where
  "cacheKey files path validate q = key_text path (ledgerFingerprint files path) validate q"

record event_cache =
  ch_entries :: "(string \<times> event list) list"
  ch_hits :: nat
  ch_misses :: nat

definition clearEventCache :: event_cache where
  "clearEventCache = \<lparr>ch_entries = [], ch_hits = 0, ch_misses = 0\<rparr>"

definition max_entries :: nat where
  "max_entries = 8"

definition keep_recent :: "'a list \<Rightarrow> 'a list" where
  "keep_recent xs = drop (length xs - max_entries) xs"

definition readEventsCached ::
    "(string \<Rightarrow> event option) \<Rightarrow> (string \<Rightarrow> event option) \<Rightarrow> files \<Rightarrow> string \<Rightarrow> event_query \<Rightarrow> bool \<Rightarrow> event_cache
     \<Rightarrow> (store_error + event list) \<times> event_cache" where
  "readEventsCached parse raw files path q validate cache =
     (let key = cacheKey files path validate q
      in case map_get (ch_entries cache) key of
           Some events \<Rightarrow>
             (Inr events, cache\<lparr>ch_entries := AList.delete key (ch_entries cache) @ [(key, events)],
                                ch_hits := Suc (ch_hits cache)\<rparr>)
         | None \<Rightarrow>
             (let missed = cache\<lparr>ch_misses := Suc (ch_misses cache)\<rparr>
              in (case read_with parse raw validate q (ledger_at files path) of
                   Inl err \<Rightarrow> (Inl err, missed)
                 | Inr events \<Rightarrow>
                     (Inr events, missed\<lparr>ch_entries := keep_recent (ch_entries cache @ [(key, events)])\<rparr>))))"

section \<open>Windows\<close>

definition window_bucket_ms :: int where
  "window_bucket_ms = 60000"

definition bucketedSince :: "(string \<Rightarrow> int option) \<Rightarrow> string \<Rightarrow> string" where
  "bucketedSince date_parse since = (case date_parse since of
     None \<Rightarrow> since
   | Some ms \<Rightarrow> toISOString (ms div window_bucket_ms * window_bucket_ms))"

definition readWindowCached ::
    "(string \<Rightarrow> event option) \<Rightarrow> (string \<Rightarrow> event option) \<Rightarrow> (string \<Rightarrow> int option) \<Rightarrow> files \<Rightarrow> string \<Rightarrow> event_query
     \<Rightarrow> string \<Rightarrow> bool \<Rightarrow> event_cache \<Rightarrow> (store_error + event list) \<times> event_cache" where
  "readWindowCached parse raw date_parse files path q since validate cache =
     (case readEventsCached parse raw files path (q\<lparr>eq_since := Some (bucketedSince date_parse since)\<rparr>) validate cache of
        (Inl err, cache') \<Rightarrow> (Inl err, cache')
      | (Inr widened, cache') \<Rightarrow> (Inr (filter (\<lambda>e. since \<le> timestamp e) widened), cache'))"


section \<open>Recency\<close>

definition cache_keys :: "event_cache \<Rightarrow> string list" where
  "cache_keys cache = map fst (ch_entries cache)"

text \<open>The keys of a history of requests by last use, oldest first: \<open>remdups\<close> keeps last occurrences.\<close>

lemma remdups_snoc: "remdups (xs @ [x]) = filter (\<lambda>y. y \<noteq> x) (remdups xs) @ [x]"
  by (induction xs) auto

lemma keep_recent_set: "set (keep_recent xs) \<subseteq> set xs"
  by (simp add: keep_recent_def set_drop_subset)

lemma keep_recent_length: "length (keep_recent xs) \<le> max_entries"
  by (simp add: keep_recent_def)

lemma keep_recent_snoc: "keep_recent (xs @ [x]) = drop (Suc (length xs) - max_entries) xs @ [x]"
  by (cases "length xs < max_entries") (simp_all add: keep_recent_def max_entries_def)

lemma filter_drop_in:
  assumes "distinct xs" and "x \<in> set (drop n xs)"
  shows "filter (\<lambda>y. y \<noteq> x) (drop n xs) = drop n (filter (\<lambda>y. y \<noteq> x) xs)"
proof -
  have "distinct (take n xs @ drop n xs)" using assms(1) by simp
  then have "x \<notin> set (take n xs)" using assms(2) unfolding distinct_append by blast
  then have "filter (\<lambda>y. y \<noteq> x) (take n xs) = take n xs" by (simp add: filter_id_conv) blast
  then have "filter (\<lambda>y. y \<noteq> x) xs = take n xs @ filter (\<lambda>y. y \<noteq> x) (drop n xs)"
    by (metis append_take_drop_id filter_append)
  moreover have "n \<le> length xs" using assms(2) by (cases "n \<le> length xs") simp_all
  ultimately show ?thesis by simp
qed

lemma recent_hit:
  assumes "distinct xs" and "x \<in> set (keep_recent xs)"
  shows "filter (\<lambda>y. y \<noteq> x) (keep_recent xs) @ [x] = keep_recent (filter (\<lambda>y. y \<noteq> x) xs @ [x])"
proof -
  have "x \<in> set xs" using subsetD [OF keep_recent_set assms(2)] .
  then have len: "Suc (length (filter (\<lambda>y. y \<noteq> x) xs)) = length xs"
    using assms(1) length_remove1 [of x xs] length_pos_if_in_set [of x xs]
    by (simp add: distinct_remove1_removeAll removeAll_filter_not_eq neq_commute [of _ x])
  have "filter (\<lambda>y. y \<noteq> x) (drop (length xs - max_entries) xs)
      = drop (length xs - max_entries) (filter (\<lambda>y. y \<noteq> x) xs)"
    using assms by (intro filter_drop_in) (simp_all add: keep_recent_def)
  then show ?thesis unfolding keep_recent_snoc len unfolding keep_recent_def by simp
qed

lemma recent_miss:
  assumes "x \<notin> set (keep_recent xs)"
  shows "keep_recent (keep_recent xs @ [x]) = keep_recent (filter (\<lambda>y. y \<noteq> x) xs @ [x])"
proof -
  let ?a = "take (length xs - max_entries) xs" and ?c = "keep_recent xs"
  have "filter (\<lambda>y. y \<noteq> x) ?c = ?c" using assms by (simp add: filter_id_conv) blast
  then have split: "filter (\<lambda>y. y \<noteq> x) xs = filter (\<lambda>y. y \<noteq> x) ?a @ ?c"
    unfolding keep_recent_def by (metis append_take_drop_id filter_append)
  show ?thesis
  proof (cases "length xs \<le> max_entries")
    case True
    then show ?thesis unfolding keep_recent_snoc split by (simp add: keep_recent_def)
  next
    case False
    then have "length ?c = max_entries" by (simp add: keep_recent_def)
    then show ?thesis unfolding keep_recent_snoc split by (simp add: Suc_diff_le)
  qed
qed

lemma delete_keys: "map fst (AList.delete k es) = filter (\<lambda>y. y \<noteq> k) (map fst es)"
  by (induction es) auto

type_synonym cached_call = "files \<times> string \<times> event_query \<times> bool"

definition call_key :: "cached_call \<Rightarrow> string" where
  "call_key call = (case call of (files, path, q, validate) \<Rightarrow> cacheKey files path validate q)"

definition call_read ::
    "(string \<Rightarrow> event option) \<Rightarrow> (string \<Rightarrow> event option) \<Rightarrow> cached_call \<Rightarrow> store_error + event list" where
  "call_read parse raw call = (case call of (files, path, q, validate) \<Rightarrow>
     read_with parse raw validate q (ledger_at files path))"

definition call_cached ::
    "(string \<Rightarrow> event option) \<Rightarrow> (string \<Rightarrow> event option) \<Rightarrow> event_cache \<Rightarrow> cached_call
     \<Rightarrow> (store_error + event list) \<times> event_cache" where
  "call_cached parse raw cache call = (case call of (files, path, q, validate) \<Rightarrow>
     readEventsCached parse raw files path q validate cache)"

definition cache_after ::
    "(string \<Rightarrow> event option) \<Rightarrow> (string \<Rightarrow> event option) \<Rightarrow> cached_call list \<Rightarrow> event_cache" where
  "cache_after parse raw calls = foldl (\<lambda>cache call. snd (call_cached parse raw cache call)) clearEventCache calls"

lemma cache_after_snoc [simp]:
  "cache_after parse raw (calls @ [call]) = snd (call_cached parse raw (cache_after parse raw calls) call)"
  "cache_after parse raw [] = clearEventCache"
  by (simp_all add: cache_after_def)

lemma call_cached_hit:
  "map_get (ch_entries cache) (call_key call) = Some events \<Longrightarrow>
     call_cached parse raw cache call = (Inr events,
       cache\<lparr>ch_entries := AList.delete (call_key call) (ch_entries cache) @ [(call_key call, events)],
             ch_hits := Suc (ch_hits cache)\<rparr>)"
  by (simp add: call_cached_def call_key_def readEventsCached_def Let_def split: prod.splits)

lemma call_cached_miss:
  "map_get (ch_entries cache) (call_key call) = None \<Longrightarrow> call_read parse raw call = Inr events \<Longrightarrow>
     call_cached parse raw cache call = (Inr events,
       cache\<lparr>ch_misses := Suc (ch_misses cache),
             ch_entries := keep_recent (ch_entries cache @ [(call_key call, events)])\<rparr>)"
  by (simp add: call_cached_def call_key_def call_read_def readEventsCached_def Let_def split: prod.splits)

lemma call_cached_error:
  "map_get (ch_entries cache) (call_key call) = None \<Longrightarrow> call_read parse raw call = Inl err \<Longrightarrow>
     call_cached parse raw cache call = (Inl err, cache\<lparr>ch_misses := Suc (ch_misses cache)\<rparr>)"
  by (simp add: call_cached_def call_key_def call_read_def readEventsCached_def Let_def split: prod.splits)

lemma map_keep_recent: "map f (keep_recent xs) = keep_recent (map f xs)"
  by (simp add: keep_recent_def drop_map)

text \<open>
  The cache is exactly least recently used: after any history of reads that succeed it holds the
  (at most eight) keys used last, in the order of their last use, and every read was counted as a hit
  or a miss.
\<close>

theorem cache_is_lru:
  assumes "\<forall>call \<in> set calls. \<exists>events. call_read parse raw call = Inr events"
  shows "cache_keys (cache_after parse raw calls) = keep_recent (remdups (map call_key calls))
    \<and> length (cache_keys (cache_after parse raw calls)) \<le> max_entries
    \<and> ch_hits (cache_after parse raw calls) + ch_misses (cache_after parse raw calls) = length calls"
  using assms
proof (induction calls rule: rev_induct)
  case (snoc call calls)
  let ?c = "cache_after parse raw calls" and ?k = "call_key call"
  have IH: "cache_keys ?c = keep_recent (remdups (map call_key calls))" "ch_hits ?c + ch_misses ?c = length calls"
    using snoc by simp_all
  have recent: "remdups (map call_key (calls @ [call])) = filter (\<lambda>y. y \<noteq> ?k) (remdups (map call_key calls)) @ [?k]"
    by (simp add: remdups_snoc)
  have bound: "length (keep_recent (remdups (map call_key (calls @ [call])))) \<le> max_entries"
    by (rule keep_recent_length)
  show ?case
  proof (cases "map_get (ch_entries ?c) ?k")
    case None
    obtain events where events: "call_read parse raw call = Inr events" using snoc.prems by auto
    have "?k \<notin> set (cache_keys ?c)" using None by (simp add: cache_keys_def map_of_eq_None_iff)
    then have "cache_keys (cache_after parse raw (calls @ [call])) = keep_recent (remdups (map call_key (calls @ [call])))"
      unfolding recent IH(1) recent_miss [symmetric]
      using recent_miss [of ?k "remdups (map call_key calls)"] IH(1)
      by (simp add: call_cached_miss [OF None events] cache_keys_def map_keep_recent)
    with bound IH(2) show ?thesis by (simp add: call_cached_miss [OF None events])
  next
    case (Some events)
    have "?k \<in> set (cache_keys ?c)" using map_of_SomeD [OF Some] by (force simp: cache_keys_def)
    then have "filter (\<lambda>y. y \<noteq> ?k) (keep_recent (remdups (map call_key calls))) @ [?k]
        = keep_recent (remdups (map call_key (calls @ [call])))"
      unfolding recent IH(1) by (intro recent_hit) simp_all
    then have "cache_keys (cache_after parse raw (calls @ [call])) = keep_recent (remdups (map call_key (calls @ [call])))"
      using IH(1) by (simp add: call_cached_hit [OF Some] cache_keys_def delete_keys)
    with bound IH(2) show ?thesis by (simp add: call_cached_hit [OF Some])
  qed
qed (simp add: clearEventCache_def cache_keys_def keep_recent_def)


section \<open>Keys determine reads\<close>

definition bar_free :: "string \<Rightarrow> bool" where
  "bar_free s \<longleftrightarrow> CHR ''|'' \<notin> set s"

lemma join_snoc: "xs \<noteq> [] \<Longrightarrow> join sep (xs @ [y]) = join sep xs @ sep @ y"
  by (induction sep xs rule: join.induct) simp_all

lemma split_suffix:
  assumes "u @ c # s = v @ c # t" and "c \<notin> set s" and "c \<notin> set t"
  shows "u = v \<and> s = t"
proof -
  have "rev s @ c # rev u = rev t @ c # rev v" using arg_cong [OF assms(1), of rev] by simp
  then have "rev s = rev t \<and> c # rev u = c # rev v"
    by (rule split_unique [where P = "\<lambda>x. x \<noteq> c"]) (use assms in auto)
  then show ?thesis by simp
qed

lemma join_bar_unique:
  assumes "list_all bar_free xs" and "list_all bar_free ys" and "length xs = length ys"
    and "join ''|'' (x # xs) = join ''|'' (y # ys)"
  shows "x = y \<and> xs = ys"
  using assms
proof (induction xs arbitrary: ys rule: rev_induct)
  case (snoc a xs)
  then obtain zs b where ys: "ys = zs @ [b]" by (cases ys rule: rev_cases) simp_all
  have "join ''|'' (x # xs) @ CHR ''|'' # a = join ''|'' (y # zs) @ CHR ''|'' # b"
    using snoc.prems(4) join_snoc [of "x # xs" "''|''" a] join_snoc [of "y # zs" "''|''" b] by (simp add: ys)
  then have "join ''|'' (x # xs) = join ''|'' (y # zs) \<and> a = b"
    by (rule split_suffix) (use snoc.prems(1,2) in \<open>simp_all add: ys bar_free_def\<close>)
  with snoc show ?case by (simp add: ys)
qed simp

lemma join_plus_unique:
  assumes "\<forall>x \<in> set xs. CHR ''+'' \<notin> set x \<and> x \<noteq> []" and "\<forall>y \<in> set ys. CHR ''+'' \<notin> set y \<and> y \<noteq> []"
    and "join ''+'' xs = join ''+'' ys"
  shows "xs = ys"
  using assms
proof (induction xs arbitrary: ys rule: rev_induct)
  case Nil
  then have "join ''+'' ys = []" by simp
  then show ?case using Nil.prems(2) by (cases ys; cases "tl ys") auto
next
  case (snoc a xs)
  have a: "CHR ''+'' \<notin> set a" "a \<noteq> []" using snoc.prems(1) by simp_all
  have "ys \<noteq> []"
  proof
    assume "ys = []"
    then show False using snoc.prems(3) a by (cases xs) (simp_all add: join_snoc del: append_Cons)
  qed
  then obtain zs b where ys: "ys = zs @ [b]" by (cases ys rule: rev_cases) simp_all
  have b: "CHR ''+'' \<notin> set b" "b \<noteq> []" using snoc.prems(2) by (simp_all add: ys)
  show ?case
  proof (cases "xs = []")
    case True
    then have "zs = []" using snoc.prems(3) a by (cases "zs = []") (auto simp: ys join_snoc)
    then show ?thesis using True snoc.prems(3) by (simp add: ys)
  next
    case False
    then have "zs \<noteq> []" using snoc.prems(3) b by (auto simp: ys join_snoc)
    then have "join ''+'' xs @ CHR ''+'' # a = join ''+'' zs @ CHR ''+'' # b"
      using snoc.prems(3) False by (simp add: ys join_snoc)
    then have "join ''+'' xs = join ''+'' zs \<and> a = b" by (rule split_suffix) (use a b in simp_all)
    moreover from this have "xs = zs" using snoc.IH [of zs] snoc.prems(1,2) by (simp add: ys)
    ultimately show ?thesis by (simp add: ys)
  qed
qed

lemma event_type_str_plain: "CHR ''+'' \<notin> set (event_type_str ty)" "CHR ''|'' \<notin> set (event_type_str ty)"
  "event_type_str ty \<noteq> []"
  by (cases ty; simp)+

lemma event_type_str_inject: "event_type_str a = event_type_str b \<longleftrightarrow> a = b"
  by (cases a; cases b) simp_all

text \<open>
  The queries the key tells apart: no \<open>afterPosition\<close>, no empty set of types, and identifiers and
  bounds that are not empty and contain no separator.
\<close>

definition word_ok :: "string option \<Rightarrow> bool" where
  "word_ok s = (case s of None \<Rightarrow> True | Some w \<Rightarrow> bar_free w \<and> w \<noteq> [])"

definition query_ok :: "event_query \<Rightarrow> bool" where
  "query_ok q \<longleftrightarrow> eq_afterPosition q = None \<and> eq_eventTypes q \<noteq> Some []
     \<and> word_ok (eq_eventId q) \<and> word_ok (eq_correlationId q) \<and> word_ok (eq_since q)
     \<and> (case eq_causationId q of Some (Some i) \<Rightarrow> word_ok (Some i) \<and> i \<noteq> ''null'' | _ \<Rightarrow> True)"

lemma word_ok_inject:
  "word_ok s \<Longrightarrow> word_ok s' \<Longrightarrow> (case s of None \<Rightarrow> '''' | Some i \<Rightarrow> i) = (case s' of None \<Rightarrow> '''' | Some i \<Rightarrow> i)
   \<Longrightarrow> s = s'"
  by (cases s; cases s') (simp_all add: word_ok_def)

lemma types_inject:
  assumes "tys \<noteq> Some []" and "tys' \<noteq> Some []"
    and "join ''+'' (map event_type_str (case tys of None \<Rightarrow> [] | Some tys \<Rightarrow> tys))
       = join ''+'' (map event_type_str (case tys' of None \<Rightarrow> [] | Some tys \<Rightarrow> tys))"
  shows "tys = tys'"
proof -
  have inj: "inj event_type_str" by (rule injI) (simp add: event_type_str_inject)
  have "map event_type_str (case tys of None \<Rightarrow> [] | Some tys \<Rightarrow> tys)
      = map event_type_str (case tys' of None \<Rightarrow> [] | Some tys \<Rightarrow> tys)"
    by (rule join_plus_unique [OF _ _ assms(3)]) (auto simp: event_type_str_plain)
  then have "(case tys of None \<Rightarrow> [] | Some tys \<Rightarrow> tys) = (case tys' of None \<Rightarrow> [] | Some tys \<Rightarrow> tys)"
    using inj by (simp add: inj_map_eq_map)
  then show ?thesis using assms(1,2) by (cases tys; cases tys') auto
qed

lemma join_bar_free: "\<forall>x \<in> set xs. bar_free x \<Longrightarrow> bar_free (join ''+'' xs)"
  by (induction "''+''" xs rule: join.induct) (simp_all add: bar_free_def)

lemma query_fields_bar_free: "query_ok q \<Longrightarrow> list_all bar_free (query_fields q)"
  unfolding query_fields_def query_ok_def
  by (auto simp: word_ok_def bar_free_def event_type_str_plain split: option.splits
      intro!: join_bar_free [unfolded bar_free_def])

lemma query_fields_inject:
  assumes "query_ok q" and "query_ok q'" and "query_fields q = query_fields q'"
  shows "q = q'"
proof (rule event_query.equality)
  note eqs = assms(3) [unfolded query_fields_def list.inject]
  show "eq_eventId q = eq_eventId q'"
    by (rule word_ok_inject) (use assms(1,2) eqs in \<open>simp_all add: query_ok_def\<close>)
  show "eq_correlationId q = eq_correlationId q'"
    by (rule word_ok_inject) (use assms(1,2) eqs in \<open>simp_all add: query_ok_def\<close>)
  show "eq_since q = eq_since q'"
    by (rule word_ok_inject) (use assms(1,2) eqs in \<open>simp_all add: query_ok_def\<close>)
  show "eq_eventTypes q = eq_eventTypes q'"
    by (rule types_inject) (use assms(1,2) eqs in \<open>simp_all add: query_ok_def\<close>)
  show "eq_eventType q = eq_eventType q'"
    using eqs by (cases "eq_eventType q"; cases "eq_eventType q'")
      (simp_all add: event_type_str_plain event_type_str_plain(3) [symmetric] event_type_str_inject)
  have "(case eq_causationId q of None \<Rightarrow> '''' | Some None \<Rightarrow> ''null'' | Some (Some i) \<Rightarrow> i)
      = (case eq_causationId q' of None \<Rightarrow> '''' | Some None \<Rightarrow> ''null'' | Some (Some i) \<Rightarrow> i)"
    using eqs by blast
  then show "eq_causationId q = eq_causationId q'"
    using assms(1,2) unfolding query_ok_def word_ok_def
    by (simp split: option.splits)
  show "eq_afterPosition q = eq_afterPosition q'" using assms(1,2) by (simp add: query_ok_def)
qed simp

lemma key_text_inject:
  assumes "query_ok q" and "query_ok q'" and "bar_free fp" and "bar_free fp'"
    and "key_text path fp validate q = key_text path' fp' validate' q'"
  shows "path = path' \<and> fp = fp' \<and> validate = validate' \<and> q = q'"
proof -
  have "path = path' \<and> [fp, if validate then ''checked'' else ''unchecked''] @ query_fields q
      = [fp', if validate' then ''checked'' else ''unchecked''] @ query_fields q'"
  proof (rule join_bar_unique)
    show "list_all bar_free ([fp, if validate then ''checked'' else ''unchecked''] @ query_fields q)"
      "list_all bar_free ([fp', if validate' then ''checked'' else ''unchecked''] @ query_fields q')"
      using assms(1-4) query_fields_bar_free by (simp_all add: bar_free_def)
    show "join ''|'' (path # [fp, if validate then ''checked'' else ''unchecked''] @ query_fields q)
        = join ''|'' (path' # [fp', if validate' then ''checked'' else ''unchecked''] @ query_fields q')"
      using assms(5) unfolding key_text_def by (simp only: append_Cons append_Nil)
  qed (simp add: query_fields_def)
  then show ?thesis using query_fields_inject [OF assms(1,2)] by (auto split: if_splits)
qed

lemma num_char_bar: "\<not> num_char (CHR ''|'')"
proof -
  have False if "d < 10" "CHR ''|'' = digit_char d" for d
    using arg_cong [OF that(2), of "of_char :: char \<Rightarrow> nat"] that(1) by (simp add: digit_char_def)
  then show ?thesis by (auto simp: num_char_def)
qed

lemma fingerprint_bar_free: "bar_free (ledgerFingerprint files path)"
proof (cases "files path")
  case (Some f)
  have "CHR ''|'' \<notin> set (nat_str n)" for n
  proof
    assume "CHR ''|'' \<in> set (nat_str n)"
    then have "num_char (CHR ''|'')" using nat_str_digits by (fastforce simp: num_char_def)
    then show False using num_char_bar by blast
  qed
  moreover have "CHR ''|'' \<notin> set (num_str r)" for r using num_str_chars [of "CHR ''|''" r] num_char_bar by blast
  ultimately show ?thesis using Some by (simp add: ledgerFingerprint_def bar_free_def)
qed (simp add: ledgerFingerprint_def bar_free_def)


section \<open>Freshness\<close>

text \<open>
  What the file system is expected to do: the size and the modification time of a ledger identify
  its content.  \<open>snapshot\<close> is that content.
\<close>

definition fingerprinted :: "(string \<Rightarrow> string \<Rightarrow> store) \<Rightarrow> files \<Rightarrow> bool" where
  "fingerprinted snapshot files \<longleftrightarrow> (\<forall>path. ledger_at files path = snapshot path (ledgerFingerprint files path))"

definition call_ok :: "(string \<Rightarrow> string \<Rightarrow> store) \<Rightarrow> cached_call \<Rightarrow> bool" where
  "call_ok snapshot call = (case call of (files, path, q, validate) \<Rightarrow> fingerprinted snapshot files \<and> query_ok q)"

definition coherent ::
    "(string \<Rightarrow> event option) \<Rightarrow> (string \<Rightarrow> event option) \<Rightarrow> (string \<Rightarrow> string \<Rightarrow> store) \<Rightarrow> event_cache \<Rightarrow> bool" where
  "coherent parse raw snapshot cache \<longleftrightarrow>
     (\<forall>k events. (k, events) \<in> set (ch_entries cache) \<longrightarrow>
        (\<forall>path fp validate q. query_ok q \<longrightarrow> bar_free fp \<longrightarrow> k = key_text path fp validate q
           \<longrightarrow> read_with parse raw validate q (snapshot path fp) = Inr events))"

lemma call_key_read:
  assumes "call_ok snapshot call" and "query_ok q" and "bar_free fp" and "call_key call = key_text path fp validate q"
  shows "call_read parse raw call = read_with parse raw validate q (snapshot path fp)"
proof -
  obtain files path' q' validate' where call: "call = (files, path', q', validate')" by (cases call)
  have "path' = path \<and> ledgerFingerprint files path' = fp \<and> validate' = validate \<and> q' = q"
    by (rule key_text_inject)
      (use assms call fingerprint_bar_free in \<open>simp_all add: call_ok_def call_key_def cacheKey_def\<close>)
  then show ?thesis using assms(1) call by (auto simp: call_read_def call_ok_def fingerprinted_def)
qed

lemma coherent_hit:
  assumes "coherent parse raw snapshot cache" and "call_ok snapshot call"
    and "map_get (ch_entries cache) (call_key call) = Some events"
  shows "call_read parse raw call = Inr events"
proof -
  obtain files path q validate where call: "call = (files, path, q, validate)" by (cases call)
  have "read_with parse raw validate q (snapshot path (ledgerFingerprint files path)) = Inr events"
    using assms map_of_SomeD [OF assms(3)] fingerprint_bar_free
    unfolding coherent_def call call_ok_def call_key_def cacheKey_def by auto
  then show ?thesis using assms(2) by (auto simp: call call_read_def call_ok_def fingerprinted_def)
qed

lemma coherent_call:
  assumes "coherent parse raw snapshot cache" and "call_ok snapshot call"
  shows "coherent parse raw snapshot (snd (call_cached parse raw cache call))
    \<and> fst (call_cached parse raw cache call) = call_read parse raw call"
proof (cases "map_get (ch_entries cache) (call_key call)")
  case (Some events)
  have old: "(call_key call, events) \<in> set (ch_entries cache)" using Some by (rule map_of_SomeD)
  have "set (AList.delete (call_key call) (ch_entries cache)) \<subseteq> set (ch_entries cache)"
    by (simp add: AList.delete_eq)
  then show ?thesis
    using assms(1) old coherent_hit [OF assms Some]
    by (simp add: call_cached_hit [OF Some] coherent_def) blast
next
  case None
  show ?thesis
  proof (cases "call_read parse raw call")
    case (Inl err)
    then show ?thesis using assms(1) by (simp add: call_cached_error [OF None Inl] coherent_def)
  next
    case (Inr events)
    have "read_with parse raw validate q (snapshot path fp) = Inr es"
      if entry: "(k, es) \<in> set (keep_recent (ch_entries cache @ [(call_key call, events)]))"
        and q: "query_ok q" "bar_free fp" "k = key_text path fp validate q" for k es path fp validate q
    proof -
      from subsetD [OF keep_recent_set entry] consider "(k, es) \<in> set (ch_entries cache)"
        | "k = call_key call" "es = events" by auto
      then show ?thesis
      proof cases
        case 1
        then show ?thesis using assms(1) q by (simp add: coherent_def)
      next
        case 2
        then show ?thesis using call_key_read [OF assms(2) q(1,2), of path validate parse raw] q(3) Inr by simp
      qed
    qed
    then show ?thesis unfolding coherent_def call_cached_miss [OF None Inr] using Inr by simp blast
  qed
qed

lemma coherent_calls:
  "\<forall>c \<in> set calls. call_ok snapshot c \<Longrightarrow> coherent parse raw snapshot (cache_after parse raw calls)"
proof (induction calls rule: rev_induct)
  case (snoc c calls)
  then show ?case using coherent_call [of parse raw snapshot "cache_after parse raw calls" c] by simp
qed (simp add: coherent_def clearEventCache_def)

text \<open>
  C30: As long as size and modification time of a ledger's file identify its content - which a database in
  write-ahead mode need not grant - a cached read returns what opening the ledger and reading it would
  return, after any history of cached reads of any ledgers in any state.  This holds when all the queries of the
  history, and the one asked, have no \<open>afterPosition\<close> and no empty set of types, and when the identifiers and the
  date they filter by are not empty, contain no \<open>|\<close> and the causation id is not the text \<open>null\<close>: the cache's
  key need not tell other queries apart.
\<close>

theorem cached_read_is_fresh:
  assumes "\<forall>c \<in> set (calls @ [call]). call_ok snapshot c"
  shows "fst (call_cached parse raw (cache_after parse raw calls) call) = call_read parse raw call"
  using coherent_calls [of calls snapshot parse raw] coherent_call [of parse raw snapshot _ call] assms by simp

text \<open>
  The key leaves distinctions out.  A query with an empty set of types asks for nothing, but
  after the same query without a type filter it is answered from that entry; likewise a query that
  resumes after a position is answered with the whole log.
\<close>

theorem cache_key_collision:
  assumes "files path = Some f" and "eq_eventTypes q = None" and "eq_afterPosition q = None"
    and "read_with parse raw validate q (ledger_at files path) = Inr events"
  shows "fst (call_cached parse raw (cache_after parse raw [(files, path, q, validate)])
        (files, path, q\<lparr>eq_eventTypes := Some []\<rparr>, validate)) = Inr events
    \<and> call_read parse raw (files, path, q\<lparr>eq_eventTypes := Some []\<rparr>, validate) = Inr []
    \<and> fst (call_cached parse raw (cache_after parse raw [(files, path, q, validate)])
        (files, path, q\<lparr>eq_afterPosition := Some n\<rparr>, validate)) = Inr events"
proof -
  let ?call = "(files, path, q, validate)"
  have keys: "call_key (files, path, q\<lparr>eq_eventTypes := Some []\<rparr>, validate) = call_key ?call"
    "call_key (files, path, q\<lparr>eq_afterPosition := Some n\<rparr>, validate) = call_key ?call"
    using assms(2) by (simp_all add: call_key_def cacheKey_def key_text_def query_fields_def)
  have read: "call_read parse raw ?call = Inr events" using assms(4) by (simp add: call_read_def)
  have "map_get (ch_entries clearEventCache) (call_key ?call) = None" by (simp add: clearEventCache_def)
  from call_cached_miss [OF this read] have entries:
    "ch_entries (cache_after parse raw [?call]) = [(call_key ?call, events)]"
    using cache_after_snoc(1) [of parse raw "[]" ?call]
    by (simp add: clearEventCache_def keep_recent_def max_entries_def)
  have hit: "fst (call_cached parse raw (cache_after parse raw [?call]) c) = Inr events"
    if "call_key c = call_key ?call" for c
    using call_cached_hit [of "cache_after parse raw [?call]" c events] that entries by simp
  have "query_rows st (q\<lparr>eq_eventTypes := Some []\<rparr>) = []" for st
    by (simp add: query_rows_def row_matches_def asks_def)
  then have "call_read parse raw (files, path, q\<lparr>eq_eventTypes := Some []\<rparr>, validate) = Inr []"
    using assms(1) by (simp add: call_read_def read_with_def read_events_def ledger_at_def)
  then show ?thesis using hit [OF keys(1)] hit [OF keys(2)] by blast
qed


lemma pad_bar_free: "bar_free (pad n v)"
proof (induction n arbitrary: v)
  case (Suc n)
  have "CHR ''|'' \<noteq> digit_char (nat (v mod 10))"
  proof
    assume eq: "CHR ''|'' = digit_char (nat (v mod 10))"
    have "nat (v mod 10) < 10" by simp
    with eq show False using num_char_bar unfolding num_char_def by blast
  qed
  with Suc show ?case by (simp add: bar_free_def)
qed (simp add: bar_free_def)

lemma toISOString_word: "bar_free (toISOString t)" "toISOString t \<noteq> []"
  using pad_bar_free by (simp_all add: toISOString_def Let_def bar_free_def)

text \<open>
  A window read through the cache is exact: although it is answered from the read of the whole
  minute, the events returned are those of a fresh read bounded by the exact time asked for, after
  any history of cached reads.
\<close>

theorem window_read_is_exact:
  assumes "\<forall>c \<in> set calls. call_ok snapshot c" and "fingerprinted snapshot files" and "query_ok q"
    and "parses_iso date_parse" and "0 \<le> t" and "t < iso_limit"
    and "store_ok sha parse (ledger_at files path)"
  shows "fst (readWindowCached parse raw date_parse files path q (toISOString t) True (cache_after parse raw calls))
    = read_with parse raw True (q\<lparr>eq_since := Some (toISOString t)\<rparr>) (ledger_at files path)"
proof -
  let ?bucket = "toISOString (t div window_bucket_ms * window_bucket_ms)"
  let ?q = "q\<lparr>eq_since := Some ?bucket\<rparr>" and ?st = "ledger_at files path"
  have open_store: "\<not> st_closed ?st" by (simp add: ledger_at_def store_open_def split: option.splits)
  have bucketed: "bucketedSince date_parse (toISOString t) = ?bucket"
    using assms(4-6) by (simp add: bucketedSince_def parses_iso_def)
  have start: "0 \<le> t div window_bucket_ms * window_bucket_ms" "t div window_bucket_ms * window_bucket_ms \<le> t"
    using assms(5) mult_div_mod_eq [of 60000 t] pos_mod_sign [of 60000 t]
    by (simp_all add: window_bucket_ms_def pos_imp_zdiv_nonneg_iff)
  have wider: "?bucket \<le> toISOString t" by (rule toISOString_le [OF start assms(6)])
  have word: "word_ok (Some ?bucket)" using toISOString_word by (simp add: word_ok_def)
  have "call_ok snapshot (files, path, ?q, True)"
    using assms(2,3) word by (simp add: call_ok_def query_ok_def)
  then have "fst (call_cached parse raw (cache_after parse raw calls) (files, path, ?q, True))
      = call_read parse raw (files, path, ?q, True)"
    using assms(1) coherent_calls coherent_call by blast
  moreover have "call_read parse raw (files, path, ?q, True) = Inr (map (event_of parse) (query_rows ?st ?q))"
    using read_events_ok [OF assms(7) open_store] by (simp add: call_read_def read_with_def)
  ultimately have "fst (readEventsCached parse raw files path ?q True (cache_after parse raw calls))
      = Inr (map (event_of parse) (query_rows ?st ?q))" by (simp add: call_cached_def)
  then have "fst (readWindowCached parse raw date_parse files path q (toISOString t) True (cache_after parse raw calls))
      = Inr (filter (\<lambda>e. toISOString t \<le> timestamp e) (map (event_of parse) (query_rows ?st ?q)))"
    by (auto simp: readWindowCached_def bucketed split: prod.splits sum.splits)
  also have "filter (\<lambda>e. toISOString t \<le> timestamp e) (map (event_of parse) (query_rows ?st ?q))
      = map (event_of parse) (filter (\<lambda>r. toISOString t \<le> er_timestamp r) (query_rows ?st ?q))"
  proof -
    have "timestamp (event_of parse r) = er_timestamp r" if "r \<in> set (query_rows ?st ?q)" for r
      using row_ok_event assms(7) that by (auto simp: query_rows_def store_ok_def)
    then show ?thesis unfolding filter_map by (intro arg_cong [of _ _ "map _"] filter_cong) simp_all
  qed
  also have "filter (\<lambda>r. toISOString t \<le> er_timestamp r) (query_rows ?st ?q)
      = query_rows ?st (q\<lparr>eq_since := Some (toISOString t)\<rparr>)"
    unfolding query_rows_def filter_filter
    using wider by (intro filter_cong) (auto simp: row_matches_def asks_def)
  finally show ?thesis using read_events_ok [OF assms(7) open_store] by (simp add: read_with_def)
qed


section \<open>Witnesses\<close>

definition demo_files :: "nat \<Rightarrow> store \<Rightarrow> files" where
  "demo_files n st path =
     (if path = ''ledger'' then Some \<lparr>lf_size = n, lf_mtimeMs = 0, lf_store = st\<rparr> else None)"

definition demo_snapshot_of :: "string \<Rightarrow> string \<Rightarrow> store" where
  "demo_snapshot_of path fp =
     (if path = ''ledger'' \<and> fp = nat_str 2 @ '':'' @ num_str 0 then demo_ledger else store_open)"

lemma demo_ledger_closed: "demo_ledger\<lparr>st_closed := False\<rparr> = demo_ledger"
  by (simp add: demo_ledger_rows)

lemma demo_files_ledger: "ledger_at (demo_files n st) ''ledger'' = st\<lparr>st_closed := False\<rparr>"
  by (simp add: ledger_at_def demo_files_def)

lemma demo_fingerprints: "fingerprinted demo_snapshot_of (demo_files 3 store_open)"
  "fingerprinted demo_snapshot_of (demo_files 2 demo_ledger)"
proof -
  have "nat_str 3 \<noteq> nat_str 2" using nat_str_inj [of 3 2] by auto
  then show "fingerprinted demo_snapshot_of (demo_files 3 store_open)"
    by (auto simp: fingerprinted_def ledger_at_def demo_files_def demo_snapshot_of_def ledgerFingerprint_def store_open_def)
  show "fingerprinted demo_snapshot_of (demo_files 2 demo_ledger)"
    by (auto simp: fingerprinted_def ledger_at_def demo_files_def demo_snapshot_of_def ledgerFingerprint_def
        demo_ledger_closed)
qed

lemma all_events_ok: "query_ok all_events"
  by (simp add: query_ok_def all_events_def word_ok_def)

lemma demo_ledger_ok: "store_ok (\<lambda>_. ''h'') (demo_parse demo_tool_run) demo_ledger"
  by (rule ledger_ok [OF demo_ledger_reached [where allowed = "\<lambda>_. True"]]) simp

lemma demo_ledger_read: "read_with (demo_parse demo_tool_run) raw True all_events demo_ledger
    = Inr (map (event_of (demo_parse demo_tool_run)) (st_events demo_ledger))"
  using read_events_ok [OF demo_ledger_ok demo_ledger_open]
  by (simp add: read_with_def query_rows_def row_matches_def all_events_def asks_def)

definition demo_calls :: "cached_call list" where
  "demo_calls = [(demo_files 3 store_open, ''ledger'', all_events, True),
     (demo_files 2 demo_ledger, ''ledger'', all_events, True)]"

lemma demo_calls_ok: "\<forall>c \<in> set demo_calls. call_ok demo_snapshot_of c"
  by (simp add: demo_calls_def call_ok_def demo_fingerprints all_events_ok)

lemma demo_calls_read: "\<forall>c \<in> set demo_calls. \<exists>events. call_read (demo_parse demo_tool_run) raw c = Inr events"
  using demo_ledger_read [of raw]
  by (simp add: demo_calls_def call_read_def demo_files_ledger demo_ledger_closed)
    (simp add: store_open_def read_with_def read_events_def query_rows_def)

theorem cache_is_lru_witness:
  "cache_keys (cache_after (demo_parse demo_tool_run) Map.empty demo_calls)
     = keep_recent (remdups (map call_key demo_calls))
   \<and> ch_hits (cache_after (demo_parse demo_tool_run) Map.empty demo_calls)
     + ch_misses (cache_after (demo_parse demo_tool_run) Map.empty demo_calls) = 2"
  using cache_is_lru [OF demo_calls_read, of Map.empty] by (simp add: demo_calls_def)

theorem cached_read_is_fresh_witness:
  "fst (call_cached (demo_parse demo_tool_run) Map.empty (cache_after (demo_parse demo_tool_run) Map.empty demo_calls)
     (demo_files 2 demo_ledger, ''ledger'', all_events, True))
   = Inr (map (event_of (demo_parse demo_tool_run)) (st_events demo_ledger))"
proof -
  have "\<forall>c \<in> set (demo_calls @ [(demo_files 2 demo_ledger, ''ledger'', all_events, True)]). call_ok demo_snapshot_of c"
    using demo_calls_ok by (simp add: call_ok_def demo_fingerprints all_events_ok)
  from cached_read_is_fresh [OF this, of "demo_parse demo_tool_run" Map.empty] show ?thesis
    by (simp add: call_read_def demo_files_ledger demo_ledger_closed demo_ledger_read)
qed

theorem cache_key_collision_witness:
  "fst (call_cached (demo_parse demo_tool_run) Map.empty
      (cache_after (demo_parse demo_tool_run) Map.empty [(demo_files 2 demo_ledger, ''ledger'', all_events, True)])
      (demo_files 2 demo_ledger, ''ledger'', all_events\<lparr>eq_eventTypes := Some []\<rparr>, True))
   = Inr (map (event_of (demo_parse demo_tool_run)) (st_events demo_ledger))"
proof -
  have entry: "demo_files 2 demo_ledger ''ledger'' = Some \<lparr>lf_size = 2, lf_mtimeMs = 0, lf_store = demo_ledger\<rparr>"
    by (simp add: demo_files_def)
  have "read_with (demo_parse demo_tool_run) Map.empty True all_events (ledger_at (demo_files 2 demo_ledger) ''ledger'')
      = Inr (map (event_of (demo_parse demo_tool_run)) (st_events demo_ledger))"
    by (simp add: demo_files_ledger demo_ledger_closed demo_ledger_read)
  from cache_key_collision [OF entry _ _ this] show ?thesis by (simp add: all_events_def)
qed

theorem window_read_is_exact_witness:
  "fst (readWindowCached (demo_parse demo_tool_run) Map.empty iso_parse (demo_files 2 demo_ledger) ''ledger'' all_events
      (toISOString 61234) True (cache_after (demo_parse demo_tool_run) Map.empty demo_calls))
    = read_with (demo_parse demo_tool_run) Map.empty True (all_events\<lparr>eq_since := Some (toISOString 61234)\<rparr>) demo_ledger"
proof -
  have "store_ok (\<lambda>_. ''h'') (demo_parse demo_tool_run) (ledger_at (demo_files 2 demo_ledger) ''ledger'')"
    by (simp add: demo_files_ledger demo_ledger_closed demo_ledger_ok)
  from window_read_is_exact [OF demo_calls_ok demo_fingerprints(2) all_events_ok iso_parse_roundtrip _ _ this,
      of 61234 Map.empty]
  show ?thesis by (simp add: iso_limit_def demo_files_ledger demo_ledger_closed)
qed

end
