(* ===== verification/Projection_Cache.thy ===== *)
theory Projection_Cache
  imports Work_Graph Event_Cache
begin

text \<open>
  The persisted projection: \<open>projection-checkpoint.ts\<close> (the single row of the table
  \<open>projection_checkpoint\<close>) and \<open>projection-cache.ts\<close> (\<open>projectWorkGraphCached\<close>, which serves or
  extends that checkpoint).

  \<open>stringify\<close> and \<open>parse_record\<close> are \<open>JSON.stringify\<close> and \<open>JSON.parse\<close> on a checkpoint record.  \<open>writable\<close>
  says whether saving succeeds; a failure is swallowed.  A result is \<open>None\<close> only where replay has none.
\<close>

section \<open>The checkpoint row\<close>

definition projector_version :: string where
  "projector_version = ''1''"

record projection_record =
  pj_projectorVersion :: string
  pj_lastInsertionPosition :: nat
  pj_gaps :: "sequence_gap list"
  pj_coverageForSnapshot :: "projection_coverage list"
  pj_corrections :: corrections
  pj_nodes :: "graph_node list"
  pj_edges :: "graph_edge list"
  pj_findings :: "finding_view list"
  pj_decisions :: "decision_view list"

record checkpoint_row =
  cr_projector_version :: string
  cr_last_insertion_position :: nat
  cr_state_hash :: string
  cr_state_blob :: string

record projection_db =
  pd_store :: store
  pd_checkpoint :: "checkpoint_row option"

definition checkpointRecordHash :: "(string \<Rightarrow> string) \<Rightarrow> (projection_record \<Rightarrow> string) \<Rightarrow> projection_record \<Rightarrow> string" where
  "checkpointRecordHash sha stringify rec = sha (stringify rec)"

definition loadProjectionCheckpoint ::
    "(string \<Rightarrow> string) \<Rightarrow> (projection_record \<Rightarrow> string) \<Rightarrow> (string \<Rightarrow> projection_record option) \<Rightarrow> projection_db
     \<Rightarrow> projection_record option" where
  "loadProjectionCheckpoint sha stringify parse_record db =
     (case pd_checkpoint db of
        None \<Rightarrow> None
      | Some row \<Rightarrow>
          (case parse_record (cr_state_blob row) of
             None \<Rightarrow> None
           | Some parsed \<Rightarrow>
               if checkpointRecordHash sha stringify parsed \<noteq> cr_state_hash row then None else Some parsed))"

definition saveProjectionCheckpoint ::
    "(string \<Rightarrow> string) \<Rightarrow> (projection_record \<Rightarrow> string) \<Rightarrow> projection_record \<Rightarrow> projection_db \<Rightarrow> projection_db" where
  "saveProjectionCheckpoint sha stringify rec db = db\<lparr>pd_checkpoint := Some
     \<lparr>cr_projector_version = pj_projectorVersion rec,
      cr_last_insertion_position = pj_lastInsertionPosition rec,
      cr_state_hash = checkpointRecordHash sha stringify rec, cr_state_blob = stringify rec\<rparr>\<rparr>"

definition clearProjectionCheckpoint :: "projection_db \<Rightarrow> projection_db" where
  "clearProjectionCheckpoint db = db\<lparr>pd_checkpoint := None\<rparr>"

section \<open>States and records\<close>

definition recordFromState ::
    "(string \<Rightarrow> string) \<Rightarrow> work_graph_state \<Rightarrow> nat \<Rightarrow> sequence_gap list \<Rightarrow> projection_record" where
  "recordFromState sha st position gaps =
     \<lparr>pj_projectorVersion = projector_version, pj_lastInsertionPosition = position, pj_gaps = gaps,
      pj_coverageForSnapshot = (if gaps = [] then wg_coverageInputs st
        else deriveProjectionCoverage sha (map_values (wg_eventsById st)) gaps (wg_corrections st)),
      pj_corrections = wg_corrections st,
      pj_nodes = map_values (fst (wg_graph st)), pj_edges = map_values (snd (wg_graph st)),
      pj_findings = map_values (wg_findings st), pj_decisions = map_values (wg_decisions st)\<rparr>"

text \<open>\<open>new Map(entries)\<close>: a later entry overwrites an earlier one with its key.\<close>

definition map_of_entries :: "('k \<times> 'v) list \<Rightarrow> ('k, 'v) js_map" where
  "map_of_entries entries = foldl (\<lambda>m (k, v). map_set k v m) [] entries"

definition stateFromRecord :: "projection_record \<Rightarrow> events_by_id \<Rightarrow> work_graph_state" where
  "stateFromRecord rec eventsById =
     \<lparr>wg_eventsById = eventsById, wg_corrections = map_of_entries (pj_corrections rec),
      wg_graph = (map_of_entries (map (\<lambda>n. (gn_id n, n)) (pj_nodes rec)),
                  map_of_entries (map (\<lambda>e. (ge_edgeId e, e)) (pj_edges rec))),
      wg_findings = map_of_entries (map (\<lambda>v. (fi_findingId (vf_finding v), v)) (pj_findings rec)),
      wg_decisions = map_of_entries (map (\<lambda>v. (dc_decisionId (vd_decision v), v)) (pj_decisions rec)),
      wg_coverageInputs = pj_coverageForSnapshot rec\<rparr>"

definition databaseHasPosition :: "store \<Rightarrow> nat \<Rightarrow> bool" where
  "databaseHasPosition st position \<longleftrightarrow> (\<exists>r \<in> set (st_events st). er_insertion_position r = position)"

definition maxAppliedPosition :: "store \<Rightarrow> nat \<Rightarrow> string set \<Rightarrow> nat" where
  "maxAppliedPosition st minExclusive appliedIds =
     foldl (\<lambda>watermark r.
        if er_event_id r \<in> appliedIds \<and> watermark < er_insertion_position r then er_insertion_position r
        else watermark) minExclusive
       (filter (\<lambda>r. minExclusive < er_insertion_position r) (st_events st))"

definition persistQuietly ::
    "(string \<Rightarrow> string) \<Rightarrow> (projection_record \<Rightarrow> string) \<Rightarrow> bool \<Rightarrow> projection_record \<Rightarrow> projection_db \<Rightarrow> projection_db" where
  "persistQuietly sha stringify writable rec db =
     (if writable then saveProjectionCheckpoint sha stringify rec db else db)"

section \<open>The cached projection\<close>

record projection_stats =
  ps_fullRebuilds :: nat
  ps_deltaApplications :: nat
  ps_zeroDeltaServes :: nat
  ps_lastAppliedCount :: nat

definition clearProjectionCacheStats :: projection_stats where
  "clearProjectionCacheStats = \<lparr>ps_fullRebuilds = 0, ps_deltaApplications = 0, ps_zeroDeltaServes = 0,
     ps_lastAppliedCount = 0\<rparr>"

type_synonym projection_answer = "(store_error + work_graph_result) \<times> projection_db \<times> projection_stats"

definition full_rebuild ::
    "(string \<Rightarrow> string) \<Rightarrow> (string \<Rightarrow> string \<Rightarrow> int) \<Rightarrow> (string \<Rightarrow> event option) \<Rightarrow> (projection_record \<Rightarrow> string) \<Rightarrow> bool
     \<Rightarrow> projection_db \<Rightarrow> projection_stats \<Rightarrow> projection_answer option" where
  "full_rebuild sha lc parse stringify writable db stats =
     (case read_events parse all_events (pd_store db) of
        Inl err \<Rightarrow> Some (Inl err, db, stats)
      | Inr events \<Rightarrow>
          map_option (\<lambda>r. case r of
              Inl err \<Rightarrow> (Inl (Thrown err), db, stats)
            | Inr result \<Rightarrow>
                (Inr result,
                 persistQuietly sha stringify writable
                   (recordFromState sha (wr_state result)
                     (maxAppliedPosition (pd_store db) 0 (set (map eventId events)))
                     (wr_sourceSequenceGaps result)) db,
                 stats\<lparr>ps_lastAppliedCount := length events\<rparr>))
            (projectWorkGraph sha lc events))"

definition valid_checkpoint :: "projection_db \<Rightarrow> projection_record \<Rightarrow> bool" where
  "valid_checkpoint db rec \<longleftrightarrow>
     pj_projectorVersion rec = projector_version
     \<and> (case latestPosition (pd_store db) of Inl err \<Rightarrow> False | Inr latest \<Rightarrow> pj_lastInsertionPosition rec \<le> latest)
     \<and> databaseHasPosition (pd_store db) (pj_lastInsertionPosition rec)"

definition serve_checkpoint :: "(string \<Rightarrow> string) \<Rightarrow> projection_record \<Rightarrow> work_graph_result" where
  "serve_checkpoint sha rec =
     (let st = stateFromRecord rec []
      in \<lparr>wr_orderedEvents = [], wr_sourceSequenceGaps = pj_gaps rec, wr_state = st,
          wr_snapshot = snapshotFromState sha st []\<rparr>)"

definition apply_delta ::
    "(string \<Rightarrow> string) \<Rightarrow> (string \<Rightarrow> string \<Rightarrow> int) \<Rightarrow> (string \<Rightarrow> event option) \<Rightarrow> (string \<Rightarrow> event option)
     \<Rightarrow> (projection_record \<Rightarrow> string) \<Rightarrow> bool \<Rightarrow> projection_record \<Rightarrow> event list \<Rightarrow> projection_db \<Rightarrow> projection_stats
     \<Rightarrow> projection_answer option" where
  "apply_delta sha lc parse raw stringify writable rec fresh db stats =
     (case read_with parse raw False all_events (pd_store db) of
        Inl err \<Rightarrow> Some (Inl err, db, stats)
      | Inr reconstructed \<Rightarrow>
          (case causalOrder reconstructed of
             None \<Rightarrow> None
           | Some (Inl err) \<Rightarrow> Some (Inl (Thrown err), db, stats)
           | Some (Inr ordered) \<Rightarrow>
               (let gaps = sourceSequenceGaps ordered;
                    base = stateFromRecord rec (map_index eventId ordered)
                in (case extendProjection sha base fresh of
                      None \<Rightarrow> full_rebuild sha lc parse stringify writable db
                                (stats\<lparr>ps_fullRebuilds := Suc (ps_fullRebuilds stats)\<rparr>)
                    | Some extended \<Rightarrow>
                        Some (Inr \<lparr>wr_orderedEvents = ordered, wr_sourceSequenceGaps = gaps, wr_state = extended,
                                   wr_snapshot = snapshotFromState sha extended gaps\<rparr>,
                              persistQuietly sha stringify writable
                                (recordFromState sha extended
                                  (maxAppliedPosition (pd_store db) (pj_lastInsertionPosition rec)
                                    (set (map eventId fresh))) gaps) db,
                              stats)))))"

definition projectWorkGraphCached ::
    "(string \<Rightarrow> string) \<Rightarrow> (string \<Rightarrow> string \<Rightarrow> int) \<Rightarrow> (string \<Rightarrow> event option) \<Rightarrow> (string \<Rightarrow> event option)
     \<Rightarrow> (projection_record \<Rightarrow> string) \<Rightarrow> (string \<Rightarrow> projection_record option) \<Rightarrow> bool \<Rightarrow> bool
     \<Rightarrow> projection_db \<Rightarrow> projection_stats \<Rightarrow> projection_answer option" where
  "projectWorkGraphCached sha lc parse raw stringify parse_record writable verify db stats =
     (if verify then full_rebuild sha lc parse stringify writable db stats
      else case loadProjectionCheckpoint sha stringify parse_record db of
        None \<Rightarrow> full_rebuild sha lc parse stringify writable db
                  (stats\<lparr>ps_fullRebuilds := Suc (ps_fullRebuilds stats)\<rparr>)
      | Some rec \<Rightarrow>
          if \<not> valid_checkpoint db rec
          then full_rebuild sha lc parse stringify writable db
                 (stats\<lparr>ps_fullRebuilds := Suc (ps_fullRebuilds stats)\<rparr>)
          else (case read_events parse (all_events\<lparr>eq_afterPosition := Some (pj_lastInsertionPosition rec)\<rparr>) (pd_store db) of
                  Inl err \<Rightarrow> Some (Inl err, db, stats)
                | Inr fresh \<Rightarrow>
                    if fresh = []
                    then Some (Inr (serve_checkpoint sha rec), db,
                      stats\<lparr>ps_zeroDeltaServes := Suc (ps_zeroDeltaServes stats), ps_lastAppliedCount := 0\<rparr>)
                    else apply_delta sha lc parse raw stringify writable rec fresh db
                      (stats\<lparr>ps_deltaApplications := Suc (ps_deltaApplications stats),
                             ps_lastAppliedCount := length fresh\<rparr>)))"

section \<open>Records lose nothing a snapshot shows\<close>

text \<open>A map whose every value is stored under its own identifier, once.\<close>

definition keyed :: "('v \<Rightarrow> 'k) \<Rightarrow> ('k, 'v) js_map \<Rightarrow> bool" where
  "keyed f m \<longleftrightarrow> distinct (map_keys m) \<and> (\<forall>(k, v) \<in> set m. f v = k)"

lemma map_of_entries_distinct: "distinct (map fst entries) \<Longrightarrow> map_of_entries entries = entries"
proof -
  have "distinct (map fst (m @ entries)) \<Longrightarrow> foldl (\<lambda>m (k, v). map_set k v m) m entries = m @ entries" for m
  proof (induction entries arbitrary: m)
    case (Cons x entries)
    obtain k v where x: "x = (k, v)" by (cases x)
    have "map_set k v m = m @ [(k, v)]" using Cons.prems by (intro map_set_fresh) (simp add: x)
    then show ?case using Cons.IH [of "m @ [(k, v)]"] Cons.prems by (simp add: x)
  qed simp
  from this [of "[]"] show "distinct (map fst entries) \<Longrightarrow> map_of_entries entries = entries"
    by (simp add: map_of_entries_def)
qed

lemma keyed_rebuilt:
  assumes "keyed f m"
  shows "map_of_entries (map (\<lambda>v. (f v, v)) (map_values m)) = m"
proof -
  have "map (\<lambda>v. (f v, v)) (map_values m) = m"
    using assms unfolding keyed_def map_map by (intro map_idI) auto
  then show ?thesis using assms by (simp add: map_of_entries_distinct keyed_def)
qed

lemma keyed_iff: "keyed f m \<longleftrightarrow> distinct (map_keys m) \<and> (\<forall>k v. map_get m k = Some v \<longrightarrow> f v = k)"
  unfolding keyed_def by (auto simp: map_of_eq_Some_iff)

lemma keyed_set: "keyed f m \<Longrightarrow> f v = k \<Longrightarrow> keyed f (map_set k v m)"
  unfolding keyed_iff by (simp add: distinct_map_set map_get_set)

lemma keyed_views:
  "keyed (\<lambda>v. fi_findingId (vf_finding v)) (derived_findings events)"
  "keyed (\<lambda>v. dc_decisionId (vd_decision v)) (derived_decisions events)"
proof -
  have fold: "keyed (\<lambda>v. fi_findingId (vf_finding v)) (vi_findings (foldl (\<lambda>ix e. index_view e (payload e) ix) ix es))
      \<and> keyed (\<lambda>v. dc_decisionId (vd_decision v)) (vi_decisions (foldl (\<lambda>ix e. index_view e (payload e) ix) ix es))"
    if "keyed (\<lambda>v. fi_findingId (vf_finding v)) (vi_findings ix)"
      "keyed (\<lambda>v. dc_decisionId (vd_decision v)) (vi_decisions ix)" for ix es
    using that
  proof (induction es arbitrary: ix)
    case (Cons e es)
    have "keyed (\<lambda>v. fi_findingId (vf_finding v)) (vi_findings (index_view e (payload e) ix))
        \<and> keyed (\<lambda>v. dc_decisionId (vd_decision v)) (vi_decisions (index_view e (payload e) ix))"
      using Cons.prems by (cases "payload e") (simp_all add: keyed_set Let_def)
    then show ?case using Cons.IH by simp
  qed simp
  have "keyed (\<lambda>v. fi_findingId (vf_finding v)) (vi_findings (view_index_of events))
      \<and> keyed (\<lambda>v. dc_decisionId (vd_decision v)) (vi_decisions (view_index_of events))"
    unfolding view_index_of_def by (rule fold) (simp_all add: keyed_def)
  then show "keyed (\<lambda>v. fi_findingId (vf_finding v)) (derived_findings events)"
    "keyed (\<lambda>v. dc_decisionId (vd_decision v)) (derived_decisions events)"
    by (auto simp: keyed_def derived_findings_def derived_decisions_def complete_finding_def complete_decision_def
        Let_def comp_def case_prod_beta)
qed

definition state_keyed :: "work_graph_state \<Rightarrow> bool" where
  "state_keyed st \<longleftrightarrow> keyed gn_id (fst (wg_graph st)) \<and> keyed ge_edgeId (snd (wg_graph st))
     \<and> keyed (\<lambda>v. fi_findingId (vf_finding v)) (wg_findings st)
     \<and> keyed (\<lambda>v. dc_decisionId (vd_decision v)) (wg_decisions st)"

lemma graph_ok_keyed: "graph_ok g \<Longrightarrow> keyed gn_id (fst g) \<and> keyed ge_edgeId (snd g)"
  by (simp add: graph_ok_def nodes_ok_def edges_ok_def keyed_iff)

lemma derive_all_views:
  "wg_findings (derive_all sha st) = derived_findings (map_values (wg_eventsById st))"
  "wg_decisions (derive_all sha st) = derived_decisions (map_values (wg_eventsById st))"
  "wg_coverageInputs (derive_all sha st) =
     deriveProjectionCoverage sha (map_values (wg_eventsById st)) [] (wg_corrections st)"
  by (simp_all add: derive_all_def Let_def)

lemma project_fold_ok: "graph_ok g \<Longrightarrow> graph_ok (foldl (project_event sha c) g es)"
  by (induction es arbitrary: g) (simp_all add: graph_ok_project)

lemma graph_ok_empty: "graph_ok ([], [])"
  by (simp add: graph_ok_def nodes_ok_def edges_ok_def)

lemma state_keyed_build: "state_keyed (buildProjection sha events)"
  using graph_ok_keyed [OF project_fold_ok [OF graph_ok_empty]] keyed_views
  unfolding state_keyed_def buildProjection_fields by (simp add: buildProjection_def derive_all_views)

lemma served_snapshot:
  assumes "state_keyed st"
  shows "snapshotFromState sha (stateFromRecord (recordFromState sha st position gaps) eventsById) []
    = snapshotFromState sha st gaps"
proof -
  let ?rec = "recordFromState sha st position gaps"
  have fields: "wg_graph (stateFromRecord ?rec eventsById) = wg_graph st"
    "wg_findings (stateFromRecord ?rec eventsById) = wg_findings st"
    "wg_decisions (stateFromRecord ?rec eventsById) = wg_decisions st"
    using assms keyed_rebuilt [of gn_id "fst (wg_graph st)"] keyed_rebuilt [of ge_edgeId "snd (wg_graph st)"]
      keyed_rebuilt [of "\<lambda>v. fi_findingId (vf_finding v)" "wg_findings st"]
      keyed_rebuilt [of "\<lambda>v. dc_decisionId (vd_decision v)" "wg_decisions st"]
    unfolding state_keyed_def recordFromState_def stateFromRecord_def by simp_all
  have coverage: "wg_coverageInputs (stateFromRecord ?rec eventsById) = (if gaps = [] then wg_coverageInputs st
      else deriveProjectionCoverage sha (map_values (wg_eventsById st)) gaps (wg_corrections st))"
    by (simp add: recordFromState_def stateFromRecord_def)
  show ?thesis unfolding snapshotFromState_def Let_def fields coverage by simp
qed


section \<open>The watermark\<close>

lemma max_applied_step:
  "(\<forall>r \<in> set rows. er_event_id r \<in> ids) \<Longrightarrow> sorted_wrt (<) (map er_insertion_position rows)
   \<Longrightarrow> (\<forall>r \<in> set rows. n < er_insertion_position r)
   \<Longrightarrow> foldl (\<lambda>watermark r. if er_event_id r \<in> ids \<and> watermark < er_insertion_position r
         then er_insertion_position r else watermark) n rows
     = (if rows = [] then n else er_insertion_position (last rows))"
proof (induction rows arbitrary: n)
  case (Cons r rows)
  then show ?case by (cases rows) auto
qed simp

lemma max_applied_ignores:
  "(\<forall>r \<in> set rows. er_event_id r \<notin> ids)
   \<Longrightarrow> foldl (\<lambda>watermark r. if er_event_id r \<in> ids \<and> watermark < er_insertion_position r
         then er_insertion_position r else watermark) n rows = n"
  by (induction rows) simp_all

lemma row_events_ids:
  assumes "store_ok sha parse st" and "set rows \<subseteq> set (st_events st)"
  shows "eventId ` set (map (event_of parse) rows) = er_event_id ` set rows"
proof -
  have "eventId (event_of parse r) = er_event_id r" if "r \<in> set rows" for r
  proof -
    have "row_ok sha parse r" using assms that by (auto simp: store_ok_def)
    then show ?thesis using row_ok_event by blast
  qed
  then show ?thesis by (simp add: image_image)
qed

lemma query_all: "query_rows st all_events = st_events st"
  by (simp add: query_rows_def row_matches_def all_events_def asks_def)

lemma query_after: "query_rows st (all_events\<lparr>eq_afterPosition := Some n\<rparr>)
    = filter (\<lambda>r. n < er_insertion_position r) (st_events st)"
  unfolding query_rows_def by (intro filter_cong refl) (simp add: row_matches_def all_events_def asks_def)

lemma positions_last:
  assumes "sorted_wrt (<) (map er_insertion_position rows)" and "r \<in> set rows"
  shows "er_insertion_position r \<le> er_insertion_position (last rows)"
proof -
  from assms(2) obtain k where k: "k < length rows" "r = rows ! k" by (auto simp: in_set_conv_nth)
  then have "rows \<noteq> []" by auto
  show ?thesis
  proof (cases "k = length rows - 1")
    case True
    then show ?thesis using k \<open>rows \<noteq> []\<close> by (simp add: last_conv_nth)
  next
    case False
    then have "map er_insertion_position rows ! k < map er_insertion_position rows ! (length rows - 1)"
      using assms(1) k by (intro sorted_wrt_nth_less [where P = "(<)"]) simp_all
    then show ?thesis using k \<open>rows \<noteq> []\<close> by (simp add: last_conv_nth)
  qed
qed

lemma below_watermark: "\<not> p < r \<Longrightarrow> (xs \<noteq> [] \<Longrightarrow> p < x) \<Longrightarrow> (r :: nat) \<le> (if xs = [] then p else x)"
  by auto

lemma latest_row:
  assumes "store_ok sha parse st" and "\<not> st_closed st" and "st_events st \<noteq> []"
  shows "latestPosition st = Inr (er_insertion_position (last (st_events st)))"
proof -
  have "Max (er_insertion_position ` set (st_events st)) = er_insertion_position (last (st_events st))"
    using positions_last assms by (intro Max_eqI) (auto simp: store_ok_def)
  then show ?thesis using assms(2,3) by (simp add: latestPosition_def assertOpen_def)
qed

text \<open>
  The watermark saved after a delta never runs ahead of what was applied: whatever rows other
  processes append between reading the delta and saving, the rows after the saved position are
  exactly those, so the next read applies every one of them.
\<close>

theorem watermark_not_ahead:
  assumes "store_ok sha parse st" and "store_ok sha parse st'" and "st_events st' = st_events st @ later"
    and "\<not> st_closed st"
    and "read_events parse (all_events\<lparr>eq_afterPosition := Some position\<rparr>) st = Inr fresh"
    and "\<exists>r \<in> set (st_events st). position \<le> er_insertion_position r"
  shows "filter (\<lambda>r. maxAppliedPosition st' position (set (map eventId fresh)) < er_insertion_position r)
    (st_events st') = later"
proof -
  let ?delta = "filter (\<lambda>r. position < er_insertion_position r) (st_events st)"
  have sorted: "sorted_wrt (<) (map er_insertion_position (st_events st @ later))"
    and ids: "distinct (map er_event_id (st_events st @ later))"
    using assms(2) unfolding assms(3) [symmetric] by (simp_all add: store_ok_def)
  have after: "er_insertion_position r < er_insertion_position l" if "r \<in> set (st_events st)" "l \<in> set later" for r l
    using sorted that by (simp add: sorted_wrt_append)
  obtain r0 where r0: "r0 \<in> set (st_events st)" "position \<le> er_insertion_position r0" using assms(6) by blast
  have later: "filter (\<lambda>r. position < er_insertion_position r) (st_events st') = ?delta @ later"
    unfolding assms(3) filter_append using after [OF r0(1)] order.strict_trans1 [OF r0(2)]
    by (simp add: filter_id_conv)
  have "fresh = map (event_of parse) ?delta"
    using read_events_ok [OF assms(1,4)] assms(5) unfolding query_after [symmetric] by simp
  then have applied: "set (map eventId fresh) = er_event_id ` set ?delta"
    using row_events_ids [OF assms(1), of ?delta] by (simp add: image_image)
  have "er_event_id l \<notin> er_event_id ` set ?delta" if "l \<in> set later" for l
    using ids that by auto
  moreover have "sorted_wrt (<) (map er_insertion_position ?delta)"
    using sorted by (simp add: sorted_wrt_append sorted_wrt_map_filter)
  ultimately have watermark: "maxAppliedPosition st' position (set (map eventId fresh))
      = (if ?delta = [] then position else er_insertion_position (last ?delta))"
    unfolding maxAppliedPosition_def later foldl_append applied
    by (subst max_applied_ignores) (simp, subst max_applied_step, simp_all)
  have low: "er_insertion_position r \<le> (if ?delta = [] then position else er_insertion_position (last ?delta))"
    if "r \<in> set (st_events st)" for r
  proof (cases "position < er_insertion_position r")
    case True
    then have "r \<in> set ?delta" using that by simp
    moreover from this have "?delta \<noteq> []" by (metis list.set(1) empty_iff)
    ultimately show ?thesis using positions_last [of ?delta r] sorted
      by (simp add: sorted_wrt_append sorted_wrt_map_filter)
  next
    case False
    have "position < er_insertion_position (last ?delta)" if "?delta \<noteq> []"
      using last_in_set [OF that] by simp
    then show ?thesis by (rule below_watermark [OF False])
  qed
  have high: "(if ?delta = [] then position else er_insertion_position (last ?delta)) < er_insertion_position l"
    if "l \<in> set later" for l
  proof (cases "?delta = []")
    case True
    then show ?thesis using after [OF r0(1) that] r0(2) by simp
  next
    case False
    then have "last ?delta \<in> set (st_events st)" using last_in_set [OF False] by simp
    then show ?thesis using after that False by simp
  qed
  show ?thesis unfolding watermark assms(3) filter_append
    using low high by (auto simp: filter_empty_conv filter_id_conv not_less)
qed


section \<open>Serving the checkpoint\<close>

definition positive_positions :: "store \<Rightarrow> bool" where
  "positive_positions st \<longleftrightarrow> 0 < st_next_position st \<and> (\<forall>r \<in> set (st_events st). 0 < er_insertion_position r)"

lemma append_positions:
  assumes ok: "store_ok sha parse st" and inv: "parse_inverts parse inputs" and pos: "positive_positions st"
  shows "positive_positions (snd (appendAtomic sha lc parse now inputs options st))"
proof (cases "append_transaction sha lc parse now inputs options st")
  case (Inl err)
  then show ?thesis using pos by (simp add: appendAtomic_def)
next
  case (Inr r)
  obtain results st' where r: "append_transaction sha lc parse now inputs options st = Inr (results, st')"
    using Inr by (cases r) auto
  from append_shape [OF r inv] have "positive_positions st'"
  proof
    assume "\<exists>new plan. plan = plan_append options st new \<and> distinct (map ca_id new)
      \<and> (\<forall>c \<in> set new. candidate_ok sha parse c \<and> Inr (ca_event c) \<in> set inputs \<and> ca_id c \<notin> set (durable_ids st))
      \<and> commit_plan parse now plan st = Inr st'"
    then obtain new plan where p: "plan = plan_append options st new" "\<forall>c \<in> set new. candidate_ok sha parse c"
      "commit_plan parse now plan st = Inr st'" by blast
    from committed_rows [OF ok p] obtain promoted st2 where c:
      "insert_all (map candidate_row (ap_admitted plan) @ promoted) st = Inr st2"
      "buffer_all now (ap_deferred plan)
         (remove_pending (map pr_event_id (ap_promoted plan) @ ap_superseded plan) st2) = Inr st'" by blast
    then show ?thesis
      using buffer_all_spec [OF c(2)] pos rows_from_positions
        [of "st_next_position st" "map candidate_row (ap_admitted plan) @ promoted"]
      by (auto simp: insert_all_spec remove_pending_def positive_positions_def)
  qed (use pos in simp)
  then show ?thesis by (simp add: appendAtomic_def r)
qed

lemma ledger_positive: "ledger sha lc parse allowed st \<Longrightarrow> positive_positions st"
proof (induction rule: ledger.induct)
  case (ledger_append st inputs options now)
  then show ?case using append_positions ledger_ok by blast
qed (simp_all add: positive_positions_def store_open_def store_close_def snd_prune prune_store_def Let_def)

lemma ledger_positions: "ledger sha lc parse allowed st \<Longrightarrow> \<forall>r \<in> set (st_events st). 0 < er_insertion_position r"
  using ledger_positive by (simp add: positive_positions_def)

definition saved_record :: "(string \<Rightarrow> string) \<Rightarrow> store \<Rightarrow> work_graph_result \<Rightarrow> projection_record" where
  "saved_record sha st result = recordFromState sha (wr_state result)
     (er_insertion_position (last (st_events st))) (wr_sourceSequenceGaps result)"

lemma projectWorkGraph_state:
  assumes "projectWorkGraph sha lc events = Some (Inr result)"
  shows "state_keyed (wr_state result)
    \<and> wr_snapshot result = snapshotFromState sha (wr_state result) (wr_sourceSequenceGaps result)"
proof -
  obtain z where "replayEvents sha lc () (\<lambda>s e. ()) events = Some z"
    and z: "raise_bind z (\<lambda>replay. let st = buildProjection sha (rr_orderedEvents replay)
      in Inr \<lparr>wr_orderedEvents = rr_orderedEvents replay, wr_sourceSequenceGaps = rr_sourceSequenceGaps replay,
        wr_state = st, wr_snapshot = snapshotFromState sha st (rr_sourceSequenceGaps replay)\<rparr>) = Inr result"
    using assms unfolding projectWorkGraph_def by (auto simp: map_option_case split: option.splits)
  from z show ?thesis using state_keyed_build by (cases z) (auto simp: raise_bind_def Let_def)
qed

lemma rebuild_saves:
  assumes "store_ok sha parse (pd_store db)" and "\<not> st_closed (pd_store db)"
    and "\<forall>r \<in> set (st_events (pd_store db)). 0 < er_insertion_position r" and "st_events (pd_store db) \<noteq> []"
    and "full_rebuild sha lc parse stringify True db stats = Some (Inr result, db', stats')"
  shows "db' = saveProjectionCheckpoint sha stringify (saved_record sha (pd_store db) result) db
    \<and> state_keyed (wr_state result)
    \<and> wr_snapshot result = snapshotFromState sha (wr_state result) (wr_sourceSequenceGaps result)"
proof -
  let ?rows = "st_events (pd_store db)"
  let ?events = "map (event_of parse) ?rows"
  have read: "read_events parse all_events (pd_store db) = Inr ?events"
    using read_events_ok [OF assms(1,2)] by (simp add: query_all)
  obtain z where z: "projectWorkGraph sha lc ?events = Some z"
    using assms(5) unfolding full_rebuild_def read by (auto simp: map_option_case split: option.splits)
  have project: "projectWorkGraph sha lc ?events = Some (Inr result)"
    and db': "db' = persistQuietly sha stringify True (recordFromState sha (wr_state result)
      (maxAppliedPosition (pd_store db) 0 (set (map eventId ?events))) (wr_sourceSequenceGaps result)) db"
    using assms(5) unfolding full_rebuild_def read by (cases z; simp add: z)+
  have "set (map eventId ?events) = er_event_id ` set ?rows"
    using row_events_ids [OF assms(1), of ?rows] by (simp add: image_image)
  then have "maxAppliedPosition (pd_store db) 0 (set (map eventId ?events)) = er_insertion_position (last ?rows)"
    using assms(1,3,4) max_applied_step [of ?rows "er_event_id ` set ?rows" 0]
    unfolding maxAppliedPosition_def by (simp add: store_ok_def filter_id_conv)
  then show ?thesis
    using projectWorkGraph_state [OF project] db' by (simp add: persistQuietly_def saved_record_def)
qed

lemma served_while_last_kept:
  assumes "store_ok sha parse st" and "\<not> st_closed st" and "st_events st \<noteq> []"
    and "er_insertion_position (last (st_events st)) = pj_lastInsertionPosition rec"
    and "pj_projectorVersion rec = projector_version" and "parse_record (stringify rec) = Some rec"
  shows "projectWorkGraphCached sha lc parse raw stringify parse_record writable False
      (saveProjectionCheckpoint sha stringify rec db\<lparr>pd_store := st\<rparr>) stats
    = Some (Inr (serve_checkpoint sha rec), saveProjectionCheckpoint sha stringify rec db\<lparr>pd_store := st\<rparr>,
        stats\<lparr>ps_zeroDeltaServes := Suc (ps_zeroDeltaServes stats), ps_lastAppliedCount := 0\<rparr>)"
proof -
  let ?db = "saveProjectionCheckpoint sha stringify rec db\<lparr>pd_store := st\<rparr>"
  have loaded: "loadProjectionCheckpoint sha stringify parse_record ?db = Some rec"
    using assms(6) by (simp add: loadProjectionCheckpoint_def saveProjectionCheckpoint_def checkpointRecordHash_def)
  have "databaseHasPosition st (pj_lastInsertionPosition rec)"
    using assms(3) last_in_set unfolding databaseHasPosition_def assms(4) [symmetric] by blast
  then have valid: "valid_checkpoint ?db rec"
    using latest_row [OF assms(1-3)] assms(4,5) by (simp add: valid_checkpoint_def)
  have "filter (\<lambda>r. pj_lastInsertionPosition rec < er_insertion_position r) (st_events st) = []"
    using positions_last assms(1) unfolding assms(4) [symmetric]
    by (auto simp: filter_empty_conv store_ok_def not_less)
  then have "read_events parse (all_events\<lparr>eq_afterPosition := Some (pj_lastInsertionPosition rec)\<rparr>) st = Inr []"
    using read_events_ok [OF assms(1,2)] by (simp add: query_after)
  then show ?thesis unfolding projectWorkGraphCached_def loaded using valid by simp
qed

lemma served_saved:
  assumes "state_keyed (wr_state result)"
    and "wr_snapshot result = snapshotFromState sha (wr_state result) (wr_sourceSequenceGaps result)"
  shows "wr_snapshot (serve_checkpoint sha (saved_record sha st result)) = wr_snapshot result
    \<and> wr_sourceSequenceGaps (serve_checkpoint sha (saved_record sha st result)) = wr_sourceSequenceGaps result"
  using served_snapshot [OF assms(1)] assms(2)
  by (simp add: serve_checkpoint_def saved_record_def Let_def) (simp add: recordFromState_def)

lemma saved_record_fields:
  "pj_projectorVersion (saved_record sha st result) = projector_version"
  "pj_lastInsertionPosition (saved_record sha st result) = er_insertion_position (last (st_events st))"
  by (simp_all add: saved_record_def recordFromState_def)

text \<open>After a rebuild has been saved, any store that still ends with the same row is served the saved snapshot.\<close>

lemma served_after:
  assumes "store_ok sha parse (pd_store db)" and "\<not> st_closed (pd_store db)"
    and "\<forall>r \<in> set (st_events (pd_store db)). 0 < er_insertion_position r" and "st_events (pd_store db) \<noteq> []"
    and "projectWorkGraphCached sha lc parse raw stringify parse_record True True db stats = Some (Inr result, db', stats')"
    and "parse_record (stringify (saved_record sha (pd_store db) result)) = Some (saved_record sha (pd_store db) result)"
    and "store_ok sha parse st" and "\<not> st_closed st" and "st_events st \<noteq> []"
    and "last (st_events st) = last (st_events (pd_store db))"
  shows "\<exists>served. projectWorkGraphCached sha lc parse raw stringify parse_record True False
        (db'\<lparr>pd_store := st\<rparr>) stats' = Some (Inr served, db'\<lparr>pd_store := st\<rparr>,
          stats'\<lparr>ps_zeroDeltaServes := Suc (ps_zeroDeltaServes stats'), ps_lastAppliedCount := 0\<rparr>)
      \<and> wr_snapshot served = wr_snapshot result
      \<and> wr_sourceSequenceGaps served = wr_sourceSequenceGaps result"
proof -
  let ?rec = "saved_record sha (pd_store db) result"
  have "full_rebuild sha lc parse stringify True db stats = Some (Inr result, db', stats')"
    using assms(5) by (simp add: projectWorkGraphCached_def)
  from rebuild_saves [OF assms(1-4) this]
  have db': "db' = saveProjectionCheckpoint sha stringify ?rec db" and keyed: "state_keyed (wr_state result)"
    and snapshot: "wr_snapshot result = snapshotFromState sha (wr_state result) (wr_sourceSequenceGaps result)"
    by simp_all
  have "er_insertion_position (last (st_events st)) = pj_lastInsertionPosition ?rec"
    by (simp add: saved_record_fields assms(10))
  from served_while_last_kept [where rec = ?rec, OF assms(7-9) this saved_record_fields(1)
      [where sha = sha and st = "pd_store db" and result = result]] assms(6)
  show ?thesis unfolding db' using served_saved [OF keyed snapshot] by (simp add: saved_record_fields)
qed


text \<open>
  C31: What a rebuild saves, the next read serves: after a verifying read of a non-empty ledger whose
  checkpoint could be written, and as long as the ledger does not change, a cached read answers with
  the snapshot and the sequence gaps of that rebuild, without applying any event and without writing.
\<close>

theorem served_after_rebuild:
  assumes "ledger sha lc parse allowed (pd_store db)" and "\<not> st_closed (pd_store db)"
    and "st_events (pd_store db) \<noteq> []"
    and "projectWorkGraphCached sha lc parse raw stringify parse_record True True db stats = Some (Inr result, db', stats')"
    and "parse_record (stringify (saved_record sha (pd_store db) result)) = Some (saved_record sha (pd_store db) result)"
  shows "\<exists>served. projectWorkGraphCached sha lc parse raw stringify parse_record True False db' stats'
      = Some (Inr served, db', stats'\<lparr>ps_zeroDeltaServes := Suc (ps_zeroDeltaServes stats'), ps_lastAppliedCount := 0\<rparr>)
      \<and> wr_snapshot served = wr_snapshot result
      \<and> wr_sourceSequenceGaps served = wr_sourceSequenceGaps result"
proof -
  have ok: "store_ok sha parse (pd_store db)" by (rule ledger_ok [OF assms(1)])
  have "full_rebuild sha lc parse stringify True db stats = Some (Inr result, db', stats')"
    using assms(4) by (simp add: projectWorkGraphCached_def)
  from rebuild_saves [OF ok assms(2) ledger_positions [OF assms(1)] assms(3) this]
  have "db'\<lparr>pd_store := pd_store db\<rparr> = db'" by (simp add: saveProjectionCheckpoint_def)
  then show ?thesis
    using served_after [OF ok assms(2) ledger_positions [OF assms(1)] assms(3-5) ok assms(2,3) refl] by simp
qed


lemma prune_keeps_last:
  assumes "st_events st \<noteq> []" and "cutoff \<le> er_timestamp (last (st_events st))"
  shows "st_events (prune_store cutoff st) \<noteq> [] \<and> last (st_events (prune_store cutoff st)) = last (st_events st)"
proof -
  obtain rows r where rows: "st_events st = rows @ [r]" using assms(1) by (metis rev_exhaust)
  then have "\<not> er_timestamp r < cutoff" using assms(2) by (simp add: not_less)
  then show ?thesis by (simp add: prune_store_def Let_def rows)
qed

text \<open>
  A checkpoint outlives the history it was built from: when pruning keeps the newest row, which is
  the watermarked one, the next cached read of the pruned ledger still answers with the snapshot of
  the unpruned ledger, although \<open>databaseHasPosition\<close> is there to reject exactly such a checkpoint.
\<close>

theorem prune_serves_stale:
  assumes "ledger sha lc parse allowed (pd_store db)" and "\<not> st_closed (pd_store db)"
    and "st_events (pd_store db) \<noteq> []" and "cutoff \<le> er_timestamp (last (st_events (pd_store db)))"
    and "projectWorkGraphCached sha lc parse raw stringify parse_record True True db stats = Some (Inr result, db', stats')"
    and "parse_record (stringify (saved_record sha (pd_store db) result)) = Some (saved_record sha (pd_store db) result)"
  shows "\<exists>served stats''. projectWorkGraphCached sha lc parse raw stringify parse_record True False
      (db'\<lparr>pd_store := snd (prune cutoff (pd_store db))\<rparr>) stats'
      = Some (Inr served, db'\<lparr>pd_store := snd (prune cutoff (pd_store db))\<rparr>, stats'')
    \<and> wr_snapshot served = wr_snapshot result"
proof -
  have ok: "store_ok sha parse (pd_store db)" by (rule ledger_ok [OF assms(1)])
  have pruned: "snd (prune cutoff (pd_store db)) = prune_store cutoff (pd_store db)"
    using assms(2) by (simp add: snd_prune)
  have kept: "st_events (prune_store cutoff (pd_store db)) \<noteq> []"
    "last (st_events (prune_store cutoff (pd_store db))) = last (st_events (pd_store db))"
    using prune_keeps_last [OF assms(3,4)] by simp_all
  have "\<not> st_closed (prune_store cutoff (pd_store db))"
    using assms(2) by (simp add: prune_store_def Let_def)
  from served_after [OF ok assms(2) ledger_positions [OF assms(1)] assms(3,5,6) prune_keeps_ok [OF ok] this kept]
  show ?thesis unfolding pruned by blast
qed

section \<open>Witnesses\<close>

definition demo_ledger_before :: store where
  "demo_ledger_before = demo_ledger\<lparr>st_events := take 2 (st_events demo_ledger)\<rparr>"

lemma demo_ledger_before_ok: "store_ok (\<lambda>_. ''h'') (demo_parse demo_tool_run) demo_ledger_before"
  using demo_ledger_ok by (simp add: demo_ledger_before_def store_ok_def demo_ledger_rows)

lemma demo_fresh: "read_events (demo_parse demo_tool_run) (all_events\<lparr>eq_afterPosition := Some 1\<rparr>) demo_ledger_before
    = Inr [demo_completion]"
proof -
  have "read_events (demo_parse demo_tool_run) (all_events\<lparr>eq_afterPosition := Some 1\<rparr>) demo_ledger_before
      = Inr (map (event_of (demo_parse demo_tool_run)) [row_of 2 demo_completion ''h'' (event_canonical demo_completion)])"
    using read_events_ok [OF demo_ledger_before_ok]
    by (simp add: query_after demo_ledger_before_def demo_ledger_rows row_of_def)
  also have "\<dots> = Inr [demo_completion]"
    by code_simp
  finally show ?thesis .
qed

theorem watermark_not_ahead_witness:
  "filter (\<lambda>r. maxAppliedPosition demo_ledger 1 (set (map eventId [demo_completion])) < er_insertion_position r)
     (st_events demo_ledger) = [row_of 3 demo_change ''h'' (event_canonical demo_change)]"
  by (rule watermark_not_ahead [OF demo_ledger_before_ok demo_ledger_ok _ _ demo_fresh])
    (simp_all add: demo_ledger_before_def demo_ledger_rows)

definition aged_run :: "event list" where
  "aged_run = [(demo_reader ''b'' ''t2'')\<lparr>timestamp := ''2026-01-02T00:00:00Z''\<rparr>, demo_reader ''a'' ''t1'']"

definition aged_ledger :: store where
  "aged_ledger = snd (appendAtomic (\<lambda>_. ''h'') compareStrings (demo_parse aged_run) ''now''
     (map Inr aged_run) checked_buffering store_open)"

lemma aged_rows: "aged_ledger = \<lparr>st_events = [row_of 1 (aged_run ! 1) ''h'' (event_canonical (aged_run ! 1)),
     row_of 2 (aged_run ! 0) ''h'' (event_canonical (aged_run ! 0))],
   st_next_position = 3, st_pending = [], st_next_buffered = 1, st_closed = False\<rparr>"
  by code_simp

lemma aged_reached: "ledger (\<lambda>_. ''h'') compareStrings (demo_parse aged_run) (\<lambda>_. True) aged_ledger"
proof -
  have "distinct (map event_canonical aged_run)" by code_simp
  then show ?thesis unfolding aged_ledger_def
    by (intro ledger_append ledger_open demo_parse_inverts subset_refl) simp_all
qed

lemma aged_projects: "case (projectWorkGraph (\<lambda>_. ''h'') compareStrings (rev aged_run),
    projectWorkGraph (\<lambda>_. ''h'') compareStrings [aged_run ! 0]) of
      (Some (Inr both), Some (Inr survivor)) \<Rightarrow> wr_snapshot both \<noteq> wr_snapshot survivor | _ \<Rightarrow> False"
  by code_simp

lemma aged_projections:
  obtains both survivor where "projectWorkGraph (\<lambda>_. ''h'') compareStrings (rev aged_run) = Some (Inr both)"
    "projectWorkGraph (\<lambda>_. ''h'') compareStrings [aged_run ! 0] = Some (Inr survivor)"
    "wr_snapshot both \<noteq> wr_snapshot survivor"
proof (cases "projectWorkGraph (\<lambda>_. ''h'') compareStrings (rev aged_run)")
  case (Some x)
  with that aged_projects show thesis
    by (cases "projectWorkGraph (\<lambda>_. ''h'') compareStrings [aged_run ! 0]"; cases x; simp)
      (auto split: sum.splits)
qed (use aged_projects in simp)

definition aged_db :: projection_db where
  "aged_db = \<lparr>pd_store = aged_ledger, pd_checkpoint = None\<rparr>"

lemma aged_read: "read_events (demo_parse aged_run) all_events aged_ledger = Inr (rev aged_run)"
proof -
  have "\<not> st_closed aged_ledger" by (simp add: aged_rows)
  from read_events_ok [OF ledger_ok [OF aged_reached] this]
  have "read_events (demo_parse aged_run) all_events aged_ledger
      = Inr (map (event_of (demo_parse aged_run)) [row_of 1 (aged_run ! 1) ''h'' (event_canonical (aged_run ! 1)),
          row_of 2 (aged_run ! 0) ''h'' (event_canonical (aged_run ! 0))])"
    by (simp add: query_all aged_rows)
  also have "\<dots> = Inr (rev aged_run)" by code_simp
  finally show ?thesis .
qed

lemma aged_rebuild: "\<exists>result db' stats'. projectWorkGraph (\<lambda>_. ''h'') compareStrings (rev aged_run) = Some (Inr result)
    \<and> projectWorkGraphCached (\<lambda>_. ''h'') compareStrings (demo_parse aged_run) raw stringify parse_record True True
        aged_db stats = Some (Inr result, db', stats')"
proof -
  obtain result where "projectWorkGraph (\<lambda>_. ''h'') compareStrings (rev aged_run) = Some (Inr result)"
    using aged_projections by blast
  then show ?thesis
    by (simp add: projectWorkGraphCached_def full_rebuild_def aged_db_def aged_read)
qed

theorem served_after_rebuild_witness:
  "\<exists>result rec db' stats' served. projectWorkGraphCached (\<lambda>_. ''h'') compareStrings (demo_parse aged_run) Map.empty
      (\<lambda>_. ''{}'') (\<lambda>_. Some rec) True False db' stats' = Some (Inr served, db',
        stats'\<lparr>ps_zeroDeltaServes := Suc (ps_zeroDeltaServes stats'), ps_lastAppliedCount := 0\<rparr>)
    \<and> projectWorkGraph (\<lambda>_. ''h'') compareStrings (rev aged_run) = Some (Inr result)
    \<and> wr_snapshot served = wr_snapshot result"
proof -
  let ?rec = "\<lambda>result. saved_record (\<lambda>_. ''h'') aged_ledger result"
  obtain result where project: "projectWorkGraph (\<lambda>_. ''h'') compareStrings (rev aged_run) = Some (Inr result)"
    using aged_rebuild by blast
  obtain db' stats' where "projectWorkGraphCached (\<lambda>_. ''h'') compareStrings (demo_parse aged_run) Map.empty
      (\<lambda>_. ''{}'') (\<lambda>_. Some (?rec result)) True True aged_db clearProjectionCacheStats = Some (Inr result, db', stats')"
    using aged_rebuild [of Map.empty "\<lambda>_. ''{}''" "\<lambda>_. Some (?rec result)" clearProjectionCacheStats] project by auto
  from served_after_rebuild [OF _ _ _ this, of "\<lambda>_. True"] aged_reached project show ?thesis
    by (simp add: aged_db_def) (auto simp: aged_rows)
qed

theorem prune_serves_stale_witness:
  "\<exists>both survivor rec db' stats' served stats''.
      projectWorkGraphCached (\<lambda>_. ''h'') compareStrings (demo_parse aged_run) Map.empty (\<lambda>_. ''{}'') (\<lambda>_. Some rec)
        True False (db'\<lparr>pd_store := snd (prune ''2026-01-02T00:00:00Z'' aged_ledger)\<rparr>) stats'
      = Some (Inr served, db'\<lparr>pd_store := snd (prune ''2026-01-02T00:00:00Z'' aged_ledger)\<rparr>, stats'')
    \<and> projectWorkGraph (\<lambda>_. ''h'') compareStrings (rev aged_run) = Some (Inr both)
    \<and> projectWorkGraph (\<lambda>_. ''h'') compareStrings [aged_run ! 0] = Some (Inr survivor)
    \<and> wr_snapshot served = wr_snapshot both \<and> wr_snapshot served \<noteq> wr_snapshot survivor"
proof -
  let ?rec = "\<lambda>result. saved_record (\<lambda>_. ''h'') aged_ledger result"
  obtain both survivor where project: "projectWorkGraph (\<lambda>_. ''h'') compareStrings (rev aged_run) = Some (Inr both)"
    "projectWorkGraph (\<lambda>_. ''h'') compareStrings [aged_run ! 0] = Some (Inr survivor)"
    "wr_snapshot both \<noteq> wr_snapshot survivor"
    by (rule aged_projections)
  obtain db' stats' where "projectWorkGraphCached (\<lambda>_. ''h'') compareStrings (demo_parse aged_run) Map.empty
      (\<lambda>_. ''{}'') (\<lambda>_. Some (?rec both)) True True aged_db clearProjectionCacheStats = Some (Inr both, db', stats')"
    using aged_rebuild [of Map.empty "\<lambda>_. ''{}''" "\<lambda>_. Some (?rec both)" clearProjectionCacheStats] project(1) by auto
  from prune_serves_stale [OF _ _ _ _ this, of "\<lambda>_. True" "''2026-01-02T00:00:00Z''"] aged_reached
  have "\<exists>served stats''. projectWorkGraphCached (\<lambda>_. ''h'') compareStrings (demo_parse aged_run) Map.empty
        (\<lambda>_. ''{}'') (\<lambda>_. Some (?rec both)) True False
        (db'\<lparr>pd_store := snd (prune ''2026-01-02T00:00:00Z'' aged_ledger)\<rparr>) stats'
      = Some (Inr served, db'\<lparr>pd_store := snd (prune ''2026-01-02T00:00:00Z'' aged_ledger)\<rparr>, stats'')
    \<and> wr_snapshot served = wr_snapshot both"
    by (simp add: aged_db_def) (simp add: aged_rows row_of_def aged_run_def demo_reader_def demo_event_def)
  then show ?thesis using project by metis
qed

end
