(* ===== verification/Js_Text.thy ===== *)
theory Js_Text
  imports Canonical_Json "HOL-Library.Sublist"
begin

text \<open>
  The string operations of JavaScript and the POSIX path operations of \<open>node:path\<close> that the recorder
  and the query packages use: \<open>trim\<close>, \<open>toLowerCase\<close>, \<open>split\<close>, \<open>startsWith\<close> (\<open>prefix\<close>), \<open>endsWith\<close>
  (\<open>suffix\<close>), \<open>lastIndexOf\<close>, \<open>isAbsolute\<close>, \<open>resolve\<close>, \<open>relative\<close>, \<open>join\<close>.  A resolved path is the list
  of its segments; \<open>abs_path\<close> is its text.
\<close>

section \<open>Strings\<close>

definition char_in :: "nat \<Rightarrow> nat \<Rightarrow> char \<Rightarrow> bool" where
  "char_in lo hi c \<longleftrightarrow> lo \<le> (of_char c :: nat) \<and> (of_char c :: nat) \<le> hi"

definition lower_alnum :: "char \<Rightarrow> bool" where
  "lower_alnum c \<longleftrightarrow> char_in 48 57 c \<or> char_in 97 122 c"

text \<open>The character class \<open>[a-z0-9._-]\<close>.\<close>

definition id_char :: "char \<Rightarrow> bool" where
  "id_char c \<longleftrightarrow> lower_alnum c \<or> c \<in> set ''._-''"

definition lower_hex :: "char \<Rightarrow> bool" where
  "lower_hex c \<longleftrightarrow> char_in 48 57 c \<or> char_in 97 102 c"

text \<open>The pattern \<open>[a-z0-9][a-z0-9._-]{0,63}\<close>, matched against the whole string.\<close>

definition id_body :: "string \<Rightarrow> bool" where
  "id_body s \<longleftrightarrow> s \<noteq> [] \<and> lower_alnum (hd s) \<and> list_all id_char (tl s) \<and> length s \<le> 64"

definition js_space :: "char \<Rightarrow> bool" where
  "js_space c \<longleftrightarrow> char_in 9 13 c \<or> (of_char c :: nat) = 32 \<or> (of_char c :: nat) = 160"

definition trim :: "string \<Rightarrow> string" where
  "trim s = rev (dropWhile js_space (rev (dropWhile js_space s)))"

definition lower_char :: "char \<Rightarrow> char" where
  "lower_char c = (if char_in 65 90 c \<or> (char_in 192 222 c \<and> (of_char c :: nat) \<noteq> 215)
     then char_of ((of_char c :: nat) + 32) else c)"

definition toLowerCase :: "string \<Rightarrow> string" where
  "toLowerCase s = map lower_char s"

fun js_split :: "char \<Rightarrow> string \<Rightarrow> string list" where
  "js_split sep [] = [[]]"
| "js_split sep (c # cs) =
     (if c = sep then [] # js_split sep cs
      else case js_split sep cs of [] \<Rightarrow> [[c]] | part # parts \<Rightarrow> (c # part) # parts)"

definition last_index_of :: "string \<Rightarrow> string \<Rightarrow> nat option" where
  "last_index_of needle s =
     (case filter (\<lambda>k. prefix needle (drop k s)) [0..<Suc (length s)] of [] \<Rightarrow> None | k # ks \<Rightarrow> Some (last (k # ks)))"

definition index_of :: "string \<Rightarrow> string \<Rightarrow> nat option" where
  "index_of needle s = List.find (\<lambda>k. prefix needle (drop k s)) [0..<Suc (length s)]"

definition line_end :: "char \<Rightarrow> bool" where
  "line_end c \<longleftrightarrow> c = CHR 0x0A \<or> c = CHR 0x0D"

text \<open>Whether some line of the text begins with \<open>lead\<close>: the regular expression \<open>^lead\<close> with the flag \<open>m\<close>.\<close>

fun line_begins :: "string \<Rightarrow> bool \<Rightarrow> string \<Rightarrow> bool" where
  "line_begins lead at_start [] \<longleftrightarrow> at_start \<and> lead = []"
| "line_begins lead at_start (c # cs) \<longleftrightarrow>
     (at_start \<and> prefix lead (c # cs)) \<or> line_begins lead (line_end c) cs"

section \<open>Lemmas on strings\<close>

lemma js_split_not_Nil [simp]: "js_split sep s \<noteq> []"
  by (induction s) (auto split: list.splits)

lemma js_split_no_sep: "x \<in> set (js_split sep s) \<Longrightarrow> sep \<notin> set x"
proof (induction s arbitrary: x)
  case (Cons c cs)
  then show ?case by (cases "js_split sep cs") (auto split: if_splits)
qed simp

lemma in_js_split: "x \<in> set (js_split sep s) \<Longrightarrow> set x \<subseteq> set s"
proof (induction s arbitrary: x)
  case (Cons c cs)
  obtain part parts where parts: "js_split sep cs = part # parts" by (cases "js_split sep cs") auto
  have "set y \<subseteq> set cs" if "y = part \<or> y \<in> set parts" for y using Cons.IH that parts by auto
  then show ?case using Cons.prems parts by (cases "c = sep") (auto, blast+)
qed simp

lemma js_split_plain: "sep \<notin> set x \<Longrightarrow> js_split sep x = [x]"
  by (induction x) auto

lemma js_split_append: "sep \<notin> set x \<Longrightarrow> js_split sep (x @ sep # s) = x # js_split sep s"
  by (induction x) auto

lemma js_split_between: "js_split sep (s @ sep # t) = js_split sep s @ js_split sep t"
proof (induction s)
  case (Cons c s)
  then show ?case by (cases "js_split sep s") auto
qed simp

lemma js_split_join:
  "xs \<noteq> [] \<Longrightarrow> \<forall>x \<in> set xs. sep \<notin> set x \<Longrightarrow> js_split sep (join [sep] xs) = xs"
proof (induction "[sep]" xs rule: join.induct)
  case (2 x)
  then show ?case by (simp add: js_split_plain)
next
  case (3 x y ys)
  then show ?case by (simp add: js_split_append)
qed simp

lemma join_js_split: "join [sep] (js_split sep s) = s"
proof (induction s)
  case (Cons c cs)
  obtain part parts where parts: "js_split sep cs = part # parts" by (cases "js_split sep cs") auto
  with Cons show ?case by (cases parts) auto
qed simp

lemma trim_Nil_iff: "trim s = [] \<longleftrightarrow> list_all js_space s"
proof -
  have "trim s = [] \<longleftrightarrow> (\<forall>c \<in> set (dropWhile js_space s). js_space c)"
    by (simp add: trim_def dropWhile_eq_Nil_conv)
  also have "\<dots> \<longleftrightarrow> dropWhile js_space s = []"
    by (metis hd_dropWhile hd_in_set empty_iff list.set(1))
  finally show ?thesis by (simp add: dropWhile_eq_Nil_conv list_all_iff)
qed

lemma trim_own:
  assumes "\<not> js_space (hd s)" and "\<not> js_space (last s)"
  shows "trim s = s"
proof (cases "s = []")
  case False
  then have "dropWhile js_space s = s" "dropWhile js_space (rev s) = rev s"
    using assms by (simp_all add: dropWhile_eq_self_iff hd_rev)
  then show ?thesis by (simp add: trim_def)
qed (simp add: trim_def)

lemma join_append: "xs \<noteq> [] \<Longrightarrow> ys \<noteq> [] \<Longrightarrow> join sep (xs @ ys) = join sep xs @ sep @ join sep ys"
proof (induction sep xs rule: join.induct)
  case (2 sep x)
  then show ?case by (cases ys) simp_all
qed simp_all

lemma join_chars: "c \<in> set (join sep xs) \<Longrightarrow> c \<in> set sep \<or> (\<exists>x \<in> set xs. c \<in> set x)"
  by (induction sep xs rule: join.induct) auto

lemma last_index_ofI:
  assumes "prefix needle (drop n s)" and "n \<le> length s" and "\<And>k. n < k \<Longrightarrow> \<not> prefix needle (drop k s)"
  shows "last_index_of needle s = Some n"
proof -
  let ?P = "\<lambda>k. prefix needle (drop k s)"
  have "[0..<Suc (length s)] = [0..<n] @ n # [Suc n..<Suc (length s)]"
    using assms(2) upt_add_eq_append [of 0 n "Suc (length s) - n"] upt_conv_Cons [of n "Suc (length s)"] by simp
  moreover have "filter ?P [Suc n..<Suc (length s)] = []"
    using assms(3) by (intro filter_False) (auto simp del: upt_Suc simp: Suc_le_eq)
  ultimately have "filter ?P [0..<Suc (length s)] = filter ?P [0..<n] @ [n]"
    using assms(1) by (simp only: filter_append filter.simps if_True)
  then show ?thesis
    unfolding last_index_of_def by (cases "filter ?P [0..<n]") (simp_all only: append_Nil append_Cons list.case, simp_all)
qed

section \<open>Paths\<close>

definition path_segments :: "string \<Rightarrow> string list" where
  "path_segments p = filter (\<lambda>s. s \<noteq> []) (js_split CHR ''/'' p)"

definition isAbsolute :: "string \<Rightarrow> bool" where
  "isAbsolute p \<longleftrightarrow> prefix ''/'' p"

text \<open>Walking segments from an absolute directory: \<open>.\<close> stays, \<open>..\<close> leaves, stopping at the root.\<close>

definition walk :: "string list \<Rightarrow> string list \<Rightarrow> string list" where
  "walk base segments = foldl (\<lambda>dir s. if s = ''.'' then dir else if s = ''..'' then butlast dir else dir @ [s]) base segments"

definition abs_path :: "string list \<Rightarrow> string" where
  "abs_path segments = CHR ''/'' # join ''/'' segments"

text \<open>\<open>path.resolve(p)\<close> and \<open>path.resolve(base, p)\<close> in a process whose directory is \<open>cwd\<close>.\<close>

definition resolve1 :: "string list \<Rightarrow> string \<Rightarrow> string list" where
  "resolve1 cwd p = walk (if isAbsolute p then [] else cwd) (path_segments p)"

definition resolve2 :: "string list \<Rightarrow> string \<Rightarrow> string \<Rightarrow> string list" where
  "resolve2 cwd base p = resolve1 (resolve1 cwd base) p"

fun common_prefix :: "'a list \<Rightarrow> 'a list \<Rightarrow> nat" where
  "common_prefix (x # xs) (y # ys) = (if x = y then Suc (common_prefix xs ys) else 0)"
| "common_prefix _ _ = 0"

definition relative_path :: "string list \<Rightarrow> string list \<Rightarrow> string" where
  "relative_path from to =
     (let k = common_prefix from to
      in join ''/'' (replicate (length from - k) ''..'' @ drop k to))"

definition plain_segment :: "string \<Rightarrow> bool" where
  "plain_segment s \<longleftrightarrow> s \<noteq> [] \<and> CHR ''/'' \<notin> set s \<and> s \<noteq> ''.'' \<and> s \<noteq> ''..''"

lemma path_segments_join:
  assumes "\<forall>x \<in> set xs. x \<noteq> [] \<and> CHR ''/'' \<notin> set x"
  shows "path_segments (join ''/'' xs) = xs"
proof (cases "xs = []")
  case False
  then have "js_split CHR ''/'' (join ''/'' xs) = xs" using assms by (intro js_split_join) auto
  then show ?thesis using assms by (simp add: path_segments_def)
qed (simp add: path_segments_def)

lemma path_segments_abs:
  assumes "\<forall>x \<in> set xs. x \<noteq> [] \<and> CHR ''/'' \<notin> set x"
  shows "path_segments (abs_path xs) = xs"
  using path_segments_join [OF assms] by (simp add: path_segments_def abs_path_def)

lemma path_segments_plain: "x \<in> set (path_segments p) \<Longrightarrow> x \<noteq> [] \<and> CHR ''/'' \<notin> set x"
  using js_split_no_sep by (auto simp: path_segments_def)

lemma walk_plain: "list_all plain_segment segments \<Longrightarrow> walk base segments = base @ segments"
  by (induction segments arbitrary: base) (simp_all add: walk_def plain_segment_def)

lemma walk_segments:
  "list_all plain_segment base \<Longrightarrow> \<forall>x \<in> set segments. x \<noteq> [] \<and> CHR ''/'' \<notin> set x
   \<Longrightarrow> list_all plain_segment (walk base segments)"
proof (induction segments arbitrary: base)
  case (Cons s segments)
  let ?next = "if s = ''.'' then base else if s = ''..'' then butlast base else base @ [s]"
  have "list_all plain_segment ?next"
    using Cons.prems by (auto simp: list_all_iff plain_segment_def dest: in_set_butlastD)
  with Cons show ?case by (simp add: walk_def)
qed (simp add: walk_def)

lemma resolve1_plain: "list_all plain_segment cwd \<Longrightarrow> list_all plain_segment (resolve1 cwd p)"
  unfolding resolve1_def using path_segments_plain by (intro walk_segments) auto

lemma resolve1_abs: "list_all plain_segment xs \<Longrightarrow> resolve1 cwd (abs_path xs) = xs"
  using path_segments_abs [of xs] walk_plain [of xs "[]"]
  by (auto simp: resolve1_def isAbsolute_def abs_path_def list_all_iff plain_segment_def)

lemma common_prefix_append: "common_prefix xs (xs @ ys) = length xs"
  by (induction xs) simp_all

lemma relative_path_below: "relative_path xs (xs @ ys) = join ''/'' ys"
  by (simp add: relative_path_def common_prefix_append)

lemma common_prefix_le: "common_prefix xs ys \<le> length xs \<and> common_prefix xs ys \<le> length ys
    \<and> take (common_prefix xs ys) xs = take (common_prefix xs ys) ys"
  by (induction xs ys rule: common_prefix.induct) auto

lemma relative_path_outside:
  assumes "\<not> prefix from to"
  shows "\<exists>rest. relative_path from to = join ''/'' (''..'' # rest) \<and> (\<exists>k. rest = replicate (length rest - length (drop k to)) ''..'' @ drop k to)"
proof -
  let ?k = "common_prefix from to"
  have "?k < length from"
  proof (rule ccontr)
    assume "\<not> ?k < length from"
    then have "take ?k from = from" by simp
    then have "from = take ?k to" using common_prefix_le [of "from" to] by simp
    then show False using assms by (metis take_is_prefix)
  qed
  then obtain n where "length from - ?k = Suc n" by (metis Suc_diff_Suc)
  then show ?thesis
    unfolding relative_path_def Let_def
    by (intro exI [of _ "replicate n ''..'' @ drop ?k to"]) (auto intro: exI [of _ ?k])
qed

end
