(* ===== verification/Identity.thy ===== *)
theory Identity
  imports Js_Text "HOL-Library.Word"
begin

text \<open>
  The recorder's identities: \<open>recorder/src/identity.ts\<close>.  Paths are POSIX.

  \<open>cwd\<close> is the process directory as segments, \<open>fs\<close> what \<open>statSync\<close> and \<open>readFileSync\<close> see at a path,
  \<open>realpath\<close> is \<open>realpathSync.native\<close> (\<open>None\<close> when it throws), \<open>sha_bytes\<close> the 32 bytes of SHA-256 and
  \<open>sha\<close> its hexadecimal text.
\<close>

unbundle bit_operations_syntax

datatype fs_entry = Fs_dir | Fs_file string

type_synonym file_system = "string \<Rightarrow> fs_entry option"

section \<open>Deterministic identifiers\<close>

definition hex_digit :: "nat \<Rightarrow> char" where
  "hex_digit n = (if n < 10 then char_of (48 + n) else char_of (87 + n))"

definition byte_hex :: "8 word \<Rightarrow> string" where
  "byte_hex b = [hex_digit (unat b div 16), hex_digit (unat b mod 16)]"

definition deterministicUuid :: "(string \<Rightarrow> 8 word list) \<Rightarrow> string \<Rightarrow> string \<Rightarrow> string" where
  "deterministicUuid sha_bytes namespace name =
     (let digest = take 16 (sha_bytes (namespace @ CHR 0x00 # name));
          bytes = digest[6 := (digest ! 6 AND 0x0f) OR 0x50, 8 := (digest ! 8 AND 0x3f) OR 0x80];
          hex = concat (map byte_hex bytes)
      in join ''-'' [take 8 hex, take 4 (drop 8 hex), take 4 (drop 12 hex), take 4 (drop 16 hex),
           take 12 (drop 20 hex)])"

text \<open>\<open>random_digest\<close> stands for the digest of process id, clock and random number.\<close>

definition randomHex :: "string \<Rightarrow> nat \<Rightarrow> string" where
  "randomHex random_digest n = take n random_digest"

definition createEventId :: "string \<Rightarrow> string" where
  "createEventId random_digest = ''evt_'' @ randomHex random_digest 32"

definition createCorrelationId :: "string \<Rightarrow> string" where
  "createCorrelationId random_digest = ''corr_'' @ randomHex random_digest 32"

section \<open>Worktrees\<close>

definition separatorNormalized :: "string \<Rightarrow> string" where
  "separatorNormalized s = join ''/'' (js_split CHR 0x5C s)"

definition node_at :: "string list \<Rightarrow> string \<Rightarrow> string" where
  "node_at directory name = abs_path (directory @ [name])"

function find_root :: "file_system \<Rightarrow> string list \<Rightarrow> string list option" where
  "find_root fs current =
     (if fs (node_at current ''.git'') \<noteq> None then Some current
      else if current = [] then None
      else find_root fs (butlast current))"
  by auto

termination find_root
  by (relation "measure (\<lambda>(fs, current). length current)") auto

declare find_root.simps [simp del]

definition findWorktreeRoot :: "file_system \<Rightarrow> string list \<Rightarrow> string \<Rightarrow> string option" where
  "findWorktreeRoot fs cwd startDirectory = map_option abs_path (find_root fs (resolve1 cwd startDirectory))"

text \<open>\<open>/^gitdir:\s*(.+)$/u\<close> on the trimmed contents, and the trimmed first group.\<close>

definition gitdir_of :: "string \<Rightarrow> string option" where
  "gitdir_of contents =
     (let text = trim contents; rest = dropWhile js_space (drop 7 text)
      in if prefix ''gitdir:'' text \<and> rest \<noteq> [] \<and> list_all (\<lambda>c. \<not> line_end c) rest then Some (trim rest) else None)"

text \<open>A worktree root is given by its segments: every caller passes an absolute path.\<close>

definition commonGitDirectory :: "file_system \<Rightarrow> string list \<Rightarrow> string option" where
  "commonGitDirectory fs worktreeRoot =
     (case fs (node_at worktreeRoot ''.git'') of
        None \<Rightarrow> None
      | Some Fs_dir \<Rightarrow> Some (separatorNormalized (node_at worktreeRoot ''.git''))
      | Some (Fs_file contents) \<Rightarrow>
          map_option (\<lambda>target.
            let gitdir = separatorNormalized (abs_path (resolve1 worktreeRoot target))
            in case last_index_of ''/worktrees/'' gitdir of None \<Rightarrow> gitdir | Some k \<Rightarrow> take k gitdir)
            (gitdir_of contents))"

definition repositoryKey :: "file_system \<Rightarrow> string list \<Rightarrow> string" where
  "repositoryKey fs worktreeRoot =
     (case commonGitDirectory fs worktreeRoot of None \<Rightarrow> abs_path worktreeRoot | Some d \<Rightarrow> d)"

text \<open>\<open>resolve(dirname(d))\<close> of an absolute path that ends with \<open>/.git\<close> drops the last segment.\<close>

definition ledgerRootFor :: "file_system \<Rightarrow> string list \<Rightarrow> string list" where
  "ledgerRootFor fs worktreeRoot =
     (case commonGitDirectory fs worktreeRoot of
        None \<Rightarrow> worktreeRoot
      | Some d \<Rightarrow>
          if \<not> suffix ''/.git'' d then worktreeRoot
          else let primary = resolve1 [] (take (length d - 5) d)
               in if fs (abs_path primary) = Some Fs_dir then primary else worktreeRoot)"

section \<open>Hashed identities\<close>

definition canonicalPath :: "(string \<Rightarrow> string option) \<Rightarrow> string list \<Rightarrow> string \<Rightarrow> string" where
  "canonicalPath realpath cwd p =
     (let absolute = abs_path (resolve1 cwd p);
          resolved = (case realpath absolute of None \<Rightarrow> absolute | Some r \<Rightarrow> r)
      in case resolved of
           drive # CHR '':'' # rest \<Rightarrow>
             (if char_in 97 122 drive then char_of ((of_char drive :: nat) - 32) # CHR '':'' # rest else resolved)
         | _ \<Rightarrow> resolved)"

definition identityKey :: "(string \<Rightarrow> string option) \<Rightarrow> string list \<Rightarrow> string \<Rightarrow> string" where
  "identityKey realpath cwd p = separatorNormalized (canonicalPath realpath cwd p)"

record repository_identity =
  ri_worktreeRoot :: string
  ri_repositoryId :: string
  ri_workspaceId :: string
  ri_worktreeId :: string

definition resolveRepositoryIdentity ::
    "(string \<Rightarrow> 8 word list) \<Rightarrow> (string \<Rightarrow> string option) \<Rightarrow> file_system \<Rightarrow> string list \<Rightarrow> string list
     \<Rightarrow> repository_identity" where
  "resolveRepositoryIdentity sha_bytes realpath fs cwd worktreeRoot =
     \<lparr>ri_worktreeRoot = canonicalPath realpath cwd (abs_path worktreeRoot),
      ri_repositoryId = ''repo_'' @ deterministicUuid sha_bytes ''patchmesh:repository''
        (identityKey realpath cwd (repositoryKey fs worktreeRoot)),
      ri_workspaceId = ''ws_'' @ deterministicUuid sha_bytes ''patchmesh:workspace''
        (identityKey realpath cwd (abs_path (ledgerRootFor fs worktreeRoot))),
      ri_worktreeId = ''wt_'' @ deterministicUuid sha_bytes ''patchmesh:worktree''
        (identityKey realpath cwd (abs_path worktreeRoot))\<rparr>"

section \<open>Agents and tasks\<close>

definition slugForIdentity :: "string \<Rightarrow> string option" where
  "slugForIdentity value' =
     (let slug = dropWhile (\<lambda>c. \<not> lower_alnum c)
            (map (\<lambda>c. if id_char c then c else CHR ''-'') (toLowerCase value'))
      in if slug = [] then None else Some (take 64 slug))"

definition agentIdForSession :: "string \<Rightarrow> string option" where
  "agentIdForSession sessionId = map_option (\<lambda>slug. ''agent_'' @ slug) (slugForIdentity sessionId)"

definition subagentIdFor :: "string \<Rightarrow> string \<Rightarrow> string option" where
  "subagentIdFor sessionId delegateId =
     (case (slugForIdentity sessionId, slugForIdentity delegateId) of
        (Some session, Some delegate) \<Rightarrow> Some (''agent_'' @ take 8 session @ ''.sub.'' @ take 40 delegate)
      | _ \<Rightarrow> None)"

definition taskIdForDelegate :: "string \<Rightarrow> string option" where
  "taskIdForDelegate delegateId = map_option (\<lambda>slug. ''task_'' @ slug) (slugForIdentity delegateId)"

definition taskIdForTurn :: "(string \<Rightarrow> string) \<Rightarrow> string \<Rightarrow> string option \<Rightarrow> string \<Rightarrow> string option" where
  "taskIdForTurn sha sessionId promptId since =
     (case Option.bind promptId slugForIdentity of
        Some slug \<Rightarrow> Some (''task_'' @ slug)
      | None \<Rightarrow>
          map_option (\<lambda>session. ''task_turn.'' @ take 8 session @ ''.''
              @ take 12 (sha (sessionId @ CHR 0x00 # since)))
            (slugForIdentity sessionId))"

section \<open>Resources\<close>

text \<open>\<open>nfc\<close> is \<open>normalize("NFC")\<close>; \<open>JSON.stringify\<close> of an array of strings.\<close>

definition resourceIdForPath :: "(string \<Rightarrow> string) \<Rightarrow> (string \<Rightarrow> string) \<Rightarrow> string \<Rightarrow> string \<Rightarrow> string" where
  "resourceIdForPath sha nfc repositoryId logicalPath =
     ''res_'' @ sha (json_stringify (JArr [JStr repositoryId, JStr ''file'', JStr (nfc logicalPath)]))"

definition drive_prefixed :: "string \<Rightarrow> bool" where
  "drive_prefixed p \<longleftrightarrow> 2 \<le> length p \<and> (char_in 65 90 (p ! 0) \<or> char_in 97 122 (p ! 0)) \<and> p ! 1 = CHR '':''"

definition logicalPathFor :: "string list \<Rightarrow> string \<Rightarrow> string \<Rightarrow> string option" where
  "logicalPathFor cwd worktreeRoot candidate =
     (if trim candidate = [] then None
      else let absolute = (if isAbsolute candidate then resolve1 cwd candidate else resolve2 cwd worktreeRoot candidate);
               relativePath = separatorNormalized (relative_path (resolve1 cwd worktreeRoot) absolute)
           in if relativePath = [] \<or> prefix ''../'' relativePath \<or> relativePath = ''..'' then None
              else if isAbsolute relativePath \<or> drive_prefixed relativePath then None
              else if suffix ''/'' relativePath \<or> sublist ''//'' relativePath then None
              else if \<exists>segment \<in> set (js_split CHR ''/'' relativePath). segment = ''.'' \<or> segment = ''..'' then None
              else if CHR 0x00 \<in> set relativePath then None
              else Some relativePath)"


section \<open>Shapes\<close>

lemma nibble_hex: "n < 16 \<Longrightarrow> lower_hex (hex_digit n)"
  by (simp add: hex_digit_def lower_hex_def char_in_def char_code_small)

lemma byte_range: "unat (b :: 8 word) < 256"
  using unsigned_less [of b, where ?'a = nat] by simp

lemma byte_hex_ok: "length (byte_hex b) = 2" "list_all lower_hex (byte_hex b)"
proof -
  show "length (byte_hex b) = 2" "list_all lower_hex (byte_hex b)"
    using byte_range [of b] nibble_hex [of "unat b div 16"] nibble_hex [of "unat b mod 16"] by (simp_all add: byte_hex_def)
qed

lemma byte_hex_high: "byte_hex b ! 0 = hex_digit (unat (drop_bit 4 b))"
proof -
  have "unat (drop_bit 4 b) = drop_bit 4 (unat b)" by (rule unat_drop_bit_eq)
  also have "\<dots> = unat b div 16" by (simp add: drop_bit_eq_div)
  finally show ?thesis by (simp add: byte_hex_def)
qed

lemma version_byte: "byte_hex ((b AND 0x0f) OR 0x50 :: 8 word) ! 0 = CHR ''5''"
proof -
  have "drop_bit 4 (0x0f :: 8 word) = 0" "drop_bit 4 (0x50 :: 8 word) = 5" by code_simp+
  then have five: "drop_bit 4 ((b AND 0x0f) OR 0x50) = 5" by (simp add: drop_bit_and drop_bit_or)
  show ?thesis unfolding byte_hex_high five by code_simp
qed

lemma variant_byte: "byte_hex ((b AND 0x3f) OR 0x80 :: 8 word) ! 0 \<in> set ''89ab''"
proof -
  have "drop_bit 4 (0x3f :: 8 word) = mask 2" "drop_bit 4 (0x80 :: 8 word) = 8" by code_simp+
  then have high: "drop_bit 4 ((b AND 0x3f) OR 0x80) = take_bit 2 (drop_bit 4 b) OR 8"
    by (simp add: drop_bit_and drop_bit_or take_bit_eq_mask)
  define x where "x = take_bit 2 (drop_bit 4 b)"
  have "unat x = take_bit 2 (unat (drop_bit 4 b))" by (simp only: x_def unsigned_take_bit_eq)
  then have "unat x < 4" by (simp add: take_bit_eq_mod)
  then have "unat x = 0 \<or> unat x = 1 \<or> unat x = 2 \<or> unat x = 3" by arith
  moreover have "x = y" if "unat x = unat y" for y using that by (rule unsigned_word_eqI)
  from this [of 0] this [of 1] this [of 2] this [of 3] calculation
  have "x = 0 \<or> x = 1 \<or> x = 2 \<or> x = 3" by auto
  then show ?thesis unfolding byte_hex_high high x_def [symmetric] by (elim disjE; simp only:) code_simp+
qed

lemma concat_bytes: "length (concat (map byte_hex bs)) = 2 * length bs \<and> list_all lower_hex (concat (map byte_hex bs))"
  by (induction bs) (simp_all add: byte_hex_ok)

lemma high_digit: "k < length bs \<Longrightarrow> concat (map byte_hex bs) ! (2 * k) = byte_hex (bs ! k) ! 0"
proof (induction bs arbitrary: k)
  case (Cons b bs)
  then show ?case by (cases k) (simp_all add: nth_append byte_hex_ok)
qed simp

definition uuid_v5 :: "string \<Rightarrow> bool" where
  "uuid_v5 s \<longleftrightarrow> (\<exists>a b c d e. s = a @ ''-'' @ b @ ''-'' @ c @ ''-'' @ d @ ''-'' @ e
     \<and> length a = 8 \<and> length b = 4 \<and> length c = 4 \<and> length d = 4 \<and> length e = 12
     \<and> list_all lower_hex (a @ b @ c @ d @ e) \<and> c ! 0 = CHR ''5'' \<and> d ! 0 \<in> set ''89ab'')"

text \<open>
  Every derived identifier is a version 5 UUID: whatever the digest, the text has the groups of
  8, 4, 4, 4 and 12 lower-case hexadecimal digits, the version digit 5 and a variant digit in 8-b.
\<close>

theorem uuid_shape:
  assumes "length (sha_bytes (namespace @ CHR 0x00 # name)) = 32"
  shows "uuid_v5 (deterministicUuid sha_bytes namespace name)"
proof -
  define digest where "digest = take 16 (sha_bytes (namespace @ CHR 0x00 # name))"
  define bytes where "bytes = digest[6 := (digest ! 6 AND 0x0f) OR 0x50, 8 := (digest ! 8 AND 0x3f) OR 0x80]"
  define hex where "hex = concat (map byte_hex bytes)"
  have len: "length digest = 16" "length bytes = 16" using assms by (simp_all add: digest_def bytes_def)
  have hex: "length hex = 32" "list_all lower_hex hex"
    using concat_bytes [of bytes] len by (simp_all add: hex_def)
  have version: "hex ! 12 = CHR ''5''" and variant: "hex ! 16 \<in> set ''89ab''"
    using high_digit [of 6 bytes] high_digit [of 8 bytes] len version_byte variant_byte
    by (simp_all add: hex_def bytes_def)
  have groups: "deterministicUuid sha_bytes namespace name = take 8 hex @ ''-'' @ take 4 (drop 8 hex) @ ''-''
      @ take 4 (drop 12 hex) @ ''-'' @ take 4 (drop 16 hex) @ ''-'' @ take 12 (drop 20 hex)"
    by (simp only: deterministicUuid_def Let_def hex_def bytes_def digest_def join.simps)
  have part: "list_all lower_hex (take m (drop n hex))" for m n
    using hex(2) by (auto simp: list_all_iff dest: in_set_takeD in_set_dropD)
  have parts: "list_all lower_hex (take 8 hex @ take 4 (drop 8 hex) @ take 4 (drop 12 hex)
      @ take 4 (drop 16 hex) @ take 12 (drop 20 hex))"
    using part part [of 8 0] by (simp only: list_all_append drop_0)
  have lengths: "length (take 8 hex) = 8" "length (take 4 (drop 8 hex)) = 4" "length (take 4 (drop 12 hex)) = 4"
    "length (take 4 (drop 16 hex)) = 4" "length (take 12 (drop 20 hex)) = 12"
    using hex(1) by simp_all
  have "take 4 (drop 12 hex) ! 0 = CHR ''5''" "take 4 (drop 16 hex) ! 0 \<in> set ''89ab''"
    using version variant hex(1) by simp_all
  then show ?thesis unfolding uuid_v5_def using groups lengths parts by blast
qed

theorem uuid_shape_witness: "uuid_v5 (deterministicUuid (\<lambda>_. replicate 32 0xff) ''patchmesh:mailbox'' ''repo'')"
  by (rule uuid_shape) simp

section \<open>Identifier bodies\<close>

definition agent_id :: "string \<Rightarrow> bool" where
  "agent_id s \<longleftrightarrow> prefix ''agent_'' s \<and> id_body (drop 6 s)"

definition task_id :: "string \<Rightarrow> bool" where
  "task_id s \<longleftrightarrow> prefix ''task_'' s \<and> id_body (drop 5 s)"

lemma lower_alnum_id: "lower_alnum c \<Longrightarrow> id_char c"
  by (simp add: id_char_def)

lemma slug_body: "slugForIdentity v = Some s \<Longrightarrow> id_body s"
proof -
  assume slug: "slugForIdentity v = Some s"
  define chars where "chars = map (\<lambda>c. if id_char c then c else CHR ''-'') (toLowerCase v)"
  define rest where "rest = dropWhile (\<lambda>c. \<not> lower_alnum c) chars"
  have s: "s = take 64 rest" "rest \<noteq> []"
    using slug by (simp_all add: slugForIdentity_def Let_def rest_def chars_def split: if_splits)
  have "id_char (CHR ''-'')" by code_simp
  then have "\<forall>c \<in> set chars. id_char c" by (auto simp: chars_def)
  then have chars: "\<forall>c \<in> set rest. id_char c" by (auto simp: rest_def dest: set_dropWhileD)
  have "lower_alnum (hd rest)" using s(2) hd_dropWhile [of "\<lambda>c. \<not> lower_alnum c" chars] by (simp add: rest_def)
  with s chars show "id_body s"
    by (cases rest) (auto simp: id_body_def list_all_iff dest: in_set_takeD)
qed

lemma body_take: "id_body s \<Longrightarrow> 0 < n \<Longrightarrow> id_body (take n s)"
  by (cases s; cases n) (auto simp: id_body_def list_all_iff dest: in_set_takeD)

lemma body_chars: "id_body s \<Longrightarrow> list_all id_char s"
  by (cases s) (auto simp: id_body_def lower_alnum_id)

lemma body_append: "id_body s \<Longrightarrow> list_all id_char t \<Longrightarrow> length s + length t \<le> 64 \<Longrightarrow> id_body (s @ t)"
  by (cases s) (auto simp: id_body_def list_all_iff)

lemma slug_own: "id_body s \<Longrightarrow> slugForIdentity s = Some s"
proof -
  assume body: "id_body s"
  have same: "lower_char c = c" if "id_char c" for c
  proof -
    have "\<not> char_in 65 90 c \<and> \<not> char_in 192 222 c"
      using that by (auto simp: id_char_def lower_alnum_def char_in_def)
    then show ?thesis by (simp add: lower_char_def)
  qed
  have "map (\<lambda>c. if id_char c then c else CHR ''-'') (toLowerCase s) = s"
    using body_chars [OF body] same by (simp add: toLowerCase_def list_all_iff map_idI)
  then show "slugForIdentity s = Some s"
    using body by (cases s) (simp_all add: slugForIdentity_def id_body_def)
qed

text \<open>
  C38: Whatever text a host declares, the identifiers derived from it have the form the identity schema
  requires (a body of at most 64 characters of \<open>[a-z0-9._-]\<close> that starts with a letter or digit), and
  an identifier body that already has that form is kept as it is.
\<close>

theorem identity_bodies:
  "(agentIdForSession v = Some a \<longrightarrow> agent_id a)
   \<and> (subagentIdFor v d = Some b \<longrightarrow> agent_id b)
   \<and> (taskIdForDelegate d = Some t \<longrightarrow> task_id t)
   \<and> (id_body v \<longrightarrow> agentIdForSession v = Some (''agent_'' @ v) \<and> taskIdForDelegate v = Some (''task_'' @ v))"
proof (intro conjI impI)
  assume "agentIdForSession v = Some a"
  then show "agent_id a" using slug_body by (auto simp: agentIdForSession_def agent_id_def)
next
  assume "subagentIdFor v d = Some b"
  then obtain session delegate where slugs: "slugForIdentity v = Some session" "slugForIdentity d = Some delegate"
    and b: "b = ''agent_'' @ take 8 session @ ''.sub.'' @ take 40 delegate"
    by (auto simp: subagentIdFor_def split: option.splits)
  have "list_all id_char ''.sub.''" by code_simp
  moreover have "list_all id_char (take 40 delegate)"
    using body_chars [OF body_take [OF slug_body [OF slugs(2)]]] by simp
  ultimately have "id_body (take 8 session @ ''.sub.'' @ take 40 delegate)"
    using body_take [OF slug_body [OF slugs(1)], of 8] by (intro body_append) simp_all
  then show "agent_id b" by (simp add: b agent_id_def)
next
  assume "taskIdForDelegate d = Some t"
  then show "task_id t" using slug_body by (auto simp: taskIdForDelegate_def task_id_def)
qed (simp_all add: agentIdForSession_def taskIdForDelegate_def slug_own)


theorem identity_bodies_witness:
  "agent_id ''agent_s-1'' \<and> agent_id ''agent_s-1.sub.tool_7'' \<and> task_id ''task_tool_7''
   \<and> agentIdForSession ''s-1'' = Some ''agent_s-1''"
proof -
  have "agentIdForSession '' S 1'' = Some ''agent_s-1''" "subagentIdFor ''S 1'' ''tool_7'' = Some ''agent_s-1.sub.tool_7''"
    "taskIdForDelegate ''Tool_7'' = Some ''task_tool_7''" "id_body ''s-1''" "subagentIdFor ''s-1'' ''Tool_7'' = Some ''agent_s-1.sub.tool_7''"
    "agentIdForSession ''s-1'' = Some ''agent_s-1''"
    by code_simp+
  then show ?thesis
    using identity_bodies [of "''s-1''" "''agent_s-1''" "''Tool_7''" "''agent_s-1.sub.tool_7''" "''task_tool_7''"] by blast
qed

section \<open>Worktrees of one repository\<close>

lemma find_root_nearest:
  "find_root fs current = Some r \<longleftrightarrow>
     prefix r current \<and> fs (node_at r ''.git'') \<noteq> None
     \<and> (\<forall>below. prefix below current \<longrightarrow> fs (node_at below ''.git'') \<noteq> None \<longrightarrow> prefix below r)"
proof (induction fs current rule: find_root.induct)
  case (1 fs current)
  have step: "find_root fs current = (if fs (node_at current ''.git'') \<noteq> None then Some current
      else if current = [] then None else find_root fs (butlast current))"
    by (rule find_root.simps)
  show ?case
  proof (cases "fs (node_at current ''.git'') = None")
    case False
    then show ?thesis unfolding step by (auto dest: prefix_order.antisym)
  next
    case True
    show ?thesis
    proof (cases "current = []")
      case True
      with \<open>fs (node_at current ''.git'') = None\<close> show ?thesis unfolding step by auto
    next
      case nonempty: False
      have below: "prefix p current \<longleftrightarrow> p = current \<or> prefix p (butlast current)" for p
        using nonempty prefix_snoc [of p "butlast current" "last current"] by simp
      show ?thesis
        unfolding step using "1.IH" [OF _ nonempty] True nonempty below by auto
    qed
  qed
qed

lemma marker_no_slash: "CHR ''/'' \<notin> set ''worktrees''"
  by simp

lemma no_marker:
  assumes "\<forall>x \<in> set segs. x \<noteq> ''worktrees'' \<and> CHR ''/'' \<notin> set x" and "segs \<noteq> []"
  shows "\<not> prefix ''/worktrees/'' (drop k (CHR ''/'' # join ''/'' segs))"
proof
  assume "prefix ''/worktrees/'' (drop k (CHR ''/'' # join ''/'' segs))"
  then obtain v where "drop k (CHR ''/'' # join ''/'' segs) = ''/worktrees/'' @ v" by (auto simp: prefix_def)
  then have "CHR ''/'' # join ''/'' segs = take k (CHR ''/'' # join ''/'' segs) @ CHR ''/'' # ''worktrees'' @ CHR ''/'' # v"
    by (metis append_take_drop_id append_Cons append_Nil append_assoc)
  then have "js_split CHR ''/'' (CHR ''/'' # join ''/'' segs)
      = js_split CHR ''/'' (take k (CHR ''/'' # join ''/'' segs)) @ ''worktrees'' # js_split CHR ''/'' v"
    by (metis js_split_between js_split_append marker_no_slash)
  moreover have "js_split CHR ''/'' (CHR ''/'' # join ''/'' segs) = [] # segs"
    using js_split_join [of segs "CHR ''/''"] assms by simp
  ultimately have "''worktrees'' \<in> set ([] # segs)" by (metis in_set_conv_decomp)
  then show False using assms(1) by auto
qed

lemma last_index_after:
  assumes "\<forall>x \<in> set segs. x \<noteq> ''worktrees'' \<and> CHR ''/'' \<notin> set x" and "segs \<noteq> []"
  shows "last_index_of ''/worktrees/'' (d @ ''/worktrees/'' @ join ''/'' segs) = Some (length d)"
proof -
  let ?s = "d @ ''/worktrees/'' @ join ''/'' segs"
  have at_d: "prefix ''/worktrees/'' (drop (length d) ?s)" by simp
  have later: "\<not> prefix ''/worktrees/'' (drop k ?s)" if k: "length d < k" for k
  proof
    assume "prefix ''/worktrees/'' (drop k ?s)"
    then have pre: "prefix ''/worktrees/'' (drop (k - length d) (''/worktrees/'' @ join ''/'' segs))"
      using k by simp
    show False
    proof (cases "k - length d < 10")
      case True
      then have "k - length d = 1 \<or> k - length d = 2 \<or> k - length d = 3 \<or> k - length d = 4
          \<or> k - length d = 5 \<or> k - length d = 6 \<or> k - length d = 7 \<or> k - length d = 8 \<or> k - length d = 9"
        using k by arith
      then show False using pre by auto
    next
      case False
      then have "drop (k - length d) (''/worktrees/'' @ join ''/'' segs)
          = drop (k - length d - 10) (CHR ''/'' # join ''/'' segs)"
        using drop_drop [of "k - length d - 10" 10 "''/worktrees/'' @ join ''/'' segs"] by simp
      then show False using pre no_marker [OF assms] by simp
    qed
  qed
  show ?thesis by (rule last_index_ofI [OF at_d _ later]) simp_all
qed

text \<open>A path whose segments are plain and hold neither a backslash nor a line break.\<close>

definition clean_path :: "string list \<Rightarrow> bool" where
  "clean_path segs \<longleftrightarrow> list_all (\<lambda>s. plain_segment s \<and> CHR 0x5C \<notin> set s \<and> list_all (\<lambda>c. \<not> line_end c) s) segs"

lemma clean_plain: "clean_path segs \<Longrightarrow> list_all plain_segment segs"
  by (simp add: clean_path_def list_all_iff)

lemma separator_same: "CHR 0x5C \<notin> set p \<Longrightarrow> separatorNormalized p = p"
  by (simp add: separatorNormalized_def js_split_plain)

lemma clean_text:
  assumes "clean_path segs"
  shows "separatorNormalized (abs_path segs) = abs_path segs \<and> list_all (\<lambda>c. \<not> line_end c) (abs_path segs)"
proof -
  have chars: "c \<noteq> CHR 0x5C \<and> \<not> line_end c" if "c \<in> set (abs_path segs)" for c
    using that assms join_chars [of c "''/''" segs]
    by (auto simp: abs_path_def clean_path_def list_all_iff line_end_def)
  then show ?thesis by (auto intro!: separator_same simp: list_all_iff)
qed

lemma abs_path_append: "xs \<noteq> [] \<Longrightarrow> ys \<noteq> [] \<Longrightarrow> abs_path (xs @ ys) = abs_path xs @ abs_path ys"
  by (simp add: abs_path_def join_append)

definition pointer_file :: "string list \<Rightarrow> fs_entry" where
  "pointer_file target = Fs_file (''gitdir: '' @ abs_path target @ [CHR 0x0A])"

lemma gitdir_pointer:
  assumes "clean_path target" and "target \<noteq> []" and "\<not> js_space (last (last target))"
  shows "gitdir_of (''gitdir: '' @ abs_path target @ [CHR 0x0A]) = Some (abs_path target)"
proof -
  have nonempty: "last target \<noteq> []"
    using assms(1,2) by (auto simp: clean_path_def list_all_iff plain_segment_def)
  have ends: "last (abs_path target) = last (last target)"
    using assms(2) nonempty
  proof (induction "''/''" target rule: join.induct)
    case (3 x y ys)
    then show ?case by (auto simp: abs_path_def)
  qed (simp_all add: abs_path_def)
  let ?text = "''gitdir: '' @ abs_path target"
  have "abs_path target \<noteq> []" by (simp add: abs_path_def)
  then have "dropWhile js_space (rev ?text) = rev ?text"
    using ends assms(3) by (simp add: dropWhile_eq_self_iff hd_rev)
  then have "dropWhile js_space (rev (?text @ [CHR 0x0A])) = rev ?text"
    by (simp add: js_space_def char_in_def)
  moreover have "dropWhile js_space (?text @ [CHR 0x0A]) = ?text @ [CHR 0x0A]"
    by (simp add: js_space_def char_in_def)
  ultimately have trimmed: "trim (''gitdir: '' @ abs_path target @ [CHR 0x0A]) = ?text"
    unfolding trim_def by (simp only: append_assoc rev_rev_ident)
  have rest: "dropWhile js_space (drop 7 ?text) = abs_path target"
    by (simp add: abs_path_def js_space_def char_in_def)
  have "trim (abs_path target) = abs_path target"
    using ends assms(3) by (intro trim_own) (simp_all add: abs_path_def js_space_def char_in_def)
  then show ?thesis
    using clean_text [OF assms(1)] \<open>abs_path target \<noteq> []\<close> unfolding gitdir_of_def Let_def trimmed rest by simp
qed

lemma common_of_pointer:
  assumes "fs (node_at w ''.git'') = Some (pointer_file target)"
    and "clean_path target" and "target \<noteq> []" and "\<not> js_space (last (last target))"
  shows "commonGitDirectory fs w = Some (case last_index_of ''/worktrees/'' (abs_path target) of
    None \<Rightarrow> abs_path target | Some k \<Rightarrow> take k (abs_path target))"
  using assms(1) gitdir_pointer [OF assms(2-4)] clean_text [OF assms(2)] resolve1_abs [OF clean_plain [OF assms(2)], of w]
  by (simp add: commonGitDirectory_def pointer_file_def Let_def split: option.split)

lemma clean_parts: "clean_path (xs @ ys) \<longleftrightarrow> clean_path xs \<and> clean_path ys"
  by (simp add: clean_path_def)

lemma linked_common:
  assumes "fs (node_at w ''.git'') = Some (pointer_file (main @ [''.git'', ''worktrees''] @ segs))"
    and "clean_path (main @ segs)" and "segs \<noteq> []" and "\<forall>x \<in> set segs. x \<noteq> ''worktrees''"
    and "\<not> js_space (last (last segs))"
  shows "commonGitDirectory fs w = Some (abs_path (main @ [''.git'']))"
proof -
  let ?target = "main @ [''.git'', ''worktrees''] @ segs"
  have "clean_path [''.git'', ''worktrees'']" by code_simp
  then have clean: "clean_path ?target" using assms(2) by (simp only: clean_parts)
  have "abs_path ?target = abs_path (main @ [''.git'']) @ ''/worktrees/'' @ join ''/'' segs"
    using abs_path_append [of "main @ [''.git'']" "[''worktrees''] @ segs"] assms(3)
    by (cases segs) (simp_all add: abs_path_def)
  moreover have "\<forall>x \<in> set segs. x \<noteq> ''worktrees'' \<and> CHR ''/'' \<notin> set x"
    using assms(2,4) by (auto simp: clean_path_def list_all_iff plain_segment_def)
  ultimately show ?thesis
    using common_of_pointer [of fs w ?target] assms(1) clean last_index_after [OF _ assms(3)] assms(3,5) by simp
qed

lemma ledger_root_of_common:
  assumes "commonGitDirectory fs w = Some (abs_path (main @ [''.git'']))"
    and "list_all plain_segment main" and "fs (abs_path main) = Some Fs_dir"
  shows "ledgerRootFor fs w = main"
proof -
  have git: "abs_path (main @ [''.git'']) = (if main = [] then [] else abs_path main) @ ''/.git''"
    using abs_path_append [of main "[''.git'']"] by (simp add: abs_path_def)
  have "resolve1 [] (if main = [] then [] else abs_path main) = main"
  proof (cases "main = []")
    case True
    then show ?thesis by (simp add: resolve1_def path_segments_def walk_def isAbsolute_def)
  qed (use resolve1_abs [OF assms(2)] in simp)
  moreover have "suffix s (r @ s)" for r s :: string by (simp add: suffix_def)
  ultimately show ?thesis using assms(1,3) by (simp add: ledgerRootFor_def git Let_def)
qed

text \<open>
  The checkouts of one repository share a ledger and an identity: a linked worktree, whose \<open>.git\<close>
  file points below \<open>.git/worktrees\<close> of the primary checkout, has the primary checkout as its ledger
  root and the same repository and workspace identifiers as the primary checkout itself.
\<close>

theorem linked_worktree_shares:
  assumes "fs (node_at main ''.git'') = Some Fs_dir" and "fs (abs_path main) = Some Fs_dir"
    and "fs (node_at linked ''.git'') = Some (pointer_file (main @ [''.git'', ''worktrees'', name]))"
    and "clean_path (main @ [name])" and "name \<noteq> ''worktrees''" and "\<not> js_space (last name)"
  shows "ledgerRootFor fs linked = main \<and> ledgerRootFor fs main = main
    \<and> ri_repositoryId (resolveRepositoryIdentity sha_bytes realpath fs cwd linked)
      = ri_repositoryId (resolveRepositoryIdentity sha_bytes realpath fs cwd main)
    \<and> ri_workspaceId (resolveRepositoryIdentity sha_bytes realpath fs cwd linked)
      = ri_workspaceId (resolveRepositoryIdentity sha_bytes realpath fs cwd main)"
proof -
  have clean: "clean_path main" and plain: "list_all plain_segment main"
    using assms(4) clean_plain by (auto simp: clean_parts)
  have linked: "commonGitDirectory fs linked = Some (abs_path (main @ [''.git'']))"
    using assms(3-6) by (intro linked_common [where segs = "[name]"]) simp_all
  have "clean_path (main @ [''.git''])" using clean by (simp add: clean_parts) code_simp
  then have primary: "commonGitDirectory fs main = Some (abs_path (main @ [''.git'']))"
    using assms(1) clean_text by (simp add: commonGitDirectory_def node_at_def)
  show ?thesis
    using ledger_root_of_common [OF linked plain assms(2)] ledger_root_of_common [OF primary plain assms(2)]
    by (simp add: resolveRepositoryIdentity_def repositoryKey_def linked primary)
qed


text \<open>A primary checkout \<open>/r\<close>, a linked worktree \<open>/w\<close> of it, and a submodule \<open>/w/sub\<close> inside the latter.\<close>

definition demo_checkout :: file_system where
  "demo_checkout path =
     (if path \<in> {''/r'', ''/r/.git'', ''/w'', ''/w/sub''} then Some Fs_dir
      else if path = ''/w/.git'' then Some (Fs_file (''gitdir: /r/.git/worktrees/w'' @ [CHR 0x0A]))
      else if path = ''/w/sub/.git'' then Some (Fs_file (''gitdir: /r/.git/worktrees/w/modules/sub'' @ [CHR 0x0A]))
      else None)"

theorem linked_worktree_shares_witness:
  "ledgerRootFor demo_checkout [''w''] = [''r''] \<and> ledgerRootFor demo_checkout [''r''] = [''r'']"
  using linked_worktree_shares [of demo_checkout "[''r'']" "[''w'']" "''w''"]
  by (simp add: demo_checkout_def node_at_def pointer_file_def abs_path_def) (simp add: clean_path_def
      plain_segment_def js_space_def char_in_def line_end_def)

text \<open>
  A submodule checked out inside a linked worktree is reduced to the superproject: its pointer
  names \<open>.git/worktrees/<worktree>/modules/<name>\<close>, the marker \<open>/worktrees/\<close> matches, and the
  submodule gets the ledger root and the repository identifier of the superproject.
\<close>

theorem nested_submodule_reduced:
  assumes "fs (node_at sub ''.git'')
      = Some (pointer_file (main @ [''.git'', ''worktrees'', worktree, ''modules'', name]))"
    and "fs (node_at main ''.git'') = Some Fs_dir" and "fs (abs_path main) = Some Fs_dir"
    and "clean_path (main @ [worktree, name])" and "worktree \<noteq> ''worktrees''" and "name \<noteq> ''worktrees''"
    and "\<not> js_space (last name)"
  shows "ledgerRootFor fs sub = main
    \<and> ri_repositoryId (resolveRepositoryIdentity sha_bytes realpath fs cwd sub)
      = ri_repositoryId (resolveRepositoryIdentity sha_bytes realpath fs cwd main)"
proof -
  have modules: "clean_path [''modules'']" "clean_path [''.git'']" by code_simp+
  have clean: "clean_path main" "clean_path [worktree]" "clean_path [name]"
    using assms(4) clean_parts [of "main @ [worktree]" "[name]"] clean_parts [of main "[worktree]"]
    by simp_all
  have "clean_path (main @ [worktree, ''modules'', name])"
    using clean modules clean_parts [of "main @ [worktree, ''modules'']" "[name]"]
      clean_parts [of "main @ [worktree]" "[''modules'']"] clean_parts [of main "[worktree]"] by simp
  then have nested: "commonGitDirectory fs sub = Some (abs_path (main @ [''.git'']))"
    using assms(1,5-7) by (intro linked_common [where segs = "[worktree, ''modules'', name]"]) simp_all
  have "clean_path (main @ [''.git''])" using clean modules by (simp add: clean_parts)
  then have primary: "commonGitDirectory fs main = Some (abs_path (main @ [''.git'']))"
    using assms(2) clean_text by (simp add: commonGitDirectory_def node_at_def)
  show ?thesis
    using ledger_root_of_common [OF nested clean_plain [OF clean(1)] assms(3)]
    by (simp add: resolveRepositoryIdentity_def repositoryKey_def nested primary)
qed

theorem nested_submodule_reduced_witness: "ledgerRootFor demo_checkout [''w'', ''sub''] = [''r'']"
  using nested_submodule_reduced [of demo_checkout "[''w'', ''sub'']" "[''r'']" "''w''" "''sub''"]
  by (simp add: demo_checkout_def node_at_def pointer_file_def abs_path_def) (simp add: clean_path_def
      plain_segment_def js_space_def char_in_def line_end_def)

section \<open>Logical paths\<close>

lemma split_plain_checks:
  assumes "js_split CHR ''/'' p = rest" and "list_all plain_segment rest" and "rest \<noteq> []"
  shows "p \<noteq> [] \<and> \<not> prefix ''../'' p \<and> p \<noteq> ''..'' \<and> \<not> isAbsolute p \<and> \<not> suffix ''/'' p \<and> \<not> sublist ''//'' p
    \<and> \<not> (\<exists>s \<in> set rest. s = ''.'' \<or> s = ''..'')"
proof -
  have plain: "s \<in> set rest \<Longrightarrow> plain_segment s" for s using assms(2) by (simp add: list_all_iff)
  have no_empty: "[] \<notin> set rest" and no_up: "''..'' \<notin> set rest" using plain by (auto simp: plain_segment_def)
  have "p \<noteq> []" using assms(1) no_empty by auto
  moreover have "\<not> prefix ''../'' p"
  proof
    assume "prefix ''../'' p"
    then obtain v where "p = ''..'' @ CHR ''/'' # v" by (auto simp: prefix_def)
    then have "rest = ''..'' # js_split CHR ''/'' v" using assms(1) js_split_append [of "CHR ''/''" "''..''" v] by simp
    then show False using no_up by simp
  qed
  moreover have "p \<noteq> ''..''"
    using assms(1) no_up js_split_plain [of "CHR ''/''" "''..''"] by auto
  moreover have "\<not> isAbsolute p"
    using assms(1) no_empty by (auto simp: isAbsolute_def prefix_def)
  moreover have "\<not> suffix ''/'' p"
  proof
    assume "suffix ''/'' p"
    then obtain u where "p = u @ CHR ''/'' # []" by (auto simp: suffix_def)
    then have "[] \<in> set rest" using assms(1) js_split_between [of "CHR ''/''" u "[]"] by auto
    then show False using no_empty by simp
  qed
  moreover have "\<not> sublist ''//'' p"
  proof
    assume "sublist ''//'' p"
    then obtain u v where "p = u @ CHR ''/'' # CHR ''/'' # v" by (auto simp: sublist_def)
    then have "[] \<in> set rest" using assms(1) js_split_between [of "CHR ''/''" u "CHR ''/'' # v"] by auto
    then show False using no_empty by simp
  qed
  ultimately show ?thesis using plain by (auto simp: plain_segment_def)
qed

lemma join_plain_split: "list_all plain_segment rest \<Longrightarrow> rest \<noteq> [] \<Longrightarrow> js_split CHR ''/'' (join ''/'' rest) = rest"
  by (intro js_split_join) (auto simp: list_all_iff plain_segment_def)

definition target_of :: "string list \<Rightarrow> string \<Rightarrow> string \<Rightarrow> string list" where
  "target_of cwd worktreeRoot candidate =
     (if isAbsolute candidate then resolve1 cwd candidate else resolve2 cwd worktreeRoot candidate)"

lemma separator_map: "separatorNormalized s = map (\<lambda>c. if c = CHR 0x5C then CHR ''/'' else c) s"
  unfolding separatorNormalized_def
proof (induction s)
  case (Cons c s)
  obtain part parts where "js_split CHR 0x5C s = part # parts" by (cases "js_split CHR 0x5C s") auto
  with Cons show ?case by (cases parts) auto
qed simp

definition logical_checks :: "string \<Rightarrow> bool" where
  "logical_checks p \<longleftrightarrow> p \<noteq> [] \<and> \<not> prefix ''../'' p \<and> p \<noteq> ''..'' \<and> \<not> isAbsolute p \<and> \<not> drive_prefixed p
     \<and> \<not> suffix ''/'' p \<and> \<not> sublist ''//'' p
     \<and> \<not> (\<exists>s \<in> set (js_split CHR ''/'' p). s = ''.'' \<or> s = ''..'') \<and> CHR 0x00 \<notin> set p"

lemma logical_path_checked:
  "logicalPathFor cwd worktreeRoot candidate =
     (let p = separatorNormalized (relative_path (resolve1 cwd worktreeRoot) (target_of cwd worktreeRoot candidate))
      in if trim candidate \<noteq> [] \<and> logical_checks p then Some p else None)"
  unfolding logicalPathFor_def target_of_def Let_def logical_checks_def by (simp only: de_Morgan_disj not_not if_cancel split: if_split) blast

lemma split_segments_plain:
  assumes "logical_checks p"
  shows "list_all plain_segment (js_split CHR ''/'' p)"
proof -
  have "[] \<notin> set (js_split CHR ''/'' p)"
  proof
    assume "[] \<in> set (js_split CHR ''/'' p)"
    then obtain us vs where parts: "js_split CHR ''/'' p = us @ [] # vs" by (meson split_list)
    then have p: "p = join ''/'' (us @ [] # vs)" by (metis join_js_split)
    show False
    proof (cases "us = []")
      case True
      then show ?thesis using p assms by (cases vs) (auto simp: logical_checks_def isAbsolute_def)
    next
      case us: False
      then have p': "p = join ''/'' us @ ''/'' @ join ''/'' ([] # vs)" using p by (simp add: join_append)
      show ?thesis
      proof (cases "vs = []")
        case True
        then have "suffix ''/'' p" using p' by (simp add: suffix_def)
        then show ?thesis using assms by (simp add: logical_checks_def)
      next
        case False
        then have "p = join ''/'' us @ ''//'' @ join ''/'' vs" using p' join_append [of "[[]]" vs "''/''"] by simp
        then have "sublist ''//'' p" unfolding sublist_def by blast
        then show ?thesis using assms by (simp add: logical_checks_def)
      qed
    qed
  qed
  then show ?thesis using assms js_split_no_sep by (auto simp: list_all_iff plain_segment_def logical_checks_def)
qed

lemma logical_path_iff:
  assumes "list_all plain_segment cwd"
    and "\<forall>s \<in> set (drop (length (resolve1 cwd worktreeRoot)) (target_of cwd worktreeRoot candidate)). CHR 0x5C \<notin> set s"
  shows "logicalPathFor cwd worktreeRoot candidate = Some p \<longleftrightarrow>
    trim candidate \<noteq> [] \<and> \<not> drive_prefixed p \<and> CHR 0x00 \<notin> set p
    \<and> (\<exists>rest. target_of cwd worktreeRoot candidate = resolve1 cwd worktreeRoot @ rest \<and> rest \<noteq> [] \<and> p = join ''/'' rest)"
proof -
  let ?root = "resolve1 cwd worktreeRoot" and ?target = "target_of cwd worktreeRoot candidate"
  let ?rel = "separatorNormalized (relative_path ?root ?target)"
  note def = logical_path_checked [of cwd worktreeRoot candidate, unfolded Let_def]
  have plain: "list_all plain_segment ?target"
    unfolding target_of_def resolve2_def using resolve1_plain assms(1) by simp
  show ?thesis
  proof (cases "prefix ?root ?target")
    case True
    then obtain rest where rest: "?target = ?root @ rest" by (auto simp: prefix_def)
    have "CHR 0x5C \<notin> set (join ''/'' rest)"
      using join_chars [of "CHR 0x5C" "''/''" rest] assms(2) unfolding rest by auto
    then have rel: "?rel = join ''/'' rest" unfolding rest relative_path_below by (rule separator_same)
    have below: "(\<exists>r. ?target = ?root @ r \<and> r \<noteq> [] \<and> p = join ''/'' r) \<longleftrightarrow> rest \<noteq> [] \<and> p = ?rel"
      unfolding rel by (auto simp: rest)
    show ?thesis
    proof (cases "rest = []")
      case True
      then show ?thesis unfolding below by (simp add: def rel logical_checks_def)
    next
      case False
      have segments: "list_all plain_segment rest" using plain rest by simp
      note split = join_plain_split [OF this False]
      have "logical_checks ?rel \<longleftrightarrow> \<not> drive_prefixed ?rel \<and> CHR 0x00 \<notin> set ?rel"
        using split_plain_checks [OF split segments False] unfolding logical_checks_def rel split by blast
      then show ?thesis unfolding below def using False by auto
    qed
  next
    case False
    obtain rest where "relative_path ?root ?target = join ''/'' (''..'' # rest)"
      using relative_path_outside [OF False] by blast
    then have "?rel = ''..'' \<or> prefix ''../'' ?rel" by (cases rest) (simp_all add: separator_map)
    then have "\<not> logical_checks ?rel" by (auto simp: logical_checks_def)
    then show ?thesis using False unfolding def by (auto simp: prefix_def)
  qed
qed

text \<open>
  C37: \<open>logicalPathFor\<close> accepts exactly the paths inside the worktree: on a target whose segments below
  the root hold no backslash it gives those segments, joined by \<open>/\<close>, when there are any, and null for
  a blank candidate, the root itself, anything outside the root, a name that looks like a drive and a
  name with a NUL character.
\<close>

theorem logical_path_exact:
  assumes "list_all plain_segment cwd"
    and "\<forall>s \<in> set (drop (length (resolve1 cwd worktreeRoot)) (target_of cwd worktreeRoot candidate)). CHR 0x5C \<notin> set s"
  shows "logicalPathFor cwd worktreeRoot candidate = Some p \<longleftrightarrow>
    trim candidate \<noteq> [] \<and> \<not> drive_prefixed p \<and> CHR 0x00 \<notin> set p
    \<and> (\<exists>rest. target_of cwd worktreeRoot candidate = resolve1 cwd worktreeRoot @ rest \<and> rest \<noteq> [] \<and> p = join ''/'' rest)"
  using assms by (rule logical_path_iff)

theorem logical_path_exact_witness:
  "logicalPathFor [''home''] ''/r'' ''./src//x/../a.ts'' = Some ''src/a.ts''"
  by (subst logical_path_exact) (code_simp, code_simp, (rule conjI, code_simp)+, rule exI [of _ "[''src'', ''a.ts'']"], code_simp)

text \<open>
  A logical path names itself: given again as a candidate, a path that \<open>logicalPathFor\<close> returned
  is returned unchanged (unless it consists of white space only, which a second call refuses).
\<close>

theorem logical_path_stable:
  assumes "list_all plain_segment cwd" and "logicalPathFor cwd worktreeRoot candidate = Some p" and "trim p \<noteq> []"
  shows "logicalPathFor cwd worktreeRoot p = Some p"
proof -
  have checks: "logical_checks p" and sep: "\<exists>r. p = separatorNormalized r"
    using assms(2) unfolding logical_path_checked Let_def by (auto split: if_splits)
  let ?segs = "js_split CHR ''/'' p"
  have plain: "list_all plain_segment ?segs" by (rule split_segments_plain [OF checks])
  have "filter (\<lambda>s. s \<noteq> []) ?segs = ?segs"
    using plain by (intro filter_True) (auto simp: list_all_iff plain_segment_def)
  then have target: "target_of cwd worktreeRoot p = resolve1 cwd worktreeRoot @ ?segs"
    using checks walk_plain [OF plain]
    by (simp add: target_of_def logical_checks_def resolve2_def resolve1_def path_segments_def)
  have "CHR 0x5C \<notin> set p" using sep by (auto simp: separator_map)
  then have "CHR 0x5C \<notin> set s" if "s \<in> set ?segs" for s
    using that in_js_split [of s "CHR ''/''" p] by blast
  then have "logicalPathFor cwd worktreeRoot p = Some p \<longleftrightarrow> trim p \<noteq> [] \<and> \<not> drive_prefixed p \<and> CHR 0x00 \<notin> set p
      \<and> (\<exists>rest. target_of cwd worktreeRoot p = resolve1 cwd worktreeRoot @ rest \<and> rest \<noteq> [] \<and> p = join ''/'' rest)"
    by (intro logical_path_iff assms(1)) (simp add: target)
  then show ?thesis
    using checks assms(3) target join_js_split [of "CHR ''/''" p] by (simp add: logical_checks_def)
qed

theorem logical_path_stable_witness: "logicalPathFor [] ''/r'' ''src/a.ts'' = Some ''src/a.ts''"
  by (rule logical_path_stable [of "[]" "''/r''" "''/r/src/./a.ts''"]) code_simp+

text \<open>On POSIX a backslash is an ordinary character: two different files get one logical path.\<close>

lemma backslash_collision:
  "logicalPathFor [] ''/r'' (''a'' @ CHR 0x5C # ''b.ts'') = Some ''a/b.ts''"
  "logicalPathFor [] ''/r'' ''a/b.ts'' = Some ''a/b.ts''"
  by code_simp+

end
