(* ===== verification/Short_Ids.thy ===== *)
theory Short_Ids
  imports Js_Text
begin

text \<open>
  Shortened identifiers: \<open>query/src/short-id.ts\<close>.  \<open>shortIds\<close> lengthens every identifier of an answer
  until no two of them collide, and falls back to the full identifiers.
\<close>

definition short_slug_length :: nat where
  "short_slug_length = 8"

definition shorten :: "string \<Rightarrow> nat \<Rightarrow> string" where
  "shorten ident slugLength =
     (case index_of ''_'' ident of
        None \<Rightarrow> ident
      | Some separator \<Rightarrow>
          (let lead = take (Suc separator) ident; rest = drop (Suc separator) ident
           in case index_of ''.sub.'' rest of
                None \<Rightarrow> lead @ take slugLength rest
              | Some subagent \<Rightarrow>
                  lead @ take slugLength (take subagent rest) @ ''.sub.''
                    @ take slugLength (drop (subagent + 5) rest)))"

text \<open>The inner loop: \<open>None\<close> when two identifiers collide at this length.\<close>

fun shorten_all :: "nat \<Rightarrow> string list \<Rightarrow> string list \<Rightarrow> (string, string) js_map option" where
  "shorten_all slugLength taken [] = Some []"
| "shorten_all slugLength taken (ident # idents) =
     (let short = shorten ident slugLength
      in if short \<in> set taken then None
         else map_option (\<lambda>m. (ident, short) # m) (shorten_all slugLength (short # taken) idents))"

fun first_length :: "nat list \<Rightarrow> string list \<Rightarrow> (string, string) js_map" where
  "first_length [] distinct_ids = map (\<lambda>ident. (ident, ident)) distinct_ids"
| "first_length (n # ns) distinct_ids =
     (case shorten_all n [] distinct_ids of Some m \<Rightarrow> m | None \<Rightarrow> first_length ns distinct_ids)"

definition shortIds :: "string list \<Rightarrow> (string, string) js_map" where
  "shortIds idents = first_length [8, 16, 24, 32] (js_uniq idents)"

definition idShortener :: "string list \<Rightarrow> string \<Rightarrow> string" where
  "idShortener idents ident =
     (case map_get (shortIds idents) ident of Some short \<Rightarrow> short | None \<Rightarrow> shorten ident short_slug_length)"

section \<open>Distinct identifiers stay distinct\<close>

lemma shorten_all_spec:
  "shorten_all n taken idents = Some m \<Longrightarrow>
     map fst m = idents \<and> distinct (map snd m) \<and> set (map snd m) \<inter> set taken = {}
     \<and> (\<forall>(ident, short) \<in> set m. short = shorten ident n)"
proof (induction idents arbitrary: taken m)
  case (Cons ident idents)
  let ?short = "shorten ident n"
  obtain m' where m': "shorten_all n (?short # taken) idents = Some m'" "m = (ident, ?short) # m'"
    and fresh: "?short \<notin> set taken"
    using Cons.prems by (auto simp: Let_def split: if_splits)
  from Cons.IH [OF m'(1)] fresh show ?case by (auto simp: m'(2))
qed simp

lemma shorten_all_None: "shorten_all n taken idents = None \<Longrightarrow> distinct idents
   \<Longrightarrow> (\<exists>i \<in> set idents. shorten i n \<in> set taken)
     \<or> (\<exists>i \<in> set idents. \<exists>j \<in> set idents. i \<noteq> j \<and> shorten i n = shorten j n)"
proof (induction idents arbitrary: taken)
  case (Cons ident idents)
  show ?case
  proof (cases "shorten ident n \<in> set taken")
    case False
    then have "shorten_all n (shorten ident n # taken) idents = None" using Cons.prems(1) by (simp add: Let_def)
    from Cons.IH [OF this] Cons.prems(2) show ?thesis by auto
  qed auto
qed simp

lemma first_length_spec:
  "distinct idents \<Longrightarrow> map fst (first_length ns idents) = idents \<and> distinct (map snd (first_length ns idents))
     \<and> ((\<exists>n \<in> set ns. \<forall>(ident, short) \<in> set (first_length ns idents). short = shorten ident n)
       \<or> (\<forall>(ident, short) \<in> set (first_length ns idents). short = ident))"
proof (induction ns)
  case Nil
  then show ?case by (auto simp: comp_def)
next
  case (Cons n ns)
  show ?case
  proof (cases "shorten_all n [] idents")
    case None
    then show ?thesis using Cons by auto
  next
    case (Some m)
    then show ?thesis using shorten_all_spec [OF Some] by auto
  qed
qed

lemma map_get_inject:
  assumes "distinct (map snd m)" and "map_get m i = Some x" and "map_get m j = Some x"
  shows "i = j"
  using map_of_SomeD [OF assms(2)] map_of_SomeD [OF assms(3)] assms(1)
  by (metis distinct_map inj_on_def prod.inject snd_conv)

lemma idShortener_inj: "i \<in> set idents \<Longrightarrow> j \<in> set idents \<Longrightarrow> idShortener idents i = idShortener idents j \<Longrightarrow> i = j"
proof -
  assume ij: "i \<in> set idents" "j \<in> set idents" "idShortener idents i = idShortener idents j"
  have spec: "map fst (shortIds idents) = js_uniq idents" "distinct (map snd (shortIds idents))"
    using first_length_spec [of "js_uniq idents" "[8, 16, 24, 32]"] by (simp_all add: shortIds_def distinct_js_uniq)
  have "k \<in> fst ` set (shortIds idents)" if "k \<in> set idents" for k
    using that spec(1) set_js_uniq [of idents] by (metis set_map)
  then obtain x y where "map_get (shortIds idents) i = Some x" "map_get (shortIds idents) j = Some y"
    using ij(1,2) by (meson map_of_eq_None_iff not_None_eq)
  with ij(3) show "i = j" using map_get_inject [OF spec(2)] by (simp add: idShortener_def)
qed

text \<open>
  Shortening never merges two workers: within one answer \<open>idShortener\<close> maps different identifiers to
  different texts, and all of them are cut to one common length (or all are shown in full).
\<close>

theorem short_ids_distinct:
  "inj_on (idShortener idents) (set idents)
   \<and> ((\<exists>n \<in> {8, 16, 24, 32}. \<forall>i \<in> set idents. idShortener idents i = shorten i n)
     \<or> (\<forall>i \<in> set idents. idShortener idents i = i))"
proof
  show "inj_on (idShortener idents) (set idents)" using idShortener_inj by (intro inj_onI)
  let ?m = "shortIds idents"
  have keys: "map fst ?m = js_uniq idents" and form: "(\<exists>n \<in> {8, 16, 24, 32}. \<forall>(i, s) \<in> set ?m. s = shorten i n)
      \<or> (\<forall>(i, s) \<in> set ?m. s = i)"
    using first_length_spec [of "js_uniq idents" "[8, 16, 24, 32]"] by (simp_all add: shortIds_def distinct_js_uniq)
  have listed: "\<exists>s. map_get ?m i = Some s \<and> (i, s) \<in> set ?m" if "i \<in> set idents" for i
  proof -
    have "i \<in> fst ` set ?m" using that keys set_js_uniq [of idents] by (metis set_map)
    then show ?thesis by (metis map_of_eq_None_iff map_of_SomeD not_None_eq)
  qed
  have shown: "idShortener idents i = f i" if all: "\<forall>(i, s) \<in> set ?m. s = f i" and i: "i \<in> set idents" for f i
  proof -
    obtain s where "map_get ?m i = Some s" "(i, s) \<in> set ?m" using listed [OF i] by blast
    then show ?thesis using all by (auto simp: idShortener_def)
  qed
  from form show "(\<exists>n \<in> {8, 16, 24, 32}. \<forall>i \<in> set idents. idShortener idents i = shorten i n)
      \<or> (\<forall>i \<in> set idents. idShortener idents i = i)"
  proof
    assume "\<exists>n \<in> {8, 16, 24, 32}. \<forall>(i, s) \<in> set ?m. s = shorten i n"
    then obtain n where "n \<in> {8, 16, 24, 32}" "\<forall>(i, s) \<in> set ?m. s = shorten i n" by blast
    then show ?thesis using shown [of "\<lambda>i. shorten i n"] by blast
  qed (use shown [of "\<lambda>i. i"] in blast)
qed

theorem short_ids_distinct_witness:
  "\<exists>n \<in> {8, 16, 24, 32}. \<forall>i \<in> {''agent_0123456789'', ''agent_0123456799''}.
     idShortener [''agent_0123456789'', ''agent_0123456799''] i = shorten i n"
proof -
  have "idShortener [''agent_0123456789'', ''agent_0123456799''] ''agent_0123456789'' = shorten ''agent_0123456789'' 16"
    "idShortener [''agent_0123456789'', ''agent_0123456799''] ''agent_0123456799'' = shorten ''agent_0123456799'' 16"
    by code_simp+
  then show ?thesis using short_ids_distinct [of "[''agent_0123456789'', ''agent_0123456799'']"] by auto
qed

end
