(* ===== verification/Ledger_Access.thy ===== *)
theory Ledger_Access
  imports Event_Cache
begin

text \<open>
  What the readers and writers of the query packages share: an unbuffered batch of fresh events
  followed by an unchecked, cached read by event type.
\<close>

section \<open>Unchecked reads\<close>

text \<open>Schema validation returns the value \<open>JSON.parse\<close> read.\<close>

definition raw_agrees :: "(string \<Rightarrow> event option) \<Rightarrow> (string \<Rightarrow> event option) \<Rightarrow> bool" where
  "raw_agrees parse raw \<longleftrightarrow> (\<forall>t e. parse t = Some e \<longrightarrow> raw t = Some e)"

lemma raw_agrees_refl: "raw_agrees parse parse"
  by (simp add: raw_agrees_def)

lemma reconstruct_ok:
  assumes "row_ok sha parse r" and "raw_agrees parse raw"
  shows "reconstructStoredEvent parse raw r = Inr (event_of parse r)"
proof -
  obtain e where e: "parse (er_canonical_event r) = Some e"
    "r = row_of (er_insertion_position r) e (event_digest sha e) (event_canonical e)"
    using assms(1) by (auto simp: row_ok_def)
  have "er_schema_version r = schemaVersion e" by (subst e(2)) (simp add: row_of_def)
  then show ?thesis
    using e(1) assms(2) schemaVersion_range [of e]
    by (auto simp: reconstructStoredEvent_def raw_agrees_def event_of_def known_schema_versions_def)
qed

text \<open>
  Skipping validation loses nothing on a ledger this program wrote: an unchecked read of any query
  returns exactly what the checked read returns.
\<close>

lemma unchecked_read:
  assumes "store_ok sha parse st" and "\<not> st_closed st" and "raw_agrees parse raw"
  shows "read_with parse raw validate q st = Inr (map (event_of parse) (query_rows st q))"
proof (cases validate)
  case True
  then show ?thesis using read_events_ok [OF assms(1,2)] by (simp add: read_with_def)
next
  case False
  have "reconstructStoredEvent parse raw r = Inr (event_of parse r)" if "r \<in> set (query_rows st q)" for r
  proof -
    have "row_ok sha parse r" using that assms(1) by (auto simp: query_rows_def store_ok_def)
    then show ?thesis using assms(3) by (rule reconstruct_ok)
  qed
  then show ?thesis using False assms(2) by (simp add: read_with_def map_raise_Inr)
qed

section \<open>Reading by type\<close>

definition typed_query :: "event_type list \<Rightarrow> event_query" where
  "typed_query types = all_events\<lparr>eq_eventTypes := Some types\<rparr>"

definition events_of_types :: "(string \<Rightarrow> event option) \<Rightarrow> event_type list \<Rightarrow> store \<Rightarrow> event list" where
  "events_of_types parse types st =
     map (event_of parse) (filter (\<lambda>r. er_event_type r \<in> set types) (st_events st))"

lemma typed_rows: "query_rows st (typed_query types) = filter (\<lambda>r. er_event_type r \<in> set types) (st_events st)"
  unfolding query_rows_def
  by (intro filter_cong refl) (simp add: row_matches_def typed_query_def all_events_def asks_def)

text \<open>The cache holds no entry for this read.\<close>

definition uncached :: "event_cache \<Rightarrow> files \<Rightarrow> string \<Rightarrow> event_type list \<Rightarrow> bool" where
  "uncached cache files path types \<longleftrightarrow>
     map_get (ch_entries cache) (cacheKey files path False (typed_query types)) = None"

lemma typed_read:
  assumes "store_ok sha parse (ledger_at files path)" and "raw_agrees parse raw" and "uncached cache files path types"
  shows "\<exists>cache'. readEventsCached parse raw files path (typed_query types) False cache
    = (Inr (events_of_types parse types (ledger_at files path)), cache')"
proof -
  have "\<not> st_closed (ledger_at files path)" by (simp add: ledger_at_def store_open_def split: option.split)
  from unchecked_read [OF assms(1) this assms(2)]
  show ?thesis using assms(3)
    by (simp add: readEventsCached_def uncached_def typed_rows events_of_types_def Let_def)
qed

section \<open>Appending fresh events\<close>

definition fresh_for :: "store \<Rightarrow> event list \<Rightarrow> bool" where
  "fresh_for st events \<longleftrightarrow> distinct (map eventId events) \<and> (\<forall>e \<in> set events. eventId e \<notin> set (durable_ids st))"

lemma novel_fresh: "distinct (map ident xs) \<Longrightarrow> \<forall>x \<in> set xs. ident x \<notin> known \<Longrightarrow> novel ident known xs = xs"
proof (induction xs arbitrary: known)
  case (Cons x xs)
  have "novel ident (insert (ident x) known) xs = xs" using Cons.prems by (intro Cons.IH) (auto, metis imageI)
  then show ?case using Cons.prems by simp
qed simp

lemma fresh_rows:
  assumes "fresh_for st events"
  shows "novel ca_id (set (durable_ids st)) (candidates_of sha events) = candidates_of sha events"
proof (rule novel_fresh)
  have ids: "map ca_id (candidates_of sha events) = map eventId events"
    using arg_cong [OF candidates_of_events [of sha events], of "map eventId"]
    by (simp add: comp_def)
  then show "distinct (map ca_id (candidates_of sha events))" using assms by (simp add: fresh_for_def)
  show "\<forall>c \<in> set (candidates_of sha events). ca_id c \<notin> set (durable_ids st)"
    using candidates_of_ok assms by (fastforce simp: fresh_for_def)
qed

text \<open>A batch of events the ledger does not hold is always accepted, and stored in its order.\<close>

lemma append_fresh_rows:
  assumes "store_ok sha parse st" and "\<not> st_closed st" and "events \<noteq> []" and fresh: "fresh_for st events"
  shows "\<exists>results. appendAtomic sha lc parse now (map Inr events) no_options st = (Inr results,
    st\<lparr>st_events := st_events st @ rows_from (st_next_position st) (map candidate_row (candidates_of sha events)),
       st_next_position := st_next_position st + length events\<rparr>)"
proof -
  let ?cs = "candidates_of sha events"
  have "distinct (map ca_id ?cs)"
    using arg_cong [OF candidates_of_events [of sha events], of "map eventId"] fresh by (simp add: comp_def fresh_for_def)
  then have "digests_agree ?cs" by (auto simp: digests_agree_def distinct_map inj_on_def)
  moreover have "\<forall>c \<in> set ?cs. durable_agrees st c"
  proof
    fix c assume "c \<in> set ?cs"
    then have "lookup_row st (ca_id c) = None"
      using candidates_of_ok fresh by (auto simp: fresh_for_def lookup_row_None)
    then show "durable_agrees st c" by (simp add: durable_agrees_def)
  qed
  moreover have "length ?cs = length events" by (simp add: candidates_of_def)
  ultimately show ?thesis
    using append_plain_cases [OF assms(1-3), of lc now] by (auto simp: appendAtomic_def fresh_rows [OF fresh, simplified])
qed

lemma candidate_rows_read:
  assumes "\<forall>c \<in> set cs. parse (ca_text c) = Some (ca_event c)"
  shows "map (event_of parse) (rows_from n (map candidate_row cs)) = map ca_event cs
    \<and> map er_event_type (rows_from n (map candidate_row cs)) = map (\<lambda>c. eventType (ca_event c)) cs"
  using assms
proof (induction cs arbitrary: n)
  case (Cons c cs)
  then show ?case by (simp add: candidate_row_def event_of_def row_of_def)
qed simp

lemma filter_by_type:
  "map g (filter (\<lambda>r. f r \<in> T) rows) = filter (\<lambda>e. h e \<in> T) es"
  if "map g rows = es" and "map f rows = map h es"
  using that
proof (induction rows arbitrary: es)
  case (Cons r rows)
  then show ?case by (cases es) auto
qed simp

lemma append_fresh:
  assumes ok: "store_ok sha parse st" and "\<not> st_closed st" and fresh: "fresh_for st events"
    and inv: "parse_inverts parse (map Inr events)"
    and result: "appendAtomic sha lc parse now (map Inr events) no_options st = (Inr results, st')"
  shows "store_ok sha parse st' \<and> \<not> st_closed st'
    \<and> st_events st' = st_events st @ rows_from (st_next_position st) (map candidate_row (candidates_of sha events))
    \<and> events_of_types parse types st' = events_of_types parse types st
        @ filter (\<lambda>e. eventType e \<in> set types) events"
proof (cases "events = []")
  case True
  then have "st' = st" using result assms(2) by (simp add: appendAtomic_def append_transaction_def)
  then show ?thesis using True ok assms(2) by (simp add: candidates_of_def)
next
  case False
  let ?cs = "candidates_of sha events"
  let ?rows = "rows_from (st_next_position st) (map candidate_row ?cs)"
  have st': "st' = st\<lparr>st_events := st_events st @ ?rows, st_next_position := st_next_position st + length events\<rparr>"
    using append_fresh_rows [OF ok assms(2) False fresh, of lc now] result by auto
  have "store_ok sha parse st'" using append_keeps_ok [OF ok inv, of lc now no_options] by (simp add: result)
  moreover have "\<forall>c \<in> set ?cs. parse (ca_text c) = Some (ca_event c)"
    using candidates_of_ok inv by (fastforce simp: parse_inverts_def)
  note read = candidate_rows_read [OF this, of "st_next_position st", unfolded candidates_of_events]
  have "map er_event_type ?rows = map eventType events"
    using read arg_cong [OF candidates_of_events [of sha events], of "map eventType"]
    by (simp add: comp_def)
  then have "map (event_of parse) (filter (\<lambda>r. er_event_type r \<in> set types) ?rows)
      = filter (\<lambda>e. eventType e \<in> set types) events"
    using read by (intro filter_by_type) simp_all
  ultimately show ?thesis using assms(2) by (simp add: st' events_of_types_def)
qed

end
