(* ===== verification/Mailbox.thy ===== *)
theory Mailbox
  imports Ledger_Access Identity
begin

text \<open>
  The mailbox: \<open>query/src/mailbox.ts\<close>.  Messages, deliveries and acknowledgements are coordination
  events of the ledger; an inbox is a projection of them.

  \<open>mail_env\<close> holds what the module takes from its surroundings: the process directory, the repository
  identity of a worktree, \<open>Date.parse\<close> and SHA-256.  \<open>rng k\<close> is the digest the k-th call of \<open>randomHex\<close>
  draws from.  \<open>schema\<close> is the schema validation of \<open>parseEvent\<close>, and \<open>markers\<close> the file names of the
  directory \<open>delivered\<close> beside the ledger (empty when it cannot be read).
\<close>

datatype service_error = Usage string | Unavailable string | Range_error | Storage_failed store_error

record mail_env =
  me_cwd :: "string list"
  me_identity :: "string \<Rightarrow> repository_identity"
  me_date_parse :: "string \<Rightarrow> int option"
  me_sha_bytes :: "string \<Rightarrow> 8 word list"

section \<open>Limits and patterns\<close>

definition mailbox_default_ttl_days :: int where "mailbox_default_ttl_days = 7"
definition subject_max_chars :: nat where "subject_max_chars = 200"
definition body_max_chars :: nat where "body_max_chars = 2048"
definition refs_max_items :: nat where "refs_max_items = 20"
definition note_max_chars :: nat where "note_max_chars = 512"
definition inbox_cap :: nat where "inbox_cap = 20"

definition message_id :: "string \<Rightarrow> bool" where
  "message_id s \<longleftrightarrow> prefix ''msg_'' s \<and> length s = 36 \<and> list_all lower_hex (drop 4 s)"

definition message_kind_of :: "string \<Rightarrow> message_kind option" where
  "message_kind_of s = map_of [(''notice'', MK_notice), (''handoff'', MK_handoff), (''question'', MK_question),
     (''claim'', MK_claim)] s"

definition ack_disposition_of :: "string \<Rightarrow> ack_disposition option" where
  "ack_disposition_of s = map_of [(''read'', AD_read), (''accepted'', AD_accepted), (''declined'', AD_declined)] s"

definition max_time :: int where "max_time = 8640000000000000"

text \<open>\<open>new Date(t).toISOString()\<close> throws a \<open>RangeError\<close> outside the range of dates.\<close>

definition date_iso :: "int \<Rightarrow> service_error + string" where
  "date_iso t = (if \<bar>t\<bar> \<le> max_time then Inr (toISOString t) else Inl Range_error)"

section \<open>Sending\<close>

record send_mail_options =
  so_worktreeRoot :: string
  so_from :: "string option"
  so_to :: string
  so_kind :: string
  so_subject :: string
  so_body :: string
  so_refs :: "string list option"
  so_expiresAt :: "string option"

definition audienceOf :: "string \<Rightarrow> service_error + message_audience" where
  "audienceOf to =
     (if to = ''broadcast'' then Inr To_broadcast
      else if agent_id to then Inr (To_agent to)
      else Inl (Usage ''to must be an agent_<id> or the literal broadcast''))"

definition mailboxSource :: "mail_env \<Rightarrow> string \<Rightarrow> source" where
  "mailboxSource env repo =
     \<lparr>sr_kind = Gateway, sr_sourceId = ''source_patchmesh_mailbox'',
      sr_instanceId = deterministicUuid (me_sha_bytes env) ''patchmesh:mailbox'' repo\<rparr>"

definition mailbox_event ::
    "mail_env \<Rightarrow> string \<Rightarrow> string \<Rightarrow> string \<Rightarrow> string \<Rightarrow> string option \<Rightarrow> string \<Rightarrow> payload \<Rightarrow> event" where
  "mailbox_event env worktreeRoot drawn1 drawn2 agent cause at_iso body =
     (let identity = me_identity env worktreeRoot
      in \<lparr>eventId = ''evt_'' @ randomHex drawn1 32, source = mailboxSource env (ri_repositoryId identity),
          timestamp = at_iso, repositoryId = ri_repositoryId identity, workspaceId = ri_workspaceId identity,
          worktreeId = ri_worktreeId identity, agentId = Some agent, taskId = None,
          correlationId = createCorrelationId drawn2, causationId = cause, sourceSequence = None,
          payload = body\<rparr>)"

definition normalize_ref :: "mail_env \<Rightarrow> string \<Rightarrow> string \<Rightarrow> service_error + string" where
  "normalize_ref env worktreeRoot candidate =
     (case logicalPathFor (me_cwd env) worktreeRoot candidate of
        None \<Rightarrow> Inl (Usage (''ref must be a repository-relative path inside the worktree: '' @ candidate))
      | Some p \<Rightarrow> Inr p)"

definition expiry_of :: "mail_env \<Rightarrow> int \<Rightarrow> string option \<Rightarrow> service_error + int" where
  "expiry_of env now expiresAt =
     (case expiresAt of
        None \<Rightarrow> Inr (now + mailbox_default_ttl_days * 24 * 60 * 60 * 1000)
      | Some s \<Rightarrow>
          (case me_date_parse env s of
             None \<Rightarrow> Inl (Usage ''expiresAt must be an ISO timestamp'')
           | Some t \<Rightarrow> if t \<le> now then Inl (Usage ''expiresAt must be in the future'') else Inr t))"

text \<open>The event \<open>sendMail\<close> builds from accepted fields.\<close>

definition sent_event ::
    "mail_env \<Rightarrow> (nat \<Rightarrow> string) \<Rightarrow> send_mail_options \<Rightarrow> string \<Rightarrow> message_audience \<Rightarrow> message_kind \<Rightarrow> string list
     \<Rightarrow> string \<Rightarrow> string \<Rightarrow> event" where
  "sent_event env rng opts from audience kind refs at_iso expires_iso =
     mailbox_event env (so_worktreeRoot opts) (rng 1) (rng 2) from None at_iso
       (AgentMessageSent \<lparr>ms_messageId = ''msg_'' @ randomHex (rng 0) 32, ms_to = audience, ms_kind = kind,
          ms_subject = trim (so_subject opts), ms_body = so_body opts, ms_refs = refs, ms_expiresAt = expires_iso\<rparr>)"

definition subject_error :: "string \<Rightarrow> string option" where
  "subject_error subject =
     (if subject = [] then Some ''subject is required''
      else if subject_max_chars < length subject then Some ''subject exceeds 200 characters''
      else if \<exists>c \<in> set subject. line_end c then Some ''subject must be a single line without newlines''
      else None)"

definition body_error :: "string \<Rightarrow> string \<Rightarrow> string option" where
  "body_error subject body =
     (if line_begins ''--- '' True subject \<or> line_begins ''--- '' True body
      then Some ''no line may begin with --- , which is the message delimiter''
      else if body_max_chars < length body then Some ''body exceeds 2048 characters''
      else None)"

definition refs_of :: "mail_env \<Rightarrow> send_mail_options \<Rightarrow> service_error + string list" where
  "refs_of env opts =
     raise_bind (map_raise (normalize_ref env (so_worktreeRoot opts)) (case so_refs opts of None \<Rightarrow> [] | Some rs \<Rightarrow> rs))
       (\<lambda>refs. if refs_max_items < length refs then Inl (Usage ''refs exceed 20 entries'')
               else if length (js_uniq refs) \<noteq> length refs then Inl (Usage ''refs contain duplicates'')
               else Inr refs)"

definition compose_message ::
    "mail_env \<Rightarrow> (nat \<Rightarrow> string) \<Rightarrow> int option \<Rightarrow> send_mail_options \<Rightarrow> service_error + event" where
  "compose_message env rng clock_ms opts =
     (case clock_ms of None \<Rightarrow> Inl (Usage ''send clock is invalid'') | Some now \<Rightarrow>
      (case so_from opts of None \<Rightarrow> Inl (Usage ''send requires a sender as an agent_<id> attribution'') | Some from \<Rightarrow>
       if \<not> agent_id from then Inl (Usage ''send requires a sender as an agent_<id> attribution'')
       else raise_bind (audienceOf (so_to opts)) (\<lambda>audience.
         case message_kind_of (so_kind opts) of
           None \<Rightarrow> Inl (Usage ''kind must be notice, handoff, question, or claim'')
         | Some kind \<Rightarrow>
             (case subject_error (trim (so_subject opts)) of Some e \<Rightarrow> Inl (Usage e) | None \<Rightarrow>
              (case body_error (trim (so_subject opts)) (so_body opts) of Some e \<Rightarrow> Inl (Usage e) | None \<Rightarrow>
               raise_bind (refs_of env opts) (\<lambda>refs.
               raise_bind (expiry_of env now (so_expiresAt opts)) (\<lambda>expires.
               raise_bind (date_iso now) (\<lambda>at_iso.
               raise_bind (date_iso expires) (\<lambda>expires_iso.
                 Inr (sent_event env rng opts from audience kind refs at_iso expires_iso))))))))))"

text \<open>\<open>appendEvents\<close> without an injected writer: open, \<open>appendAtomic\<close>, close.\<close>

definition appendEvents ::
    "(string \<Rightarrow> string) \<Rightarrow> (string \<Rightarrow> string \<Rightarrow> int) \<Rightarrow> (string \<Rightarrow> event option) \<Rightarrow> (event \<Rightarrow> diagnostic list + event)
     \<Rightarrow> string \<Rightarrow> event list \<Rightarrow> store \<Rightarrow> (store_error + append_result list) \<times> store" where
  "appendEvents sha lc parse schema now events st =
     appendAtomic sha lc parse now (map schema events) no_options (st\<lparr>st_closed := False\<rparr>)"

definition message_id_of :: "event \<Rightarrow> string" where
  "message_id_of e = (case payload e of AgentMessageSent m \<Rightarrow> ms_messageId m
     | AgentMessageDelivered d \<Rightarrow> md_messageId d | AgentMessageAcknowledged a \<Rightarrow> ma_messageId a | _ \<Rightarrow> '''')"

definition sendMail ::
    "(string \<Rightarrow> string) \<Rightarrow> (string \<Rightarrow> string \<Rightarrow> int) \<Rightarrow> (string \<Rightarrow> event option) \<Rightarrow> (event \<Rightarrow> diagnostic list + event)
     \<Rightarrow> string \<Rightarrow> mail_env \<Rightarrow> (nat \<Rightarrow> string) \<Rightarrow> int option \<Rightarrow> send_mail_options \<Rightarrow> store
     \<Rightarrow> (service_error + string) \<times> store" where
  "sendMail sha lc parse schema now env rng clock_ms opts st =
     (case compose_message env rng clock_ms opts of
        Inl err \<Rightarrow> (Inl err, st)
      | Inr e \<Rightarrow> (case appendEvents sha lc parse schema now [e] st of
            (Inl err, st') \<Rightarrow> (Inl (Storage_failed err), st')
          | (Inr _, st') \<Rightarrow> (Inr (message_id_of e), st')))"

section \<open>Reading\<close>

record inbox_row =
  ir_messageId :: string
  ir_fromAgentId :: "string option"
  ir_kind :: message_kind
  ir_subject :: string
  ir_body :: string
  ir_refs :: "string list"
  ir_sentAt :: string
  ir_expiresAt :: string
  ir_broadcast :: bool

record inbox_result =
  ib_rows :: "inbox_row list"
  ib_withheld :: nat
  ib_expired :: nat

definition marked_delivered :: "string list \<Rightarrow> string \<Rightarrow> string list" where
  "marked_delivered markers agent =
     filter (prefix ''msg_'') (map (\<lambda>file. take (length file - (length agent + 1)) file)
       (filter (suffix (CHR ''.'' # agent)) markers))"

definition delivered_to :: "event list \<Rightarrow> string \<Rightarrow> string list" where
  "delivered_to events agent =
     List.map_filter (\<lambda>e. case payload e of
         AgentMessageDelivered d \<Rightarrow> if agentId e = Some agent then Some (md_messageId d) else None
       | _ \<Rightarrow> None) events"

definition addressed :: "string \<Rightarrow> message_audience \<Rightarrow> bool" where
  "addressed agent to = (case to of To_broadcast \<Rightarrow> True | To_agent a \<Rightarrow> a = agent)"

definition expired_at :: "(string \<Rightarrow> int option) \<Rightarrow> int \<Rightarrow> string \<Rightarrow> bool" where
  "expired_at date_parse now expiresAt =
     (case date_parse expiresAt of None \<Rightarrow> True | Some t \<Rightarrow> t \<le> now)"

definition row_of_message :: "event \<Rightarrow> message_sent \<Rightarrow> inbox_row" where
  "row_of_message e m = \<lparr>ir_messageId = ms_messageId m, ir_fromAgentId = agentId e, ir_kind = ms_kind m,
     ir_subject = ms_subject m, ir_body = ms_body m, ir_refs = ms_refs m, ir_sentAt = timestamp e,
     ir_expiresAt = ms_expiresAt m, ir_broadcast = (ms_to m = To_broadcast)\<rparr>"

text \<open>The loop over the sent messages: the visible rows and the number of expired ones.\<close>

fun scan_inbox ::
    "(string \<Rightarrow> int option) \<Rightarrow> int \<Rightarrow> string \<Rightarrow> bool \<Rightarrow> string list \<Rightarrow> event list \<Rightarrow> inbox_row list \<times> nat" where
  "scan_inbox date_parse now agent includeDelivered delivered [] = ([], 0)"
| "scan_inbox date_parse now agent includeDelivered delivered (e # events) =
     (let (visible, expired) = scan_inbox date_parse now agent includeDelivered delivered events
      in case payload e of
           AgentMessageSent m \<Rightarrow>
             (if \<not> addressed agent (ms_to m) then (visible, expired)
              else if expired_at date_parse now (ms_expiresAt m) then (visible, Suc expired)
              else if \<not> includeDelivered \<and> ms_messageId m \<in> set delivered then (visible, expired)
              else (row_of_message e m # visible, expired))
         | _ \<Rightarrow> (visible, expired))"

definition newest_first :: "inbox_row \<Rightarrow> inbox_row \<Rightarrow> int" where
  "newest_first left right =
     (if ir_sentAt left < ir_sentAt right then 1 else if ir_sentAt right < ir_sentAt left then -1 else 0)"

definition inbox_of ::
    "(string \<Rightarrow> int option) \<Rightarrow> int \<Rightarrow> string \<Rightarrow> bool \<Rightarrow> nat \<Rightarrow> string list \<Rightarrow> event list \<Rightarrow> inbox_result" where
  "inbox_of date_parse now agent includeDelivered cap markers events =
     (let delivered = delivered_to events agent @ marked_delivered markers agent;
          (visible, expired) = scan_inbox date_parse now agent includeDelivered delivered events;
          ordered = js_sort newest_first visible
      in \<lparr>ib_rows = take cap ordered, ib_withheld = length ordered - min (length ordered) cap,
          ib_expired = expired\<rparr>)"

definition empty_inbox :: inbox_result where
  "empty_inbox = \<lparr>ib_rows = [], ib_withheld = 0, ib_expired = 0\<rparr>"

definition readInbox ::
    "(string \<Rightarrow> event option) \<Rightarrow> (string \<Rightarrow> event option) \<Rightarrow> (string \<Rightarrow> int option) \<Rightarrow> files \<Rightarrow> string \<Rightarrow> string list
     \<Rightarrow> string \<Rightarrow> bool \<Rightarrow> int option \<Rightarrow> int \<Rightarrow> event_cache \<Rightarrow> (service_error + inbox_result) \<times> event_cache" where
  "readInbox parse raw date_parse files path markers agent includeDelivered limit now cache =
     (if (case limit of None \<Rightarrow> False | Some n \<Rightarrow> n \<le> 0 \<or> 2 ^ 53 \<le> n)
      then (Inl (Usage ''limit must be a positive integer''), cache)
      else case readEventsCached parse raw files path
             (typed_query [ET_agent_message_sent, ET_agent_message_delivered]) False cache of
          (Inl _, cache') \<Rightarrow> (Inr empty_inbox, cache')
        | (Inr events, cache') \<Rightarrow>
            (Inr (inbox_of date_parse now agent includeDelivered
              (case limit of None \<Rightarrow> inbox_cap | Some n \<Rightarrow> nat n) markers events), cache'))"

section \<open>Acknowledging and marking\<close>

datatype ack_result = Acked | Ack_refused string

fun sent_messages :: "event list \<Rightarrow> (event \<times> message_sent) list" where
  "sent_messages [] = []"
| "sent_messages (e # events) =
     (case payload e of AgentMessageSent m \<Rightarrow> (e, m) # sent_messages events | _ \<Rightarrow> sent_messages events)"

definition find_sent :: "string \<Rightarrow> event list \<Rightarrow> (event \<times> message_sent) option" where
  "find_sent messageId events = List.find (\<lambda>(e, m). ms_messageId m = messageId) (sent_messages events)"

definition acknowledgement ::
    "mail_env \<Rightarrow> (nat \<Rightarrow> string) \<Rightarrow> int \<Rightarrow> string \<Rightarrow> string \<Rightarrow> string \<Rightarrow> string \<Rightarrow> string option \<Rightarrow> event list
     \<Rightarrow> service_error + (ack_result \<times> event list)" where
  "acknowledgement env rng now worktreeRoot byAgentId messageId disposition note events =
     (case find_sent messageId events of
        None \<Rightarrow> Inr (Ack_refused ''message was not found'', [])
      | Some (sent, m) \<Rightarrow>
          if expired_at (me_date_parse env) now (ms_expiresAt m)
          then Inr (Ack_refused ''message has expired'', [])
          else raise_bind (date_iso now) (\<lambda>at_iso.
            case ack_disposition_of disposition of
              None \<Rightarrow> Inl (Usage ''disposition must be read, accepted, or declined'')
            | Some d \<Rightarrow>
                Inr (Acked, [mailbox_event env worktreeRoot (rng 0) (rng 1) byAgentId (Some (eventId sent)) at_iso
                  (AgentMessageAcknowledged \<lparr>ma_messageId = messageId, ma_disposition = d, ma_note = note\<rparr>)])))"

definition acknowledgeMessage ::
    "(string \<Rightarrow> string) \<Rightarrow> (string \<Rightarrow> string \<Rightarrow> int) \<Rightarrow> (string \<Rightarrow> event option) \<Rightarrow> (string \<Rightarrow> event option)
     \<Rightarrow> (event \<Rightarrow> diagnostic list + event) \<Rightarrow> string \<Rightarrow> mail_env \<Rightarrow> (nat \<Rightarrow> string) \<Rightarrow> int \<Rightarrow> files \<Rightarrow> string \<Rightarrow> event_cache
     \<Rightarrow> string \<Rightarrow> string \<Rightarrow> string \<Rightarrow> string \<Rightarrow> string option
     \<Rightarrow> (service_error + ack_result) \<times> store \<times> event_cache" where
  "acknowledgeMessage sha lc parse raw schema now_iso env rng now files path cache worktreeRoot byAgentId messageId
       disposition note =
     (let st = ledger_at files path
      in if \<not> agent_id byAgentId then (Inl (Usage ''byAgentId must be an agent_<id>''), st, cache)
         else if \<not> message_id messageId
           then (Inl (Usage ''messageId must be msg_ followed by 32 hex characters''), st, cache)
         else if ack_disposition_of disposition = None
           then (Inl (Usage ''disposition must be read, accepted, or declined''), st, cache)
         else if (case note of None \<Rightarrow> False | Some n \<Rightarrow> note_max_chars < length n)
           then (Inl (Usage ''note exceeds 512 characters''), st, cache)
         else case readEventsCached parse raw files path (typed_query [ET_agent_message_sent]) False cache of
             (Inl err, cache') \<Rightarrow> (Inl (Unavailable ''ledger is unreadable''), st, cache')
           | (Inr events, cache') \<Rightarrow>
               (case acknowledgement env rng now worktreeRoot byAgentId messageId disposition note events of
                  Inl err \<Rightarrow> (Inl err, st, cache')
                | Inr (result, []) \<Rightarrow> (Inr result, st, cache')
                | Inr (result, new) \<Rightarrow>
                    (case appendEvents sha lc parse schema now_iso new st of
                       (Inl err, st') \<Rightarrow> (Inl (Storage_failed err), st', cache')
                     | (Inr _, st') \<Rightarrow> (Inr result, st', cache'))))"

definition delivery_events ::
    "mail_env \<Rightarrow> (nat \<Rightarrow> string) \<Rightarrow> string \<Rightarrow> string \<Rightarrow> message_channel \<Rightarrow> string \<Rightarrow> string list \<Rightarrow> event list" where
  "delivery_events env rng worktreeRoot byAgentId channel at_iso ids =
     map (\<lambda>(k, i). mailbox_event env worktreeRoot (rng (2 * k)) (rng (2 * k + 1)) byAgentId None at_iso
            (AgentMessageDelivered \<lparr>md_messageId = i, md_channel = channel\<rparr>))
       (zip [0..<length ids] ids)"

definition markDelivered ::
    "(string \<Rightarrow> string) \<Rightarrow> (string \<Rightarrow> string \<Rightarrow> int) \<Rightarrow> (string \<Rightarrow> event option) \<Rightarrow> (event \<Rightarrow> diagnostic list + event)
     \<Rightarrow> string \<Rightarrow> mail_env \<Rightarrow> (nat \<Rightarrow> string) \<Rightarrow> int \<Rightarrow> string \<Rightarrow> string \<Rightarrow> message_channel \<Rightarrow> string list \<Rightarrow> store
     \<Rightarrow> (service_error + unit) \<times> store" where
  "markDelivered sha lc parse schema now_iso env rng now worktreeRoot byAgentId channel ids st =
     (if \<not> agent_id byAgentId then (Inl (Usage ''byAgentId must be an agent_<id>''), st)
      else if \<not> list_all message_id ids
        then (Inl (Usage ''each messageId must be msg_ followed by 32 hex characters''), st)
      else if ids = [] then (Inr (), st)
      else case date_iso now of Inl err \<Rightarrow> (Inl err, st) | Inr at_iso \<Rightarrow>
        (case appendEvents sha lc parse schema now_iso
            (delivery_events env rng worktreeRoot byAgentId channel at_iso ids) st of
           (Inl err, st') \<Rightarrow> (Inl (Storage_failed err), st')
         | (Inr _, st') \<Rightarrow> (Inr (), st')))"

text \<open>\<open>undeliveredCount\<close> splits a marker's name at its last dot.\<close>

definition marked_by_anyone :: "string list \<Rightarrow> string list" where
  "marked_by_anyone markers =
     List.map_filter (\<lambda>file. case last_index_of ''.'' file of
         None \<Rightarrow> None
       | Some k \<Rightarrow> if 0 < k \<and> prefix ''msg_'' (take k file) then Some (take k file) else None) markers"

definition delivered_to_anyone :: "event list \<Rightarrow> string list" where
  "delivered_to_anyone events =
     List.map_filter (\<lambda>e. case payload e of AgentMessageDelivered d \<Rightarrow> Some (md_messageId d) | _ \<Rightarrow> None) events"

definition undelivered_of :: "(string \<Rightarrow> int option) \<Rightarrow> int \<Rightarrow> string list \<Rightarrow> event list \<Rightarrow> nat" where
  "undelivered_of date_parse now markers events =
     (let delivered = delivered_to_anyone events @ marked_by_anyone markers
      in length (filter (\<lambda>e. case payload e of
            AgentMessageSent m \<Rightarrow> \<not> expired_at date_parse now (ms_expiresAt m) \<and> ms_messageId m \<notin> set delivered
          | _ \<Rightarrow> False) events))"

definition undeliveredCount ::
    "(string \<Rightarrow> event option) \<Rightarrow> (string \<Rightarrow> event option) \<Rightarrow> (string \<Rightarrow> int option) \<Rightarrow> files \<Rightarrow> string \<Rightarrow> string list
     \<Rightarrow> int \<Rightarrow> event_cache \<Rightarrow> nat \<times> event_cache" where
  "undeliveredCount parse raw date_parse files path markers now cache =
     (case readEventsCached parse raw files path
        (typed_query [ET_agent_message_sent, ET_agent_message_delivered]) False cache of
        (Inl _, cache') \<Rightarrow> (0, cache')
      | (Inr events, cache') \<Rightarrow> (undelivered_of date_parse now markers events, cache'))"


section \<open>What an inbox shows\<close>

definition open_messages ::
    "(string \<Rightarrow> int option) \<Rightarrow> int \<Rightarrow> string \<Rightarrow> bool \<Rightarrow> string list \<Rightarrow> event list \<Rightarrow> (event \<times> message_sent) list" where
  "open_messages date_parse now agent includeDelivered delivered events =
     filter (\<lambda>(e, m). addressed agent (ms_to m) \<and> \<not> expired_at date_parse now (ms_expiresAt m)
       \<and> (includeDelivered \<or> ms_messageId m \<notin> set delivered)) (sent_messages events)"

definition open_rows ::
    "(string \<Rightarrow> int option) \<Rightarrow> int \<Rightarrow> string \<Rightarrow> bool \<Rightarrow> string list \<Rightarrow> event list \<Rightarrow> inbox_row list" where
  "open_rows date_parse now agent includeDelivered markers events =
     map (\<lambda>(e, m). row_of_message e m)
       (open_messages date_parse now agent includeDelivered (delivered_to events agent @ marked_delivered markers agent)
          events)"

definition expired_count :: "(string \<Rightarrow> int option) \<Rightarrow> int \<Rightarrow> string \<Rightarrow> event list \<Rightarrow> nat" where
  "expired_count date_parse now agent events =
     length (filter (\<lambda>(e, m). addressed agent (ms_to m) \<and> expired_at date_parse now (ms_expiresAt m)) (sent_messages events))"

lemma scan_inbox_spec:
  "scan_inbox date_parse now agent includeDelivered delivered events =
     (map (\<lambda>(e, m). row_of_message e m) (open_messages date_parse now agent includeDelivered delivered events),
      expired_count date_parse now agent events)"
proof (induction events)
  case (Cons e events)
  then show ?case
    by (cases "payload e") (simp_all add: open_messages_def expired_count_def)
qed (simp add: open_messages_def expired_count_def)

context comparator
begin

lemma filter_insert:
  "sorted_wrt (\<lambda>x y. cmp x y \<le> 0) xs
   \<Longrightarrow> filter P (js_insert cmp x xs) = (if P x then js_insert cmp x (filter P xs) else filter P xs)"
proof (induction xs)
  case (Cons y ys)
  show ?case
  proof (cases "cmp x y \<le> 0")
    case True
    then have "\<forall>z \<in> set (filter P (y # ys)). cmp x z \<le> 0" using Cons.prems by (auto intro: trans_le)
    from insert_below [OF this] show ?thesis using True by simp
  next
    case False
    then show ?thesis using Cons by simp
  qed
qed simp

lemma sort_filter: "js_sort cmp (filter P xs) = filter P (js_sort cmp xs)"
  by (induction xs) (simp_all add: filter_insert sorted_sort)

end

interpretation newest: comparator newest_first
proof
  fix x y z
  show "newest_first x y < 0 \<longleftrightarrow> 0 < newest_first y x" by (auto simp: newest_first_def)
  show "newest_first x y \<le> 0 \<Longrightarrow> newest_first y z \<le> 0 \<Longrightarrow> newest_first x z \<le> 0"
    by (auto simp: newest_first_def split: if_splits)
qed

lemma newest_first_le: "newest_first x y \<le> 0 \<longleftrightarrow> ir_sentAt y \<le> ir_sentAt x"
  by (auto simp: newest_first_def)

lemma inbox_of_alt:
  "inbox_of date_parse now agent includeDelivered cap markers events =
     (let ordered = js_sort newest_first (open_rows date_parse now agent includeDelivered markers events)
      in \<lparr>ib_rows = take cap ordered, ib_withheld = length (drop cap ordered),
          ib_expired = expired_count date_parse now agent events\<rparr>)"
  by (simp add: inbox_of_def scan_inbox_spec open_rows_def Let_def)

lemma inbox_parts:
  "\<exists>hidden. let inbox = inbox_of date_parse now agent includeDelivered cap markers events in
     mset (ib_rows inbox) + mset hidden = mset (open_rows date_parse now agent includeDelivered markers events)
     \<and> length hidden = ib_withheld inbox
     \<and> length (ib_rows inbox) = min cap (length (open_rows date_parse now agent includeDelivered markers events))
     \<and> sorted_wrt (\<ge>) (map ir_sentAt (ib_rows inbox @ hidden))
     \<and> ib_expired inbox = expired_count date_parse now agent events"
proof -
  let ?rows = "open_rows date_parse now agent includeDelivered markers events"
  let ?ordered = "js_sort newest_first ?rows"
  have "mset (take cap ?ordered) + mset (drop cap ?ordered) = mset ?rows"
    by (metis append_take_drop_id mset_append mset_js_sort)
  moreover have "sorted_wrt (\<ge>) (map ir_sentAt ?ordered)"
    using newest.sorted_sort [of ?rows] by (simp add: sorted_wrt_map newest_first_le)
  ultimately show ?thesis
    by (intro exI [of _ "drop cap ?ordered"]) (simp add: inbox_of_alt Let_def min.commute del: map_append)
qed

text \<open>
  An inbox answer is exact: the rows shown and the rows withheld are together the unexpired messages
  addressed to the agent that it has not been delivered, each once; at most \<open>cap\<close> are shown, newest
  first, nothing is withheld while there is room, no withheld row is newer than a shown one, and the
  withheld and the expired rows are counted exactly.
\<close>

theorem inbox_exact:
  "\<exists>hidden. let inbox = inbox_of date_parse now agent includeDelivered cap markers events in
     mset (ib_rows inbox) + mset hidden = mset (open_rows date_parse now agent includeDelivered markers events)
     \<and> length hidden = ib_withheld inbox
     \<and> length (ib_rows inbox) = min cap (length (open_rows date_parse now agent includeDelivered markers events))
     \<and> sorted_wrt (\<ge>) (map ir_sentAt (ib_rows inbox @ hidden))
     \<and> ib_expired inbox = expired_count date_parse now agent events"
  by (rule inbox_parts)

section \<open>Delivery is per recipient\<close>

lemma sent_messages_append: "sent_messages (xs @ ys) = sent_messages xs @ sent_messages ys"
proof (induction xs)
  case (Cons e xs)
  then show ?case by (cases "payload e") simp_all
qed simp

lemma map_filter_append: "List.map_filter f (xs @ ys) = List.map_filter f xs @ List.map_filter f ys"
  by (simp add: List.map_filter_def)

lemma delivery_payloads:
  "e \<in> set (delivery_events env rng wt by_agent channel at_iso ids)
   \<Longrightarrow> \<exists>i \<in> set ids. payload e = AgentMessageDelivered \<lparr>md_messageId = i, md_channel = channel\<rparr> \<and> agentId e = Some by_agent"
  by (auto simp: delivery_events_def mailbox_event_def Let_def dest: set_zip_rightD)

lemma delivery_not_sent: "sent_messages (delivery_events env rng wt by_agent channel at_iso ids) = []"
proof -
  have "\<forall>e \<in> set es. \<exists>d. payload e = AgentMessageDelivered d \<Longrightarrow> sent_messages es = []" for es
    by (induction es) auto
  then show ?thesis using delivery_payloads by blast
qed

lemma delivered_to_delivery:
  "delivered_to (delivery_events env rng wt by_agent channel at_iso ids) agent = (if agent = by_agent then ids else [])"
proof -
  have "map snd (zip [n..<n + length ids] ids) = ids" for n by simp
  have "List.map_filter (\<lambda>e. case payload e of
        AgentMessageDelivered d \<Rightarrow> if agentId e = Some agent then Some (md_messageId d) else None | _ \<Rightarrow> None)
      (map (\<lambda>(k, i). mailbox_event env wt (rng (2 * k)) (rng (2 * k + 1)) by_agent None at_iso
          (AgentMessageDelivered \<lparr>md_messageId = i, md_channel = channel\<rparr>)) kis)
    = (if agent = by_agent then map snd kis else [])" for kis
    by (induction kis) (auto simp: map_filter_simps mailbox_event_def Let_def)
  then show ?thesis by (simp add: delivered_to_def delivery_events_def)
qed


section \<open>Mailbox and ledger\<close>

abbreviation mail_types :: "event_type list" where
  "mail_types \<equiv> [ET_agent_message_sent, ET_agent_message_delivered]"

lemma appendEvents_fresh:
  assumes "store_ok sha parse st" and "fresh_for st events"
    and "\<forall>e \<in> set events. schema e = Inr e \<and> parse (event_canonical e) = Some e"
    and "appendEvents sha lc parse schema now events st = (Inr results, st')"
  shows "store_ok sha parse st' \<and> \<not> st_closed st'
    \<and> events_of_types parse types st' = events_of_types parse types st @ filter (\<lambda>e. eventType e \<in> set types) events
    \<and> map (event_of parse) (st_events st') = map (event_of parse) (st_events st) @ events"
proof -
  let ?st = "st\<lparr>st_closed := False\<rparr>"
  have same: "map schema events = map Inr events" using assms(3) by simp
  have ok: "store_ok sha parse ?st" "\<not> st_closed ?st" using assms(1) by (simp_all add: store_ok_def)
  have fresh: "fresh_for ?st events" using assms(2) by (simp add: fresh_for_def)
  have inv: "parse_inverts parse (map Inr events)" using assms(3) by (auto simp: parse_inverts_def)
  have result: "appendAtomic sha lc parse now (map Inr events) no_options ?st = (Inr results, st')"
    using assms(4) by (simp add: appendEvents_def same)
  note appended = append_fresh [OF ok fresh inv result]
  have "\<forall>c \<in> set (candidates_of sha events). parse (ca_text c) = Some (ca_event c)"
    using candidates_of_ok inv by (fastforce simp: parse_inverts_def)
  from candidate_rows_read [OF this, of "st_next_position st"]
  have "map (event_of parse) (st_events st') = map (event_of parse) (st_events st) @ events"
    using appended by (simp add: candidates_of_events)
  moreover have "events_of_types parse types ?st = events_of_types parse types st"
    by (simp add: events_of_types_def)
  ultimately show ?thesis using appended [of types] by simp
qed

lemma readInbox_uncached:
  assumes "store_ok sha parse (ledger_at files path)" and "raw_agrees parse raw"
    and "uncached cache files path mail_types" and "limit = None \<or> (\<exists>n. limit = Some n \<and> 0 < n \<and> n < 2 ^ 53)"
  shows "fst (readInbox parse raw date_parse files path markers agent includeDelivered limit now cache)
    = Inr (inbox_of date_parse now agent includeDelivered (case limit of None \<Rightarrow> inbox_cap | Some n \<Rightarrow> nat n) markers
        (events_of_types parse mail_types (ledger_at files path)))"
  using typed_read [OF assms(1-3)] assms(4) by (auto simp: readInbox_def)

lemma composed_event:
  assumes "compose_message env rng clock_ms opts = Inr e"
  shows "\<exists>from audience kind refs at_iso expires_iso. so_from opts = Some from \<and> audienceOf (so_to opts) = Inr audience
    \<and> e = sent_event env rng opts from audience kind refs at_iso expires_iso
    \<and> subject_error (trim (so_subject opts)) = None \<and> body_error (trim (so_subject opts)) (so_body opts) = None"
  using assms
  by (auto simp: compose_message_def raise_bind_def split: option.splits if_splits sum.splits)

lemma sent_event_simps [simp]:
  "payload (sent_event env rng opts from audience kind refs at_iso expires_iso) = AgentMessageSent
     \<lparr>ms_messageId = ''msg_'' @ randomHex (rng 0) 32, ms_to = audience, ms_kind = kind,
      ms_subject = trim (so_subject opts), ms_body = so_body opts, ms_refs = refs, ms_expiresAt = expires_iso\<rparr>"
  "eventType (sent_event env rng opts from audience kind refs at_iso expires_iso) = ET_agent_message_sent"
  by (simp_all add: sent_event_def mailbox_event_def Let_def eventType_def)

lemma sendMail_cases:
  assumes "sendMail sha lc parse schema now_iso env rng clock_ms opts st = (Inr mid, st')"
  obtains e results where "compose_message env rng clock_ms opts = Inr e"
    "appendEvents sha lc parse schema now_iso [e] st = (Inr results, st')" "mid = message_id_of e"
  using assms by (auto simp: sendMail_def split: sum.splits prod.splits)

lemma sent_messages_member: "(e, m) \<in> set (sent_messages events) \<longleftrightarrow> e \<in> set events \<and> payload e = AgentMessageSent m"
proof (induction events)
  case (Cons x events)
  then show ?case by (cases "payload x") auto
qed simp

lemma inbox_shows_or_full:
  assumes "row \<in> set (open_rows date_parse now agent False markers events)"
  shows "let shown = ib_rows (inbox_of date_parse now agent False inbox_cap markers events)
    in row \<in> set shown \<or> length shown = inbox_cap \<and> (\<forall>other \<in> set shown. ir_sentAt row \<le> ir_sentAt other)"
proof -
  let ?shown = "ib_rows (inbox_of date_parse now agent False inbox_cap markers events)"
    and ?rows = "open_rows date_parse now agent False markers events"
  obtain hidden where parts: "mset ?shown + mset hidden = mset ?rows"
    and order: "sorted_wrt (\<ge>) (map ir_sentAt (?shown @ hidden))" and len: "length ?shown = min inbox_cap (length ?rows)"
    using inbox_parts [of date_parse now agent False inbox_cap markers events] by (auto simp: Let_def)
  have "row \<in> set ?shown \<or> row \<in> set hidden" using assms parts by (metis Un_iff set_mset_mset set_mset_union)
  moreover have "length ?shown = inbox_cap \<and> (\<forall>other \<in> set ?shown. ir_sentAt row \<le> ir_sentAt other)" if "row \<in> set hidden"
  proof -
    have "length ?shown < length ?rows" using arg_cong [OF parts, of size] that by (cases hidden) simp_all
    then show ?thesis using order that len by (auto simp: sorted_wrt_append)
  qed
  ultimately show ?thesis by (auto simp: Let_def)
qed



lemma markDelivered_cases:
  assumes "markDelivered sha lc parse schema now_iso env rng now wt by_agent channel ids st = (Inr (), st')"
    and "ids \<noteq> []"
  obtains at_iso results where "date_iso now = Inr at_iso" and "agent_id by_agent"
    "appendEvents sha lc parse schema now_iso (delivery_events env rng wt by_agent channel at_iso ids) st = (Inr results, st')"
  using assms by (auto simp: markDelivered_def split: if_splits sum.splits prod.splits)

lemma delivery_types: "filter (\<lambda>e. eventType e \<in> set mail_types) (delivery_events env rng wt by_agent channel at_iso ids)
    = delivery_events env rng wt by_agent channel at_iso ids"
  using delivery_payloads by (fastforce simp: filter_id_conv eventType_def)

lemma delivered_to_append: "delivered_to (xs @ ys) agent = delivered_to xs agent @ delivered_to ys agent"
  by (simp add: delivered_to_def map_filter_append)

lemma open_rows_after_delivery:
  "open_rows date_parse now agent False markers (events @ delivery_events env rng wt by_agent channel at_iso ids)
   = filter (\<lambda>row. agent = by_agent \<longrightarrow> ir_messageId row \<notin> set ids) (open_rows date_parse now agent False markers events)"
proof -
  have deliveries: "delivered_to (events @ delivery_events env rng wt by_agent channel at_iso ids) agent
      = delivered_to events agent @ (if agent = by_agent then ids else [])"
    by (simp add: delivered_to_append delivered_to_delivery)
  show ?thesis
    unfolding open_rows_def open_messages_def sent_messages_append delivery_not_sent deliveries
    by (auto simp: filter_map comp_def case_prod_beta row_of_message_def intro!: arg_cong [where f = "map _"] filter_cong)
qed

lemma delivered_to_mono: "set xs \<subseteq> set ys \<Longrightarrow> set (delivered_to xs agent) \<subseteq> set (delivered_to ys agent)"
  using image_mono [of _ "set ys"] by (simp add: delivered_to_def List.map_filter_def) (blast intro: image_mono)

lemma open_rows_hide_delivered:
  "row \<in> set (open_rows date_parse now agent False markers events) \<Longrightarrow> ir_messageId row \<notin> set (delivered_to events agent)"
  by (auto simp: open_rows_def open_messages_def row_of_message_def)

lemma inbox_rows_open: "row \<in> set (ib_rows (inbox_of date_parse now agent False limit markers events))
    \<Longrightarrow> row \<in> set (open_rows date_parse now agent False markers events)"
  by (auto simp: inbox_of_alt Let_def dest: in_set_takeD)

lemma filter_take_prefix: "prefix (filter P (take n xs)) (take n (filter P xs))"
proof -
  have "filter P (take n xs) @ filter P (drop n xs) = filter P xs" by (simp flip: filter_append)
  moreover have "length (filter P (take n xs)) \<le> n" using length_filter_le [of P "take n xs"] by simp
  ultimately show ?thesis by (metis append_take_drop_id prefixI take_append take_all)
qed

lemma inbox_after_marking:
  assumes "marks = delivery_events env rng wt by_agent channel at_iso ids"
    and "inbox = inbox_of date_parse now agent False inbox_cap markers events"
    and "inbox' = inbox_of date_parse now agent False inbox_cap markers (events @ marks)"
  shows "if agent \<noteq> by_agent then inbox' = inbox
    else (\<forall>row \<in> set (ib_rows inbox'). ir_messageId row \<notin> set ids)
       \<and> prefix (filter (\<lambda>row. ir_messageId row \<notin> set ids) (ib_rows inbox)) (ib_rows inbox')"
proof -
  let ?rows = "open_rows date_parse now agent False markers events"
  have expired: "expired_count date_parse now agent (events @ marks) = expired_count date_parse now agent events"
    by (simp add: expired_count_def sent_messages_append delivery_not_sent assms(1))
  have open_marks: "open_rows date_parse now agent False markers (events @ marks)
      = filter (\<lambda>row. agent = by_agent \<longrightarrow> ir_messageId row \<notin> set ids) ?rows"
    unfolding assms(1) by (rule open_rows_after_delivery)
  show ?thesis
  proof (cases "agent = by_agent")
    case False
    then show ?thesis by (simp add: assms(2,3) inbox_of_alt open_marks expired)
  next
    case True
    have mine: "open_rows date_parse now agent False markers (events @ marks)
        = filter (\<lambda>row. ir_messageId row \<notin> set ids) ?rows"
      using open_marks by (simp only: True simp_thms)
    have rows: "ib_rows inbox' = take inbox_cap (filter (\<lambda>row. ir_messageId row \<notin> set ids) (js_sort newest_first ?rows))"
      unfolding assms(3) inbox_of_alt Let_def mine newest.sort_filter by simp
    then have "\<forall>row \<in> set (ib_rows inbox'). ir_messageId row \<notin> set ids"
      by (auto dest: in_set_takeD)
    moreover have "ib_rows inbox = take inbox_cap (js_sort newest_first ?rows)"
      by (simp add: assms(2) inbox_of_alt Let_def)
    then have "prefix (filter (\<lambda>row. ir_messageId row \<notin> set ids) (ib_rows inbox)) (ib_rows inbox')"
      unfolding rows by (simp only: filter_take_prefix)
    moreover have "\<not> agent \<noteq> by_agent" using True by simp
    ultimately show ?thesis by (simp only: if_False simp_thms)
  qed
qed

lemma marked_never_shown:
  assumes "set (delivery_events env rng wt by_agent channel at_iso ids) \<subseteq> set events"
    and "row \<in> set (ib_rows (inbox_of date_parse now by_agent False limit markers events))"
  shows "ir_messageId row \<notin> set ids"
proof -
  have "set ids \<subseteq> set (delivered_to events by_agent)"
    using delivered_to_mono [OF assms(1), of by_agent] by (simp add: delivered_to_delivery)
  then show ?thesis using open_rows_hide_delivered [OF inbox_rows_open [OF assms(2)]] by blast
qed

text \<open>
  C5: Delivery is recorded per recipient, on inboxes read from the ledger (the event cache holds no answer for the
  file): right after \<open>markDelivered\<close> returned for one agent, its inbox shows no marked message and keeps, in
  order, every other row it showed, while the inbox of every other agent is what it was - so a broadcast one agent
  has read still reaches the others.  And at any later time, from any ledger that still holds the delivery events,
  the agent's inbox shows none of the marked messages.  The schema accepts the events and their random ids are new.
\<close>

theorem delivery_per_recipient:
  assumes "store_ok sha parse (ledger_at before path)" and "raw_agrees parse raw"
    and "markDelivered sha lc parse schema now_iso env rng marked_at wt by_agent channel ids (ledger_at before path) = (Inr (), st')"
    and "ids \<noteq> []" and "marks = delivery_events env rng wt by_agent channel (toISOString marked_at) ids"
    and "\<forall>e \<in> set marks. schema e = Inr e \<and> parse (event_canonical e) = Some e"
    and "fresh_for (ledger_at before path) marks"
    and "ledger_at after path = st'" and "uncached cache before path mail_types" and "uncached cache after path mail_types"
  shows "(\<exists>inbox inbox'. fst (readInbox parse raw date_parse before path markers agent False None now cache) = Inr inbox
    \<and> fst (readInbox parse raw date_parse after path markers agent False None now cache) = Inr inbox'
    \<and> (if agent \<noteq> by_agent then inbox' = inbox
       else (\<forall>row \<in> set (ib_rows inbox'). ir_messageId row \<notin> set ids)
         \<and> prefix (filter (\<lambda>row. ir_messageId row \<notin> set ids) (ib_rows inbox)) (ib_rows inbox')))
    \<and> (\<forall>files name cache markers now. store_ok sha parse (ledger_at files name) \<and> uncached cache files name mail_types
          \<and> set marks \<subseteq> set (events_of_types parse mail_types (ledger_at files name))
        \<longrightarrow> (\<exists>inbox. fst (readInbox parse raw date_parse files name markers by_agent False None now cache) = Inr inbox
              \<and> (\<forall>row \<in> set (ib_rows inbox). ir_messageId row \<notin> set ids)))"
proof -
  obtain at_iso results where iso: "date_iso marked_at = Inr at_iso"
    and sent: "appendEvents sha lc parse schema now_iso (delivery_events env rng wt by_agent channel at_iso ids)
      (ledger_at before path) = (Inr results, st')"
    by (rule markDelivered_cases [OF assms(3,4)])
  have "at_iso = toISOString marked_at" using iso by (simp add: date_iso_def split: if_splits)
  then have appended: "appendEvents sha lc parse schema now_iso marks (ledger_at before path) = (Inr results, st')"
    using sent by (simp only: assms(5))
  let ?events = "events_of_types parse mail_types (ledger_at before path)"
  have after: "store_ok sha parse st'" "events_of_types parse mail_types st' = ?events @ marks"
  proof -
    have "filter (\<lambda>e. eventType e \<in> set mail_types) marks = marks" unfolding assms(5) by (rule delivery_types)
    then show "store_ok sha parse st'" "events_of_types parse mail_types st' = ?events @ marks"
      using appendEvents_fresh [OF assms(1,7,6) appended, of mail_types] by (simp_all only:)
  qed
  let ?inbox = "\<lambda>es. inbox_of date_parse now agent False inbox_cap markers es"
  have read: "fst (readInbox parse raw date_parse before path markers agent False None now cache) = Inr (?inbox ?events)"
    "fst (readInbox parse raw date_parse after path markers agent False None now cache) = Inr (?inbox (?events @ marks))"
    using readInbox_uncached [OF assms(1,2,9), of None] readInbox_uncached [of sha parse after path raw cache None]
      assms(2,8,10) after by simp_all
  have never: "\<exists>inbox. fst (readInbox parse raw date_parse files name markers by_agent False None now cache) = Inr inbox
      \<and> (\<forall>row \<in> set (ib_rows inbox). ir_messageId row \<notin> set ids)"
    if "store_ok sha parse (ledger_at files name)" "uncached cache files name mail_types"
      "set marks \<subseteq> set (events_of_types parse mail_types (ledger_at files name))" for files name cache markers now
    using readInbox_uncached [OF that(1) assms(2) that(2), of None] marked_never_shown [OF that(3) [unfolded assms(5)]] by simp
  have "\<exists>inbox inbox'. fst (readInbox parse raw date_parse before path markers agent False None now cache) = Inr inbox
    \<and> fst (readInbox parse raw date_parse after path markers agent False None now cache) = Inr inbox'
    \<and> (if agent \<noteq> by_agent then inbox' = inbox
       else (\<forall>row \<in> set (ib_rows inbox'). ir_messageId row \<notin> set ids)
         \<and> prefix (filter (\<lambda>row. ir_messageId row \<notin> set ids) (ib_rows inbox)) (ib_rows inbox'))"
    by (rule exI [of _ "?inbox ?events"], rule exI [of _ "?inbox (?events @ marks)"])
      (intro conjI read inbox_after_marking [OF assms(5) HOL.refl HOL.refl])
  then show ?thesis using never by blast
qed


section \<open>Acknowledging\<close>

lemma find_sent_SomeD: "find_sent messageId events = Some (e, m) \<Longrightarrow>
    e \<in> set events \<and> payload e = AgentMessageSent m \<and> ms_messageId m = messageId"
  unfolding find_sent_def by (drule find_SomeD) (simp add: sent_messages_member)

lemma replay_InrD:
  "replayEvents sha lc init f events = Some (Inr r)
   \<Longrightarrow> \<exists>ordered. causalOrder events = Some (Inr ordered) \<and> validateEventSet sha lc ordered = []"
proof (cases "causalOrder events")
  case (Some x)
  then show "replayEvents sha lc init f events = Some (Inr r) \<Longrightarrow> ?thesis"
    by (cases x) (simp_all add: replayEvents_def Let_def split: if_splits)
qed (simp add: replayEvents_def)

lemma acknowledge_cases:
  assumes "acknowledgeMessage sha lc parse raw schema now_iso env rng now files path cache wt by_agent mid disposition note
      = (Inr Acked, st', cache')"
    and "readEventsCached parse raw files path (typed_query [ET_agent_message_sent]) False cache = (Inr events, cache1)"
  obtains sent m ack results where "find_sent mid events = Some (sent, m)" "causationId ack = Some (eventId sent)"
    "correlationId ack = createCorrelationId (rng 1)" "eventId ack = ''evt_'' @ randomHex (rng 0) 32"
    "acknowledgement env rng now wt by_agent mid disposition note events = Inr (Acked, [ack])"
    "appendEvents sha lc parse schema now_iso [ack] (ledger_at files path) = (Inr results, st')"
proof -
  obtain new where ack: "acknowledgement env rng now wt by_agent mid disposition note events = Inr (Acked, new)"
    using assms by (auto simp: acknowledgeMessage_def Let_def split: if_splits sum.splits prod.splits list.splits)
  then obtain sent m at_iso d where found: "find_sent mid events = Some (sent, m)"
    and new: "new = [mailbox_event env wt (rng 0) (rng 1) by_agent (Some (eventId sent)) at_iso
        (AgentMessageAcknowledged \<lparr>ma_messageId = mid, ma_disposition = d, ma_note = note\<rparr>)]"
    by (auto simp: acknowledgement_def raise_bind_def split: option.splits if_splits sum.splits)
  then obtain e where e: "new = [e]" "causationId e = Some (eventId sent)" "correlationId e = createCorrelationId (rng 1)"
    "eventId e = ''evt_'' @ randomHex (rng 0) 32"
    by (simp add: mailbox_event_def Let_def)
  have "\<exists>results. appendEvents sha lc parse schema now_iso [e] (ledger_at files path) = (Inr results, st')"
    using assms ack e(1) by (auto simp: acknowledgeMessage_def Let_def split: if_splits sum.splits prod.splits)
  then show ?thesis using that found e ack by blast
qed

lemma ordered_distinct:
  assumes "causalOrder events = Some (Inr out)"
  shows "set out = set events" and "distinct (map eventId out)"
proof -
  note ok = causalOrder_ok [THEN iffD1, OF assms]
  then show "set out = set events" by simp
  moreover have "distinct out" using ok least_ready_first_subset by blast
  ultimately show "distinct (map eventId out)" using ok by (simp add: distinct_map)
qed

lemma map_sum_InrE: "map_sum g id z = Inr r \<Longrightarrow> (z = Inr r \<Longrightarrow> thesis) \<Longrightarrow> thesis"
  by (cases z) auto

text \<open>
  Acknowledging a message makes the ledger unreplayable: the acknowledgement names the sent event as
  its cause but carries a correlation id of its own, which validation forbids for a child, so every
  replay of a ledger with a successful acknowledgement fails.
\<close>

theorem ack_breaks_replay:
  assumes "store_ok sha parse (ledger_at files path)" and "raw_agrees parse raw"
    and "uncached cache files path [ET_agent_message_sent]"
    and "acknowledgeMessage sha lc parse raw schema now_iso env rng now files path cache wt by_agent mid disposition note
      = (Inr Acked, st', cache')"
    and "\<forall>e \<in> set (map (event_of parse) (st_events (ledger_at files path))).
      eventId e \<noteq> ''evt_'' @ randomHex (rng 0) 32 \<and> correlationId e \<noteq> createCorrelationId (rng 1)"
    and "\<And>ack. eventId ack = ''evt_'' @ randomHex (rng 0) 32 \<Longrightarrow> schema ack = Inr ack"
    and "\<And>ack. acknowledgement env rng now wt by_agent mid disposition note
        (events_of_types parse [ET_agent_message_sent] (ledger_at files path)) = Inr (Acked, [ack])
      \<Longrightarrow> parse (event_canonical ack) = Some ack"
  shows "store_replay sha lc parse init f st' \<noteq> Some (Inr r)"
proof
  let ?st = "ledger_at files path"
  let ?events = "events_of_types parse [ET_agent_message_sent] ?st"
  obtain cache1 where "readEventsCached parse raw files path (typed_query [ET_agent_message_sent]) False cache
      = (Inr ?events, cache1)" using typed_read [OF assms(1-3)] by blast
  from acknowledge_cases [OF assms(4) this]
  obtain sent m ack results where found: "find_sent mid ?events = Some (sent, m)"
    and ack: "causationId ack = Some (eventId sent)" "correlationId ack = createCorrelationId (rng 1)"
      "eventId ack = ''evt_'' @ randomHex (rng 0) 32"
    and made: "acknowledgement env rng now wt by_agent mid disposition note ?events = Inr (Acked, [ack])"
    and appended: "appendEvents sha lc parse schema now_iso [ack] ?st = (Inr results, st')" .
  have row: "eventId (event_of parse r) = er_event_id r" if "r \<in> set (st_events ?st)" for r
    using assms(1) row_ok_event that by (auto simp: store_ok_def)
  have "er_event_id r \<noteq> eventId ack" if "r \<in> set (st_events ?st)" for r
    using assms(5) row [OF that] that ack(3) by auto
  then have "fresh_for ?st [ack]" by (force simp: fresh_for_def)
  from appendEvents_fresh [OF assms(1) this _ appended] assms(6,7) ack(3) made
  have after: "store_ok sha parse st'" "\<not> st_closed st'"
    "map (event_of parse) (st_events st') = map (event_of parse) (st_events ?st) @ [ack]" by simp_all
  have read: "read_events parse all_events st' = Inr (map (event_of parse) (st_events ?st) @ [ack])"
    using read_events_ok [OF after(1,2), of all_events] after(3)
    by (simp add: query_rows_def row_matches_def all_events_def asks_def)
  assume "store_replay sha lc parse init f st' = Some (Inr r)"
  then have "replayEvents sha lc init f (map (event_of parse) (st_events ?st) @ [ack]) = Some (Inr r)"
    by (cases "replayEvents sha lc init f (map (event_of parse) (st_events ?st) @ [ack])")
      (auto simp: store_replay_def read elim: map_sum_InrE)
  then obtain ordered where order: "causalOrder (map (event_of parse) (st_events ?st) @ [ack]) = Some (Inr ordered)"
    and valid: "validateEventSet sha lc ordered = []" by (metis replay_InrD)
  have perm: "set ordered = set (map (event_of parse) (st_events ?st) @ [ack])" and "distinct (map eventId ordered)"
    using ordered_distinct [OF order] by simp_all
  then have "ack \<in> set ordered" by simp
  from valid_parent [OF \<open>distinct (map eventId ordered)\<close> valid this ack(1)]
  obtain parent where parent: "parent \<in> set ordered" "correlationId parent = correlationId ack" "eventId parent \<noteq> eventId ack"
    by metis
  have "parent \<in> set (map (event_of parse) (st_events ?st) @ [ack])" using parent(1) perm by simp
  then have "parent \<in> set (map (event_of parse) (st_events ?st))" using parent(3) by auto
  then show False using assms(5) parent(2) ack(2) by auto
qed

section \<open>Witnesses\<close>

definition demo_digits :: "nat \<Rightarrow> string" where
  "demo_digits k = replicate 31 CHR ''a'' @ [char_of (48 + k)]"

definition demo_mail_env :: mail_env where
  "demo_mail_env = \<lparr>me_cwd = [], me_identity = (\<lambda>w. \<lparr>ri_worktreeRoot = w, ri_repositoryId = ''repo_a'',
     ri_workspaceId = ''workspace_a'', ri_worktreeId = ''worktree_a''\<rparr>),
     me_date_parse = iso_parse, me_sha_bytes = (\<lambda>_. replicate 32 7)\<rparr>"

definition demo_send :: send_mail_options where
  "demo_send = \<lparr>so_worktreeRoot = ''/w'', so_from = Some ''agent_alice'', so_to = ''agent_bob'', so_kind = ''notice'',
     so_subject = '' heads up '', so_body = ''the build is red'', so_refs = None, so_expiresAt = None\<rparr>"

definition demo_mail :: event where
  "demo_mail = sent_event demo_mail_env demo_digits demo_send ''agent_alice'' (To_agent ''agent_bob'') MK_notice []
     (toISOString 1000) (toISOString 604801000)"

lemma demo_composed: "compose_message demo_mail_env demo_digits (Some 1000) demo_send = Inr demo_mail"
  unfolding demo_mail_def by code_simp

definition demo_mail_id :: string where
  "demo_mail_id = ''msg_'' @ demo_digits 0"

definition demo_mailbox :: store where
  "demo_mailbox = \<lparr>st_events = [row_of 1 demo_mail ''h'' (event_canonical demo_mail)], st_next_position = 2,
     st_pending = [], st_next_buffered = 1, st_closed = False\<rparr>"

lemma demo_mail_parse: "demo_parse [demo_mail] (event_canonical demo_mail) = Some demo_mail"
  by (simp add: demo_parse_def)

lemma mail_store_open: "store_ok sha parse store_open"
  by (simp add: store_ok_def store_open_def)

lemma append_one:
  assumes "store_ok (\<lambda>_. ''h'') parse st" and "\<not> st_closed st" and "eventId e \<notin> set (durable_ids st)"
  shows "\<exists>results. appendEvents (\<lambda>_. ''h'') lc parse Inr now [e] st = (Inr results,
    st\<lparr>st_events := st_events st @ [row_of (st_next_position st) e ''h'' (event_canonical e)],
       st_next_position := st_next_position st + 1\<rparr>)"
proof -
  have same: "st\<lparr>st_closed := False\<rparr> = st" using assms(2) by (cases st) simp
  have "fresh_for st [e]" using assms(3) by (simp add: fresh_for_def)
  from append_fresh_rows [OF assms(1,2) _ this, of lc now] show ?thesis
    by (simp add: appendEvents_def same candidates_of_def candidate_row_def event_digest_def)
qed

lemma demo_mail_payload: "payload demo_mail = AgentMessageSent \<lparr>ms_messageId = demo_mail_id,
    ms_to = To_agent ''agent_bob'', ms_kind = MK_notice, ms_subject = ''heads up'', ms_body = ''the build is red'',
    ms_refs = [], ms_expiresAt = toISOString 604801000\<rparr>"
  by (simp add: demo_mail_def) (simp add: demo_mail_id_def demo_send_def demo_digits_def randomHex_def, code_simp)

lemma demo_mailed: "sendMail (\<lambda>_. ''h'') compareStrings (demo_parse [demo_mail]) Inr ''now'' demo_mail_env demo_digits
     (Some 1000) demo_send store_open = (Inr demo_mail_id, demo_mailbox)"
  using append_one [OF mail_store_open, of demo_mail compareStrings "demo_parse [demo_mail]" "''now''"]
  by (auto simp: sendMail_def demo_composed store_open_def demo_mailbox_def message_id_of_def demo_mail_payload
      numeral_2_eq_2)

lemma clear_uncached: "uncached clearEventCache files path types"
  by (simp add: uncached_def clearEventCache_def)

lemma demo_not_expired: "\<not> expired_at iso_parse 2000 (toISOString 604801000)"
  using iso_parse_roundtrip by (simp add: expired_at_def parses_iso_def iso_limit_def)


definition later_digits :: "nat \<Rightarrow> string" where
  "later_digits k = demo_digits (5 + k)"

definition demo_mark :: event where
  "demo_mark = hd (delivery_events demo_mail_env later_digits ''/w'' ''agent_bob'' MC_mcp_pull (toISOString 3000)
     [demo_mail_id])"

lemma demo_marks: "delivery_events demo_mail_env later_digits ''/w'' ''agent_bob'' MC_mcp_pull (toISOString 3000)
    [demo_mail_id] = [demo_mark]"
  by (simp add: demo_mark_def delivery_events_def)

lemma demo_mailbox_at [simp]: "ledger_at (demo_files 2 demo_mailbox) ''ledger'' = demo_mailbox"
  by (simp add: demo_files_ledger demo_mailbox_def)

lemma demo_mailbox_ok: "store_ok (\<lambda>_. ''h'') (demo_parse (demo_mail # events)) demo_mailbox"
  by (simp add: store_ok_def demo_mailbox_def row_ok_def row_of_def demo_parse_def event_digest_def)

lemma demo_mark_parse: "demo_parse [demo_mail, demo_mark] (event_canonical demo_mark) = Some demo_mark"
  by code_simp

lemma later_fresh: "eventId demo_mail \<noteq> ''evt_'' @ randomHex (later_digits 0) 32"
  "correlationId demo_mail \<noteq> createCorrelationId (later_digits 1)" "eventId demo_mark \<noteq> eventId demo_mail"
  by code_simp+

lemma demo_marked: "markDelivered (\<lambda>_. ''h'') compareStrings (demo_parse [demo_mail, demo_mark]) Inr ''now'' demo_mail_env
    later_digits 3000 ''/w'' ''agent_bob'' MC_mcp_pull [demo_mail_id] demo_mailbox
  = (Inr (), demo_mailbox\<lparr>st_events := st_events demo_mailbox @ [row_of 2 demo_mark ''h'' (event_canonical demo_mark)],
       st_next_position := 3\<rparr>)"
proof -
  have "agent_id ''agent_bob''" "message_id demo_mail_id" by code_simp+
  moreover obtain results where "appendEvents (\<lambda>_. ''h'') compareStrings (demo_parse [demo_mail, demo_mark]) Inr ''now''
      [demo_mark] demo_mailbox = (Inr results, demo_mailbox\<lparr>st_events := st_events demo_mailbox
        @ [row_of 2 demo_mark ''h'' (event_canonical demo_mark)], st_next_position := 3\<rparr>)"
    using append_one [OF demo_mailbox_ok, of demo_mark compareStrings "[demo_mark]" "''now''"] later_fresh(3)
    by (auto simp: demo_mailbox_def row_of_def)
  ultimately show ?thesis by (simp add: markDelivered_def date_iso_def max_time_def demo_marks)
qed

theorem delivery_per_recipient_witness:
  "\<exists>inbox inbox'. fst (readInbox (demo_parse [demo_mail, demo_mark]) (demo_parse [demo_mail, demo_mark]) iso_parse
      (demo_files 2 demo_mailbox) ''ledger'' [] ''agent_bob'' False None 4000 clearEventCache) = Inr inbox
    \<and> fst (readInbox (demo_parse [demo_mail, demo_mark]) (demo_parse [demo_mail, demo_mark]) iso_parse
      (demo_files 3 (demo_mailbox\<lparr>st_events := st_events demo_mailbox @ [row_of 2 demo_mark ''h'' (event_canonical demo_mark)],
         st_next_position := 3\<rparr>)) ''ledger'' [] ''agent_bob'' False None 4000 clearEventCache) = Inr inbox'
    \<and> (\<forall>row \<in> set (ib_rows inbox'). ir_messageId row \<noteq> demo_mail_id)"
proof -
  let ?after = "demo_files 3 (demo_mailbox\<lparr>st_events := st_events demo_mailbox
    @ [row_of 2 demo_mark ''h'' (event_canonical demo_mark)], st_next_position := 3\<rparr>)"
  have "fresh_for demo_mailbox [demo_mark]" using later_fresh(3) by (simp add: fresh_for_def demo_mailbox_def row_of_def)
  moreover have "ledger_at ?after ''ledger'' = demo_mailbox\<lparr>st_events := st_events demo_mailbox
      @ [row_of 2 demo_mark ''h'' (event_canonical demo_mark)], st_next_position := 3\<rparr>"
    by (simp add: demo_files_ledger demo_mailbox_def)
  moreover have "\<forall>e \<in> set [demo_mark]. (Inr :: event \<Rightarrow> string + event) e = Inr e
      \<and> demo_parse [demo_mail, demo_mark] (event_canonical e) = Some e" by (simp add: demo_mark_parse)
  moreover have "store_ok (\<lambda>_. ''h'') (demo_parse [demo_mail, demo_mark]) (ledger_at (demo_files 2 demo_mailbox) ''ledger'')"
    by (simp add: demo_mailbox_ok)
  moreover have marked: "markDelivered (\<lambda>_. ''h'') compareStrings (demo_parse [demo_mail, demo_mark]) Inr ''now'' demo_mail_env
      later_digits 3000 ''/w'' ''agent_bob'' MC_mcp_pull [demo_mail_id] (ledger_at (demo_files 2 demo_mailbox) ''ledger'')
    = (Inr (), ledger_at ?after ''ledger'')"
    using calculation(2) demo_marked by (simp only: demo_mailbox_at)
  ultimately show ?thesis
    using delivery_per_recipient [OF _ raw_agrees_refl marked _ demo_marks [symmetric] _ _ refl clear_uncached clear_uncached,
        where date_parse = iso_parse and markers = "[]" and now = 4000 and agent = "''agent_bob''"]
    by (simp only: demo_mailbox_at) auto
qed

definition demo_ack :: event where
  "demo_ack = mailbox_event demo_mail_env ''/w'' (later_digits 0) (later_digits 1) ''agent_bob'' (Some (eventId demo_mail))
     (toISOString 3000)
     (AgentMessageAcknowledged \<lparr>ma_messageId = demo_mail_id, ma_disposition = AD_accepted, ma_note = None\<rparr>)"

lemma demo_ack_parse: "demo_parse [demo_mail, demo_ack] (event_canonical demo_ack) = Some demo_ack"
  by code_simp

lemma demo_mail_read: "events_of_types (demo_parse (demo_mail # events)) [ET_agent_message_sent] demo_mailbox = [demo_mail]"
  by (simp add: events_of_types_def demo_mailbox_def row_of_def event_of_def demo_parse_def eventType_def demo_mail_payload)

lemma demo_acked: "acknowledgement demo_mail_env later_digits 3000 ''/w'' ''agent_bob'' demo_mail_id ''accepted'' None
    [demo_mail] = Inr (Acked, [demo_ack])"
  by code_simp

lemma demo_ack_stored: "\<exists>st cache. acknowledgeMessage (\<lambda>_. ''h'') compareStrings (demo_parse [demo_mail, demo_ack])
     (demo_parse [demo_mail, demo_ack])
     Inr ''now'' demo_mail_env later_digits 3000 (demo_files 2 demo_mailbox) ''ledger'' clearEventCache ''/w''
     ''agent_bob'' demo_mail_id ''accepted'' None = (Inr Acked, st, cache)"
proof -
  have "agent_id ''agent_bob''" "message_id demo_mail_id" "ack_disposition_of ''accepted'' \<noteq> None"
    "eventId demo_ack \<noteq> eventId demo_mail" by code_simp+
  moreover obtain cache where "readEventsCached (demo_parse [demo_mail, demo_ack]) (demo_parse [demo_mail, demo_ack])
      (demo_files 2 demo_mailbox) ''ledger'' (typed_query [ET_agent_message_sent]) False clearEventCache = (Inr [demo_mail], cache)"
    using typed_read [of "\<lambda>_. ''h''", OF _ raw_agrees_refl clear_uncached, of "demo_parse [demo_mail, demo_ack]"
        "demo_files 2 demo_mailbox" "''ledger''" "[ET_agent_message_sent]"] by (auto simp: demo_mailbox_ok demo_mail_read)
  moreover obtain results st where "appendEvents (\<lambda>_. ''h'') compareStrings (demo_parse [demo_mail, demo_ack]) Inr ''now''
      [demo_ack] demo_mailbox = (Inr results, st)"
    using append_one [OF demo_mailbox_ok, of demo_ack compareStrings "[demo_ack]" "''now''"] \<open>eventId demo_ack \<noteq> _\<close>
    by (auto simp: demo_mailbox_def row_of_def)
  ultimately show ?thesis by (simp add: acknowledgeMessage_def demo_acked Let_def)
qed

theorem ack_breaks_replay_witness:
  "\<exists>st cache. acknowledgeMessage (\<lambda>_. ''h'') compareStrings (demo_parse [demo_mail, demo_ack])
     (demo_parse [demo_mail, demo_ack])
     Inr ''now'' demo_mail_env later_digits 3000 (demo_files 2 demo_mailbox) ''ledger'' clearEventCache ''/w''
     ''agent_bob'' demo_mail_id ''accepted'' None = (Inr Acked, st, cache)
   \<and> store_replay (\<lambda>_. ''h'') compareStrings (demo_parse [demo_mail, demo_ack]) (0::nat) (\<lambda>n e. Suc n) st \<noteq> Some (Inr r)"
proof -
  obtain st cache where acked: "acknowledgeMessage (\<lambda>_. ''h'') compareStrings (demo_parse [demo_mail, demo_ack])
     (demo_parse [demo_mail, demo_ack])
     Inr ''now'' demo_mail_env later_digits 3000 (demo_files 2 demo_mailbox) ''ledger'' clearEventCache ''/w''
     ''agent_bob'' demo_mail_id ''accepted'' None = (Inr Acked, st, cache)"
    using demo_ack_stored by blast
  have rows: "map (event_of (demo_parse [demo_mail, demo_ack])) (st_events demo_mailbox) = [demo_mail]"
    by (simp add: demo_mailbox_def row_of_def event_of_def demo_parse_def)
  from ack_breaks_replay [OF _ raw_agrees_refl clear_uncached acked, of "0::nat" "\<lambda>n e. Suc n" r]
  have "store_replay (\<lambda>_. ''h'') compareStrings (demo_parse [demo_mail, demo_ack]) (0::nat) (\<lambda>n e. Suc n) st \<noteq> Some (Inr r)"
    using later_fresh by (simp add: demo_mailbox_ok rows demo_mail_read demo_acked demo_ack_parse)
  with acked show ?thesis by blast
qed

end
