(* ===== verification/Roles.thy ===== *)
theory Roles
  imports Mailbox
begin

text \<open>
  Roles: \<open>protocol/src/roles.ts\<close>, \<open>recorder/src/roles.ts\<close> and \<open>query/src/roles.ts\<close>.  A role owns the
  paths its globs match; an agent holds the role it claimed last, else the role its host is bound to.
  A JSON value is a \<open>jsval\<close>; \<open>json\<close> stands for \<open>JSON.parse\<close>.
\<close>

section \<open>The role configuration\<close>

record role_definition =
  rd_id :: string
  rd_purpose :: string
  rd_owns :: "string list"
  rd_reads :: "string list"
  rd_handoffTo :: "string list"

record role_binding =
  rb_host :: string
  rb_role :: string

record role_config =
  rc_roles :: "role_definition list"
  rc_bindings :: "role_binding list"

text \<open>\<open>value[key]\<close>, absent on an array.\<close>

definition js_field :: "string \<Rightarrow> jsval \<Rightarrow> jsval option" where
  "js_field key v = (case v of JObj members \<Rightarrow> map_of members key | JExotic members \<Rightarrow> map_of members key | _ \<Rightarrow> None)"

definition js_object :: "jsval \<Rightarrow> bool" where
  "js_object v = (case v of JObj _ \<Rightarrow> True | JArr _ \<Rightarrow> True | JExotic _ \<Rightarrow> True | _ \<Rightarrow> False)"

definition js_string :: "jsval \<Rightarrow> string option" where
  "js_string v = (case v of JStr s \<Rightarrow> Some s | _ \<Rightarrow> None)"

definition isStringArray :: "jsval option \<Rightarrow> string list option" where
  "isStringArray v =
     (case v of Some (JArr xs) \<Rightarrow> if list_all (\<lambda>x. js_string x \<noteq> None) xs then Some (List.map_filter js_string xs) else None
      | _ \<Rightarrow> None)"

definition string_field :: "string \<Rightarrow> jsval \<Rightarrow> string option" where
  "string_field key v = Option.bind (js_field key v) js_string"

definition role_at :: "nat \<Rightarrow> string \<Rightarrow> string" where
  "role_at index rest = ''role config roles['' @ nat_str index @ '']'' @ rest"

definition parse_role :: "nat \<times> jsval \<Rightarrow> string + role_definition" where
  "parse_role entry = (case entry of (index, v) \<Rightarrow>
     if \<not> js_object v then Inl (role_at index '' must be an object'')
     else case string_field ''id'' v of None \<Rightarrow> Inl (role_at index ''.id must be a non-empty string'')
     | Some ident \<Rightarrow>
         if ident = [] then Inl (role_at index ''.id must be a non-empty string'')
         else case string_field ''purpose'' v of None \<Rightarrow> Inl (role_at index ''.purpose must be a string'')
         | Some purpose \<Rightarrow>
           (case isStringArray (js_field ''owns'' v) of None \<Rightarrow> Inl (role_at index ''.owns must be a string array'')
            | Some owns \<Rightarrow>
           (case isStringArray (js_field ''reads'' v) of None \<Rightarrow> Inl (role_at index ''.reads must be a string array'')
            | Some readable \<Rightarrow>
           (case isStringArray (js_field ''handoffTo'' v) of None \<Rightarrow> Inl (role_at index ''.handoffTo must be a string array'')
            | Some handoff \<Rightarrow>
                Inr \<lparr>rd_id = ident, rd_purpose = purpose, rd_owns = owns, rd_reads = readable, rd_handoffTo = handoff\<rparr>))))"

definition binding_at :: "nat \<Rightarrow> string \<Rightarrow> string" where
  "binding_at index rest = ''role config bindings['' @ nat_str index @ '']'' @ rest"

definition parse_binding :: "string list \<Rightarrow> nat \<times> jsval \<Rightarrow> string + role_binding" where
  "parse_binding ids entry = (case entry of (index, v) \<Rightarrow>
     if \<not> js_object v then Inl (binding_at index '' must be an object'')
     else case (string_field ''host'' v, string_field ''role'' v) of
         (Some host, Some role) \<Rightarrow>
           if role \<in> set ids then Inr \<lparr>rb_host = host, rb_role = role\<rparr>
           else Inl (binding_at index ('' names unknown role '' @ role))
       | _ \<Rightarrow> Inl (binding_at index '' must have string host and role''))"

text \<open>\<open>root["bindings"] ?? []\<close>\<close>

definition raw_bindings :: "jsval \<Rightarrow> jsval" where
  "raw_bindings v = (case js_field ''bindings'' v of None \<Rightarrow> JArr [] | Some JNull \<Rightarrow> JArr [] | Some b \<Rightarrow> b)"

definition parseRoleConfig :: "jsval \<Rightarrow> string + role_config" where
  "parseRoleConfig v =
     (if \<not> js_object v then Inl ''role config must be an object''
      else if js_field ''version'' v \<noteq> Some (JNum 1) then Inl ''role config version must be 1''
      else case js_field ''roles'' v of
          Some (JArr entries) \<Rightarrow>
            raise_bind (map_raise parse_role (enumerate 0 entries)) (\<lambda>roles.
              if \<not> distinct (map rd_id roles) then Inl ''role config role ids must be unique''
              else case raw_bindings v of
                  JArr bindings \<Rightarrow>
                    raise_bind (map_raise (parse_binding (map rd_id roles)) (enumerate 0 bindings))
                      (\<lambda>bs. Inr \<lparr>rc_roles = roles, rc_bindings = bs\<rparr>)
                | _ \<Rightarrow> Inl ''role config bindings must be an array'')
        | _ \<Rightarrow> Inl ''role config roles must be an array'')"

definition roleById :: "role_config \<Rightarrow> string \<Rightarrow> role_definition option" where
  "roleById config roleId = List.find (\<lambda>role. rd_id role = roleId) (rc_roles config)"

definition binding_for :: "role_config \<Rightarrow> string \<Rightarrow> role_binding option" where
  "binding_for config host = List.find (\<lambda>b. rb_host b = host) (rc_bindings config)"

text \<open>\<open>recorder/src/roles.ts\<close>: the environment first, then the binding of the host.\<close>

definition resolveRoleClaim ::
    "role_config option \<Rightarrow> string option \<Rightarrow> string option \<Rightarrow> (role_definition \<times> role_claim_method) option" where
  "resolveRoleClaim config envRole hostId =
     (case config of None \<Rightarrow> None
      | Some cfg \<Rightarrow>
          (case (case envRole of None \<Rightarrow> None
                 | Some s \<Rightarrow> if trim s = [] then None else roleById cfg (trim s)) of
             Some role \<Rightarrow> Some (role, RM_env)
           | None \<Rightarrow>
               (case Option.bind hostId (binding_for cfg) of
                  None \<Rightarrow> None
                | Some b \<Rightarrow> map_option (\<lambda>role. (role, RM_binding)) (roleById cfg (rb_role b)))))"

definition loadRoleConfig :: "(string \<Rightarrow> jsval option) \<Rightarrow> string option \<Rightarrow> service_error + role_config option" where
  "loadRoleConfig json config_file =
     (case config_file of None \<Rightarrow> Inr None
      | Some content \<Rightarrow>
          (case json content of
             None \<Rightarrow> Inl (Usage ''patchmesh.roles.json is not valid JSON'')
           | Some v \<Rightarrow> (case parseRoleConfig v of Inl e \<Rightarrow> Inl (Usage e) | Inr cfg \<Rightarrow> Inr (Some cfg))))"

section \<open>Claiming a role\<close>

definition role_claim_event ::
    "mail_env \<Rightarrow> (nat \<Rightarrow> string) \<Rightarrow> string \<Rightarrow> string \<Rightarrow> string \<Rightarrow> string \<Rightarrow> role_claim_method \<Rightarrow> event" where
  "role_claim_event env rng worktreeRoot at_iso agent roleId how =
     (let identity = me_identity env worktreeRoot
      in \<lparr>eventId = ''evt_'' @ randomHex (rng 0) 32,
          source = \<lparr>sr_kind = Gateway, sr_sourceId = ''source_patchmesh_roles'',
            sr_instanceId = deterministicUuid (me_sha_bytes env) ''patchmesh:roles'' (ri_repositoryId identity)\<rparr>,
          timestamp = at_iso, repositoryId = ri_repositoryId identity, workspaceId = ri_workspaceId identity,
          worktreeId = ri_worktreeId identity, agentId = Some agent, taskId = None,
          correlationId = createCorrelationId (rng 1), causationId = None, sourceSequence = None,
          payload = AgentRoleClaimed \<lparr>rl_roleId = roleId, rl_method = how\<rparr>\<rparr>)"

definition claimRole ::
    "(string \<Rightarrow> string) \<Rightarrow> (string \<Rightarrow> string \<Rightarrow> int) \<Rightarrow> (string \<Rightarrow> event option) \<Rightarrow> (event \<Rightarrow> diagnostic list + event)
     \<Rightarrow> string \<Rightarrow> mail_env \<Rightarrow> (nat \<Rightarrow> string) \<Rightarrow> int \<Rightarrow> (string \<Rightarrow> jsval option) \<Rightarrow> string option
     \<Rightarrow> string \<Rightarrow> string \<Rightarrow> string \<Rightarrow> role_claim_method option \<Rightarrow> store \<Rightarrow> (service_error + string) \<times> store" where
  "claimRole sha lc parse schema now_iso env rng now json config_file worktreeRoot agent roleId how st =
     (if \<not> id_body agent then (Inl (Usage ''agentId must be an agent_<id>''), st)
      else if \<not> id_body roleId then (Inl (Usage ''roleId must be a lowercase slug''), st)
      else case loadRoleConfig json config_file of
          Inl err \<Rightarrow> (Inl err, st)
        | Inr None \<Rightarrow> (Inl (Usage ''patchmesh.roles.json not found; create one before claiming a role''), st)
        | Inr (Some cfg) \<Rightarrow>
            if roleById cfg roleId = None then (Inl (Usage (''unknown role '' @ roleId)), st)
            else case date_iso now of
                Inl err \<Rightarrow> (Inl err, st)
              | Inr at_iso \<Rightarrow>
                  (case appendEvents sha lc parse schema now_iso
                      [role_claim_event env rng worktreeRoot at_iso agent roleId
                        (case how of None \<Rightarrow> RM_mcp | Some m \<Rightarrow> m)] st of
                     (Inl err, st') \<Rightarrow> (Inl (Storage_failed err), st')
                   | (Inr _, st') \<Rightarrow> (Inr roleId, st')))"

fun latest_claim :: "string \<Rightarrow> string option \<Rightarrow> event list \<Rightarrow> string option" where
  "latest_claim agent latest [] = latest"
| "latest_claim agent latest (e # events) =
     latest_claim agent
       (case payload e of AgentRoleClaimed c \<Rightarrow> if agentId e = Some agent then Some (rl_roleId c) else latest | _ \<Rightarrow> latest)
       events"

definition role_of :: "role_config option \<Rightarrow> string \<Rightarrow> string option \<Rightarrow> event list \<Rightarrow> role_definition option" where
  "role_of config agent hostId events =
     (case config of None \<Rightarrow> None
      | Some cfg \<Rightarrow>
          (case latest_claim agent None events of
             Some roleId \<Rightarrow> roleById cfg roleId
           | None \<Rightarrow> Option.bind (Option.bind hostId (binding_for cfg)) (\<lambda>b. roleById cfg (rb_role b))))"

text \<open>\<open>given\<close> is the option \<open>config\<close>: \<open>None\<close> when it is undefined, and then the file is loaded.\<close>

definition findRoleForAgent ::
    "(string \<Rightarrow> event option) \<Rightarrow> (string \<Rightarrow> event option) \<Rightarrow> (string \<Rightarrow> jsval option) \<Rightarrow> string option \<Rightarrow> files \<Rightarrow> string
     \<Rightarrow> role_config option option \<Rightarrow> string \<Rightarrow> string option \<Rightarrow> event_cache
     \<Rightarrow> (service_error + role_definition option) \<times> event_cache" where
  "findRoleForAgent parse raw json config_file files path given agent hostId cache =
     (case (case given of Some config \<Rightarrow> Inr config | None \<Rightarrow> loadRoleConfig json config_file) of
        Inl err \<Rightarrow> (Inl err, cache)
      | Inr config \<Rightarrow>
          (case readEventsCached parse raw files path (typed_query [ET_agent_role_claimed]) False cache of
             (Inl _, cache') \<Rightarrow> (Inr (role_of config agent hostId []), cache')
           | (Inr events, cache') \<Rightarrow> (Inr (role_of config agent hostId events), cache')))"

section \<open>Globs\<close>

text \<open>
  \<open>globMatches\<close> rewrites a glob into a regular expression: every metacharacter of a segment is escaped,
  \<open>*\<close> becomes \<open>[^/]*\<close>, \<open>?\<close> becomes \<open>[^/]\<close>, and a segment \<open>**\<close> (through a NUL placeholder) becomes
  \<open>.*\<close>.  The pieces of that expression, and the strings it matches as a whole:
\<close>

datatype glob_piece = Exactly char | In_segment_many | In_segment_one | Any_line_text

definition segment_pieces :: "string \<Rightarrow> glob_piece list" where
  "segment_pieces segment =
     (if segment = ''**'' then [Any_line_text]
      else map (\<lambda>c. if c = CHR ''*'' then In_segment_many else if c = CHR ''?'' then In_segment_one
                    else if c = CHR 0x00 then Any_line_text else Exactly c) segment)"

definition glob_pieces :: "string \<Rightarrow> glob_piece list" where
  "glob_pieces glob =
     (case map segment_pieces (js_split CHR ''/'' glob) of [] \<Rightarrow> []
      | p # ps \<Rightarrow> p @ concat (map (\<lambda>q. Exactly (CHR ''/'') # q) ps))"

fun pieces_match :: "glob_piece list \<Rightarrow> string \<Rightarrow> bool" where
  "pieces_match [] s \<longleftrightarrow> s = []"
| "pieces_match (Exactly c # ps) s \<longleftrightarrow> (case s of [] \<Rightarrow> False | x # xs \<Rightarrow> x = c \<and> pieces_match ps xs)"
| "pieces_match (In_segment_one # ps) s \<longleftrightarrow> (case s of [] \<Rightarrow> False | x # xs \<Rightarrow> x \<noteq> CHR ''/'' \<and> pieces_match ps xs)"
| "pieces_match (In_segment_many # ps) [] \<longleftrightarrow> pieces_match ps []"
| "pieces_match (In_segment_many # ps) (x # xs) \<longleftrightarrow>
     pieces_match ps (x # xs) \<or> (x \<noteq> CHR ''/'' \<and> pieces_match (In_segment_many # ps) xs)"
| "pieces_match (Any_line_text # ps) [] \<longleftrightarrow> pieces_match ps []"
| "pieces_match (Any_line_text # ps) (x # xs) \<longleftrightarrow>
     pieces_match ps (x # xs) \<or> (\<not> line_end x \<and> pieces_match (Any_line_text # ps) xs)"

definition normalized_path :: "string \<Rightarrow> string" where
  "normalized_path p =
     (let slashed = map (\<lambda>c. if c = CHR 0x5C then CHR ''/'' else c) p
      in if prefix ''./'' slashed then drop 2 slashed else slashed)"

definition globMatches :: "string \<Rightarrow> string \<Rightarrow> bool" where
  "globMatches glob filePath = pieces_match (glob_pieces glob) (normalized_path filePath)"

definition isWithinScope :: "role_definition \<Rightarrow> string \<Rightarrow> bool" where
  "isWithinScope role filePath = list_ex (\<lambda>glob. globMatches glob filePath) (rd_owns role)"

definition globMatchesPath :: "string \<Rightarrow> string \<Rightarrow> bool" where
  "globMatchesPath glob filePath = globMatches glob filePath"

datatype contention_kind = Contention | Boundary | Expected

record role_scope =
  rs_roleId :: "string option"
  rs_owns :: "string list"

definition classifyContention :: "role_scope option \<Rightarrow> role_scope option \<Rightarrow> string \<Rightarrow> contention_kind" where
  "classifyContention earlier later logicalPath =
     (case (earlier, later) of
        (Some e, Some l) \<Rightarrow>
          if rs_roleId e = None \<or> rs_roleId l = None then Contention
          else if \<not> list_ex (\<lambda>glob. globMatches glob logicalPath) (rs_owns e)
              \<or> \<not> list_ex (\<lambda>glob. globMatches glob logicalPath) (rs_owns l) then Boundary
          else Contention
      | _ \<Rightarrow> Contention)"

section \<open>Globs by segment\<close>

lemma cut_Cons:
  "(\<exists>a b. x # xs = a @ b \<and> P a \<and> Q b) \<longleftrightarrow> P [] \<and> Q (x # xs) \<or> (\<exists>a b. xs = a @ b \<and> P (x # a) \<and> Q b)"
  by (auto simp: Cons_eq_append_conv)

lemma pieces_match_append:
  "pieces_match (ps @ qs) s \<longleftrightarrow> (\<exists>a b. s = a @ b \<and> pieces_match ps a \<and> pieces_match qs b)"
proof (induction ps arbitrary: s)
  case (Cons p ps)
  note IH = this
  show ?case
  proof (cases p)
    case (Exactly c)
    then show ?thesis using IH by (cases s) (auto simp: cut_Cons)
  next
    case In_segment_one
    then show ?thesis using IH by (cases s) (auto simp: cut_Cons)
  next
    case In_segment_many
    have "pieces_match (In_segment_many # ps @ qs) s
        \<longleftrightarrow> (\<exists>a b. s = a @ b \<and> pieces_match (In_segment_many # ps) a \<and> pieces_match qs b)"
      by (induction s) (auto simp: IH cut_Cons)
    then show ?thesis by (simp add: In_segment_many)
  next
    case Any_line_text
    have "pieces_match (Any_line_text # ps @ qs) s
        \<longleftrightarrow> (\<exists>a b. s = a @ b \<and> pieces_match (Any_line_text # ps) a \<and> pieces_match qs b)"
      by (induction s) (auto simp: IH cut_Cons)
    then show ?thesis by (simp add: Any_line_text)
  qed
qed simp

text \<open>The pieces that stay within one segment.\<close>

definition in_segment :: "glob_piece \<Rightarrow> bool" where
  "in_segment p \<longleftrightarrow> p \<noteq> Any_line_text \<and> p \<noteq> Exactly (CHR ''/'')"

lemma in_segment_match: "pieces_match ps s \<Longrightarrow> list_all in_segment ps \<Longrightarrow> CHR ''/'' \<notin> set s"
  by (induction ps s rule: pieces_match.induct) (auto simp: in_segment_def split: list.splits)

lemma segment_split:
  assumes "list_all in_segment ps"
  shows "pieces_match (ps @ Exactly (CHR ''/'') # qs) s
    \<longleftrightarrow> (\<exists>a b. s = a @ CHR ''/'' # b \<and> CHR ''/'' \<notin> set a \<and> pieces_match ps a \<and> pieces_match qs b)"
proof
  assume "pieces_match (ps @ Exactly (CHR ''/'') # qs) s"
  then obtain a b where "s = a @ b" "pieces_match ps a" "pieces_match (Exactly (CHR ''/'') # qs) b"
    by (auto simp: pieces_match_append)
  then show "\<exists>a b. s = a @ CHR ''/'' # b \<and> CHR ''/'' \<notin> set a \<and> pieces_match ps a \<and> pieces_match qs b"
    using in_segment_match assms by (cases b) auto
qed (force simp: pieces_match_append)

text \<open>A reference matcher for one segment: \<open>*\<close> is any text and \<open>?\<close> any character of the segment.\<close>

fun wildcard :: "string \<Rightarrow> string \<Rightarrow> bool" where
  "wildcard [] s \<longleftrightarrow> s = []"
| "wildcard (c # cs) s \<longleftrightarrow>
     (if c = CHR ''*'' then list_ex (\<lambda>k. wildcard cs (drop k s)) [0..<Suc (length s)]
      else s \<noteq> [] \<and> (c = CHR ''?'' \<or> hd s = c) \<and> wildcard cs (tl s))"

lemma star_match:
  assumes "CHR ''/'' \<notin> set s"
  shows "pieces_match (In_segment_many # ps) s \<longleftrightarrow> (\<exists>k \<le> length s. pieces_match ps (drop k s))"
  using assms
proof (induction s)
  case (Cons x xs)
  show ?case (is "?L \<longleftrightarrow> ?R")
  proof
    assume ?L
    then show ?R using Cons by (auto intro: exI [of _ 0] exI [of _ "Suc _"])
  next
    assume ?R
    then obtain k where k: "k \<le> length (x # xs)" "pieces_match ps (drop k (x # xs))" by blast
    then show ?L using Cons by (cases k) auto
  qed
qed simp

lemma wildcard_pieces:
  assumes "CHR ''/'' \<notin> set s" and "CHR 0x00 \<notin> set segment" and "segment \<noteq> ''**''"
  shows "pieces_match (segment_pieces segment) s \<longleftrightarrow> wildcard segment s"
proof -
  let ?piece = "\<lambda>c. if c = CHR ''*'' then In_segment_many else if c = CHR ''?'' then In_segment_one
    else if c = CHR 0x00 then Any_line_text else Exactly c"
  have "pieces_match (map ?piece segment) s \<longleftrightarrow> wildcard segment s"
    using assms(1,2)
  proof (induction segment arbitrary: s)
    case (Cons c cs)
    have tails: "CHR ''/'' \<notin> set (drop k s)" for k using Cons.prems by (auto dest: in_set_dropD)
    consider "c = CHR ''*''" | "c = CHR ''?''" | "c \<noteq> CHR ''*''" "c \<noteq> CHR ''?''" by blast
    then show ?case
    proof cases
      case 1
      then show ?thesis using Cons tails by (auto simp: star_match list_ex_iff less_Suc_eq_le simp del: upt_Suc)
    next
      case 2
      then show ?thesis using Cons by (cases s) auto
    next
      case 3
      then show ?thesis using Cons by (cases s) auto
    qed
  qed simp
  then show ?thesis using assms(3) by (simp add: segment_pieces_def)
qed

lemma segment_pieces_in:
  assumes "CHR ''/'' \<notin> set segment" and "CHR 0x00 \<notin> set segment" and "segment \<noteq> ''**''"
  shows "list_all in_segment (segment_pieces segment)"
  using assms by (auto simp: segment_pieces_def list_all_iff in_segment_def)

lemma glob_pieces_between: "glob_pieces (s @ CHR ''/'' # t) = glob_pieces s @ Exactly (CHR ''/'') # glob_pieces t"
proof -
  obtain a as b bs where parts: "js_split CHR ''/'' s = a # as" "js_split CHR ''/'' t = b # bs"
    by (meson js_split_not_Nil neq_Nil_conv)
  show ?thesis unfolding glob_pieces_def js_split_between parts by simp
qed

lemma glob_pieces_segment: "CHR ''/'' \<notin> set x \<Longrightarrow> glob_pieces x = segment_pieces x"
  by (simp add: glob_pieces_def js_split_plain)

lemma segments_match:
  assumes "\<forall>z \<in> set segments. CHR ''/'' \<notin> set z \<and> CHR 0x00 \<notin> set z \<and> z \<noteq> ''**''" and "segments \<noteq> []"
  shows "pieces_match (glob_pieces (join ''/'' segments)) s \<longleftrightarrow> list_all2 wildcard segments (js_split CHR ''/'' s)"
  using assms
proof (induction segments arbitrary: s rule: induct_list012)
  case (2 x)
  have pieces: "glob_pieces x = segment_pieces x" using 2 by (simp add: glob_pieces_def js_split_plain)
  show ?case
  proof (cases "CHR ''/'' \<in> set s")
    case True
    then have "\<not> pieces_match (segment_pieces x) s"
      using in_segment_match [of "segment_pieces x" s] segment_pieces_in 2 by auto
    moreover obtain a b where "s = a @ CHR ''/'' # b" using True by (meson split_list)
    ultimately show ?thesis by (auto simp: pieces js_split_between list_all2_Cons1 append_eq_Cons_conv)
  next
    case False
    then show ?thesis using 2 by (simp add: pieces js_split_plain wildcard_pieces)
  qed
next
  case (3 x y zs)
  have segs: "list_all in_segment (segment_pieces x)" using segment_pieces_in 3(3) by simp
  have "pieces_match (glob_pieces (join ''/'' (x # y # zs))) s
      \<longleftrightarrow> (\<exists>a b. s = a @ CHR ''/'' # b \<and> CHR ''/'' \<notin> set a \<and> pieces_match (segment_pieces x) a
        \<and> pieces_match (glob_pieces (join ''/'' (y # zs))) b)"
    using 3(3) by (simp add: glob_pieces_between glob_pieces_segment segment_split [OF segs])
  also have "\<dots> \<longleftrightarrow> (\<exists>a b. s = a @ CHR ''/'' # b \<and> CHR ''/'' \<notin> set a \<and> wildcard x a
        \<and> list_all2 wildcard (y # zs) (js_split CHR ''/'' b))"
    using 3 wildcard_pieces [of _ x] by (intro ex_cong1 conj_cong refl) simp_all
  also have "\<dots> \<longleftrightarrow> list_all2 wildcard (x # y # zs) (js_split CHR ''/'' s)"
  proof
    assume "list_all2 wildcard (x # y # zs) (js_split CHR ''/'' s)"
    then obtain a rest where split: "js_split CHR ''/'' s = a # rest" "wildcard x a" "list_all2 wildcard (y # zs) rest"
      by (auto simp: list_all2_Cons1)
    then obtain r rs where rest: "rest = r # rs" by (auto simp: list_all2_Cons1)
    have "s = join ''/'' (js_split CHR ''/'' s)" by (simp add: join_js_split)
    then have s: "s = a @ CHR ''/'' # join ''/'' rest" by (simp add: split rest)
    moreover have parts: "CHR ''/'' \<notin> set p" if "p \<in> set (a # rest)" for p
      using js_split_no_sep that by (metis split(1))
    moreover have "js_split CHR ''/'' (join ''/'' rest) = rest"
      using parts by (intro js_split_join) (simp_all add: rest)
    ultimately show "\<exists>a b. s = a @ CHR ''/'' # b \<and> CHR ''/'' \<notin> set a \<and> wildcard x a
        \<and> list_all2 wildcard (y # zs) (js_split CHR ''/'' b)"
      using split by (intro exI [of _ a] exI [of _ "join ''/'' rest"]) simp
  qed (auto simp: js_split_append)
  finally show ?case .
qed simp

text \<open>
  C25: The regular expression \<open>globMatches\<close> builds means what a glob means: without a segment \<open>**\<close> (and
  without NUL), a glob matches a path exactly when both have the same number of segments and every
  segment of the path matches its segment of the glob, where \<open>*\<close> stands for any text within the
  segment, \<open>?\<close> for one character of it and every other character - regular-expression
  metacharacters included - for itself.
\<close>

theorem glob_by_segments:
  assumes "''**'' \<notin> set (js_split CHR ''/'' glob)" and "CHR 0x00 \<notin> set glob"
  shows "globMatches glob p
    \<longleftrightarrow> list_all2 wildcard (js_split CHR ''/'' glob) (js_split CHR ''/'' (normalized_path p))"
proof -
  have "\<forall>z \<in> set (js_split CHR ''/'' glob). CHR ''/'' \<notin> set z \<and> CHR 0x00 \<notin> set z \<and> z \<noteq> ''**''"
    using assms js_split_no_sep in_js_split by (metis subsetD)
  from segments_match [OF this, of "normalized_path p"] show ?thesis
    by (simp add: globMatches_def join_js_split)
qed

theorem glob_by_segments_witness:
  "globMatches ''src/*/a+b.t?'' ''./src/x1/a+b.ts''
    \<longleftrightarrow> list_all2 wildcard (js_split CHR ''/'' ''src/*/a+b.t?'') (js_split CHR ''/'' (normalized_path ''./src/x1/a+b.ts''))"
  by (rule glob_by_segments) code_simp+

lemma any_match:
  "pieces_match [Any_line_text] s \<longleftrightarrow> list_all (\<lambda>c. \<not> line_end c) s"
  by (induction s) auto

lemma literal_match: "pieces_match (map Exactly cs @ ps) s \<longleftrightarrow> (\<exists>rest. s = cs @ rest \<and> pieces_match ps rest)"
proof (induction cs arbitrary: s)
  case (Cons c cs)
  then show ?case by (cases s) auto
qed simp

definition literal_glob :: "string \<Rightarrow> bool" where
  "literal_glob s \<longleftrightarrow> list_all (\<lambda>c. c \<noteq> CHR ''*'' \<and> c \<noteq> CHR ''?'' \<and> c \<noteq> CHR 0x00) s"

lemma literal_pieces: "literal_glob s \<Longrightarrow> CHR ''/'' \<notin> set s \<Longrightarrow> segment_pieces s = map Exactly s"
proof -
  assume "literal_glob s"
  then have plain: "c \<noteq> CHR ''*'' \<and> c \<noteq> CHR ''?'' \<and> c \<noteq> CHR 0x00" if "c \<in> set s" for c
    using that by (auto simp: literal_glob_def list_all_iff)
  have "s \<noteq> ''**''" using plain [of "CHR ''*''"] by auto
  moreover have "map (\<lambda>c. if c = CHR ''*'' then In_segment_many else if c = CHR ''?'' then In_segment_one
      else if c = CHR 0x00 then Any_line_text else Exactly c) s = map Exactly s"
    by (rule map_cong [OF refl]) (simp add: plain)
  ultimately show ?thesis by (simp only: segment_pieces_def if_False)
qed

lemma literal_segments:
  "\<forall>z \<in> set segments. literal_glob z \<and> CHR ''/'' \<notin> set z \<Longrightarrow> segments \<noteq> []
   \<Longrightarrow> glob_pieces (join ''/'' segments) = map Exactly (join ''/'' segments)"
proof (induction segments rule: induct_list012)
  case (2 x)
  then show ?case by (simp add: glob_pieces_def js_split_plain literal_pieces)
next
  case (3 x y zs)
  have "glob_pieces x = map Exactly x" using 3(3) by (simp add: glob_pieces_def js_split_plain literal_pieces)
  then show ?case using 3 by (simp add: glob_pieces_between)
qed simp

lemma pieces_literal:
  assumes "literal_glob s"
  shows "glob_pieces s = map Exactly s"
proof -
  have "\<forall>z \<in> set (js_split CHR ''/'' s). literal_glob z \<and> CHR ''/'' \<notin> set z"
    using assms js_split_no_sep in_js_split by (fastforce simp: literal_glob_def list_all_iff)
  from literal_segments [OF this] show ?thesis by (simp add: join_js_split)
qed

text \<open>
  What a role owns: \<open>dir/**\<close> matches exactly the paths below the directory, at any depth, and
  \<open>dir/**/name\<close> exactly those of that name below a further directory - not \<open>dir/name\<close> itself.
\<close>

theorem double_star_scope:
  assumes "literal_glob dir" and "literal_glob name"
  shows "(globMatches (dir @ ''/**'') p \<longleftrightarrow> (\<exists>rest. normalized_path p = dir @ ''/'' @ rest \<and> \<not> list_ex line_end rest))
    \<and> (globMatches (dir @ ''/**/'' @ name) p
       \<longleftrightarrow> (\<exists>middle. normalized_path p = dir @ ''/'' @ middle @ ''/'' @ name \<and> \<not> list_ex line_end middle))"
proof -
  have star: "glob_pieces ''**'' = [Any_line_text]" by (simp add: glob_pieces_def segment_pieces_def)
  have "glob_pieces (dir @ ''/**'') = map Exactly (dir @ ''/'') @ [Any_line_text]"
    using glob_pieces_between [of dir "''**''"] by (simp add: pieces_literal [OF assms(1)] star)
  moreover have "glob_pieces (dir @ ''/**/'' @ name)
      = map Exactly (dir @ ''/'') @ [Any_line_text] @ map Exactly (CHR ''/'' # name) @ []"
    using glob_pieces_between [of dir "''**/'' @ name"] glob_pieces_between [of "''**''" name]
    by (simp add: pieces_literal [OF assms(1)] pieces_literal [OF assms(2)] star)
  moreover have "pieces_match ([Any_line_text] @ map Exactly (CHR ''/'' # name) @ []) s
      \<longleftrightarrow> (\<exists>middle. s = middle @ ''/'' @ name \<and> \<not> list_ex line_end middle)" for s
    unfolding pieces_match_append [of "[Any_line_text]"] literal_match any_match by (auto simp: list_all_iff list_ex_iff)
  ultimately show ?thesis
    by (simp only: globMatches_def literal_match any_match) (auto simp: list_all_iff list_ex_iff)
qed

theorem double_star_scope_witness:
  "globMatches ''src/**'' ''src/a/b.ts'' \<and> \<not> globMatches ''src/**/b.ts'' ''src/b.ts''"
proof -
  have plain: "literal_glob ''src''" "literal_glob ''b.ts''" by code_simp+
  have "normalized_path ''src/a/b.ts'' = ''src'' @ ''/'' @ ''a/b.ts''" "\<not> list_ex line_end ''a/b.ts''"
    "normalized_path ''src/b.ts'' = ''src/b.ts''" by code_simp+
  then show ?thesis
    using double_star_scope [OF plain, of "''src/a/b.ts''"] double_star_scope [OF plain, of "''src/b.ts''"]
    by (auto simp: append_eq_Cons_conv)
qed

section \<open>The configurations that parse\<close>

definition role_config_ok :: "role_config \<Rightarrow> bool" where
  "role_config_ok config \<longleftrightarrow> distinct (map rd_id (rc_roles config)) \<and> (\<forall>role \<in> set (rc_roles config). rd_id role \<noteq> [])
     \<and> (\<forall>b \<in> set (rc_bindings config). roleById config (rb_role b) \<noteq> None)"

definition role_json :: "role_definition \<Rightarrow> jsval" where
  "role_json role = JObj [(''id'', JStr (rd_id role)), (''purpose'', JStr (rd_purpose role)),
     (''owns'', JArr (map JStr (rd_owns role))), (''reads'', JArr (map JStr (rd_reads role))),
     (''handoffTo'', JArr (map JStr (rd_handoffTo role)))]"

definition role_config_json :: "role_config \<Rightarrow> jsval" where
  "role_config_json config = JObj [(''version'', JNum 1), (''roles'', JArr (map role_json (rc_roles config))),
     (''bindings'', JArr (map (\<lambda>b. JObj [(''host'', JStr (rb_host b)), (''role'', JStr (rb_role b))])
        (rc_bindings config)))]"

lemma string_array_json: "isStringArray (Some (JArr (map JStr xs))) = Some xs"
proof -
  have "List.map_filter js_string (map JStr xs) = xs"
    by (induction xs) (simp_all add: map_filter_simps js_string_def)
  then show ?thesis by (simp add: isStringArray_def list_all_iff js_string_def)
qed

lemma parse_role_json: "rd_id role \<noteq> [] \<Longrightarrow> parse_role (k, role_json role) = Inr role"
proof -
  assume "rd_id role \<noteq> []"
  moreover have "string_field ''id'' (role_json role) = Some (rd_id role)"
    "string_field ''purpose'' (role_json role) = Some (rd_purpose role)"
    "js_field ''owns'' (role_json role) = Some (JArr (map JStr (rd_owns role)))"
    "js_field ''reads'' (role_json role) = Some (JArr (map JStr (rd_reads role)))"
    "js_field ''handoffTo'' (role_json role) = Some (JArr (map JStr (rd_handoffTo role)))"
    "js_object (role_json role)"
    by (simp_all add: role_json_def string_field_def js_field_def js_string_def js_object_def)
  ultimately show ?thesis by (simp add: parse_role_def string_array_json)
qed

lemma parse_binding_json:
  "rb_role b \<in> set ids \<Longrightarrow> parse_binding ids (k, JObj [(''host'', JStr (rb_host b)), (''role'', JStr (rb_role b))]) = Inr b"
  by (simp add: parse_binding_def js_object_def string_field_def js_field_def js_string_def)

lemma map_raise_enumerate:
  "(\<And>k x. x \<in> set xs \<Longrightarrow> f (k, g x) = Inr x) \<Longrightarrow> map_raise f (enumerate n (map g xs)) = Inr xs"
proof (induction xs arbitrary: n)
  case (Cons x xs)
  have "map_raise f (enumerate (Suc n) (map g xs)) = Inr xs" using Cons.prems by (intro Cons.IH) simp
  then show ?case using Cons.prems [of x n] by simp
qed simp

lemma roleById_None: "roleById config i = None \<longleftrightarrow> i \<notin> rd_id ` set (rc_roles config)"
  by (auto simp: roleById_def find_None_iff)

lemma parse_config_json:
  assumes "role_config_ok config"
  shows "parseRoleConfig (role_config_json config) = Inr config"
proof -
  have roles: "map_raise parse_role (enumerate 0 (map role_json (rc_roles config))) = Inr (rc_roles config)"
    using assms by (intro map_raise_enumerate parse_role_json) (simp add: role_config_ok_def)
  have bindings: "map_raise (parse_binding (map rd_id (rc_roles config)))
      (enumerate 0 (map (\<lambda>b. JObj [(''host'', JStr (rb_host b)), (''role'', JStr (rb_role b))]) (rc_bindings config)))
    = Inr (rc_bindings config)"
    using assms by (intro map_raise_enumerate parse_binding_json) (simp add: role_config_ok_def roleById_None)
  show ?thesis
    using assms by (simp add: parseRoleConfig_def role_config_json_def js_object_def raw_bindings_def js_field_def roles bindings role_config_ok_def)
qed

lemma map_raise_ok: "map_raise f xs = Inr ys \<Longrightarrow> (\<And>x y. f x = Inr y \<Longrightarrow> P y) \<Longrightarrow> y \<in> set ys \<Longrightarrow> P y"
proof (induction xs arbitrary: ys)
  case (Cons x xs)
  have "raise_bind (f x) (\<lambda>y. raise_bind (map_raise f xs) (\<lambda>ys. Inr (y # ys))) = Inr ys" using Cons.prems(1) by simp
  from raise_bind_InrD [OF this] obtain z where z: "f x = Inr z"
    "raise_bind (map_raise f xs) (\<lambda>ys. Inr (z # ys)) = Inr ys" by blast
  from raise_bind_InrD [OF z(2)] obtain zs where "map_raise f xs = Inr zs" "ys = z # zs" by auto
  then show ?case using Cons.IH Cons.prems(2,3) z(1) by auto
qed simp

lemma parse_role_id: "parse_role entry = Inr role \<Longrightarrow> rd_id role \<noteq> []"
  by (cases entry) (auto simp: parse_role_def split: if_splits option.splits)

lemma parse_binding_role: "parse_binding ids entry = Inr b \<Longrightarrow> rb_role b \<in> set ids"
  by (cases entry) (auto simp: parse_binding_def split: if_splits option.splits)

lemma parsed_config_ok:
  assumes "parseRoleConfig v = Inr config"
  shows "role_config_ok config"
proof -
  obtain entries where "js_field ''roles'' v = Some (JArr entries)"
    using assms by (auto simp: parseRoleConfig_def split: if_splits option.splits jsval.splits)
  with assms have "raise_bind (map_raise parse_role (enumerate 0 entries)) (\<lambda>roles.
      if \<not> distinct (map rd_id roles) then Inl ''role config role ids must be unique''
      else case raw_bindings v of JArr bindings \<Rightarrow> raise_bind (map_raise (parse_binding (map rd_id roles)) (enumerate 0 bindings))
             (\<lambda>bs. Inr \<lparr>rc_roles = roles, rc_bindings = bs\<rparr>)
           | _ \<Rightarrow> Inl ''role config bindings must be an array'') = Inr config"
    by (simp add: parseRoleConfig_def split: if_splits)
  from raise_bind_InrD [OF this] obtain roles where parsed: "map_raise parse_role (enumerate 0 entries) = Inr roles"
    and rest: "(if \<not> distinct (map rd_id roles) then Inl ''role config role ids must be unique''
      else case raw_bindings v of JArr bindings \<Rightarrow> raise_bind (map_raise (parse_binding (map rd_id roles)) (enumerate 0 bindings))
             (\<lambda>bs. Inr \<lparr>rc_roles = roles, rc_bindings = bs\<rparr>)
           | _ \<Rightarrow> Inl ''role config bindings must be an array'') = Inr config" by blast
  have unique: "distinct (map rd_id roles)" using rest by (simp split: if_splits)
  then obtain bindings where
    "raise_bind (map_raise (parse_binding (map rd_id roles)) (enumerate 0 bindings)) (\<lambda>bs. Inr \<lparr>rc_roles = roles, rc_bindings = bs\<rparr>)
      = Inr config" using rest by (cases "raw_bindings v") simp_all
  from raise_bind_InrD [OF this]
  have bindings: "map_raise (parse_binding (map rd_id roles)) (enumerate 0 bindings) = Inr (rc_bindings config)"
    and "rc_roles config = roles" by auto
  note roles = parsed unique this(2)
  have "\<forall>role \<in> set roles. rd_id role \<noteq> []"
    using map_raise_ok [OF roles(1), of "\<lambda>role. rd_id role \<noteq> []"] parse_role_id by blast
  moreover have "\<forall>b \<in> set (rc_bindings config). rb_role b \<in> set (map rd_id roles)"
    using map_raise_ok [OF bindings, of "\<lambda>b. rb_role b \<in> set (map rd_id roles)"] parse_binding_role by blast
  ultimately show ?thesis using roles by (simp add: role_config_ok_def roleById_None)
qed

text \<open>
  The configurations \<open>parseRoleConfig\<close> answers are exactly the well-formed ones: role ids are
  non-empty and unique and every binding names a defined role; each of them is what its own JSON
  parses to.
\<close>

theorem role_config_range:
  "((\<exists>v. parseRoleConfig v = Inr config) \<longleftrightarrow> role_config_ok config)
   \<and> (role_config_ok config \<longleftrightarrow> parseRoleConfig (role_config_json config) = Inr config)"
  using parsed_config_ok parse_config_json by blast

section \<open>The role an agent holds\<close>

lemma latest_claim_append:
  "latest_claim agent latest (xs @ ys) = latest_claim agent (latest_claim agent latest xs) ys"
  by (induction xs arbitrary: latest) simp_all

lemma claimRole_cases:
  assumes "claimRole sha lc parse schema now_iso env rng now json config_file wt agent roleId how st = (Inr claimed, st')"
  obtains cfg role at_iso results where "loadRoleConfig json config_file = Inr (Some cfg)" "roleById cfg roleId = Some role"
    "date_iso now = Inr at_iso" "claimed = roleId"
    "appendEvents sha lc parse schema now_iso
      [role_claim_event env rng wt at_iso agent roleId (case how of None \<Rightarrow> RM_mcp | Some m \<Rightarrow> m)] st = (Inr results, st')"
proof -
  have ids: "id_body agent" "id_body roleId"
    using assms by (cases "id_body agent"; cases "id_body roleId"; simp add: claimRole_def)+
  obtain loaded where loaded: "loadRoleConfig json config_file = Inr loaded"
    using assms ids by (cases "loadRoleConfig json config_file") (simp_all add: claimRole_def)
  obtain cfg where cfg: "loaded = Some cfg"
    using assms ids loaded by (cases loaded) (simp_all add: claimRole_def)
  obtain role where role: "roleById cfg roleId = Some role"
    using assms ids loaded cfg by (cases "roleById cfg roleId") (simp_all add: claimRole_def)
  obtain at_iso where iso: "date_iso now = Inr at_iso"
    using assms ids loaded cfg role by (cases "date_iso now") (simp_all add: claimRole_def)
  let ?append = "appendEvents sha lc parse schema now_iso
      [role_claim_event env rng wt at_iso agent roleId (case how of None \<Rightarrow> RM_mcp | Some m \<Rightarrow> m)] st"
  obtain r st'' where stored: "?append = (r, st'')" by (cases ?append)
  with assms ids loaded cfg role iso have "claimed = roleId \<and> st'' = st' \<and> (\<exists>results. r = Inr results)"
    by (cases r) (simp_all add: claimRole_def)
  with that loaded cfg role iso stored show ?thesis by blast
qed

lemma role_claim_event_simps [simp]:
  "payload (role_claim_event env rng wt at_iso agent roleId how) = AgentRoleClaimed \<lparr>rl_roleId = roleId, rl_method = how\<rparr>"
  "agentId (role_claim_event env rng wt at_iso agent roleId how) = Some agent"
  "eventType (role_claim_event env rng wt at_iso agent roleId how) = ET_agent_role_claimed"
  "eventId (role_claim_event env rng wt at_iso agent roleId how) = ''evt_'' @ randomHex (rng 0) 32"
  by (simp_all add: role_claim_event_def Let_def eventType_def)

text \<open>
  C13: The latest claim wins: after \<open>claimRole\<close> returned, \<open>findRoleForAgent\<close> answers the claimed role of
  the configuration for that agent - whatever it claimed before and whatever its host is bound to -
  and its answers for every other agent are unchanged.  The schema accepts the claim's event and its random id
  is new.  The answers compared are of a reader whose event cache holds none for the ledger file as it was
  before and as it is after; nothing is said of a long-lived process whose cached answer survives the write, as
  it may when the commit only reached the write-ahead log.
\<close>

theorem claimed_role_held:
  assumes "store_ok sha parse (ledger_at before path)" and "raw_agrees parse raw"
    and "claimRole sha lc parse schema now_iso env rng now json config_file wt agent roleId how (ledger_at before path)
      = (Inr claimed, st')"
    and "e = role_claim_event env rng wt (toISOString now) agent roleId (case how of None \<Rightarrow> RM_mcp | Some m \<Rightarrow> m)"
    and "schema e = Inr e \<and> parse (event_canonical e) = Some e" and "eventId e \<notin> set (durable_ids (ledger_at before path))"
    and "ledger_at after path = st'"
    and "uncached cache before path [ET_agent_role_claimed]" and "uncached cache after path [ET_agent_role_claimed]"
  shows "\<exists>role. rd_id role = roleId
    \<and> (\<forall>other hostId. fst (findRoleForAgent parse raw json config_file after path None other hostId cache)
        = (if other = agent then Inr (Some role)
           else fst (findRoleForAgent parse raw json config_file before path None other hostId cache)))"
proof -
  obtain cfg role at_iso results where cfg: "loadRoleConfig json config_file = Inr (Some cfg)" "roleById cfg roleId = Some role"
    and iso: "date_iso now = Inr at_iso" and "claimed = roleId" and stored: "appendEvents sha lc parse schema now_iso
      [role_claim_event env rng wt at_iso agent roleId (case how of None \<Rightarrow> RM_mcp | Some m \<Rightarrow> m)] (ledger_at before path)
      = (Inr results, st')"
    by (rule claimRole_cases [OF assms(3)])
  have "at_iso = toISOString now" using iso by (simp add: date_iso_def split: if_splits)
  then have appended: "appendEvents sha lc parse schema now_iso [e] (ledger_at before path) = (Inr results, st')"
    using stored by (simp only: assms(4))
  let ?events = "events_of_types parse [ET_agent_role_claimed] (ledger_at before path)"
  have fresh: "fresh_for (ledger_at before path) [e]" using assms(6) by (simp add: fresh_for_def)
  have parsed: "\<forall>x \<in> set [e]. schema x = Inr x \<and> parse (event_canonical x) = Some x" using assms(5) by simp
  have "eventType e = ET_agent_role_claimed" unfolding assms(4) by (rule role_claim_event_simps)
  then have after: "store_ok sha parse st'" "events_of_types parse [ET_agent_role_claimed] st' = ?events @ [e]"
    using appendEvents_fresh [OF assms(1) fresh parsed appended, of "[ET_agent_role_claimed]"] by simp_all
  obtain cache1 where read_before: "readEventsCached parse raw before path (typed_query [ET_agent_role_claimed]) False cache
      = (Inr ?events, cache1)" using typed_read [OF assms(1,2,8)] by blast
  obtain cache2 where read_after: "readEventsCached parse raw after path (typed_query [ET_agent_role_claimed]) False cache
      = (Inr (?events @ [e]), cache2)"
    using typed_read [of sha parse after path raw cache "[ET_agent_role_claimed]"] after assms(2,7,9) by auto
  have latest: "latest_claim other None (?events @ [e]) = (if other = agent then Some roleId else latest_claim other None ?events)"
    for other unfolding assms(4) by (simp add: latest_claim_append)
  have found: "fst (findRoleForAgent parse raw json config_file after path None other hostId cache)
      = (if other = agent then Inr (Some role)
         else fst (findRoleForAgent parse raw json config_file before path None other hostId cache))" for other hostId
    by (simp add: findRoleForAgent_def cfg read_before read_after role_of_def latest)
  have "rd_id role = roleId" using cfg(2) by (auto simp: roleById_def dest: find_SomeD)
  then show ?thesis by (intro exI [of _ role]) (simp add: found)
qed

text \<open>
  \<open>claimRole\<close> tests the agent with the pattern of role ids: it refuses agents whose ids are valid but
  longer than 64 characters, and lets ids through that no agent can have.
\<close>

lemma long_agent_refused:
  assumes "agent_id agent" and "64 < length agent"
  shows "\<exists>err. claimRole sha lc parse schema now_iso env rng now json config_file wt agent roleId how st = (Inl (Usage err), st)"
  using assms by (simp add: claimRole_def id_body_def)

lemma role_pattern_gap: "agent_id (''agent_'' @ replicate 64 CHR ''a'')" "id_body ''x''" "\<not> agent_id ''x''"
  by code_simp+

section \<open>Witnesses\<close>

definition demo_role_config :: jsval where
  "demo_role_config = role_config_json \<lparr>rc_roles = [\<lparr>rd_id = ''backend'', rd_purpose = ''the server'', rd_owns = [''src/**''],
     rd_reads = [], rd_handoffTo = []\<rparr>], rc_bindings = []\<rparr>"

definition demo_claim :: event where
  "demo_claim = role_claim_event demo_mail_env later_digits ''/w'' (toISOString 3000) ''agent_bob'' ''backend'' RM_mcp"

lemma demo_claimed: "claimRole (\<lambda>_. ''h'') compareStrings (demo_parse [demo_claim]) Inr ''now'' demo_mail_env later_digits 3000
    (\<lambda>_. Some demo_role_config) (Some ''{}'') ''/w'' ''agent_bob'' ''backend'' None store_open
  = (Inr ''backend'', store_open\<lparr>st_events := [row_of 1 demo_claim ''h'' (event_canonical demo_claim)], st_next_position := 2\<rparr>)"
proof -
  have "id_body ''agent_bob''" "id_body ''backend''" by code_simp+
  moreover obtain cfg where "loadRoleConfig (\<lambda>_. Some demo_role_config) (Some ''{}'') = Inr (Some cfg)"
    "roleById cfg ''backend'' \<noteq> None"
  proof
    show "loadRoleConfig (\<lambda>_. Some demo_role_config) (Some ''{}'') = Inr (Some \<lparr>rc_roles = [\<lparr>rd_id = ''backend'',
      rd_purpose = ''the server'', rd_owns = [''src/**''], rd_reads = [], rd_handoffTo = []\<rparr>], rc_bindings = []\<rparr>)"
      by (simp add: loadRoleConfig_def demo_role_config_def parse_config_json role_config_ok_def)
  qed (simp add: roleById_def)
  moreover obtain results where "appendEvents (\<lambda>_. ''h'') compareStrings (demo_parse [demo_claim]) Inr ''now'' [demo_claim] store_open
      = (Inr results, store_open\<lparr>st_events := [row_of 1 demo_claim ''h'' (event_canonical demo_claim)], st_next_position := 2\<rparr>)"
    using append_one [OF mail_store_open, of demo_claim compareStrings "demo_parse [demo_claim]" "''now''"]
    by (auto simp: store_open_def numeral_2_eq_2)
  moreover have "date_iso 3000 = Inr (toISOString 3000)" by (simp add: date_iso_def max_time_def)
  ultimately show ?thesis by (auto simp: claimRole_def demo_claim_def)
qed

theorem claimed_role_held_witness:
  "\<exists>role. rd_id role = ''backend''
    \<and> fst (findRoleForAgent (demo_parse [demo_claim]) (demo_parse [demo_claim]) (\<lambda>_. Some demo_role_config) (Some ''{}'')
        (demo_files 3 (store_open\<lparr>st_events := [row_of 1 demo_claim ''h'' (event_canonical demo_claim)], st_next_position := 2\<rparr>))
        ''ledger'' None ''agent_bob'' None clearEventCache) = Inr (Some role)"
proof -
  let ?after = "demo_files 3 (store_open\<lparr>st_events := [row_of 1 demo_claim ''h'' (event_canonical demo_claim)], st_next_position := 2\<rparr>)"
  have empty: "ledger_at (demo_files 2 store_open) ''ledger'' = store_open"
    by (simp add: demo_files_ledger store_open_def)
  have after: "ledger_at ?after ''ledger''
      = store_open\<lparr>st_events := [row_of 1 demo_claim ''h'' (event_canonical demo_claim)], st_next_position := 2\<rparr>"
    by (simp add: demo_files_ledger store_open_def)
  have "\<exists>role. rd_id role = ''backend'' \<and> (\<forall>other hostId. fst (findRoleForAgent (demo_parse [demo_claim])
        (demo_parse [demo_claim]) (\<lambda>_. Some demo_role_config) (Some ''{}'') ?after ''ledger'' None other hostId clearEventCache)
      = (if other = ''agent_bob'' then Inr (Some role) else fst (findRoleForAgent (demo_parse [demo_claim])
          (demo_parse [demo_claim]) (\<lambda>_. Some demo_role_config) (Some ''{}'') (demo_files 2 store_open) ''ledger'' None other
          hostId clearEventCache)))"
  proof (rule claimed_role_held)
    show "store_ok (\<lambda>_. ''h'') (demo_parse [demo_claim]) (ledger_at (demo_files 2 store_open) ''ledger'')"
      by (simp add: empty mail_store_open)
    show "claimRole (\<lambda>_. ''h'') compareStrings (demo_parse [demo_claim]) Inr ''now'' demo_mail_env later_digits 3000
        (\<lambda>_. Some demo_role_config) (Some ''{}'') ''/w'' ''agent_bob'' ''backend'' None
        (ledger_at (demo_files 2 store_open) ''ledger'')
      = (Inr ''backend'', store_open\<lparr>st_events := [row_of 1 demo_claim ''h'' (event_canonical demo_claim)], st_next_position := 2\<rparr>)"
      unfolding empty by (rule demo_claimed)
    show "demo_claim = role_claim_event demo_mail_env later_digits ''/w'' (toISOString 3000) ''agent_bob'' ''backend''
        (case None of None \<Rightarrow> RM_mcp | Some m \<Rightarrow> m)"
      by (simp add: demo_claim_def)
    show "Inr demo_claim = Inr demo_claim \<and> demo_parse [demo_claim] (event_canonical demo_claim) = Some demo_claim"
      by (simp add: demo_parse_def)
    show "eventId demo_claim \<notin> set (durable_ids (ledger_at (demo_files 2 store_open) ''ledger''))"
      unfolding empty by (simp add: store_open_def)
  qed (rule raw_agrees_refl after clear_uncached)+
  then show ?thesis by (metis (no_types, lifting))
qed

end
