(* ===== verification/Session_Start.thy ===== *)
theory Session_Start
  imports Mail_Delivery
begin

text \<open>
  The context of a starting session: the budget and composition of \<open>gateway/src/session-start-bin.ts\<close>
  and the repeat suppression of \<open>gateway/src/injection-state.ts\<close>.

  \<open>dash\<close> is the one character of the fixed texts that lies outside this model's characters.  A state
  file is absent, or holds the entries of its sessions; one that cannot be read counts as absent.
\<close>

section \<open>The budget\<close>

definition max_context_bytes :: int where "max_context_bytes = 4000"

fun lines_within :: "int \<Rightarrow> int \<Rightarrow> string list \<Rightarrow> string list" where
  "lines_within maxBytes used [] = []"
| "lines_within maxBytes used (line # rest) =
     (let cost = int (byte_length line) + 1
      in if maxBytes < used + cost then [] else line # lines_within maxBytes (used + cost) rest)"

definition withheld_notice :: "nat \<Rightarrow> string" where
  "withheld_notice dropped =
     ''('' @ nat_str dropped @ '' further line(s) withheld to stay within the context budget.)''"

definition withinBudget :: "string \<Rightarrow> int \<Rightarrow> string" where
  "withinBudget s maxBytes =
     (if int (byte_length s) \<le> maxBytes then s
      else let rows = js_split CHR 0x0A s; shown = lines_within maxBytes 0 rows
           in join newline shown @ newline @ withheld_notice (length rows - length shown))"

definition asAdditionalContext :: "string \<Rightarrow> string \<Rightarrow> string option \<Rightarrow> string option \<Rightarrow> string" where
  "asAdditionalContext dash recap contention agent =
     join newline
       ([''## PatchMesh '' @ dash @ '' what previous sessions did here'', '''']
        @ (case contention of None \<Rightarrow> []
           | Some notice \<Rightarrow> if notice = [] then []
               else [''### Another worker was recently in flight over these files'', '''', notice, ''''])
        @ [recap, '''']
        @ (case agent of None \<Rightarrow> []
           | Some a \<Rightarrow> [''You are `'' @ a @ ''`. Pass it as `excludeAgentId` to `patchmesh_recent_activity` to leave your own calls out.''])
        @ [''Before your first edit to a file, ask `patchmesh_recent_activity` for that `path`: work in ''
             @ ''flight is not in git yet, so nothing else can tell you another agent is already in it.'',
           ''This recap covers one day, five tasks deep. `patchmesh_recap` reaches past that edge, and ''
             @ ''`patchmesh_overlapping_work` names what two workers are both changing.''])"

text \<open>
  The part of \<open>main\<close> between the recap and the claim: the mailbox block in what the recap leaves of the
  budget, and the context of both.  \<open>recap\<close> is the text \<open>asAdditionalContext\<close> made, absent when no task
  was recorded; \<open>None\<close> when there is nothing to inject.
\<close>

definition recap_context :: "string option \<Rightarrow> string option" where
  "recap_context recap = map_option (\<lambda>s. withinBudget s max_context_bytes) recap"

definition session_mailbox :: "string option \<Rightarrow> inbox_row list \<Rightarrow> mailbox_build" where
  "session_mailbox recapContext mailRows =
     (if mailRows = [] then \<lparr>mb_block = [], mb_includedMessageIds = []\<rparr>
      else buildMailboxBlock mailRows
        (max_context_bytes - (case recapContext of None \<Rightarrow> 0 | Some s \<Rightarrow> int (byte_length s) + 2)))"

definition session_context :: "string option \<Rightarrow> mailbox_build \<Rightarrow> string option" where
  "session_context recapContext mailbox =
     (case recapContext of
        None \<Rightarrow> if mb_block mailbox = [] then None else Some (withinBudget (mb_block mailbox) max_context_bytes)
      | Some recap \<Rightarrow>
          Some (withinBudget (if mb_block mailbox = [] then recap else mb_block mailbox @ newline @ newline @ recap)
            max_context_bytes))"

section \<open>Repeat suppression\<close>

definition repeat_suppression_ms :: int where "repeat_suppression_ms = 5 * 60000"
definition max_sessions :: nat where "max_sessions = 32"

record injection_record =
  ij_digest :: string
  ij_at :: string

type_synonym injection_state = "(string, injection_record) js_map"

definition digestOf :: "(string \<Rightarrow> string) \<Rightarrow> string \<Rightarrow> string" where
  "digestOf sha context = take 16 (sha context)"

definition readState :: "injection_state option \<Rightarrow> injection_state" where
  "readState state_file = (case state_file of None \<Rightarrow> [] | Some sessions \<Rightarrow> sessions)"

definition latest_injection ::
    "(string \<Rightarrow> int option) \<Rightarrow> string \<times> injection_record \<Rightarrow> string \<times> injection_record \<Rightarrow> int" where
  "latest_injection date_parse left right =
     (case (date_parse (ij_at (snd right)), date_parse (ij_at (snd left))) of
        (Some r, Some l) \<Rightarrow> r - l | _ \<Rightarrow> 0)"

definition claimInjection ::
    "(string \<Rightarrow> string) \<Rightarrow> (string \<Rightarrow> int option) \<Rightarrow> string option \<Rightarrow> string \<Rightarrow> int \<Rightarrow> int \<Rightarrow> injection_state option
     \<Rightarrow> bool \<times> injection_state option" where
  "claimInjection sha date_parse sessionId context now suppressWithinMs state_file =
     (case sessionId of
        None \<Rightarrow> (True, state_file)
      | Some session \<Rightarrow>
          if session = [] then (True, state_file)
          else let digest = digestOf sha context; sessions = readState state_file
               in if (case map_get sessions session of None \<Rightarrow> False
                      | Some previous \<Rightarrow> ij_digest previous = digest
                          \<and> (case date_parse (ij_at previous) of None \<Rightarrow> False
                             | Some t \<Rightarrow> 0 \<le> now - t \<and> now - t < suppressWithinMs))
                  then (False, state_file)
                  else (True, Some (take max_sessions (js_sort (latest_injection date_parse)
                          (map_set session \<lparr>ij_digest = digest, ij_at = toISOString now\<rparr> sessions)))))"

section \<open>What trimming keeps and says\<close>

lemma lines_within_prefix: "prefix (lines_within maxBytes used rows) rows"
  by (induction maxBytes used rows rule: lines_within.induct) (auto simp: Let_def)

lemma lines_within_size:
  "0 \<le> used \<Longrightarrow> used \<le> maxBytes \<Longrightarrow>
   used + (\<Sum>line \<leftarrow> lines_within maxBytes used rows. int (byte_length line) + 1) \<le> maxBytes"
proof (induction maxBytes used rows rule: lines_within.induct)
  case (2 maxBytes used line rest)
  then show ?case by (simp add: Let_def algebra_simps)
qed simp

lemma join_size:
  "xs \<noteq> [] \<Longrightarrow> int (byte_length (join newline xs)) + 1 = (\<Sum>line \<leftarrow> xs. int (byte_length line) + 1)"
proof (induction xs rule: induct_list012)
  case (3 x y zs)
  then show ?case by simp
qed simp_all

lemma lines_within_more:
  "used + (\<Sum>line \<leftarrow> shown. int (byte_length line) + 1) \<le> maxBytes
   \<Longrightarrow> lines_within maxBytes used (shown @ rest)
     = shown @ lines_within maxBytes (used + (\<Sum>line \<leftarrow> shown. int (byte_length line) + 1)) rest"
proof (induction shown arbitrary: used)
  case (Cons line shown)
  have "0 \<le> (\<Sum>line \<leftarrow> shown. int (byte_length line) + 1)" by (intro sum_list_nonneg) auto
  then show ?case using Cons.IH [of "used + (int (byte_length line) + 1)"] Cons.prems by (simp add: Let_def algebra_simps)
qed simp

lemma shown_lines_plain: "x \<in> set (lines_within maxBytes used (js_split CHR 0x0A s)) \<Longrightarrow> CHR 0x0A \<notin> set x"
  using lines_within_prefix js_split_no_sep by (metis set_mono_prefix subsetD)

lemma notice_plain: "CHR 0x0A \<notin> set (withheld_notice n)"
proof -
  have "digit_char d \<noteq> CHR 0x0A" if "d < 10" for d
  proof
    assume "digit_char d = CHR 0x0A"
    then have "(of_char (digit_char d) :: nat) = 10" by simp
    then show False using that by (simp add: digit_char_def)
  qed
  then have "CHR 0x0A \<notin> set (nat_str n)" using nat_str_digits by metis
  then show ?thesis by (simp add: withheld_notice_def)
qed

lemma over_budget_lines:
  assumes "maxBytes < int (byte_length s)" and "0 \<le> maxBytes"
  obtains shown dropped where "js_split CHR 0x0A s = shown @ dropped" "dropped \<noteq> []"
    "lines_within maxBytes 0 (js_split CHR 0x0A s) = shown"
    "withinBudget s maxBytes = join newline shown @ newline @ withheld_notice (length dropped)"
    "(\<Sum>line \<leftarrow> shown. int (byte_length line) + 1) \<le> maxBytes"
proof -
  let ?rows = "js_split CHR 0x0A s"
  let ?shown = "lines_within maxBytes 0 ?rows"
  obtain dropped where rows: "?rows = ?shown @ dropped" using lines_within_prefix unfolding prefix_def by blast
  have size: "(\<Sum>line \<leftarrow> ?shown. int (byte_length line) + 1) \<le> maxBytes"
    using lines_within_size [of 0 maxBytes ?rows] assms(2) by simp
  have "int (byte_length s) + 1 = (\<Sum>line \<leftarrow> ?rows. int (byte_length line) + 1)"
    using join_size [of ?rows] by (simp add: join_js_split)
  then have "dropped \<noteq> []" using size assms(1) rows by (metis append_Nil2 add_strict_increasing2 not_less zero_le_one add_le_cancel_right
        dual_order.strict_trans1 less_add_one linorder_not_le order.asym)
  moreover have "withinBudget s maxBytes = join newline ?shown @ newline @ withheld_notice (length dropped)"
    using assms(1) arg_cong [OF rows, of length] by (simp add: withinBudget_def Let_def)
  ultimately show thesis using that rows size by blast
qed

text \<open>
  C39: Trimming keeps whole lines: a text over the budget becomes its longest run of leading lines that
  fits with their line ends, followed by a notice that counts the lines left out; the result passes the
  budget by at most the notice and its line end.
\<close>

theorem trimmed_to_lines:
  assumes "maxBytes < int (byte_length s)" and "0 \<le> maxBytes"
  shows "\<exists>shown dropped. js_split CHR 0x0A s = shown @ dropped \<and> dropped \<noteq> []
    \<and> withinBudget s maxBytes = join newline shown @ newline @ withheld_notice (length dropped)
    \<and> (\<Sum>line \<leftarrow> shown. int (byte_length line) + 1) \<le> maxBytes
    \<and> maxBytes < (\<Sum>line \<leftarrow> shown @ [hd dropped]. int (byte_length line) + 1)
    \<and> int (byte_length (withinBudget s maxBytes)) \<le> maxBytes + 1 + int (byte_length (withheld_notice (length dropped)))"
proof -
  obtain shown dropped where parts: "js_split CHR 0x0A s = shown @ dropped" "dropped \<noteq> []"
    "lines_within maxBytes 0 (js_split CHR 0x0A s) = shown"
    "withinBudget s maxBytes = join newline shown @ newline @ withheld_notice (length dropped)"
    "(\<Sum>line \<leftarrow> shown. int (byte_length line) + 1) \<le> maxBytes" by (rule over_budget_lines [OF assms])
  obtain line rest where dropped: "dropped = line # rest" using parts(2) by (cases dropped) auto
  have "lines_within maxBytes (\<Sum>line \<leftarrow> shown. int (byte_length line) + 1) (line # rest) = []"
    using lines_within_more [of 0 shown maxBytes "line # rest"] parts(1,3,5) by (simp add: dropped)
  then have "maxBytes < (\<Sum>line \<leftarrow> shown @ [hd dropped]. int (byte_length line) + 1)"
    by (simp add: Let_def dropped split: if_splits)
  moreover have "int (byte_length (join newline shown)) \<le> maxBytes"
    using join_size [of shown] parts(5) assms(2) by (cases "shown = []") (simp_all add: byte_length_def)
  ultimately show ?thesis using parts
    by (intro exI [of _ shown] exI [of _ dropped]) simp
qed

text \<open>
  A recap trimmed twice no longer says how much is missing: when the trimmed recap with its notice
  still passes the budget and no mail is shown, the second \<open>withinBudget\<close> replaces the notice, so the
  injected context reports one withheld line however many were left out.
\<close>

theorem second_trim_forgets:
  assumes "recap_context (Some recap) = Some trimmed" and "max_context_bytes < int (byte_length recap)"
    and "max_context_bytes < int (byte_length trimmed)" and "mb_block mailbox = []"
  shows "\<exists>shown dropped. js_split CHR 0x0A recap = shown @ dropped \<and> dropped \<noteq> []
    \<and> trimmed = join newline shown @ newline @ withheld_notice (length dropped)
    \<and> session_context (Some trimmed) mailbox = Some (join newline shown @ newline @ withheld_notice 1)"
proof -
  have pos: "0 \<le> max_context_bytes" "1 \<le> max_context_bytes" by (simp_all add: max_context_bytes_def)
  obtain shown dropped where parts: "js_split CHR 0x0A recap = shown @ dropped" "dropped \<noteq> []"
    "withinBudget recap max_context_bytes = join newline shown @ newline @ withheld_notice (length dropped)"
    "(\<Sum>line \<leftarrow> shown. int (byte_length line) + 1) \<le> max_context_bytes"
    by (rule over_budget_lines [OF assms(2) pos(1)]) blast
  let ?notice = "withheld_notice (length dropped)"
  have trimmed: "trimmed = join newline shown @ newline @ ?notice" using assms(1) parts(3) by (simp add: recap_context_def)
  define lead where "lead = (if shown = [] then [[]] else shown)"
  have nonempty: "lead \<noteq> []" by (simp add: lead_def)
  have plain: "\<forall>x \<in> set lead. CHR 0x0A \<notin> set x"
    using parts(1) js_split_no_sep by (auto simp: lead_def) (metis Un_iff set_append)
  have "js_split CHR 0x0A (join newline lead) = lead" using plain by (intro js_split_join) (simp_all add: lead_def)
  moreover have same: "join newline lead = join newline shown" by (simp add: lead_def)
  ultimately have rows: "js_split CHR 0x0A trimmed = lead @ [?notice]"
    by (simp add: trimmed js_split_between js_split_plain notice_plain)
  have size: "(\<Sum>line \<leftarrow> lead. int (byte_length line) + 1) \<le> max_context_bytes"
    using parts(4) pos by (simp add: lead_def byte_length_def)
  have "int (byte_length trimmed) = (\<Sum>line \<leftarrow> lead. int (byte_length line) + 1) + int (byte_length ?notice)"
    using join_size [OF nonempty] by (simp add: trimmed same)
  then have "lines_within max_context_bytes 0 (lead @ [?notice]) = lead"
    using lines_within_more [of 0 lead max_context_bytes "[?notice]"] size assms(3) by (simp add: Let_def)
  then have "withinBudget trimmed max_context_bytes = join newline shown @ newline @ withheld_notice 1"
    using assms(3) by (simp add: withinBudget_def rows Let_def same [unfolded lead_def] lead_def)
  then show ?thesis using parts trimmed assms(4) by (intro exI [of _ shown] exI [of _ dropped]) (simp add: session_context_def)
qed

text \<open>
  Mail is injected whole: whenever a mailbox block is built beside a recap, the injected context is
  that block, unabridged, followed by the recap, so every message that is then marked delivered was
  shown in full.
\<close>

theorem mail_injected_whole:
  assumes "mailbox = session_mailbox recapContext mailRows" and "mb_block mailbox \<noteq> []"
  shows "session_context recapContext mailbox = Some (mb_block mailbox
    @ (case recapContext of None \<Rightarrow> [] | Some recap \<Rightarrow> newline @ newline @ recap))"
proof -
  let ?share = "case recapContext of None \<Rightarrow> 0 | Some s \<Rightarrow> int (byte_length s) + 2"
  have built: "mailbox = buildMailboxBlock mailRows (max_context_bytes - ?share)"
    using assms by (auto simp: session_mailbox_def split: if_splits)
  then obtain parts ids where fit: "fit_messages (idShortener (map row_sender (rev mailRows))) (max_context_bytes - ?share)
      0 True (rev mailRows) = (parts, ids)" and block: "mb_block mailbox = join (newline @ newline) parts"
    using assms(2) by (auto simp: buildMailboxBlock_def Let_def split: if_splits prod.splits)
  have "parts \<noteq> []" using assms(2) block by auto
  then have "int (byte_length (mb_block mailbox)) \<le> max_context_bytes - ?share"
    using fit_messages_spec [OF fit] by (auto simp: block)
  then show ?thesis using assms(2)
    by (cases recapContext) (simp_all add: session_context_def withinBudget_def)
qed

section \<open>A burst is suppressed\<close>

lemma js_insert_head:
  "xs \<noteq> [] \<Longrightarrow> 0 < cmp x (hd xs) \<Longrightarrow> hd (js_insert cmp x xs) = hd xs"
  by (cases xs) simp_all

lemma sort_head:
  assumes "x \<in> set xs" and "distinct xs" and "\<forall>y \<in> set xs. y \<noteq> x \<longrightarrow> cmp x y < 0 \<and> 0 < cmp y x"
  shows "hd (js_sort cmp xs) = x"
  using assms
proof (induction xs)
  case (Cons z zs)
  show ?case
  proof (cases "z = x")
    case True
    have "hd (js_insert cmp x (js_sort cmp zs)) = x"
    proof (cases "js_sort cmp zs")
      case (Cons w ws)
      then have "w \<in> set zs" using set_js_sort [of cmp zs] by (metis list.set_intros(1))
      then have "cmp x w < 0" using Cons.prems True by auto
      then show ?thesis by (simp add: Cons)
    qed simp
    then show ?thesis by (simp add: True)
  next
    case False
    then have x: "x \<in> set zs" using Cons.prems(1) by simp
    have "hd (js_sort cmp zs) = x" using Cons.prems by (intro Cons.IH x) auto
    moreover have "js_sort cmp zs \<noteq> []" using x by (metis empty_iff empty_set set_js_sort)
    moreover have "0 < cmp z x" using Cons.prems False by simp
    ultimately have "hd (js_insert cmp z (js_sort cmp zs)) = x" using js_insert_head [of "js_sort cmp zs" cmp z] by simp
    then show ?thesis by simp
  qed
qed simp

text \<open>One session asks for one context again and again, with nothing else touching the state file: the answers, and the file.\<close>

fun ask_again ::
    "(string \<Rightarrow> string) \<Rightarrow> (string \<Rightarrow> int option) \<Rightarrow> string \<Rightarrow> string \<Rightarrow> int \<Rightarrow> int list \<Rightarrow> injection_state option
     \<Rightarrow> bool list \<times> injection_state option" where
  "ask_again sha date_parse session context window [] state_file = ([], state_file)"
| "ask_again sha date_parse session context window (now # laters) state_file =
     (case claimInjection sha date_parse (Some session) context now window state_file of
        (answer, state_file') \<Rightarrow>
          (case ask_again sha date_parse session context window laters state_file' of (answers, final) \<Rightarrow> (answer # answers, final)))"

text \<open>
  C24: A burst of session starts injects once: when \<open>claimInjection\<close> let a context through and every other
  session's record bears an earlier date, then the same session, asking for the same context however often before
  the suppression window has passed, and with no context let through for anyone in between, is refused every time
  and the state file stays as the claim left it; that state never holds more than 32 sessions.
\<close>

theorem burst_injects_once:
  assumes "parses_iso date_parse" and "0 \<le> now" and "now < iso_limit" and "distinct (map_keys (readState state_file))"
    and "\<forall>(other, r) \<in> set (readState state_file). other \<noteq> session
      \<longrightarrow> (\<exists>t. date_parse (ij_at r) = Some t \<and> t < now)"
    and "session \<noteq> []" and "claimInjection sha date_parse (Some session) context now window state_file = (True, after)"
    and "\<forall>later \<in> set laters. now \<le> later \<and> later < now + window"
  shows "ask_again sha date_parse session context window laters after = (map (\<lambda>_. False) laters, after)
    \<and> length (readState after) \<le> 32"
proof -
  let ?r = "\<lparr>ij_digest = digestOf sha context, ij_at = toISOString now\<rparr>"
  let ?cmp = "latest_injection date_parse" and ?sessions = "map_set session ?r (readState state_file)"
  have after: "after = Some (take max_sessions (js_sort ?cmp ?sessions))"
    using assms(6,7) by (auto simp: claimInjection_def Let_def split: if_splits)
  have parsed: "date_parse (toISOString now) = Some now" using assms(1-3) by (simp add: parses_iso_def)
  have keys: "distinct (map_keys ?sessions)" using assms(4) by (rule distinct_map_set)
  have mine: "map_get ?sessions session = Some ?r" by (simp add: map_get_set)
  have older: "\<exists>t. date_parse (ij_at (snd y)) = Some t \<and> t < now" if y: "y \<in> set ?sessions" "y \<noteq> (session, ?r)" for y
  proof -
    obtain other r where pair: "y = (other, r)" by (cases y)
    have "map_get ?sessions other = Some r" using keys y(1) pair by (auto intro: map_of_is_SomeI)
    then have "other \<noteq> session" "map_get (readState state_file) other = Some r"
      using y(2) pair mine by (auto simp: map_get_set split: if_splits)
    then show ?thesis using assms(5) pair by (auto dest: map_of_SomeD)
  qed
  have "hd (js_sort ?cmp ?sessions) = (session, ?r)"
  proof (rule sort_head)
    show "(session, ?r) \<in> set ?sessions" using mine by (rule map_of_SomeD)
    show "distinct ?sessions" using keys by (simp add: distinct_map)
    show "\<forall>y \<in> set ?sessions. y \<noteq> (session, ?r) \<longrightarrow> ?cmp (session, ?r) y < 0 \<and> 0 < ?cmp y (session, ?r)"
      using older parsed by (fastforce simp: latest_injection_def)
  qed
  moreover have "js_sort ?cmp ?sessions \<noteq> []" using mine by (metis length_0_conv length_js_sort map_of.simps(1) option.distinct(1))
  ultimately obtain rest where "take max_sessions (js_sort ?cmp ?sessions) = (session, ?r) # rest"
    by (cases "js_sort ?cmp ?sessions") (auto simp: max_sessions_def)
  then have "map_get (readState after) session = Some ?r" by (simp add: after readState_def)
  then have refused: "claimInjection sha date_parse (Some session) context later window after = (False, after)"
    if "now \<le> later" "later < now + window" for later
    using assms(6) that parsed by (simp add: claimInjection_def Let_def)
  have "ask_again sha date_parse session context window laters after = (map (\<lambda>_. False) laters, after)"
    using assms(8) by (induction laters) (simp_all add: refused)
  moreover have "length (readState after) \<le> 32" by (simp add: after readState_def max_sessions_def)
  ultimately show ?thesis ..
qed

theorem burst_injects_once_witness:
  "ask_again (\<lambda>_. ''0123456789abcdef'') iso_parse ''s'' ''hello'' repeat_suppression_ms [2000, 2000, 5000]
     (snd (claimInjection (\<lambda>_. ''0123456789abcdef'') iso_parse (Some ''s'') ''hello'' 1000 repeat_suppression_ms None))
   = ([False, False, False],
      snd (claimInjection (\<lambda>_. ''0123456789abcdef'') iso_parse (Some ''s'') ''hello'' 1000 repeat_suppression_ms None))"
proof -
  have "claimInjection (\<lambda>_. ''0123456789abcdef'') iso_parse (Some ''s'') ''hello'' 1000 repeat_suppression_ms None
      = (True, snd (claimInjection (\<lambda>_. ''0123456789abcdef'') iso_parse (Some ''s'') ''hello'' 1000 repeat_suppression_ms None))"
    by (simp add: claimInjection_def readState_def Let_def)
  from burst_injects_once [OF iso_parse_roundtrip _ _ _ _ _ this, of "[2000, 2000, 5000]"] show ?thesis
    by (simp del: ask_again.simps add: iso_limit_def readState_def repeat_suppression_ms_def)
qed

definition wide :: "nat \<Rightarrow> string" where
  "wide n = replicate n CHR ''a''"

definition long_recap :: string where
  "long_recap = wide 3950 @ newline @ wide 60 @ newline @ ''c'' @ newline @ ''d''"

lemma wide_facts: "byte_length (wide n) = n" "CHR 0x0A \<notin> set (wide n)"
proof -
  show "byte_length (wide n) = n" by (induction n) (simp_all add: wide_def byte_length_def)
qed (auto simp: wide_def)

lemma long_recap_lines: "js_split CHR 0x0A long_recap = [wide 3950, wide 60, ''c'', ''d'']"
  by (simp add: long_recap_def js_split_append js_split_plain wide_facts)

lemma long_recap_trimmed: "4000 < int (byte_length long_recap)"
  "withinBudget long_recap 4000 = wide 3950 @ newline @ withheld_notice 3"
proof -
  show over: "4000 < int (byte_length long_recap)"
    by (simp add: long_recap_def wide_facts byte_length_def [of "''c''"] byte_length_def [of "''d''"])
  have "lines_within 4000 0 (js_split CHR 0x0A long_recap) = [wide 3950]"
    by (simp add: long_recap_lines wide_facts)
  then have shown: "lines_within 4000 0 [wide 3950, wide 60, ''c'', ''d''] = [wide 3950]" by (simp only: long_recap_lines)
  show "withinBudget long_recap 4000 = wide 3950 @ newline @ withheld_notice 3"
    using over by (simp only: withinBudget_def long_recap_lines Let_def shown) (simp add: numeral_3_eq_3)
qed

lemma long_recap_over: "4000 < int (byte_length (withinBudget long_recap 4000))"
proof -
  have "byte_length (withheld_notice 3) = 63" by code_simp
  then show ?thesis by (simp add: long_recap_trimmed(2) wide_facts)
qed

theorem trimmed_to_lines_witness:
  "\<exists>shown hidden. js_split CHR 0x0A long_recap = shown @ hidden
    \<and> withinBudget long_recap 4000 = join newline shown @ newline @ withheld_notice (length hidden)
    \<and> int (byte_length (withinBudget long_recap 4000)) \<le> 4000 + 1 + int (byte_length (withheld_notice (length hidden)))"
  using trimmed_to_lines [OF long_recap_trimmed(1)] by auto

theorem second_trim_forgets_witness:
  "\<exists>shown hidden. js_split CHR 0x0A long_recap = shown @ hidden
    \<and> withinBudget long_recap 4000 = join newline shown @ newline @ withheld_notice (length hidden)
    \<and> session_context (Some (withinBudget long_recap 4000)) \<lparr>mb_block = [], mb_includedMessageIds = []\<rparr>
      = Some (join newline shown @ newline @ withheld_notice 1)"
  using second_trim_forgets [of long_recap "withinBudget long_recap 4000" "\<lparr>mb_block = [], mb_includedMessageIds = []\<rparr>"]
    long_recap_trimmed(1) long_recap_over
  by (simp add: recap_context_def max_context_bytes_def) blast

theorem mail_injected_whole_witness:
  "session_context (Some ''recap'') (session_mailbox (Some ''recap'') [demo_row])
    = Some (mb_block (session_mailbox (Some ''recap'') [demo_row]) @ newline @ newline @ ''recap'')"
proof -
  have "mb_block (session_mailbox (Some ''recap'') [demo_row]) \<noteq> []" by code_simp
  from mail_injected_whole [OF refl this] show ?thesis by simp
qed

end
