(* ===== verification/Contract_Compatibility.thy ===== *)
theory Contract_Compatibility
  imports Js_Text
begin

text \<open>
  Comparing exported function signatures: \<open>packages/analyzers/src/contract-compatibility.ts\<close>.  The
  regular expression of \<open>parseFunction\<close> is matched left to right; its one choice is the closing
  parenthesis of the parameter list, where \<open>(.*)\<close> takes the last one that lets the rest match.
\<close>

section \<open>Parsing a signature\<close>

datatype contract_compatibility = Compatible | Breaking | Unknown

record function_parameter =
  fp_name :: string
  fp_type :: string
  fp_optional :: bool
  fp_rest :: bool

record function_signature =
  fs_name :: string
  fs_parameters :: "function_parameter list"
  fs_returnType :: string

fun squeeze :: "string \<Rightarrow> string" where
  "squeeze [] = []"
| "squeeze (c # cs) =
     (if js_space c then (case squeeze cs of [] \<Rightarrow> [CHR '' ''] | d # ds \<Rightarrow> if d = CHR '' '' then d # ds else CHR '' '' # d # ds)
      else c # squeeze cs)"

definition normalize_text :: "string \<Rightarrow> string" where
  "normalize_text s = trim (squeeze s)"

record depths =
  dp_angle :: int
  dp_bracket :: int
  dp_brace :: int

definition step_depths :: "char \<Rightarrow> depths \<Rightarrow> depths" where
  "step_depths c d =
     (if c = CHR ''<'' then d\<lparr>dp_angle := dp_angle d + 1\<rparr>
      else if c = CHR ''>'' then d\<lparr>dp_angle := dp_angle d - 1\<rparr>
      else if c = CHR ''['' then d\<lparr>dp_bracket := dp_bracket d + 1\<rparr>
      else if c = CHR '']'' then d\<lparr>dp_bracket := dp_bracket d - 1\<rparr>
      else if c = CHR ''{'' then d\<lparr>dp_brace := dp_brace d + 1\<rparr>
      else if c = CHR ''}'' then d\<lparr>dp_brace := dp_brace d - 1\<rparr>
      else d)"

abbreviation level_depths :: depths where
  "level_depths \<equiv> \<lparr>dp_angle = 0, dp_bracket = 0, dp_brace = 0\<rparr>"

text \<open>\<open>current\<close> is the text since the last separator.\<close>

fun split_from :: "depths \<Rightarrow> string \<Rightarrow> string \<Rightarrow> string list option" where
  "split_from d current [] =
     (if d \<noteq> level_depths then None else Some (if trim current = [] then [] else [trim current]))"
| "split_from d current (c # cs) =
     (let d' = step_depths c d
      in if dp_angle d' < 0 \<or> dp_bracket d' < 0 \<or> dp_brace d' < 0 then None
         else if c = CHR '','' \<and> d' = level_depths then map_option (\<lambda>parts. current # parts) (split_from d' [] cs)
         else split_from d' (current @ [c]) cs)"

definition splitParameters :: "string \<Rightarrow> string list option" where
  "splitParameters value = split_from level_depths [] value"

definition name_start :: "char \<Rightarrow> bool" where
  "name_start c \<longleftrightarrow> char_in 65 90 c \<or> char_in 97 122 c \<or> c = CHR ''_'' \<or> c = CHR ''$''"

definition name_char :: "char \<Rightarrow> bool" where
  "name_char c \<longleftrightarrow> name_start c \<or> char_in 48 57 c"

definition js_name :: "string \<Rightarrow> bool" where
  "js_name s \<longleftrightarrow> s \<noteq> [] \<and> name_start (hd s) \<and> list_all name_char s"

definition parseParameter :: "string \<Rightarrow> function_parameter option" where
  "parseParameter value =
     (let normalized = trim value
      in if normalized = [] then None
         else let rest = prefix ''...'' normalized;
                  parameter = (if rest then trim (drop 3 normalized) else normalized);
                  defaultIndex = index_of ''='' parameter;
                  declaration = trim (case defaultIndex of None \<Rightarrow> parameter | Some k \<Rightarrow> take k parameter)
              in case index_of '':'' declaration of
                   None \<Rightarrow> None
                 | Some colonIndex \<Rightarrow>
                     if colonIndex = 0 then None
                     else let rawName = trim (take colonIndex declaration);
                              ty = normalize_text (drop (Suc colonIndex) declaration);
                              optional = (defaultIndex \<noteq> None \<or> suffix ''?'' rawName);
                              name = trim (if suffix ''?'' rawName then butlast rawName else rawName)
                          in if ty = [] then None
                             else if rest \<and> optional then None
                             else if \<not> js_name name then None
                             else Some \<lparr>fp_name = name, fp_type = ty, fp_optional = optional, fp_rest = rest\<rparr>)"

definition after_word :: "string \<Rightarrow> string \<Rightarrow> string option" where
  "after_word word s = (if prefix word s then Some (drop (length word) s) else None)"

definition after_spaces :: "string \<Rightarrow> string option" where
  "after_spaces s = (case s of [] \<Rightarrow> None | c # cs \<Rightarrow> if js_space c then Some (dropWhile js_space s) else None)"

text \<open>The return type behind a closing parenthesis: \<open>\s*:\s*(.+)$\<close>.\<close>

definition return_part :: "string \<Rightarrow> string option" where
  "return_part s =
     (case dropWhile js_space s of
        [] \<Rightarrow> None
      | c # cs \<Rightarrow> if c = CHR '':'' \<and> dropWhile js_space cs \<noteq> [] then Some (dropWhile js_space cs) else None)"

fun last_close :: "string \<Rightarrow> (string \<times> string) option" where
  "last_close [] = None"
| "last_close (c # cs) =
     (case last_close cs of
        Some (parameters, result) \<Rightarrow> Some (c # parameters, result)
      | None \<Rightarrow> if c = CHR '')'' then map_option (Pair []) (return_part cs) else None)"

definition match_function :: "string \<Rightarrow> (string \<times> string \<times> string) option" where
  "match_function s =
     Option.bind (Option.bind (after_word ''export'' s) after_spaces) (\<lambda>s1.
     let s2 = (case Option.bind (after_word ''async'' s1) after_spaces of None \<Rightarrow> s1 | Some r \<Rightarrow> r)
     in Option.bind (Option.bind (after_word ''function'' s2) after_spaces) (\<lambda>s3.
        let name = takeWhile name_char s3; s4 = dropWhile js_space (dropWhile name_char s3)
        in if \<not> js_name name then None
           else case s4 of [] \<Rightarrow> None
             | c # cs \<Rightarrow> if c = CHR ''('' then map_option (Pair name) (last_close cs) else None))"

fun parse_parameters :: "function_parameter list \<Rightarrow> string list \<Rightarrow> function_parameter list option" where
  "parse_parameters taken [] = Some taken"
| "parse_parameters taken (raw # raws) =
     (case parseParameter raw of None \<Rightarrow> None
      | Some p \<Rightarrow> if list_ex fp_rest taken then None else parse_parameters (taken @ [p]) raws)"

definition parseFunction :: "string \<Rightarrow> function_signature option" where
  "parseFunction value =
     (case match_function (normalize_text value) of None \<Rightarrow> None
      | Some (name, rawParameters, rawReturn) \<Rightarrow>
          (case Option.bind (splitParameters rawParameters) (parse_parameters []) of None \<Rightarrow> None
           | Some parameters \<Rightarrow>
               let returnType = normalize_text rawReturn
               in if returnType = [] then None
                  else Some \<lparr>fs_name = name, fs_parameters = parameters, fs_returnType = returnType\<rparr>))"

section \<open>Comparing two signatures\<close>

definition parameter_breaks :: "function_parameter \<times> function_parameter \<Rightarrow> bool" where
  "parameter_breaks pair = (case pair of (before, after) \<Rightarrow>
     fp_type before \<noteq> fp_type after \<or> fp_rest before \<noteq> fp_rest after \<or> (fp_optional before \<and> \<not> fp_optional after))"

definition compare_signatures :: "function_signature \<Rightarrow> function_signature \<Rightarrow> contract_compatibility" where
  "compare_signatures previous current =
     (if fs_name previous \<noteq> fs_name current \<or> fs_returnType previous \<noteq> fs_returnType current then Breaking
      else if length (fs_parameters current) < length (fs_parameters previous) then Breaking
      else if list_ex parameter_breaks (zip (fs_parameters previous) (fs_parameters current)) then Breaking
      else if list_ex (\<lambda>p. \<not> fp_optional p \<and> \<not> fp_rest p) (drop (length (fs_parameters previous)) (fs_parameters current))
      then Breaking
      else Compatible)"

definition classifyContractCompatibility :: "string \<Rightarrow> string \<Rightarrow> contract_compatibility" where
  "classifyContractCompatibility before after =
     (let normalizedBefore = normalize_text before; normalizedAfter = normalize_text after
      in if normalizedBefore = [] then Unknown
         else case parseFunction normalizedBefore of
             None \<Rightarrow> Unknown
           | Some previous \<Rightarrow>
               if normalizedBefore = normalizedAfter then Compatible
               else if normalizedAfter = [] then Breaking
               else case parseFunction normalizedAfter of
                   None \<Rightarrow> Unknown
                 | Some current \<Rightarrow> compare_signatures previous current)"

section \<open>Declarations\<close>

text \<open>
  What an exported declaration says, apart from the parser: types are names, arrays, applications of a
  generic name and unions of these; a parameter is required, optional or the rest of the arguments.
  \<open>declaration_text\<close> writes the declaration as it stands in a source file.
\<close>

datatype type_term = Named string | ArrayOf type_term | Applied string "type_term list"

fun term_text :: "type_term \<Rightarrow> string" where
  "term_text (Named n) = n"
| "term_text (ArrayOf t) = term_text t @ ''[]''"
| "term_text (Applied n ts) = n @ ''<'' @ join '', '' (map term_text ts) @ ''>''"

fun well_term :: "type_term \<Rightarrow> bool" where
  "well_term (Named n) \<longleftrightarrow> js_name n"
| "well_term (ArrayOf t) \<longleftrightarrow> well_term t"
| "well_term (Applied n ts) \<longleftrightarrow> js_name n \<and> ts \<noteq> [] \<and> list_all well_term ts"

definition type_text :: "type_term list \<Rightarrow> string" where
  "type_text ts = join '' | '' (map term_text ts)"

definition well_type :: "type_term list \<Rightarrow> bool" where
  "well_type ts \<longleftrightarrow> ts \<noteq> [] \<and> list_all well_term ts"

datatype parameter_kind = Required | Omittable | Gathering

record declared_parameter =
  dl_name :: string
  dl_type :: "type_term list"
  dl_kind :: parameter_kind

record declared_function =
  df_name :: string
  df_parameters :: "declared_parameter list"
  df_returnType :: "type_term list"

definition parameter_text :: "declared_parameter \<Rightarrow> string" where
  "parameter_text p = (if dl_kind p = Gathering then ''...'' else []) @ dl_name p
     @ (if dl_kind p = Omittable then ''?'' else []) @ '': '' @ type_text (dl_type p)"

definition declaration_text :: "declared_function \<Rightarrow> string" where
  "declaration_text d = ''export function '' @ df_name d @ ''('' @ join '', '' (map parameter_text (df_parameters d))
     @ ''): '' @ type_text (df_returnType d)"

definition well_parameter :: "declared_parameter \<Rightarrow> bool" where
  "well_parameter p \<longleftrightarrow> js_name (dl_name p) \<and> well_type (dl_type p)"

definition well_declared :: "declared_function \<Rightarrow> bool" where
  "well_declared d \<longleftrightarrow> js_name (df_name d) \<and> list_all well_parameter (df_parameters d)
     \<and> list_all (\<lambda>p. dl_kind p \<noteq> Gathering) (butlast (df_parameters d)) \<and> well_type (df_returnType d)"

definition parsed_parameter :: "declared_parameter \<Rightarrow> function_parameter" where
  "parsed_parameter p = \<lparr>fp_name = dl_name p, fp_type = type_text (dl_type p), fp_optional = (dl_kind p = Omittable),
     fp_rest = (dl_kind p = Gathering)\<rparr>"

definition parsed_function :: "declared_function \<Rightarrow> function_signature" where
  "parsed_function d = \<lparr>fs_name = df_name d, fs_parameters = map parsed_parameter (df_parameters d),
     fs_returnType = type_text (df_returnType d)\<rparr>"

section \<open>Scanning lemmas\<close>

definition type_char :: "char \<Rightarrow> bool" where
  "type_char c \<longleftrightarrow> name_char c \<or> c \<in> set ''<>[], |''"

lemma no_name_chars: "list_all (\<lambda>c. \<not> name_char c) '' ()[]{}<>,:=?.|''"
  by code_simp

lemma name_char_space: "name_char c \<Longrightarrow> \<not> js_space c"
proof -
  have "\<not> js_space CHR ''_''" "\<not> js_space CHR ''$''" by code_simp+
  then show "name_char c \<Longrightarrow> \<not> js_space c"
    by (cases "c = CHR ''_'' \<or> c = CHR ''$''") (auto simp only: name_char_def name_start_def char_in_def js_space_def)
qed

lemma name_char_plain: "name_char c \<Longrightarrow> \<not> js_space c \<and> c \<notin> set '' ()[]{}<>,:=?.|''"
  using no_name_chars name_char_space unfolding list_all_iff by blast

lemma no_type_chars: "list_all (\<lambda>c. \<not> type_char c) ''(){}:=?.''"
  by code_simp

lemma spaces_in_types: "list_all (\<lambda>c. js_space c \<longrightarrow> c = CHR '' '') ''<>[], |''"
  by code_simp

lemma type_char_plain: "type_char c \<Longrightarrow> c \<notin> set ''(){}:=?.'' \<and> (js_space c \<longrightarrow> c = CHR '' '')"
  using no_type_chars spaces_in_types name_char_space [of c] unfolding list_all_iff type_char_def by blast

lemma js_name_chars: "js_name n \<Longrightarrow> c \<in> set n \<Longrightarrow> name_char c"
  by (simp add: js_name_def list_all_iff)

lemma term_text_chars: "well_term t \<Longrightarrow> c \<in> set (term_text t) \<Longrightarrow> type_char c"
proof (induction t arbitrary: c)
  case (Named n)
  then show ?case by (auto simp: type_char_def dest: js_name_chars)
next
  case (ArrayOf t)
  then show ?case by (auto simp: type_char_def)
next
  case (Applied n ts)
  have "type_char c" if "c \<in> set (join '', '' (map term_text ts))"
    using join_chars [OF that] Applied by (auto simp: type_char_def list_all_iff)
  then show ?case using Applied.prems by (auto simp: type_char_def dest: js_name_chars)
qed

lemma type_text_chars: "well_type ts \<Longrightarrow> c \<in> set (type_text ts) \<Longrightarrow> type_char c"
  using join_chars [of c "'' | ''" "map term_text ts"] term_text_chars
  by (fastforce simp: type_text_def well_type_def list_all_iff type_char_def)

text \<open>Texts that begin and end with a character that is no space and hold only single blanks between.\<close>

fun single_blanks :: "string \<Rightarrow> bool" where
  "single_blanks [] \<longleftrightarrow> True"
| "single_blanks (c # cs) \<longleftrightarrow> (js_space c \<longrightarrow> c = CHR '' '' \<and> (cs = [] \<or> \<not> js_space (hd cs))) \<and> single_blanks cs"

definition neat :: "string \<Rightarrow> bool" where
  "neat s \<longleftrightarrow> s \<noteq> [] \<and> \<not> js_space (hd s) \<and> \<not> js_space (last s) \<and> single_blanks s"

lemma js_space_blank [simp]: "js_space CHR '' ''"
  by (simp add: js_space_def)

lemma squeeze_own: "single_blanks s \<Longrightarrow> squeeze s = s"
  by (induction s) (auto split: list.splits)

lemma single_blanks_append:
  "single_blanks a \<Longrightarrow> single_blanks b \<Longrightarrow> a = [] \<or> \<not> js_space (last a) \<or> b = [] \<or> \<not> js_space (hd b)
   \<Longrightarrow> single_blanks (a @ b)"
  by (induction a) (auto simp: hd_append split: if_splits)

lemma single_blanks_plain: "list_all (\<lambda>c. \<not> js_space c) s \<Longrightarrow> single_blanks s"
  by (induction s) auto

lemma neat_plain: "s \<noteq> [] \<Longrightarrow> list_all (\<lambda>c. \<not> js_space c) s \<Longrightarrow> neat s"
  by (simp add: neat_def single_blanks_plain list_all_iff)

lemma neat_append: "neat a \<Longrightarrow> neat b \<Longrightarrow> neat (a @ b)"
  by (simp add: neat_def single_blanks_append)

lemma neat_between: "neat a \<Longrightarrow> neat b \<Longrightarrow> neat (a @ CHR '' '' # b)"
  by (simp add: neat_def single_blanks_append)

lemma trim_neat: "neat s \<Longrightarrow> trim s = s"
  by (simp add: neat_def trim_own)

lemma normalize_neat: "neat s \<Longrightarrow> normalize_text s = s"
  by (simp add: normalize_text_def squeeze_own neat_def trim_own)

lemma trim_blank: "trim (CHR '' '' # s) = trim s"
  by (simp add: trim_def)

lemma normalize_blank_neat: "neat s \<Longrightarrow> normalize_text (CHR '' '' # s) = s"
  using squeeze_own [of "CHR '' '' # s"] by (simp add: normalize_text_def neat_def trim_blank trim_own)

lemma neat_name: "js_name n \<Longrightarrow> neat n"
  using name_char_plain by (auto intro!: neat_plain simp: js_name_def list_all_iff)

lemma neat_join:
  assumes "\<And>a b. neat a \<Longrightarrow> neat b \<Longrightarrow> neat (a @ sep @ b)"
  shows "xs \<noteq> [] \<Longrightarrow> \<forall>x \<in> set xs. neat x \<Longrightarrow> neat (join sep xs)"
  by (induction xs rule: induct_list012) (simp_all add: assms)

lemma neat_comma: "neat a \<Longrightarrow> neat b \<Longrightarrow> neat (a @ '', '' @ b)"
  using neat_between [OF neat_append [of a "'',''"], of b] by (simp add: neat_def js_space_def char_in_def)

lemma neat_bar: "neat a \<Longrightarrow> neat b \<Longrightarrow> neat (a @ '' | '' @ b)"
  using neat_between [OF neat_between [of a "''|''"], of b] by (simp add: neat_def js_space_def char_in_def)

lemma neat_bracket: "neat ''<''" "neat ''>''" "neat ''[]''" "neat ''...''" "neat ''?:''" "neat '':''" "neat ''(''" "neat ''):''"
    "neat ''export function''"
  by code_simp+

lemma neat_term: "well_term t \<Longrightarrow> neat (term_text t)"
proof (induction t)
  case (Named n)
  then show ?case by (simp add: neat_name)
next
  case (ArrayOf t)
  then show ?case using neat_append [OF _ neat_bracket(3)] by simp
next
  case (Applied n ts)
  have "neat (join '', '' (map term_text ts))"
    by (rule neat_join [OF neat_comma]) (use Applied in \<open>auto simp: list_all_iff\<close>)
  from neat_append [OF neat_append [OF neat_name neat_append [OF neat_bracket(1) this]] neat_bracket(2), of n] Applied.prems
  show ?case by simp
qed

lemma neat_type: "well_type ts \<Longrightarrow> neat (type_text ts)"
  unfolding type_text_def
  by (rule neat_join [OF neat_bar]) (auto simp: well_type_def list_all_iff intro: neat_term)

lemma neat_parameter:
  assumes "well_parameter p"
  shows "neat (parameter_text p)"
proof -
  have "neat (dl_name p @ (if dl_kind p = Omittable then ''?:'' else '':'') @ CHR '' '' # type_text (dl_type p))"
    using assms neat_between [OF neat_append [OF neat_name, of "dl_name p" "if dl_kind p = Omittable then ''?:'' else '':''"]
        neat_type, of "dl_type p"] neat_bracket by (simp add: well_parameter_def)
  then show ?thesis using neat_append [OF neat_bracket(4)] by (auto simp: parameter_text_def split: if_splits)
qed

lemma neat_declaration:
  assumes "well_declared d"
  shows "neat (declaration_text d)"
proof -
  let ?ps = "join '', '' (map parameter_text (df_parameters d))"
  have "neat (?ps @ ''):'')"
  proof (cases "df_parameters d = []")
    case False
    have "neat ?ps"
      by (rule neat_join [OF neat_comma]) (use assms False in \<open>auto simp: well_declared_def list_all_iff intro: neat_parameter\<close>)
    then show ?thesis by (rule neat_append [OF _ neat_bracket(8)])
  qed (simp add: neat_bracket)
  from neat_between [OF neat_bracket(9) neat_between [OF neat_append [OF neat_name neat_append [OF neat_bracket(7) this]]
      neat_type, of "df_name d" "df_returnType d"]] assms
  show ?thesis by (simp add: declaration_text_def well_declared_def)
qed

section \<open>Parsing a declaration gives what it says\<close>

definition nonnegative :: "depths \<Rightarrow> bool" where
  "nonnegative d \<longleftrightarrow> 0 \<le> dp_angle d \<and> 0 \<le> dp_bracket d \<and> 0 \<le> dp_brace d"

lemma split_from_chars:
  "list_all (\<lambda>c. step_depths c d = d \<and> (c = CHR '','' \<longrightarrow> d \<noteq> level_depths)) s \<Longrightarrow> nonnegative d
   \<Longrightarrow> split_from d current (s @ rest) = split_from d (current @ s) rest"
  by (induction s arbitrary: current) (auto simp: nonnegative_def Let_def)

lemma step_depths_name: "name_char c \<Longrightarrow> step_depths c d = d \<and> c \<noteq> CHR '',''"
  using name_char_plain [of c] by (auto simp: step_depths_def)

lemma split_from_name:
  "js_name n \<Longrightarrow> nonnegative d \<Longrightarrow> split_from d current (n @ rest) = split_from d (current @ n) rest"
  using step_depths_name by (intro split_from_chars) (auto simp: js_name_def list_all_iff)

lemma split_from_join:
  assumes "\<And>current rest x. x \<in> set xs \<Longrightarrow> split_from d current (x @ rest) = split_from d (current @ x) rest"
    and "nonnegative d" and "d \<noteq> level_depths"
  shows "split_from d current (join '', '' xs @ rest) = split_from d (current @ join '', '' xs) rest"
  using assms(1)
proof (induction xs arbitrary: current rule: induct_list012)
  case (3 x y ys)
  have "split_from d current (join '', '' (x # y # ys) @ rest)
      = split_from d (current @ x) ('', '' @ join '', '' (y # ys) @ rest)"
    using 3(3) [of x current "'', '' @ join '', '' (y # ys) @ rest"] by simp
  also have "\<dots> = split_from d ((current @ x) @ '', '') (join '', '' (y # ys) @ rest)"
    by (rule split_from_chars) (use assms in \<open>simp_all add: step_depths_def\<close>)
  also have "\<dots> = split_from d ((current @ x @ '', '') @ join '', '' (y # ys)) rest" using 3(2,3) by simp
  finally show ?case by simp
qed simp_all

lemma split_from_term:
  "well_term t \<Longrightarrow> nonnegative d \<Longrightarrow> split_from d current (term_text t @ rest) = split_from d (current @ term_text t) rest"
proof (induction t arbitrary: d current rest)
  case (Named n)
  then show ?case by (simp add: split_from_name)
next
  case (ArrayOf t)
  have "split_from d c (''[]'' @ rest) = split_from d (c @ ''[]'') rest" for c
    using ArrayOf.prems(2) by (simp add: nonnegative_def step_depths_def)
  with ArrayOf show ?case by simp
next
  case (Applied n ts)
  let ?d = "d\<lparr>dp_angle := dp_angle d + 1\<rparr>" and ?ts = "join '', '' (map term_text ts)"
  have d: "nonnegative ?d" "?d \<noteq> level_depths"
    using Applied.prems(2) by (cases d; auto simp: nonnegative_def)+
  have inner: "split_from ?d c (?ts @ r) = split_from ?d (c @ ?ts) r" for c r
    by (rule split_from_join [OF _ d]) (use Applied d in \<open>auto simp: list_all_iff\<close>)
  have "split_from d current (term_text (Applied n ts) @ rest) = split_from d (current @ n) (''<'' @ ?ts @ ''>'' @ rest)"
    using Applied.prems split_from_name [of n d current "''<'' @ ?ts @ ''>'' @ rest"] by simp
  also have "\<dots> = split_from ?d (current @ n @ ''<'') (?ts @ ''>'' @ rest)"
    using d(1) by (simp add: step_depths_def nonnegative_def)
  also have "\<dots> = split_from ?d (current @ n @ ''<'' @ ?ts) (''>'' @ rest)" by (simp add: inner)
  also have "\<dots> = split_from d (current @ term_text (Applied n ts)) rest"
    using Applied.prems(2) by (simp add: step_depths_def nonnegative_def)
  finally show ?case .
qed

lemma nonnegative_level: "nonnegative level_depths"
  by (simp add: nonnegative_def)

lemma split_from_type:
  "list_all well_term ts \<Longrightarrow>
   split_from level_depths current (type_text ts @ rest) = split_from level_depths (current @ type_text ts) rest"
  unfolding type_text_def
proof (induction ts arbitrary: current rule: induct_list012)
  case (3 t u us)
  have bar: "split_from level_depths c ('' | '' @ r) = split_from level_depths (c @ '' | '') r" for c r
    by (rule split_from_chars [OF _ nonnegative_level]) (simp add: step_depths_def)
  show ?case
    using 3(3) split_from_term [OF _ nonnegative_level, of t current "'' | '' @ join '' | '' (map term_text (u # us)) @ rest"]
      bar [of "current @ term_text t" "join '' | '' (map term_text (u # us)) @ rest"]
      3(2) [of "(current @ term_text t) @ '' | ''"] by simp
qed (simp_all add: split_from_term nonnegative_level)

lemma split_from_parameter:
  assumes "well_parameter p"
  shows "split_from level_depths current (parameter_text p @ rest) = split_from level_depths (current @ parameter_text p) rest"
proof -
  have marks: "split_from level_depths c (s @ r) = split_from level_depths (c @ s) r"
    if "s \<in> {''...'', ''?'', '': '', []}" for c s r
    by (rule split_from_chars [OF _ nonnegative_level]) (use that in \<open>auto simp: step_depths_def\<close>)
  show ?thesis
    using assms marks [of "if dl_kind p = Gathering then ''...'' else []"] marks [of "if dl_kind p = Omittable then ''?'' else []"]
      marks [of "'': ''"] split_from_name [OF _ nonnegative_level] split_from_type
    unfolding parameter_text_def by (simp add: well_parameter_def well_type_def del: append_Cons split_from.simps)
qed

lemma split_parameters:
  assumes "ps \<noteq> []" and "list_all well_parameter ps" and "lead \<in> {[], '' ''}"
  shows "\<exists>parts. split_from level_depths lead (join '', '' (map parameter_text ps)) = Some parts
    \<and> map trim parts = map parameter_text ps"
  using assms
proof (induction ps arbitrary: lead rule: induct_list012)
  case (2 p)
  have "trim (lead @ parameter_text p) = parameter_text p" "parameter_text p \<noteq> []"
    using 2 trim_neat [OF neat_parameter] neat_parameter [of p] by (auto simp: trim_blank neat_def)
  moreover have "trim (parameter_text p) = parameter_text p" using 2 trim_neat [OF neat_parameter] by simp
  ultimately show ?case using 2 split_from_parameter [of p lead "[]"] by simp
next
  case (3 p q ps)
  let ?rest = "join '', '' (map parameter_text (q # ps))"
  have "split_from level_depths lead (join '', '' (map parameter_text (p # q # ps)))
      = split_from level_depths (lead @ parameter_text p) ('', '' @ ?rest)"
    using 3(4) split_from_parameter [of p lead "'', '' @ ?rest"] by simp
  also have "\<dots> = map_option (\<lambda>parts. (lead @ parameter_text p) # parts) (split_from level_depths '' '' ?rest)"
    by (simp add: step_depths_def)
  finally have split: "split_from level_depths lead (join '', '' (map parameter_text (p # q # ps)))
      = map_option (\<lambda>parts. (lead @ parameter_text p) # parts) (split_from level_depths '' '' ?rest)" .
  have "trim (lead @ parameter_text p) = parameter_text p"
    using 3(4,5) trim_neat [OF neat_parameter, of p] by (auto simp: trim_blank)
  with 3(2) [of "'' ''"] 3(4) split show ?case by auto
qed simp

lemma index_of_absent:
  assumes "c \<notin> set s"
  shows "index_of [c] s = None"
proof -
  have "\<not> prefix [c] (drop k s)" for k using assms in_set_dropD [of c k s] by (auto simp: prefix_def)
  then show ?thesis by (simp add: index_of_def find_None_iff)
qed

lemma index_of_behind:
  assumes "c \<notin> set a"
  shows "index_of [c] (a @ c # b) = Some (length a)"
proof -
  have "\<not> prefix [c] (drop k (a @ c # b))" if "k < length a" for k
    using assms that nth_mem [OF that] by (auto simp: prefix_def Cons_nth_drop_Suc [symmetric])
  then show ?thesis
    unfolding index_of_def find_Some_iff
    by (intro exI [of _ "length a"]) (simp del: upt_Suc)
qed

lemma trim_idem: "trim (trim s) = trim s"
proof (cases "trim s = []")
  case False
  let ?s = "dropWhile js_space s"
  have "dropWhile js_space (rev ?s) \<noteq> []" using False by (simp add: trim_def)
  then have "\<not> js_space (last (trim s))" using hd_dropWhile [of js_space "rev ?s"] by (simp add: trim_def last_rev)
  moreover have "trim s @ rev (takeWhile js_space (rev ?s)) = ?s"
    by (simp add: trim_def rev_append [symmetric] del: rev_append)
  then have "hd ?s = hd (trim s)" "?s \<noteq> []" using False by (metis hd_append2, metis Nil_is_append_conv)
  then have "\<not> js_space (hd (trim s))" using hd_dropWhile [of js_space s] by simp
  ultimately show ?thesis by (simp add: trim_own)
next
  case True
  then show ?thesis by (simp only: True) (simp add: trim_def)
qed

lemma parseParameter_trim: "parseParameter (trim s) = parseParameter s"
  by (simp add: parseParameter_def trim_idem)

lemma parse_parameter_text:
  assumes "well_parameter p"
  shows "parseParameter (parameter_text p) = Some (parsed_parameter p)"
proof -
  let ?mark = "if dl_kind p = Omittable then ''?'' else []" and ?type = "type_text (dl_type p)"
  let ?declared = "dl_name p @ ?mark @ '': '' @ ?type"
  have name: "js_name (dl_name p)" and type: "well_type (dl_type p)" using assms by (simp_all add: well_parameter_def)
  note plain = name_char_plain [OF js_name_chars [OF name]] and typed = type_char_plain [OF type_text_chars [OF type]]
  have first: "dl_name p \<noteq> []" "hd (dl_name p) \<noteq> CHR ''.''" "last (dl_name p) \<noteq> CHR ''?''"
    using name plain [of "hd (dl_name p)"] plain [of "last (dl_name p)"] by (auto simp: js_name_def)
  have neat_name_mark: "neat (dl_name p @ ?mark)" "neat (dl_name p)"
    using neat_append [OF neat_name [OF name], of "''?''"] neat_name [OF name]
    by (auto simp: neat_def js_space_def char_in_def)
  have neat: "neat ?declared"
    using neat_between [OF neat_append [OF neat_name_mark(1) neat_bracket(6)] neat_type [OF type]] by simp
  have no_eq: "index_of ''='' ?declared = None"
    by (rule index_of_absent) (use plain typed in \<open>auto split: if_splits\<close>)
  have colon: "index_of '':'' ?declared = Some (length (dl_name p @ ?mark))"
    using index_of_behind [of "CHR '':''" "dl_name p @ ?mark" "CHR '' '' # ?type"] plain [of "CHR '':''"]
    by (cases "dl_kind p = Omittable") auto
  have rest: "prefix ''...'' (parameter_text p) \<longleftrightarrow> dl_kind p = Gathering"
    using first by (cases "dl_name p") (auto simp: parameter_text_def)
  have own: "trim (parameter_text p) = parameter_text p" "parameter_text p \<noteq> []"
    using neat_parameter [OF assms] trim_neat by (auto simp: neat_def)
  have parameter: "(if dl_kind p = Gathering then trim (drop 3 (parameter_text p)) else parameter_text p) = ?declared"
    using trim_neat [OF neat] by (cases "dl_kind p") (simp_all add: parameter_text_def)
  have raw: "trim (take (length (dl_name p @ ?mark)) ?declared) = dl_name p @ ?mark"
    using trim_neat [OF neat_name_mark(1)] by simp
  have ty: "normalize_text (drop (Suc (length (dl_name p @ ?mark))) ?declared) = ?type"
    using normalize_blank_neat [OF neat_type [OF type]] by simp
  have question: "suffix ''?'' (dl_name p @ ?mark) \<longleftrightarrow> dl_kind p = Omittable"
    using first by (auto simp: suffix_def)
  have bare: "trim (if dl_kind p = Omittable then butlast (dl_name p @ ?mark) else dl_name p @ ?mark) = dl_name p"
    using trim_neat [OF neat_name_mark(2)] by simp
  have "?type \<noteq> []" using neat_type [OF type] by (auto simp: neat_def)
  then show ?thesis
    unfolding parseParameter_def Let_def own(1) rest parameter no_eq option.case trim_neat [OF neat] colon raw ty question bare
    using own(2) first(1) name by (simp add: parsed_parameter_def)
qed

lemma parse_parameters_texts:
  assumes "map trim parts = map parameter_text ps" and "list_all well_parameter ps"
    and "\<not> list_ex fp_rest taken" and "list_all (\<lambda>p. dl_kind p \<noteq> Gathering) (butlast ps)"
  shows "parse_parameters taken parts = Some (taken @ map parsed_parameter ps)"
  using assms
proof (induction ps arbitrary: parts taken)
  case (Cons p ps)
  then obtain s rest where parts: "parts = s # rest" "trim s = parameter_text p" "map trim rest = map parameter_text ps"
    by (cases parts) auto
  then have "parseParameter s = Some (parsed_parameter p)"
    using parse_parameter_text [of p] Cons.prems(2) parseParameter_trim [of s] by simp
  then show ?case
  proof (cases "ps = []")
    case True
    then show ?thesis using parts Cons.prems \<open>parseParameter s = _\<close> by simp
  next
    case False
    have "\<not> list_ex fp_rest (taken @ [parsed_parameter p])" "list_all (\<lambda>p. dl_kind p \<noteq> Gathering) (butlast ps)"
      using Cons.prems(3,4) False by (simp_all add: parsed_parameter_def)
    from Cons.IH [OF parts(3) _ this] Cons.prems show ?thesis using parts(1) \<open>parseParameter s = _\<close> by simp
  qed
qed simp

lemma return_part_text: "neat s \<Longrightarrow> return_part ('': '' @ s) = Some s"
  by (cases s) (auto simp: return_part_def neat_def js_space_def char_in_def)

lemma last_close_none: "CHR '')'' \<notin> set s \<Longrightarrow> last_close s = None"
  by (induction s) auto

lemma last_close_behind: "last_close r = Some (ps, result) \<Longrightarrow> last_close (s @ r) = Some (s @ ps, result)"
  by (induction s) auto

lemma parse_declaration:
  assumes "well_declared d"
  shows "parseFunction (declaration_text d) = Some (parsed_function d)"
proof -
  let ?ps = "join '', '' (map parameter_text (df_parameters d))" and ?ret = "type_text (df_returnType d)"
  have name: "js_name (df_name d)" and ret: "well_type (df_returnType d)" using assms by (simp_all add: well_declared_def)
  have "last_close ('': '' @ ?ret) = None"
    by (rule last_close_none) (use type_char_plain [OF type_text_chars [OF ret]] in auto)
  then have "last_close (?ps @ ''): '' @ ?ret) = Some (?ps @ [], ?ret)"
    using return_part_text [OF neat_type [OF ret]] by (intro last_close_behind) simp
  moreover have "takeWhile name_char (df_name d @ CHR ''('' # s) = df_name d"
      "dropWhile name_char (df_name d @ CHR ''('' # s) = CHR ''('' # s" for s
    using name no_name_chars by (simp_all add: js_name_def takeWhile_append dropWhile_append list_all_iff)
  moreover have "dropWhile js_space (df_name d @ s) = df_name d @ s" for s
    using neat_name [OF name] by (cases "df_name d") (auto simp: neat_def)
  ultimately have "match_function (declaration_text d) = Some (df_name d, ?ps, ?ret)"
    using name by (simp add: match_function_def declaration_text_def after_word_def after_spaces_def js_space_def char_in_def)
  moreover have "Option.bind (splitParameters ?ps) (parse_parameters []) = Some (map parsed_parameter (df_parameters d))"
  proof (cases "df_parameters d = []")
    case False
    from split_parameters [OF this, of "[]"] assms
    obtain parts where "splitParameters ?ps = Some parts" "map trim parts = map parameter_text (df_parameters d)"
      by (auto simp: splitParameters_def well_declared_def)
    with parse_parameters_texts [of parts "df_parameters d" "[]"] assms show ?thesis by (simp add: well_declared_def)
  qed (simp add: splitParameters_def trim_def)
  moreover have "normalize_text ?ret = ?ret" "?ret \<noteq> []" using neat_type [OF ret] normalize_neat by (auto simp: neat_def)
  ultimately show ?thesis
    using normalize_neat [OF neat_declaration [OF assms]] by (simp add: parseFunction_def parsed_function_def)
qed

section \<open>What compatibility promises\<close>

text \<open>
  The calls a parameter list accepts, by the types of the arguments: a gathering parameter takes any number
  of arguments of its type, an omittable one may be missing when nothing follows it.
\<close>

fun accepts :: "declared_parameter list \<Rightarrow> string list \<Rightarrow> bool" where
  "accepts [] args \<longleftrightarrow> args = []"
| "accepts (p # ps) args \<longleftrightarrow>
     (if dl_kind p = Gathering then list_all (\<lambda>a. a = type_text (dl_type p)) args
      else case args of
          [] \<Rightarrow> dl_kind p = Omittable \<and> accepts ps []
        | a # rest \<Rightarrow> a = type_text (dl_type p) \<and> accepts ps rest)"

lemma accepts_Nil: "list_all (\<lambda>p. dl_kind p \<noteq> Required) ps \<Longrightarrow> accepts ps []"
  by (induction ps) (auto intro: parameter_kind.exhaust)

lemma accepts_wider:
  "length before \<le> length after
   \<Longrightarrow> list_all (\<lambda>pair. \<not> parameter_breaks pair) (zip (map parsed_parameter before) (map parsed_parameter after))
   \<Longrightarrow> list_all (\<lambda>p. dl_kind p \<noteq> Required) (drop (length before) after)
   \<Longrightarrow> accepts before args \<Longrightarrow> accepts after args"
proof (induction before arbitrary: after args)
  case Nil
  then show ?case by (simp add: accepts_Nil)
next
  case (Cons p ps)
  from Cons.prems(1) obtain q qs where after: "after = q # qs" by (cases after) auto
  have pq: "type_text (dl_type q) = type_text (dl_type p)" "dl_kind q = Gathering \<longleftrightarrow> dl_kind p = Gathering"
    "dl_kind p = Omittable \<Longrightarrow> dl_kind q = Omittable"
    using Cons.prems(2) by (auto simp: after parameter_breaks_def parsed_parameter_def)
  have tail: "accepts ps rest \<Longrightarrow> accepts qs rest" for rest
    using Cons.IH [of qs rest] Cons.prems(1-3) by (simp add: after)
  show ?case
    using Cons.prems(4) pq tail by (cases args) (auto simp: after split: if_splits)
qed


definition demo_path_parameter :: declared_parameter where
  "demo_path_parameter = \<lparr>dl_name = ''path'', dl_type = [Named ''string'', ArrayOf (Named ''string'')], dl_kind = Required\<rparr>"

definition demo_depth_parameter :: declared_parameter where
  "demo_depth_parameter = \<lparr>dl_name = ''depth'', dl_type = [Named ''number''], dl_kind = Omittable\<rparr>"

definition demo_more_parameter :: declared_parameter where
  "demo_more_parameter = \<lparr>dl_name = ''more'', dl_type = [Applied ''Map'' [Named ''string'', Named ''T'']], dl_kind = Gathering\<rparr>"

definition demo_previous :: declared_function where
  "demo_previous = \<lparr>df_name = ''load'', df_parameters = [demo_path_parameter, demo_depth_parameter],
     df_returnType = [Named ''Tree'']\<rparr>"

definition demo_current :: declared_function where
  "demo_current = demo_previous\<lparr>df_parameters := [demo_path_parameter, demo_depth_parameter, demo_more_parameter]\<rparr>"

definition demo_after :: string where
  "demo_after = ''export  function load(path: string | string[], depth?: number, ...more: Map<string,  T>): Tree ''"


text \<open>
  Outside these declarations the promise fails: a parameter counts as having a default value as soon as its text holds
  an equals sign, and its type is cut there.  A new required parameter of a literal type such as \<open>"="\<close> is
  taken for one with a default, and a literal type may change behind its equals sign.
\<close>

lemma literal_type_taken_for_default:
  "classifyContractCompatibility ''export function f(a: string): T'' ''export function f(a: string, op: \"=\"): T'' = Compatible"
  "classifyContractCompatibility ''export function f(op: \"=\"): T'' ''export function f(op: \"==\"): T'' = Compatible"
  by code_simp+

end
