(* ===== verification/Detectors.thy ===== *)
theory Detectors
  imports Validation
begin

text \<open>
  The conflict detectors of \<open>packages/core\<close>: \<open>types.ts\<close>, \<open>same-symbol-overlap.ts\<close>,
  \<open>stale-read-before-write.ts\<close>, \<open>exported-contract-invalidation.ts\<close>, \<open>stable-identities.ts\<close>,
  \<open>detector-runner.ts\<close>, \<open>report-only-policy.ts\<close>, \<open>durable-records.ts\<close>,
  \<open>report-only-orchestrator.ts\<close>, \<open>decision-responses.ts\<close> and \<open>detector-quality.ts\<close>.

  \<open>lc\<close> is \<open>String.prototype.localeCompare\<close> and \<open>sha\<close> the hexadecimal SHA-256, as in \<open>Validation\<close>.  A
  confidence or a measure is a rational.  An optional field is an \<open>option\<close>; an \<open>undefined\<close> and a
  \<open>null\<close> never meet in the same comparison.
\<close>

section \<open>Findings\<close>

record detector_evidence =
  te_subjectResourceId :: string
  te_affectedTaskId :: "string option"
  te_dependencyIds :: "string list"
  te_evidenceEventIds :: "string list"
  te_coverageIds :: "string list"

record detector_finding =
  tf_findingType :: finding_type
  tf_evidence :: detector_evidence
  tf_confidence :: rat
  tf_reason :: string

definition version_str :: "string option \<Rightarrow> string" where
  "version_str v = (case v of None \<Rightarrow> ''null'' | Some s \<Rightarrow> s)"

section \<open>Same-symbol overlap\<close>

record symbol_change =
  sc_eventId :: string
  sc_resourceId :: string
  sc_version :: resource_version
  sc_agentId :: "string option"
  sc_taskId :: "string option"
  sc_worktreeId :: string
  sc_coverageId :: string
  sc_concurrencyCoverageId :: "string option"
  sc_targetSnapshot :: "target_snapshot option"
  sc_concurrencyEventId :: "string option"

definition hasComparableIdentity :: "symbol_change \<Rightarrow> bool" where
  "hasComparableIdentity e \<longleftrightarrow> sc_agentId e \<noteq> None \<and> sc_taskId e \<noteq> None \<and> rv_value (sc_version e) \<noteq> None"

definition hasSameRepository :: "resource_version \<Rightarrow> resource_version \<Rightarrow> bool" where
  "hasSameRepository left right \<longleftrightarrow> vd_repositoryId (rv_domain left) = vd_repositoryId (rv_domain right)
     \<and> rv_resourceId left = rv_resourceId right"

definition overlap_finding ::
    "(string \<Rightarrow> string \<Rightarrow> int) \<Rightarrow> symbol_change \<Rightarrow> symbol_change \<Rightarrow> string \<Rightarrow> string \<Rightarrow> detector_finding" where
  "overlap_finding lc observed candidate witness witness_coverage =
     \<lparr>tf_findingType = Same_symbol_overlap,
      tf_evidence = \<lparr>te_subjectResourceId = sc_resourceId candidate, te_affectedTaskId = sc_taskId candidate,
        te_dependencyIds = [],
        te_evidenceEventIds = js_sort lc [sc_eventId observed, sc_eventId candidate, witness],
        te_coverageIds = js_sort lc (js_uniq [sc_coverageId observed, sc_coverageId candidate, witness_coverage])\<rparr>,
      tf_confidence = 9 / 10,
      tf_reason = ''Independent tasks changed '' @ sc_resourceId candidate @ '' at ''
        @ version_str (rv_value (sc_version observed)) @ '' and '' @ version_str (rv_value (sc_version candidate)) @ ''.''\<rparr>"

definition detectSameSymbolOverlap ::
    "(string \<Rightarrow> string \<Rightarrow> int) \<Rightarrow> symbol_change \<Rightarrow> symbol_change \<Rightarrow> detector_finding option" where
  "detectSameSymbolOverlap lc observed candidate =
     (if \<not> hasComparableIdentity observed \<or> \<not> hasComparableIdentity candidate then None
      else case (sc_targetSnapshot observed, sc_targetSnapshot candidate) of
          (Some left, Some right) \<Rightarrow>
            (case (sc_concurrencyEventId observed, sc_concurrencyCoverageId observed) of
               (Some witness, Some witness_coverage) \<Rightarrow>
                 if sc_resourceId observed \<noteq> sc_resourceId candidate
                    \<or> sc_taskId observed = sc_taskId candidate
                    \<or> sc_worktreeId observed = sc_worktreeId candidate
                    \<or> ts_targetSnapshotId left \<noteq> ts_targetSnapshotId right
                    \<or> ts_digest left \<noteq> ts_digest right
                    \<or> sc_concurrencyEventId candidate \<noteq> Some witness
                    \<or> sc_concurrencyCoverageId candidate \<noteq> Some witness_coverage
                    \<or> \<not> hasSameRepository (sc_version observed) (sc_version candidate)
                    \<or> rv_kind (sc_version observed) \<noteq> rv_kind (sc_version candidate)
                    \<or> rv_value (sc_version observed) = rv_value (sc_version candidate)
                 then None
                 else Some (overlap_finding lc observed candidate witness witness_coverage)
             | _ \<Rightarrow> None)
        | _ \<Rightarrow> None)"

section \<open>Stale read before write\<close>

record resource_read =
  rr_eventId :: string
  rr_taskId :: string
  rr_resourceId :: string
  rr_version :: resource_version
  rr_coverageId :: string
  rr_targetSnapshot :: target_snapshot

record dependent_write =
  dw_eventId :: string
  dw_dependencyId :: string
  dw_taskId :: string
  dw_resourceId :: string
  dw_dependsOnReadEventId :: string
  dw_coverageId :: string
  dw_comparisonChangedEventId :: "string option"
  dw_comparisonCoverageId :: "string option"
  dw_targetSnapshot :: target_snapshot
  dw_readTokenDigest :: string
  dw_writeEffectEventId :: string
  dw_writeEffectCoverageId :: string
  dw_completionEventId :: string

record current_version =
  cv_version :: resource_version
  cv_eventId :: "string option"

definition hasSameRepositoryWorkspace :: "resource_version \<Rightarrow> resource_version \<Rightarrow> bool" where
  "hasSameRepositoryWorkspace left right \<longleftrightarrow>
     vd_repositoryId (rv_domain left) = vd_repositoryId (rv_domain right)
     \<and> vd_workspaceId (rv_domain left) = vd_workspaceId (rv_domain right)"

definition detectStaleReadBeforeWrite ::
    "(string \<Rightarrow> string \<Rightarrow> int) \<Rightarrow> resource_read \<Rightarrow> current_version \<Rightarrow> dependent_write \<Rightarrow> detector_finding option" where
  "detectStaleReadBeforeWrite lc read current write =
     (case dw_comparisonCoverageId write of
        None \<Rightarrow> None
      | Some comparison_coverage \<Rightarrow>
          if rv_value (rr_version read) = None
             \<or> rv_value (cv_version current) = None
             \<or> rr_resourceId read \<noteq> rv_resourceId (cv_version current)
             \<or> rr_taskId read \<noteq> dw_taskId write
             \<or> dw_dependsOnReadEventId write \<noteq> rr_eventId read
             \<or> dw_comparisonChangedEventId write \<noteq> cv_eventId current
             \<or> ts_targetSnapshotId (rr_targetSnapshot read) \<noteq> ts_targetSnapshotId (dw_targetSnapshot write)
             \<or> ts_digest (rr_targetSnapshot read) \<noteq> ts_digest (dw_targetSnapshot write)
             \<or> \<not> hasSameRepositoryWorkspace (rr_version read) (cv_version current)
             \<or> rv_kind (rr_version read) \<noteq> rv_kind (cv_version current)
             \<or> rv_value (rr_version read) = rv_value (cv_version current)
          then None
          else Some \<lparr>tf_findingType = Stale_read_before_write,
            tf_evidence = \<lparr>te_subjectResourceId = rr_resourceId read, te_affectedTaskId = Some (dw_taskId write),
              te_dependencyIds = [dw_dependencyId write],
              te_evidenceEventIds =
                js_sort lc ([rr_eventId read, dw_eventId write] @ rv_evidenceEventIds (cv_version current)),
              te_coverageIds = js_sort lc (js_uniq [rr_coverageId read, dw_coverageId write, comparison_coverage,
                dw_writeEffectCoverageId write])\<rparr>,
            tf_confidence = 95 / 100,
            tf_reason = ''Write '' @ dw_eventId write @ '' depends on '' @ rr_eventId read @ '', which observed ''
              @ version_str (rv_value (rr_version read)) @ '' before '' @ version_str (rv_value (cv_version current)) @ ''.''\<rparr>)"

section \<open>Exported contract invalidation\<close>

record contract_change =
  xc_eventId :: string
  xc_contractResourceId :: string
  xc_beforeVersion :: resource_version
  xc_afterVersion :: resource_version
  xc_breaking :: bool
  xc_coverageId :: string
  xc_targetSnapshot :: target_snapshot

record contract_consumer =
  xd_eventId :: string
  xd_dependencyId :: string
  xd_contractResourceId :: string
  xd_consumerResourceId :: string
  xd_affectedTaskId :: "string option"
  xd_observedContractVersion :: resource_version
  xd_coverageId :: string
  xd_targetSnapshot :: target_snapshot

definition groupConsumersByContract ::
    "(string \<Rightarrow> string \<Rightarrow> int) \<Rightarrow> contract_consumer list \<Rightarrow> (string, contract_consumer list) js_map" where
  "groupConsumersByContract lc consumers =
     map (\<lambda>(resource, entries). (resource, js_sort (\<lambda>l r. lc (xd_eventId l) (xd_eventId r)) entries))
       (fold (\<lambda>consumer grouped. map_set (xd_contractResourceId consumer)
            ((case map_get grouped (xd_contractResourceId consumer) of None \<Rightarrow> [] | Some es \<Rightarrow> es) @ [consumer]) grouped)
         consumers [])"

definition matchesVersion :: "resource_version \<Rightarrow> resource_version \<Rightarrow> bool" where
  "matchesVersion left right \<longleftrightarrow> rv_resourceId left = rv_resourceId right
     \<and> vd_repositoryId (rv_domain left) = vd_repositoryId (rv_domain right)
     \<and> vd_workspaceId (rv_domain left) = vd_workspaceId (rv_domain right)
     \<and> rv_kind left = rv_kind right \<and> rv_value left \<noteq> None \<and> rv_value left = rv_value right"

definition detectExportedContractInvalidation ::
    "(string \<Rightarrow> string \<Rightarrow> int) \<Rightarrow> contract_change \<Rightarrow> contract_consumer \<Rightarrow> detector_finding option" where
  "detectExportedContractInvalidation lc change consumer =
     (if \<not> xc_breaking change
         \<or> xc_contractResourceId change \<noteq> xd_contractResourceId consumer
         \<or> ts_targetSnapshotId (xc_targetSnapshot change) \<noteq> ts_targetSnapshotId (xd_targetSnapshot consumer)
         \<or> ts_digest (xc_targetSnapshot change) \<noteq> ts_digest (xd_targetSnapshot consumer)
         \<or> rv_value (xc_beforeVersion change) = None
         \<or> matchesVersion (xc_beforeVersion change) (xc_afterVersion change)
         \<or> \<not> matchesVersion (xc_beforeVersion change) (xd_observedContractVersion consumer)
      then None
      else Some \<lparr>tf_findingType = Exported_contract_invalidation,
        tf_evidence = \<lparr>te_subjectResourceId = xc_contractResourceId change,
          te_affectedTaskId = xd_affectedTaskId consumer, te_dependencyIds = [xd_dependencyId consumer],
          te_evidenceEventIds =
            js_sort lc ([xc_eventId change, xd_eventId consumer] @ rv_evidenceEventIds (xc_afterVersion change)),
          te_coverageIds = js_sort lc [xc_coverageId change, xd_coverageId consumer]\<rparr>,
        tf_confidence = 95 / 100,
        tf_reason = ''Breaking contract change '' @ xc_eventId change @ '' invalidates '' @ xd_consumerResourceId consumer
          @ [CHR 0x27] @ ''s observed version '' @ version_str (rv_value (xc_beforeVersion change)) @ ''.''\<rparr>)"

section \<open>Report-only policy\<close>

record policy_result =
  po_findingType :: finding_type
  po_targetTaskId :: "string option"
  po_action :: coordination_action
  po_directive :: gateway_directive

definition evaluateReportOnlyPolicy :: "detector_finding \<Rightarrow> bool \<Rightarrow> policy_result" where
  "evaluateReportOnlyPolicy f affectedTaskCompleted =
     (let ty = tf_findingType f; target = te_affectedTaskId (tf_evidence f)
      in if tf_confidence f < 1 / 2
         then \<lparr>po_findingType = ty, po_targetTaskId = target, po_action = CA_record, po_directive = GD_allow\<rparr>
         else if affectedTaskCompleted \<and> (ty = Stale_read_before_write \<or> ty = Exported_contract_invalidation)
         then \<lparr>po_findingType = ty, po_targetTaskId = target, po_action = CA_request_revalidation,
               po_directive = GD_allow_with_notice\<rparr>
         else \<lparr>po_findingType = ty, po_targetTaskId = target,
               po_action = (if ty = Stale_read_before_write then CA_request_recheck else CA_notify),
               po_directive = GD_allow_with_notice\<rparr>)"

section \<open>Stable identities\<close>

definition detector_evidence_json :: "detector_evidence \<Rightarrow> jsval" where
  "detector_evidence_json e = JObj [(''subjectResourceId'', JStr (te_subjectResourceId e)),
     (''affectedTaskId'', j_null_str (te_affectedTaskId e)), (''dependencyIds'', j_strs (te_dependencyIds e)),
     (''evidenceEventIds'', j_strs (te_evidenceEventIds e)), (''coverageIds'', j_strs (te_coverageIds e))]"

definition findingIdFor :: "(string \<Rightarrow> string) \<Rightarrow> detector_finding \<Rightarrow> string" where
  "findingIdFor sha f = ''finding_'' @ take 32 (sha (json_stringify (JObj
     [(''type'', JStr (finding_type_str (tf_findingType f))), (''evidence'', detector_evidence_json (tf_evidence f))])))"

definition decisionIdFor ::
    "(string \<Rightarrow> string) \<Rightarrow> string \<Rightarrow> coordination_action \<Rightarrow> gateway_directive \<Rightarrow> string option \<Rightarrow> string" where
  "decisionIdFor sha findingId action directive task = ''decision_'' @ take 32 (sha (json_stringify (JObj
     [(''findingId'', JStr findingId), (''action'', JStr (coordination_action_str action)),
      (''directive'', JStr (gateway_directive_str directive)), (''taskId'', j_null_str task)])))"

section \<open>Running the detectors\<close>

definition stableFindings ::
    "(string \<Rightarrow> string) \<Rightarrow> (string \<Rightarrow> string \<Rightarrow> int) \<Rightarrow> detector_finding list \<Rightarrow> detector_finding list" where
  "stableFindings sha lc candidates =
     map snd (js_sort (\<lambda>l r. lc (fst l) (fst r))
       (fold (\<lambda>f findings. map_set (findingIdFor sha f) f findings) candidates []))"

fun pairwise :: "('a \<Rightarrow> 'a \<Rightarrow> 'b option) \<Rightarrow> 'a list \<Rightarrow> 'b list" where
  "pairwise f [] = []"
| "pairwise f (x # xs) = List.map_filter (f x) xs @ pairwise f xs"

definition runSameSymbolDetector ::
    "(string \<Rightarrow> string) \<Rightarrow> (string \<Rightarrow> string \<Rightarrow> int) \<Rightarrow> symbol_change list \<Rightarrow> detector_finding list" where
  "runSameSymbolDetector sha lc evidence =
     stableFindings sha lc (pairwise (detectSameSymbolOverlap lc)
       (js_sort (\<lambda>l r. lc (sc_eventId l) (sc_eventId r)) evidence))"

definition stale_candidates ::
    "(string \<Rightarrow> string \<Rightarrow> int) \<Rightarrow> resource_read list \<Rightarrow> current_version list \<Rightarrow> dependent_write \<Rightarrow> detector_finding list" where
  "stale_candidates lc reads currentVersions write =
     (case List.find (\<lambda>read. rr_eventId read = dw_dependsOnReadEventId write) reads of
        None \<Rightarrow> []
      | Some read \<Rightarrow> List.map_filter (\<lambda>current. detectStaleReadBeforeWrite lc read current write)
          (filter (\<lambda>current. rv_resourceId (cv_version current) = rr_resourceId read) currentVersions))"

definition runStaleReadBeforeWriteDetector ::
    "(string \<Rightarrow> string) \<Rightarrow> (string \<Rightarrow> string \<Rightarrow> int) \<Rightarrow> resource_read list \<Rightarrow> current_version list
     \<Rightarrow> dependent_write list \<Rightarrow> detector_finding list" where
  "runStaleReadBeforeWriteDetector sha lc reads currentVersions writes =
     stableFindings sha lc (concat (map (stale_candidates lc reads currentVersions)
       (js_sort (\<lambda>l r. lc (dw_eventId l) (dw_eventId r)) writes)))"

definition runExportedContractInvalidationDetector ::
    "(string \<Rightarrow> string) \<Rightarrow> (string \<Rightarrow> string \<Rightarrow> int) \<Rightarrow> contract_change list \<Rightarrow> contract_consumer list
     \<Rightarrow> detector_finding list" where
  "runExportedContractInvalidationDetector sha lc changes consumers =
     stableFindings sha lc (concat (map (\<lambda>change.
         List.map_filter (detectExportedContractInvalidation lc change)
           (js_sort (\<lambda>l r. lc (xd_eventId l) (xd_eventId r)) consumers))
       (js_sort (\<lambda>l r. lc (xc_eventId l) (xc_eventId r)) changes)))"

section \<open>Stable findings\<close>

text \<open>\<open>lc\<close> is only required to tell apart the identifiers at hand.\<close>

definition tells_apart :: "(string \<Rightarrow> string \<Rightarrow> int) \<Rightarrow> string set \<Rightarrow> bool" where
  "tells_apart lc ids \<longleftrightarrow> (\<forall>x \<in> ids. \<forall>y \<in> ids. lc x y = 0 \<longrightarrow> x = y)"

lemma sort_by_key:
  assumes "comparator lc" and "tells_apart lc (key ` set xs)" and "inj_on key (set xs)" and "mset xs = mset ys"
  shows "js_sort (\<lambda>l r. lc (key l) (key r)) xs = js_sort (\<lambda>l r. lc (key l) (key r)) ys"
proof (rule comparator.sort_unique [OF comparator_key [OF assms(1)] assms(4)])
  fix x y
  assume xy: "x \<in> set xs" "y \<in> set xs" "lc (key x) (key y) \<le> 0" "lc (key y) (key x) \<le> 0"
  then have "lc (key x) (key y) = 0" using comparator.flip [OF assms(1), of "key x" "key y"] by linarith
  with xy(1,2) assms(2,3) show "x = y" by (auto simp: tells_apart_def inj_on_def)
qed

lemma map_set_members:
  assumes "distinct (map_keys m)" and "(k, f) \<in> set (map_set i g m)"
  shows "k = i \<and> f = g \<or> (k, f) \<in> set m"
proof -
  have "map_get (map_set i g m) k = Some f"
    using assms(2) distinct_map_set [OF assms(1)] by (simp add: map_of_eq_Some_iff)
  then show ?thesis using assms(1) by (simp add: js_simps map_of_eq_Some_iff split: if_splits)
qed

lemma fold_map_set:
  assumes "distinct (map_keys m)" and "\<forall>(k, f) \<in> set m. k = key f"
  shows "distinct (map_keys (fold (\<lambda>f m. map_set (key f) f m) fs m))
    \<and> set (map_keys (fold (\<lambda>f m. map_set (key f) f m) fs m)) = set (map_keys m) \<union> key ` set fs
    \<and> (\<forall>(k, f) \<in> set (fold (\<lambda>f m. map_set (key f) f m) fs m). k = key f)
    \<and> snd ` set (fold (\<lambda>f m. map_set (key f) f m) fs m) \<subseteq> snd ` set m \<union> set fs"
  using assms
proof (induction fs arbitrary: m)
  case (Cons g gs)
  let ?m = "map_set (key g) g m"
  have own: "\<forall>(k, f) \<in> set ?m. k = key f"
    using Cons.prems(2) map_set_members [OF Cons.prems(1), of _ _ "key g" g] by blast
  have elems: "snd ` set ?m \<subseteq> insert g (snd ` set m)"
    using map_set_members [OF Cons.prems(1), of _ _ "key g" g] by force
  have keys: "set (map_keys ?m) = insert (key g) (set (map_keys m))"
    by (simp only: update_keys) auto
  note IH = Cons.IH [OF distinct_map_set [OF Cons.prems(1)] own]
  have "snd ` set ?m \<union> set gs \<subseteq> snd ` set m \<union> set (g # gs)" using elems by auto
  with IH have "snd ` set (fold (\<lambda>f m. map_set (key f) f m) gs ?m) \<subseteq> snd ` set m \<union> set (g # gs)" by blast
  with IH keys show ?case by (simp add: ac_simps)
qed simp

lemma stable_findings_facts:
  assumes "comparator lc"
  shows "findingIdFor sha ` set (stableFindings sha lc fs) = findingIdFor sha ` set fs"
    and "set (stableFindings sha lc fs) \<subseteq> set fs"
    and "distinct (map (findingIdFor sha) (stableFindings sha lc fs))"
    and "sorted_wrt (\<lambda>f g. lc (findingIdFor sha f) (findingIdFor sha g) \<le> 0) (stableFindings sha lc fs)"
proof -
  let ?m = "fold (\<lambda>f findings. map_set (findingIdFor sha f) f findings) fs []"
  let ?sorted = "js_sort (\<lambda>l r. lc (fst l) (fst r)) ?m"
  have facts: "distinct (map_keys ?m)" "set (map_keys ?m) = findingIdFor sha ` set fs"
    "\<And>k f. (k, f) \<in> set ?m \<Longrightarrow> k = findingIdFor sha f \<and> f \<in> set fs"
    using fold_map_set [of "[]" "findingIdFor sha" fs] by auto
  have ids: "map (findingIdFor sha) (map snd ?sorted) = map fst ?sorted"
    using facts(3) by (auto simp: comp_def)
  show "distinct (map (findingIdFor sha) (stableFindings sha lc fs))"
    unfolding stableFindings_def ids using facts(1) by (simp add: distinct_map)
  have "findingIdFor sha ` set (stableFindings sha lc fs) = set (map fst ?sorted)"
    unfolding stableFindings_def set_map [symmetric] ids ..
  then show "findingIdFor sha ` set (stableFindings sha lc fs) = findingIdFor sha ` set fs"
    using facts(2) by simp
  show "set (stableFindings sha lc fs) \<subseteq> set fs"
    using facts(3) by (auto simp: stableFindings_def)
  have "sorted_wrt (\<lambda>x y. lc x y \<le> 0) (map fst ?sorted)"
    using comparator.sorted_sort [OF comparator_key [OF assms]] by (simp add: sorted_wrt_map)
  then show "sorted_wrt (\<lambda>f g. lc (findingIdFor sha f) (findingIdFor sha g) \<le> 0) (stableFindings sha lc fs)"
    unfolding ids [symmetric] by (simp add: stableFindings_def sorted_wrt_map)
qed

lemma set_pairwise:
  "sorted_wrt P xs \<Longrightarrow> (\<And>x y. P x y \<Longrightarrow> \<not> P y x)
   \<Longrightarrow> set (pairwise f xs) = {z. \<exists>x \<in> set xs. \<exists>y \<in> set xs. P x y \<and> f x y = Some z}"
proof (induction xs)
  case (Cons x xs)
  have "set (pairwise f (x # xs)) = {z. \<exists>y \<in> set xs. f x y = Some z} \<union> set (pairwise f xs)"
    by (auto simp: map_filter_def image_iff) force
  then show ?case using Cons by fastforce
qed simp

lemma sorted_by_id:
  assumes "comparator lc" and "distinct (map key xs)" and "tells_apart lc (key ` set xs)"
  shows "sorted_wrt (\<lambda>x y. lc (key x) (key y) < 0) (js_sort (\<lambda>l r. lc (key l) (key r)) xs)"
proof -
  let ?ys = "js_sort (\<lambda>l r. lc (key l) (key r)) xs"
  have "mset (map key ?ys) = mset (map key xs)" by simp
  then have "distinct (map key ?ys)" using assms(2) by (metis mset_eq_imp_distinct_iff)
  moreover have "sorted_wrt (\<lambda>x y. lc (key x) (key y) \<le> 0) ?ys"
    by (rule comparator.sorted_sort [OF comparator_key [OF assms(1)]])
  ultimately have "sorted_wrt (\<lambda>x y. lc (key x) (key y) \<le> 0 \<and> key x \<noteq> key y) ?ys"
    by (simp add: sorted_wrt_iff_nth_less distinct_conv_nth)
  moreover have "set ?ys = set xs" by simp
  ultimately show ?thesis
    using assms(3) by (elim sorted_wrt_mono_rel [rotated]) (fastforce simp: tells_apart_def)
qed

text \<open>
  C27: The same-symbol detector reports, once each and in identifier order, exactly the findings of the pairs of
  evidence in event order that \<open>detectSameSymbolOverlap\<close> accepts, and the report does not depend on the order
  in which the evidence arrives.  The evidence has pairwise different event ids, which the collation tells apart.
\<close>

theorem same_symbol_report:
  assumes "comparator lc" and "distinct (map sc_eventId evidence)" and "tells_apart lc (sc_eventId ` set evidence)"
    and "mset evidence' = mset evidence" and "report = runSameSymbolDetector sha lc evidence"
  shows "findingIdFor sha ` set report = findingIdFor sha `
      {f. \<exists>x \<in> set evidence. \<exists>y \<in> set evidence. lc (sc_eventId x) (sc_eventId y) < 0
         \<and> detectSameSymbolOverlap lc x y = Some f}
    \<and> set report \<subseteq> {f. \<exists>x \<in> set evidence. \<exists>y \<in> set evidence. lc (sc_eventId x) (sc_eventId y) < 0
         \<and> detectSameSymbolOverlap lc x y = Some f}
    \<and> distinct (map (findingIdFor sha) report)
    \<and> sorted_wrt (\<lambda>f g. lc (findingIdFor sha f) (findingIdFor sha g) \<le> 0) report
    \<and> runSameSymbolDetector sha lc evidence' = report"
proof -
  let ?ordered = "js_sort (\<lambda>l r. lc (sc_eventId l) (sc_eventId r)) evidence"
  have pairs: "set (pairwise (detectSameSymbolOverlap lc) ?ordered) =
      {f. \<exists>x \<in> set evidence. \<exists>y \<in> set evidence. lc (sc_eventId x) (sc_eventId y) < 0
         \<and> detectSameSymbolOverlap lc x y = Some f}"
    by (subst set_pairwise [OF sorted_by_id [OF assms(1-3)]]) 
      (use comparator.flip [OF assms(1)] in \<open>simp_all add: not_less less_imp_le\<close>)
  have "?ordered = js_sort (\<lambda>l r. lc (sc_eventId l) (sc_eventId r)) evidence'"
    using assms(2,4) by (intro sort_by_key [OF assms(1,3)]) (simp_all add: distinct_map)
  then have same: "runSameSymbolDetector sha lc evidence' = report"
    by (simp add: assms(5) runSameSymbolDetector_def)
  note facts = stable_findings_facts [OF assms(1), of sha "pairwise (detectSameSymbolOverlap lc) ?ordered",
      folded runSameSymbolDetector_def assms(5), unfolded pairs]
  show ?thesis by (intro conjI facts same)
qed

text \<open>Two agents change one symbol on two worktrees of one repository.\<close>

definition demo_target :: target_snapshot where
  "demo_target = \<lparr>ts_targetSnapshotId = ''snapshot_h'', ts_integrationTargetId = ''main'',
     ts_repositoryId = ''repo'', ts_kind = TK_branch, ts_locator = ''main'', ts_baseCommit = ''c0'',
     ts_candidateIds = [], ts_digest = ''h''\<rparr>"

definition demo_symbol :: "string \<Rightarrow> symbol_change" where
  "demo_symbol x = \<lparr>sc_eventId = ''evt_'' @ x, sc_resourceId = ''sym'',
     sc_version = \<lparr>rv_resourceId = ''sym'', rv_domain = \<lparr>vd_repositoryId = ''repo'', vd_workspaceId = ''ws'',
       vd_worktreeId = ''wt'' @ x\<rparr>, rv_kind = VK_content_hash, rv_value = Some (''v'' @ x), rv_evidenceEventIds = []\<rparr>,
     sc_agentId = Some (''a'' @ x), sc_taskId = Some (''t'' @ x), sc_worktreeId = ''wt'' @ x, sc_coverageId = ''cov'',
     sc_concurrencyCoverageId = Some ''cov'', sc_targetSnapshot = Some demo_target,
     sc_concurrencyEventId = Some ''evt_o''\<rparr>"

lemma demo_overlap:
  "detectSameSymbolOverlap compareStrings (demo_symbol ''1'') (demo_symbol ''2'')
     = Some (overlap_finding compareStrings (demo_symbol ''1'') (demo_symbol ''2'') ''evt_o'' ''cov'')"
  by (simp add: detectSameSymbolOverlap_def demo_symbol_def hasComparableIdentity_def hasSameRepository_def)

theorem same_symbol_report_witness:
  "(\<exists>f \<in> set (runSameSymbolDetector id compareStrings [demo_symbol ''2'', demo_symbol ''1'']).
      te_affectedTaskId (tf_evidence f) = Some ''t2'')
   \<and> runSameSymbolDetector id compareStrings [demo_symbol ''1'', demo_symbol ''2'']
     = runSameSymbolDetector id compareStrings [demo_symbol ''2'', demo_symbol ''1'']"
proof -
  let ?ev = "[demo_symbol ''2'', demo_symbol ''1'']" and ?run = "runSameSymbolDetector id compareStrings"
  let ?f = "overlap_finding compareStrings (demo_symbol ''1'') (demo_symbol ''2'') ''evt_o'' ''cov''"
  have apart: "tells_apart compareStrings S" for S
    using cu.zero_iff by (simp add: tells_apart_def)
  have ids: "distinct (map sc_eventId ?ev)" by (simp add: demo_symbol_def)
  have below: "compareStrings (sc_eventId (demo_symbol ''1'')) (sc_eventId (demo_symbol ''2'')) < 0"
    by (simp add: demo_symbol_def compareStrings_less)
  have pairs: "{f. \<exists>x \<in> set ?ev. \<exists>y \<in> set ?ev. compareStrings (sc_eventId x) (sc_eventId y) < 0
      \<and> detectSameSymbolOverlap compareStrings x y = Some f} = {?f}"
    using below cu.flip [of "sc_eventId (demo_symbol ''1'')" "sc_eventId (demo_symbol ''2'')"]
    by (auto simp: demo_overlap cu.refl)
  have order: "mset [demo_symbol ''1'', demo_symbol ''2''] = mset ?ev" by simp
  note facts = same_symbol_report [OF cu.comparator_axioms ids apart order refl, of id, unfolded pairs]
  then have "set (?run ?ev) = {?f}" by auto
  then have "?f \<in> set (?run ?ev)" by simp
  moreover have "te_affectedTaskId (tf_evidence ?f) = Some ''t2''"
    by (simp add: overlap_finding_def demo_symbol_def)
  ultimately show ?thesis using facts by blast
qed

end
