(* ===== verification/Durable_Records.thy ===== *)
theory Durable_Records
  imports Detectors
begin

text \<open>
  From findings to durable events: \<open>core/src/durable-records.ts\<close>, \<open>report-only-orchestrator.ts\<close>,
  \<open>decision-responses.ts\<close> and the quality measures of \<open>detector-quality.ts\<close>.  A thrown \<open>Error\<close> is its
  message.  Thresholds may be the non-finite numbers of JavaScript, so they are \<open>jsval\<close>s.
\<close>

section \<open>Durable records\<close>

record durable_context =
  du_findingId :: string
  du_decisionId :: string
  du_findingEventId :: string
  du_decisionEventId :: string
  du_repositoryId :: string
  du_workspaceId :: string
  du_worktreeId :: string
  du_correlationId :: string
  du_source :: source
  du_timestamp :: string
  du_sourceSequenceStart :: "nat option"
  du_detector :: detector_ref
  du_policy :: policy_ref

definition confidenceBand :: "rat \<Rightarrow> confidence_band" where
  "confidenceBand c = (if c < 1 / 2 then Band_low else if c < 8 / 10 then Band_medium else Band_high)"

definition severity_of :: "rat \<Rightarrow> severity" where
  "severity_of c = (if c < 1 / 2 then Sev_info else if c < 9 / 10 then Sev_warning else Sev_critical)"

definition causalParent :: "detector_finding \<Rightarrow> string + string" where
  "causalParent f = (case te_evidenceEventIds (tf_evidence f) of
     [] \<Rightarrow> Inl ''durable finding creation requires causal evidence'' | first # rest \<Rightarrow> Inr first)"

definition finding_event :: "detector_finding \<Rightarrow> durable_context \<Rightarrow> string \<Rightarrow> event" where
  "finding_event f context parent =
     \<lparr>eventId = du_findingEventId context, source = du_source context, timestamp = du_timestamp context,
      repositoryId = du_repositoryId context, workspaceId = du_workspaceId context, worktreeId = du_worktreeId context,
      agentId = None, taskId = te_affectedTaskId (tf_evidence f), correlationId = du_correlationId context,
      causationId = Some parent, sourceSequence = du_sourceSequenceStart context,
      payload = FindingCreated \<lparr>fi_findingId = du_findingId context, fi_findingType = tf_findingType f,
        fi_status = FS_open, fi_subjectResourceId = te_subjectResourceId (tf_evidence f),
        fi_affectedTaskId = te_affectedTaskId (tf_evidence f), fi_dependencyIds = te_dependencyIds (tf_evidence f),
        fi_evidenceEventIds = te_evidenceEventIds (tf_evidence f), fi_confidence = tf_confidence f,
        fi_confidenceBand = confidenceBand (tf_confidence f), fi_severity = severity_of (tf_confidence f),
        fi_coverageIds = te_coverageIds (tf_evidence f), fi_detector = du_detector context\<rparr>\<rparr>"

definition decision_event :: "detector_finding \<Rightarrow> policy_result \<Rightarrow> durable_context \<Rightarrow> event \<Rightarrow> event" where
  "decision_event f policy context findingEvent = findingEvent
     \<lparr>eventId := du_decisionEventId context, causationId := Some (eventId findingEvent),
      sourceSequence := map_option Suc (du_sourceSequenceStart context),
      payload := DecisionCreated \<lparr>dc_decisionId = du_decisionId context, dc_findingId = du_findingId context,
        dc_target = \<lparr>dt_agentId = None, dt_taskId = te_affectedTaskId (tf_evidence f)\<rparr>,
        dc_coordinationAction = po_action policy, dc_gatewayDirective = po_directive policy, dc_reason = tf_reason f,
        dc_evidenceEventIds = te_evidenceEventIds (tf_evidence f), dc_confidence = tf_confidence f,
        dc_confidenceBand = confidenceBand (tf_confidence f), dc_policy = du_policy context,
        dc_expectedResponse = ER_affected, dc_coverageIds = te_coverageIds (tf_evidence f),
        dc_state = DE_active, dc_deliveries = []\<rparr>\<rparr>"

definition createDurableReportOnlyRecords ::
    "detector_finding \<Rightarrow> bool \<Rightarrow> durable_context \<Rightarrow> string + event \<times> event" where
  "createDurableReportOnlyRecords f affectedTaskCompleted context =
     raise_bind (causalParent f) (\<lambda>parent.
       let findingEvent = finding_event f context parent
       in Inr (findingEvent,
            decision_event f (evaluateReportOnlyPolicy f affectedTaskCompleted) context findingEvent))"

section \<open>The orchestrator\<close>

record orchestration_context =
  oc_eventIds :: "(string \<times> string) list"
  oc_repositoryId :: string
  oc_workspaceId :: string
  oc_worktreeId :: string
  oc_correlationId :: string
  oc_source :: source
  oc_timestamp :: string
  oc_sourceSequenceStart :: "nat option"
  oc_detector :: detector_ref
  oc_policy :: policy_ref
  oc_affectedTaskCompleted :: "detector_finding \<Rightarrow> bool"

definition orchestrated_context ::
    "(string \<Rightarrow> string) \<Rightarrow> orchestration_context \<Rightarrow> nat \<Rightarrow> detector_finding \<Rightarrow> string \<Rightarrow> string \<times> string \<Rightarrow> durable_context" where
  "orchestrated_context sha context index f findingId ids =
     (let policy = evaluateReportOnlyPolicy f (oc_affectedTaskCompleted context f)
      in \<lparr>du_findingId = findingId,
          du_decisionId = decisionIdFor sha findingId (po_action policy) (po_directive policy)
            (te_affectedTaskId (tf_evidence f)),
          du_findingEventId = fst ids, du_decisionEventId = snd ids, du_repositoryId = oc_repositoryId context,
          du_workspaceId = oc_workspaceId context, du_worktreeId = oc_worktreeId context,
          du_correlationId = oc_correlationId context, du_source = oc_source context,
          du_timestamp = oc_timestamp context,
          du_sourceSequenceStart = map_option (\<lambda>start. start + index * 2) (oc_sourceSequenceStart context),
          du_detector = oc_detector context, du_policy = oc_policy context\<rparr>)"

definition createReportOnlyOrchestrationRecords ::
    "(string \<Rightarrow> string) \<Rightarrow> (string \<Rightarrow> string \<Rightarrow> int) \<Rightarrow> detector_finding list \<Rightarrow> orchestration_context
     \<Rightarrow> string + (event \<times> event) list" where
  "createReportOnlyOrchestrationRecords sha lc findings context =
     (let ordered = js_sort (\<lambda>l r. lc (snd l) (snd r)) (map (\<lambda>f. (f, findingIdFor sha f)) findings)
      in if length ordered \<noteq> length (oc_eventIds context)
         then Inl ''one durable event pair is required for every finding''
         else map_raise (\<lambda>(index, (f, findingId), ids).
                createDurableReportOnlyRecords f (oc_affectedTaskCompleted context f)
                  (orchestrated_context sha context index f findingId ids))
              (enumerate 0 (zip ordered (oc_eventIds context))))"

section \<open>Responses\<close>

record response_context =
  re_eventId :: string
  re_repositoryId :: string
  re_workspaceId :: string
  re_worktreeId :: string
  re_correlationId :: string
  re_causationId :: string
  re_source :: source
  re_timestamp :: string
  re_sourceSequence :: "nat option"

definition response_event :: "response_context \<Rightarrow> string option \<Rightarrow> string option \<Rightarrow> payload \<Rightarrow> event" where
  "response_event context agent task body =
     \<lparr>eventId = re_eventId context, source = re_source context, timestamp = re_timestamp context,
      repositoryId = re_repositoryId context, workspaceId = re_workspaceId context, worktreeId = re_worktreeId context,
      agentId = agent, taskId = task, correlationId = re_correlationId context,
      causationId = Some (re_causationId context), sourceSequence = re_sourceSequence context, payload = body\<rparr>"

definition createDecisionDeliveryChangedEvent :: "decision_delivery_changed \<Rightarrow> response_context \<Rightarrow> event" where
  "createDecisionDeliveryChangedEvent input context =
     response_event context (dt_agentId (dd_target (dl_delivery input))) (dt_taskId (dd_target (dl_delivery input)))
       (DecisionDeliveryChanged input)"

definition createFindingFeedbackCreatedEvent :: "finding_feedback \<Rightarrow> response_context \<Rightarrow> event" where
  "createFindingFeedbackCreatedEvent input context =
     response_event context (dt_agentId (ff_actor input)) (dt_taskId (ff_actor input)) (FindingFeedbackCreated input)"

section \<open>Detector quality\<close>

record corpus_case =
  kc_caseId :: string
  kc_findingType :: finding_type
  kc_expectedFinding :: bool
  kc_actualFinding :: "detector_finding option"

record quality_thresholds =
  qt_minimumPrecision :: jsval
  qt_minimumRecall :: jsval
  qt_maximumBrierScore :: jsval
  qt_maximumFalsePositiveRate :: jsval

record quality_metrics =
  qm_findingType :: finding_type
  qm_truePositive :: nat
  qm_falsePositive :: nat
  qm_trueNegative :: nat
  qm_falseNegative :: nat
  qm_precision :: rat
  qm_recall :: rat
  qm_brierScore :: rat
  qm_falsePositiveRate :: rat

datatype quality_measure = Minimum_precision | Minimum_recall | Maximum_brier_score | Maximum_false_positive_rate

record quality_gate =
  qg_metrics :: quality_metrics
  qg_thresholds :: quality_thresholds
  qg_accepted :: bool
  qg_failedMeasures :: "quality_measure list"

definition ratio :: "rat \<Rightarrow> rat \<Rightarrow> rat \<Rightarrow> rat" where
  "ratio numerator denominator emptyValue = (if denominator = 0 then emptyValue else numerator / denominator)"

definition validThreshold :: "jsval \<Rightarrow> bool" where
  "validThreshold v = (case v of JNum r \<Rightarrow> 0 \<le> r \<and> r \<le> 1 | _ \<Rightarrow> False)"

record quality_counts =
  qc_truePositive :: nat
  qc_falsePositive :: nat
  qc_trueNegative :: nat
  qc_falseNegative :: nat
  qc_brierTotal :: rat

definition count_case :: "corpus_case \<Rightarrow> quality_counts \<Rightarrow> quality_counts" where
  "count_case c counts =
     (let predicted = kc_actualFinding c \<noteq> None; actual = kc_expectedFinding c;
          confidence = (case kc_actualFinding c of None \<Rightarrow> 0 | Some f \<Rightarrow> tf_confidence f);
          counts' = (if predicted \<and> actual then counts\<lparr>qc_truePositive := Suc (qc_truePositive counts)\<rparr>
                     else if predicted then counts\<lparr>qc_falsePositive := Suc (qc_falsePositive counts)\<rparr>
                     else if actual then counts\<lparr>qc_falseNegative := Suc (qc_falseNegative counts)\<rparr>
                     else counts\<lparr>qc_trueNegative := Suc (qc_trueNegative counts)\<rparr>)
      in counts'\<lparr>qc_brierTotal := qc_brierTotal counts + (confidence - (if actual then 1 else 0)) ^ 2\<rparr>)"

definition count_cases :: "finding_type \<Rightarrow> corpus_case list \<Rightarrow> quality_counts" where
  "count_cases ty corpus = fold (\<lambda>c counts. if kc_findingType c \<noteq> ty then counts else count_case c counts) corpus
     \<lparr>qc_truePositive = 0, qc_falsePositive = 0, qc_trueNegative = 0, qc_falseNegative = 0, qc_brierTotal = 0\<rparr>"

definition measureDetectorQuality :: "finding_type \<Rightarrow> corpus_case list \<Rightarrow> quality_metrics" where
  "measureDetectorQuality ty corpus =
     (let c = count_cases ty corpus;
          tp = of_nat (qc_truePositive c); fp = of_nat (qc_falsePositive c);
          tn = of_nat (qc_trueNegative c); fn = of_nat (qc_falseNegative c)
      in \<lparr>qm_findingType = ty, qm_truePositive = qc_truePositive c, qm_falsePositive = qc_falsePositive c,
          qm_trueNegative = qc_trueNegative c, qm_falseNegative = qc_falseNegative c,
          qm_precision = ratio tp (tp + fp) 1, qm_recall = ratio tp (tp + fn) 1,
          qm_brierScore = ratio (qc_brierTotal c) (tp + fp + tn + fn) 0,
          qm_falsePositiveRate = ratio fp (fp + tn) 0\<rparr>)"

definition threshold_value :: "jsval \<Rightarrow> rat" where
  "threshold_value v = (case v of JNum r \<Rightarrow> r | _ \<Rightarrow> 0)"

definition failed_measures :: "quality_metrics \<Rightarrow> quality_thresholds \<Rightarrow> quality_measure list" where
  "failed_measures m t =
     (if qm_precision m < threshold_value (qt_minimumPrecision t) then [Minimum_precision] else [])
     @ (if qm_recall m < threshold_value (qt_minimumRecall t) then [Minimum_recall] else [])
     @ (if threshold_value (qt_maximumBrierScore t) < qm_brierScore m then [Maximum_brier_score] else [])
     @ (if threshold_value (qt_maximumFalsePositiveRate t) < qm_falsePositiveRate m then [Maximum_false_positive_rate] else [])"

definition evaluateDetectorQualityGate :: "quality_metrics \<Rightarrow> quality_thresholds \<Rightarrow> string + quality_gate" where
  "evaluateDetectorQualityGate m t =
     (if \<not> list_all validThreshold [qt_minimumPrecision t, qt_minimumRecall t, qt_maximumBrierScore t,
            qt_maximumFalsePositiveRate t]
      then Inl ''detector quality thresholds must be finite values between zero and one''
      else Inr \<lparr>qg_metrics = m, qg_thresholds = t, qg_accepted = (failed_measures m t = []),
        qg_failedMeasures = failed_measures m t\<rparr>)"

section \<open>The measures of a corpus\<close>

text \<open>Counting a corpus is filtering it: the accumulated state after a corpus, case by case.\<close>

definition cases_of :: "finding_type \<Rightarrow> bool \<Rightarrow> bool \<Rightarrow> corpus_case list \<Rightarrow> nat" where
  "cases_of ty predicted expected corpus = length (filter (\<lambda>c. kc_findingType c = ty
     \<and> (kc_actualFinding c \<noteq> None) = predicted \<and> kc_expectedFinding c = expected) corpus)"

definition case_confidence :: "corpus_case \<Rightarrow> rat" where
  "case_confidence c = (case kc_actualFinding c of None \<Rightarrow> 0 | Some f \<Rightarrow> tf_confidence f)"

definition brier_term :: "corpus_case \<Rightarrow> rat" where
  "brier_term c = (case_confidence c - (if kc_expectedFinding c then 1 else 0)) ^ 2"

lemma fold_counts:
  "qc_truePositive (fold (\<lambda>c counts. if kc_findingType c \<noteq> ty then counts else count_case c counts) corpus s)
     = qc_truePositive s + cases_of ty True True corpus"
  "qc_falsePositive (fold (\<lambda>c counts. if kc_findingType c \<noteq> ty then counts else count_case c counts) corpus s)
     = qc_falsePositive s + cases_of ty True False corpus"
  "qc_trueNegative (fold (\<lambda>c counts. if kc_findingType c \<noteq> ty then counts else count_case c counts) corpus s)
     = qc_trueNegative s + cases_of ty False False corpus"
  "qc_falseNegative (fold (\<lambda>c counts. if kc_findingType c \<noteq> ty then counts else count_case c counts) corpus s)
     = qc_falseNegative s + cases_of ty False True corpus"
  "qc_brierTotal (fold (\<lambda>c counts. if kc_findingType c \<noteq> ty then counts else count_case c counts) corpus s)
     = qc_brierTotal s + sum_list (map brier_term (filter (\<lambda>c. kc_findingType c = ty) corpus))"
  by (induction corpus arbitrary: s)
    (auto simp: count_case_def cases_of_def brier_term_def case_confidence_def Let_def)

lemma count_cases_simps:
  "qc_truePositive (count_cases ty corpus) = cases_of ty True True corpus"
  "qc_falsePositive (count_cases ty corpus) = cases_of ty True False corpus"
  "qc_trueNegative (count_cases ty corpus) = cases_of ty False False corpus"
  "qc_falseNegative (count_cases ty corpus) = cases_of ty False True corpus"
  "qc_brierTotal (count_cases ty corpus)
     = sum_list (map brier_term (filter (\<lambda>c. kc_findingType c = ty) corpus))"
  by (simp_all add: count_cases_def fold_counts)

lemma cases_partition:
  "cases_of ty True True corpus + cases_of ty True False corpus + cases_of ty False False corpus
     + cases_of ty False True corpus = length (filter (\<lambda>c. kc_findingType c = ty) corpus)"
  by (induction corpus) (auto simp: cases_of_def)

lemma ratio_unit: "0 \<le> a \<Longrightarrow> a \<le> b \<Longrightarrow> 0 \<le> d \<Longrightarrow> d \<le> 1 \<Longrightarrow> 0 \<le> ratio a b d \<and> ratio a b d \<le> 1"
  by (auto simp: ratio_def divide_simps)

lemma brier_unit:
  assumes "0 \<le> case_confidence c" and "case_confidence c \<le> 1"
  shows "0 \<le> brier_term c \<and> brier_term c \<le> 1"
proof -
  have "(x - 1) ^ 2 \<le> 1 \<and> x ^ 2 \<le> 1" if "0 \<le> x" "x \<le> 1" for x :: rat
    using that power_le_one [of x 2] power_le_one [of "1 - x" 2] by (simp add: power2_commute)
  with assms show ?thesis by (simp add: brier_term_def)
qed

lemma sum_list_unit:
  "(\<And>x. x \<in> set xs \<Longrightarrow> 0 \<le> f x \<and> f x \<le> 1) \<Longrightarrow> 0 \<le> sum_list (map f xs) \<and> sum_list (map f xs) \<le> (of_nat (length xs) :: rat)"
  by (induction xs) (fastforce intro: add_mono)+

text \<open>
  Measuring a detector: the four counts are the numbers of corpus cases of the detector's type with each
  combination of prediction and expectation, together they are all its cases, and, when confidences lie between
  zero and one, precision, recall, Brier score and false positive rate do too (an empty denominator included).
\<close>

theorem quality_measures:
  assumes "\<And>c f. c \<in> set corpus \<Longrightarrow> kc_actualFinding c = Some f \<Longrightarrow> 0 \<le> tf_confidence f \<and> tf_confidence f \<le> 1"
    and "m = measureDetectorQuality ty corpus"
  shows "qm_truePositive m = cases_of ty True True corpus \<and> qm_falsePositive m = cases_of ty True False corpus
    \<and> qm_trueNegative m = cases_of ty False False corpus \<and> qm_falseNegative m = cases_of ty False True corpus
    \<and> qm_truePositive m + qm_falsePositive m + qm_trueNegative m + qm_falseNegative m
        = length (filter (\<lambda>c. kc_findingType c = ty) corpus)
    \<and> {qm_precision m, qm_recall m, qm_brierScore m, qm_falsePositiveRate m} \<subseteq> {0..1}"
proof -
  let ?own = "filter (\<lambda>c. kc_findingType c = ty) corpus"
  have "0 \<le> brier_term c \<and> brier_term c \<le> 1" if "c \<in> set ?own" for c
    using that assms(1) [of c] by (intro brier_unit) (auto simp: case_confidence_def split: option.splits)
  then have "0 \<le> sum_list (map brier_term ?own) \<and> sum_list (map brier_term ?own) \<le> of_nat (length ?own)"
    by (rule sum_list_unit)
  moreover have total: "(of_nat (length ?own) :: rat) = of_nat (cases_of ty True True corpus)
      + of_nat (cases_of ty True False corpus) + of_nat (cases_of ty False False corpus) + of_nat (cases_of ty False True corpus)"
    by (simp flip: cases_partition)
  ultimately have "{qm_precision m, qm_recall m, qm_brierScore m, qm_falsePositiveRate m} \<subseteq> {0..1}"
    by (simp add: assms(2) measureDetectorQuality_def Let_def count_cases_simps) (intro conjI ratio_unit [THEN conjunct1] ratio_unit [THEN conjunct2]; simp)
  then show ?thesis
    using cases_partition [of ty corpus] by (simp add: assms(2) measureDetectorQuality_def Let_def count_cases_simps)
qed

definition demo_finding :: "rat \<Rightarrow> string \<Rightarrow> string list \<Rightarrow> detector_finding" where
  "demo_finding confidence resource evidence = \<lparr>tf_findingType = Same_symbol_overlap,
     tf_evidence = \<lparr>te_subjectResourceId = resource, te_affectedTaskId = Some ''t1'', te_dependencyIds = [],
       te_evidenceEventIds = evidence, te_coverageIds = []\<rparr>, tf_confidence = confidence, tf_reason = ''r''\<rparr>"

definition demo_corpus :: "corpus_case list" where
  "demo_corpus =
     [\<lparr>kc_caseId = ''k1'', kc_findingType = Same_symbol_overlap, kc_expectedFinding = True,
        kc_actualFinding = Some (demo_finding (9 / 10) ''s'' [])\<rparr>,
      \<lparr>kc_caseId = ''k2'', kc_findingType = Same_symbol_overlap, kc_expectedFinding = False,
        kc_actualFinding = Some (demo_finding (1 / 2) ''s'' [])\<rparr>,
      \<lparr>kc_caseId = ''k3'', kc_findingType = Same_symbol_overlap, kc_expectedFinding = True, kc_actualFinding = None\<rparr>]"

theorem quality_measures_witness:
  "cases_of Same_symbol_overlap True True demo_corpus = 1
   \<and> qm_precision (measureDetectorQuality Same_symbol_overlap demo_corpus) = 1 / 2
   \<and> qm_truePositive (measureDetectorQuality Same_symbol_overlap demo_corpus)
     = cases_of Same_symbol_overlap True True demo_corpus"
proof (intro conjI)
  show "qm_truePositive (measureDetectorQuality Same_symbol_overlap demo_corpus)
      = cases_of Same_symbol_overlap True True demo_corpus"
    by (rule conjunct1 [OF quality_measures [OF _ refl]]) (auto simp: demo_corpus_def demo_finding_def)
qed (simp_all add: measureDetectorQuality_def Let_def count_cases_simps cases_of_def demo_corpus_def demo_finding_def
  ratio_def)

section \<open>Orchestration\<close>

lemma map_raise_nth:
  "map_raise f xs = Inr ys \<Longrightarrow> length ys = length xs \<and> (\<forall>i < length xs. f (xs ! i) = Inr (ys ! i))"
proof (induction xs arbitrary: ys)
  case (Cons x xs)
  then obtain y zs where "f x = Inr y" "map_raise f xs = Inr zs" "ys = y # zs"
    by (auto dest!: raise_bind_InrD)
  with Cons.IH [of zs] show ?case by (auto simp: less_Suc_eq_0_disj)
qed simp

lemma map_raise_total: "(\<exists>ys. map_raise f xs = Inr ys) \<longleftrightarrow> (\<forall>x \<in> set xs. \<exists>y. f x = Inr y)"
  by (induction xs) (auto simp: raise_bind_def split: sum.splits)

definition orchestrated_order ::
    "(string \<Rightarrow> string) \<Rightarrow> (string \<Rightarrow> string \<Rightarrow> int) \<Rightarrow> detector_finding list \<Rightarrow> detector_finding list" where
  "orchestrated_order sha lc findings =
     map fst (js_sort (\<lambda>l r. lc (snd l) (snd r)) (map (\<lambda>f. (f, findingIdFor sha f)) findings))"

lemma durable_records_cases:
  "createDurableReportOnlyRecords f completed context =
     (case te_evidenceEventIds (tf_evidence f) of
        [] \<Rightarrow> Inl ''durable finding creation requires causal evidence''
      | first # rest \<Rightarrow> Inr (finding_event f context first, decision_event f (evaluateReportOnlyPolicy f completed) context
          (finding_event f context first)))"
  by (simp add: createDurableReportOnlyRecords_def causalParent_def Let_def split: list.splits)

lemma orchestration_step:
  assumes "createReportOnlyOrchestrationRecords sha lc findings context = Inr records" and "i < length findings"
  shows "length records = length findings \<and> length (oc_eventIds context) = length findings
    \<and> (\<exists>first rest. te_evidenceEventIds (tf_evidence (orchestrated_order sha lc findings ! i)) = first # rest
        \<and> (let f = orchestrated_order sha lc findings ! i;
               du = orchestrated_context sha context i f (findingIdFor sha f) (oc_eventIds context ! i)
           in records ! i = (finding_event f du first, decision_event f
                (evaluateReportOnlyPolicy f (oc_affectedTaskCompleted context f)) du (finding_event f du first))))"
proof -
  let ?ordered = "js_sort (\<lambda>l r. lc (snd l) (snd r)) (map (\<lambda>f. (f, findingIdFor sha f)) findings)"
  have n: "length (oc_eventIds context) = length findings"
    using assms(1) by (simp add: createReportOnlyOrchestrationRecords_def Let_def split: if_splits)
  then have "map_raise (\<lambda>(index, (f, findingId), ids).
      createDurableReportOnlyRecords f (oc_affectedTaskCompleted context f)
        (orchestrated_context sha context index f findingId ids)) (enumerate 0 (zip ?ordered (oc_eventIds context)))
      = Inr records"
    using assms(1) by (simp add: createReportOnlyOrchestrationRecords_def Let_def)
  from map_raise_nth [OF this] n assms(2)
  have m: "length records = length findings"
    "(\<lambda>(index, (f, findingId), ids). createDurableReportOnlyRecords f (oc_affectedTaskCompleted context f)
        (orchestrated_context sha context index f findingId ids)) (i, ?ordered ! i, oc_eventIds context ! i)
      = Inr (records ! i)"
    by (simp_all add: nth_enumerate_eq)
  obtain f where f: "?ordered ! i = (f, findingIdFor sha f)"
    using nth_mem [of i ?ordered] assms(2) by auto
  then have "orchestrated_order sha lc findings ! i = f"
    using assms(2) by (simp add: orchestrated_order_def)
  with m f n show ?thesis
    by (auto simp: durable_records_cases Let_def split: list.splits)
qed

lemma orchestration_returns:
  "(\<exists>records. createReportOnlyOrchestrationRecords sha lc findings context = Inr records)
     \<longleftrightarrow> length (oc_eventIds context) = length findings
       \<and> (\<forall>f \<in> set findings. te_evidenceEventIds (tf_evidence f) \<noteq> [])"
proof (cases "length (oc_eventIds context) = length findings")
  case True
  let ?pairs = "enumerate 0 (zip (js_sort (\<lambda>l r. lc (snd l) (snd r)) (map (\<lambda>f. (f, findingIdFor sha f)) findings))
    (oc_eventIds context))"
  let ?run = "\<lambda>(index, (f, findingId), ids). createDurableReportOnlyRecords f (oc_affectedTaskCompleted context f)
    (orchestrated_context sha context index f findingId ids)"
  have "map (\<lambda>p. fst (fst (snd p))) ?pairs = map fst (map fst (map snd ?pairs))"
    by (simp only: list.map_comp comp_def)
  also have "\<dots> = orchestrated_order sha lc findings"
    using True by (simp only: map_snd_enumerate orchestrated_order_def) (simp add: map_fst_zip)
  finally have members: "(\<lambda>p. fst (fst (snd p))) ` set ?pairs = set findings"
    unfolding set_map [symmetric] by (simp add: orchestrated_order_def image_image)
  then have evidence: "(\<forall>f \<in> set findings. te_evidenceEventIds (tf_evidence f) \<noteq> [])
      \<longleftrightarrow> (\<forall>p \<in> set ?pairs. te_evidenceEventIds (tf_evidence (fst (fst (snd p)))) \<noteq> [])"
    unfolding members [symmetric] by blast
  have "(\<exists>y. ?run p = Inr y) \<longleftrightarrow> te_evidenceEventIds (tf_evidence (fst (fst (snd p)))) \<noteq> []" for p
    by (simp add: durable_records_cases split: list.splits prod.splits)
  then have "(\<exists>records. map_raise ?run ?pairs = Inr records)
      \<longleftrightarrow> (\<forall>f \<in> set findings. te_evidenceEventIds (tf_evidence f) \<noteq> [])"
    unfolding map_raise_total evidence by blast
  then show ?thesis
    using True by (simp add: createReportOnlyOrchestrationRecords_def Let_def)
qed (simp add: createReportOnlyOrchestrationRecords_def Let_def)

text \<open>
  C28: The report-only orchestrator, on findings no two different ones of which have the same id (the id hashes the
  type and the evidence only) and with a collation that tells these ids apart: its records do not depend on the
  order of the findings; it returns exactly when there is one pair of event identifiers per finding and every
  finding has evidence; and the \<open>i\<close>th pair of events has the \<open>i\<close>th identifiers, the decision caused by its
  finding, with consecutive sequence numbers where the context gives a start.
\<close>

theorem orchestrated_records:
  assumes "comparator lc" and "tells_apart lc (findingIdFor sha ` set findings)"
    and "inj_on (findingIdFor sha) (set findings)" and "mset findings' = mset findings"
    and "r = createReportOnlyOrchestrationRecords sha lc findings context"
  shows "createReportOnlyOrchestrationRecords sha lc findings' context = r
    \<and> ((\<exists>records. r = Inr records) \<longleftrightarrow> length (oc_eventIds context) = length findings
         \<and> (\<forall>f \<in> set findings. te_evidenceEventIds (tf_evidence f) \<noteq> []))
    \<and> (\<forall>records i. r = Inr records \<longrightarrow> i < length findings \<longrightarrow>
         (case records ! i of (finding, decision) \<Rightarrow>
            (eventId finding, eventId decision) = oc_eventIds context ! i
            \<and> causationId decision = Some (eventId finding)
            \<and> sourceSequence finding = map_option (\<lambda>start. start + 2 * i) (oc_sourceSequenceStart context)
            \<and> sourceSequence decision = map_option (\<lambda>start. start + 2 * i + 1) (oc_sourceSequenceStart context)))"
proof -
  have keyed: "(\<lambda>p. snd p) ` set (map (\<lambda>f. (f, findingIdFor sha f)) findings) = findingIdFor sha ` set findings"
    by (simp add: image_image)
  have "inj_on snd (set (map (\<lambda>f. (f, findingIdFor sha f)) findings))"
    using assms(3) by (auto simp: inj_on_def)
  moreover have "mset (map (\<lambda>f. (f, findingIdFor sha f)) findings) = mset (map (\<lambda>f. (f, findingIdFor sha f)) findings')"
    using assms(4) by simp
  ultimately have "js_sort (\<lambda>l r. lc (snd l) (snd r)) (map (\<lambda>f. (f, findingIdFor sha f)) findings)
      = js_sort (\<lambda>l r. lc (snd l) (snd r)) (map (\<lambda>f. (f, findingIdFor sha f)) findings')"
    using assms(2) keyed by (intro sort_by_key [OF assms(1)]) simp_all
  then have same: "createReportOnlyOrchestrationRecords sha lc findings' context = r"
    using assms(5) by (simp add: createReportOnlyOrchestrationRecords_def)
  have pair: "case records ! i of (finding, decision) \<Rightarrow>
      (eventId finding, eventId decision) = oc_eventIds context ! i \<and> causationId decision = Some (eventId finding)
      \<and> sourceSequence finding = map_option (\<lambda>start. start + 2 * i) (oc_sourceSequenceStart context)
      \<and> sourceSequence decision = map_option (\<lambda>start. start + 2 * i + 1) (oc_sourceSequenceStart context)"
    if r: "r = Inr records" and i: "i < length findings" for records i
    using orchestration_step [OF r [unfolded assms(5)] i]
    by (cases "oc_sourceSequenceStart context")
      (auto simp: Let_def finding_event_def decision_event_def orchestrated_context_def)
  show ?thesis
    unfolding same using orchestration_returns [of sha lc findings "context", folded assms(5)] pair by blast
qed

definition demo_context :: orchestration_context where
  "demo_context = \<lparr>oc_eventIds = [(''evt_f1'', ''evt_d1''), (''evt_f2'', ''evt_d2'')], oc_repositoryId = ''repo'',
     oc_workspaceId = ''ws'', oc_worktreeId = ''wt'', oc_correlationId = ''corr'',
     oc_source = \<lparr>sr_kind = Core, sr_sourceId = ''core'', sr_instanceId = ''run''\<rparr>, oc_timestamp = ''t'',
     oc_sourceSequenceStart = Some 5, oc_detector = \<lparr>de_detectorId = ''d'', de_version = ''1''\<rparr>,
     oc_policy = \<lparr>pl_policyId = ''p'', pl_version = ''1''\<rparr>, oc_affectedTaskCompleted = (\<lambda>f. False)\<rparr>"

lemma demo_finding_ids:
  "findingIdFor rev (demo_finding 1 ''a'' [''e1'']) \<noteq> findingIdFor rev (demo_finding 1 ''b'' [''e2''])"
  by code_simp

theorem orchestrated_records_witness:
  "\<exists>records. createReportOnlyOrchestrationRecords rev compareStrings
        [demo_finding 1 ''a'' [''e1''], demo_finding 1 ''b'' [''e2'']] demo_context = Inr records
    \<and> createReportOnlyOrchestrationRecords rev compareStrings
        [demo_finding 1 ''b'' [''e2''], demo_finding 1 ''a'' [''e1'']] demo_context = Inr records
    \<and> sourceSequence (snd (records ! 1)) = Some 8"
proof -
  let ?a = "demo_finding 1 ''a'' [''e1'']" and ?b = "demo_finding 1 ''b'' [''e2'']"
  have apart: "tells_apart compareStrings (findingIdFor rev ` set [?a, ?b])"
    using cu.zero_iff by (simp add: tells_apart_def)
  have inj: "inj_on (findingIdFor rev) (set [?a, ?b])" using demo_finding_ids by auto
  have swap: "mset [?b, ?a] = mset [?a, ?b]" by simp
  note facts = orchestrated_records [OF cu.comparator_axioms apart inj swap refl, of demo_context]
  have "length (oc_eventIds demo_context) = length [?a, ?b]
      \<and> (\<forall>f \<in> set [?a, ?b]. te_evidenceEventIds (tf_evidence f) \<noteq> [])"
    by (simp add: demo_context_def demo_finding_def)
  with facts obtain records where
    r: "createReportOnlyOrchestrationRecords rev compareStrings [?a, ?b] demo_context = Inr records" by blast
  with facts have "case records ! 1 of (finding, decision) \<Rightarrow>
      sourceSequence decision = map_option (\<lambda>start. start + 2 * 1 + 1) (oc_sourceSequenceStart demo_context)"
    by (auto split: prod.splits)
  then have "sourceSequence (snd (records ! 1)) = Some 8"
    by (simp add: demo_context_def split: prod.splits)
  with r facts show ?thesis by metis
qed

end
