(* ===== verification/Runtime_Evidence.thy ===== *)
theory Runtime_Evidence
  imports Durable_Records Work_Graph Contract_Compatibility
begin

text \<open>
  Deriving detector input from the event log: \<open>core/src/same-symbol-runtime.ts\<close>.  Only proof-bearing
  (schema version 3) relationships with sufficient coverage become evidence.

  A \<open>Map\<close> of the source is a \<open>js_map\<close>.  \<open>JSON.stringify\<close> of a payload compares payloads by content:
  the model renders the fields of a payload in one fixed order.
\<close>

section \<open>Comparing versions and targets\<close>

definition runtimeSource :: source where
  "runtimeSource = \<lparr>sr_kind = Core, sr_sourceId = ''source_phase2'',
     sr_instanceId = ''00000000-0000-4000-8000-000000000002''\<rparr>"

definition runtime_event_id :: "(string \<Rightarrow> string) \<Rightarrow> string \<Rightarrow> string \<Rightarrow> string" where
  "runtime_event_id sha kind findingId = ''evt_'' @ take 32 (sha (kind @ '':'' @ findingId))"

definition sameTarget :: "target_snapshot \<Rightarrow> target_snapshot \<Rightarrow> bool" where
  "sameTarget left right \<longleftrightarrow> ts_repositoryId left = ts_repositoryId right
     \<and> ts_targetSnapshotId left = ts_targetSnapshotId right \<and> ts_digest left = ts_digest right"

definition sameSymbolSignatureVersion :: "resource_version \<Rightarrow> resource_version \<Rightarrow> bool" where
  "sameSymbolSignatureVersion left right \<longleftrightarrow> rv_resourceId left = rv_resourceId right
     \<and> vd_repositoryId (rv_domain left) = vd_repositoryId (rv_domain right)
     \<and> rv_kind left = rv_kind right \<and> rv_value left \<noteq> None \<and> rv_value left = rv_value right"

definition sameHashBoundSourceVersion :: "resource_version \<Rightarrow> resource_version \<Rightarrow> bool" where
  "sameHashBoundSourceVersion left right \<longleftrightarrow> rv_resourceId left = rv_resourceId right
     \<and> vd_repositoryId (rv_domain left) = vd_repositoryId (rv_domain right)
     \<and> rv_kind left = rv_kind right \<and> rv_value left \<noteq> None \<and> rv_value left = rv_value right"

definition sourceBeforeVersion :: "event \<Rightarrow> events_by_id \<Rightarrow> resource_version option" where
  "sourceBeforeVersion symbol byId =
     Option.bind (causationId symbol) (\<lambda>cause. Option.bind (map_get byId cause) (\<lambda>e.
       Option.bind (payload_file_changed (payload e)) rc_beforeVersion))"

section \<open>Coverage\<close>

definition add_match :: "string \<Rightarrow> string \<Rightarrow> (string, string list) js_map \<Rightarrow> (string, string list) js_map" where
  "add_match key value m = map_set key ((case map_get m key of None \<Rightarrow> [] | Some vs \<Rightarrow> vs) @ [value]) m"

definition coverage_matches :: "projection_coverage list \<Rightarrow> (string, string list) js_map" where
  "coverage_matches entries =
     fold (\<lambda>entry m. fold (\<lambda>i. add_match i (pc_coverageId entry)) (pc_evidenceEventIds entry) m)
       (filter (\<lambda>entry. pc_presentation entry = PR_sufficient) entries) []"

definition unambiguous :: "(string, string list) js_map \<Rightarrow> (string, string) js_map" where
  "unambiguous m = List.map_filter (\<lambda>(i, ids). case js_uniq ids of [c] \<Rightarrow> Some (i, c) | _ \<Rightarrow> None) m"

text \<open>A projection that throws leaves no coverage.\<close>

definition sufficientCoverageIds ::
    "(string \<Rightarrow> string) \<Rightarrow> (string \<Rightarrow> string \<Rightarrow> int) \<Rightarrow> event list \<Rightarrow> (string, string) js_map" where
  "sufficientCoverageIds sha lc events =
     (case projectWorkGraph sha lc events of
        Some (Inr result) \<Rightarrow> unambiguous (coverage_matches (sn_coverage (wr_snapshot result)))
      | _ \<Rightarrow> [])"

fun conflicting_from :: "(string \<Rightarrow> string \<Rightarrow> int) \<Rightarrow> (string, string) js_map \<Rightarrow> event list \<Rightarrow> bool" where
  "conflicting_from lc payloads [] \<longleftrightarrow> False"
| "conflicting_from lc payloads (e # events) \<longleftrightarrow>
     (let canonical = canonicalJson_core lc (event_json e)
      in (case map_get payloads (eventId e) of None \<Rightarrow> False | Some existing \<Rightarrow> existing \<noteq> canonical)
         \<or> conflicting_from lc (map_set (eventId e) canonical payloads) events)"

definition hasConflictingDuplicateIds :: "(string \<Rightarrow> string \<Rightarrow> int) \<Rightarrow> event list \<Rightarrow> bool" where
  "hasConflictingDuplicateIds lc events = conflicting_from lc [] events"

definition events_by_id_of :: "event list \<Rightarrow> events_by_id" where
  "events_by_id_of events = map_index eventId events"

text \<open>The walk of \<open>coverageFor\<close> along the causes, each event visited once.\<close>

lemma coverage_walk_decreases:
  assumes "eventId e \<notin> set visited" and "Option.bind (causationId e) (map_get byId) = Some parent"
  shows "card (insert (eventId parent) (eventId ` snd ` set byId) - set (eventId e # visited))
    < card (insert (eventId e) (eventId ` snd ` set byId) - set visited)"
proof (rule psubset_card_mono)
  have "parent \<in> snd ` set byId" using assms(2) by (auto simp: bind_eq_Some_conv dest!: map_of_SomeD intro: rev_image_eqI)
  then show "insert (eventId parent) (eventId ` snd ` set byId) - set (eventId e # visited)
      \<subset> insert (eventId e) (eventId ` snd ` set byId) - set visited"
    using assms(1) by auto
qed simp

function coverage_walk ::
    "events_by_id \<Rightarrow> (string, string) js_map \<Rightarrow> string list \<Rightarrow> event option \<Rightarrow> string option" where
  "coverage_walk byId coverage visited None = None"
| "coverage_walk byId coverage visited (Some e) =
     (if eventId e \<in> set visited then None
      else case map_get coverage (eventId e) of
          Some direct \<Rightarrow> Some direct
        | None \<Rightarrow> coverage_walk byId coverage (eventId e # visited) (Option.bind (causationId e) (map_get byId)))"
  by pat_completeness auto

termination
proof (relation "measure (\<lambda>(byId, coverage, visited, current). case current of None \<Rightarrow> 0
    | Some e \<Rightarrow> Suc (card (insert (eventId e) (eventId ` snd ` set byId) - set visited)))")
  fix byId :: events_by_id and coverage :: "(string, string) js_map" and visited and e :: event
  assume "eventId e \<notin> set visited"
  then show "((byId, coverage, eventId e # visited, Option.bind (causationId e) (map_get byId)), byId, coverage, visited, Some e)
      \<in> measure (\<lambda>(byId, coverage, visited, current). case current of None \<Rightarrow> 0
        | Some e \<Rightarrow> Suc (card (insert (eventId e) (eventId ` snd ` set byId) - set visited)))"
    using coverage_walk_decreases [of e visited byId]
    by (cases "Option.bind (causationId e) (map_get byId)") simp_all
qed simp

definition coverageFor :: "event \<Rightarrow> events_by_id \<Rightarrow> (string, string) js_map \<Rightarrow> string option" where
  "coverageFor e byId coverage = coverage_walk byId coverage [] (Some e)"

definition hasCoverage :: "event option \<Rightarrow> string \<Rightarrow> events_by_id \<Rightarrow> (string, string) js_map \<Rightarrow> bool" where
  "hasCoverage e expected byId coverage =
     (case e of None \<Rightarrow> False | Some x \<Rightarrow> coverageFor x byId coverage = Some expected)"

section \<open>Derived evidence\<close>

definition sufficient_v3 :: "event \<Rightarrow> (derived_evidence \<times> evidence_proof) option" where
  "sufficient_v3 e = Option.bind (payload_derived_v3 (payload e)) (\<lambda>(d, p).
     if ec_status (ev_coverage d) = CS_sufficient then Some (d, p) else None)"

record derived_assertion =
  da_event :: event
  da_evidence :: derived_evidence
  da_proof :: evidence_proof

definition group_derived :: "event list \<Rightarrow> (string, derived_assertion list) js_map" where
  "group_derived events = fold (\<lambda>e grouped. case sufficient_v3 e of
       None \<Rightarrow> grouped
     | Some (d, p) \<Rightarrow> map_set (ev_targetEventId d)
         ((case map_get grouped (ev_targetEventId d) of None \<Rightarrow> [] | Some es \<Rightarrow> es)
          @ [\<lparr>da_event = e, da_evidence = d, da_proof = p\<rparr>]) grouped) events []"

definition equivalentDerivedByTarget ::
    "(string \<Rightarrow> string \<Rightarrow> int) \<Rightarrow> event list \<Rightarrow> bool \<Rightarrow> (string, derived_assertion) js_map" where
  "equivalentDerivedByTarget lc events exactOne =
     List.map_filter (\<lambda>(target, found).
       if exactOne \<and> length found \<noteq> 1 then None
       else if length (js_uniq (map (\<lambda>a. json_stringify (payload_json (payload (da_event a)))) found)) \<noteq> 1 then None
       else case js_sort (\<lambda>l r. lc (eventId (da_event l)) (eventId (da_event r))) found of
           [] \<Rightarrow> None | first # rest \<Rightarrow> Some (target, first))
     (group_derived events)"

definition observed_version :: "event option \<Rightarrow> resource_version option" where
  "observed_version e = Option.bind e (\<lambda>x. case payload_read (payload x) of
       Some r \<Rightarrow> Some (ro_version r)
     | None \<Rightarrow> map_option rc_afterVersion (payload_changed (payload x)))"

definition sourceMatches ::
    "(string \<Rightarrow> string) \<Rightarrow> (string \<Rightarrow> string \<Rightarrow> int) \<Rightarrow> derived_assertion \<Rightarrow> events_by_id \<Rightarrow> bool" where
  "sourceMatches sha lc derived byId =
     (let binding = sourceAnalysis (ep_proof (da_proof derived));
          sourceVersion = observed_version (map_get byId (sa_sourceEventId binding));
          expectedDigest = ''sha256:'' @ sha (canonicalJson_core lc (JObj
            [(''sourceResourceId'', JStr (sa_sourceResourceId binding)),
             (''sourceVersion'', case sourceVersion of None \<Rightarrow> JUnsupported | Some v \<Rightarrow> resource_version_json v)]))
      in sa_analysisInputDigest binding = expectedDigest
         \<and> sa_sourceEventId binding \<in> set (ev_sourceEventIds (da_evidence derived))
         \<and> (case sourceVersion of None \<Rightarrow> False
            | Some v \<Rightarrow> sa_sourceResourceId binding = rv_resourceId v
                \<and> canonicalJson_core lc (resource_version_json (sa_sourceVersion binding))
                  = canonicalJson_core lc (resource_version_json v)))"

text \<open>The tests every use of a derived assertion repeats: covered, of this kind, and bound to its source.\<close>

definition symbol_contract_ok ::
    "(string \<Rightarrow> string) \<Rightarrow> (string \<Rightarrow> string \<Rightarrow> int) \<Rightarrow> events_by_id \<Rightarrow> (string, string) js_map \<Rightarrow> derived_assertion \<Rightarrow> bool" where
  "symbol_contract_ok sha lc byId coverage derived \<longleftrightarrow>
     coverageFor (da_event derived) byId coverage \<noteq> None
     \<and> ev_factKind (da_evidence derived) = FK_symbol
     \<and> is_symbol_contract (ep_proof (da_proof derived))
     \<and> sourceMatches sha lc derived byId"

section \<open>Same-symbol evidence\<close>

record concurrency_assertion =
  cn_eventId :: string
  cn_other :: string
  cn_target :: target_snapshot
  cn_coverageId :: string

text \<open>The long test of \<open>deriveSameSymbolEvidence\<close>: the observation names two independently attributed changes.\<close>

definition concurrent_changes ::
    "(string \<Rightarrow> string) \<Rightarrow> (string \<Rightarrow> string \<Rightarrow> int) \<Rightarrow> events_by_id \<Rightarrow> (string, string) js_map
     \<Rightarrow> (string, derived_assertion) js_map \<Rightarrow> event \<Rightarrow> (event \<times> event \<times> concurrency_observation \<times> concurrency_proof) option" where
  "concurrent_changes sha lc byId coverage metadata e =
     (case payload e of
        TaskConcurrencyV3 ob p \<Rightarrow>
          if \<not> hasCoverage (Some e) (co_coverageId ob) byId coverage \<or> sr_kind (source e) = Core then None
          else (case (map_get byId (co_firstChangeEventId ob), map_get byId (co_secondChangeEventId ob)) of
              (Some first, Some second) \<Rightarrow>
                (case (payload_symbol_changed (payload first), payload_symbol_changed (payload second)) of
                   (Some fc, Some sc) \<Rightarrow>
                     if agentId first \<noteq> Some (cp_firstAgentId p) \<or> agentId second \<noteq> Some (cp_secondAgentId p)
                        \<or> taskId first \<noteq> Some (co_firstTaskId ob) \<or> taskId second \<noteq> Some (co_secondTaskId ob)
                        \<or> worktreeId first \<noteq> cp_firstWorktreeId p \<or> worktreeId second \<noteq> cp_secondWorktreeId p
                        \<or> repositoryId first \<noteq> repositoryId second
                        \<or> lr_resourceId (rc_resource fc) \<noteq> lr_resourceId (rc_resource sc)
                        \<or> agentId first = agentId second \<or> taskId first = taskId second
                        \<or> worktreeId first = worktreeId second
                     then None
                     else (case (map_get metadata (co_firstChangeEventId ob), map_get metadata (co_secondChangeEventId ob)) of
                         (Some fd, Some sd) \<Rightarrow>
                           if symbol_contract_ok sha lc byId coverage fd \<and> symbol_contract_ok sha lc byId coverage sd
                              \<and> sameTarget (ep_targetSnapshot (da_proof fd)) (cp_targetSnapshot p)
                              \<and> sameTarget (ep_targetSnapshot (da_proof sd)) (cp_targetSnapshot p)
                           then Some (first, second, ob, p) else None
                       | _ \<Rightarrow> None)
                 | _ \<Rightarrow> None)
            | _ \<Rightarrow> None)
      | _ \<Rightarrow> None)"

definition add_assertion ::
    "string \<Rightarrow> concurrency_assertion \<Rightarrow> (string, concurrency_assertion list) js_map
     \<Rightarrow> (string, concurrency_assertion list) js_map" where
  "add_assertion i a m = map_set i ((case map_get m i of None \<Rightarrow> [] | Some xs \<Rightarrow> xs) @ [a]) m"

definition concurrency_candidates ::
    "(string \<Rightarrow> string) \<Rightarrow> (string \<Rightarrow> string \<Rightarrow> int) \<Rightarrow> events_by_id \<Rightarrow> (string, string) js_map
     \<Rightarrow> (string, derived_assertion) js_map \<Rightarrow> event list \<Rightarrow> (string, concurrency_assertion list) js_map" where
  "concurrency_candidates sha lc byId coverage metadata events =
     fold (\<lambda>e m. case concurrent_changes sha lc byId coverage metadata e of
         None \<Rightarrow> m
       | Some (first, second, ob, p) \<Rightarrow>
           let assertion = (\<lambda>other. \<lparr>cn_eventId = eventId e, cn_other = other, cn_target = cp_targetSnapshot p,
                 cn_coverageId = co_coverageId ob\<rparr>)
           in add_assertion (eventId second) (assertion (eventId first))
                (add_assertion (eventId first) (assertion (eventId second)) m)) events []"

definition assertion_key :: "concurrency_assertion \<Rightarrow> string" where
  "assertion_key a = cn_other a @ [CHR 0x00] @ ts_targetSnapshotId (cn_target a) @ [CHR 0x00] @ ts_digest (cn_target a)
     @ [CHR 0x00] @ cn_coverageId a"

definition chosen_concurrency ::
    "(string \<Rightarrow> string \<Rightarrow> int) \<Rightarrow> (string, concurrency_assertion list) js_map \<Rightarrow> (string, concurrency_assertion) js_map" where
  "chosen_concurrency lc candidates =
     List.map_filter (\<lambda>(i, assertions).
       if length (js_uniq (map assertion_key assertions)) \<noteq> 1 then None
       else case js_sort (\<lambda>l r. lc (cn_eventId l) (cn_eventId r)) assertions of
           [] \<Rightarrow> None | first # rest \<Rightarrow> Some (i, first)) candidates"

definition symbol_change_evidence ::
    "(string \<Rightarrow> string) \<Rightarrow> (string \<Rightarrow> string \<Rightarrow> int) \<Rightarrow> events_by_id \<Rightarrow> (string, string) js_map
     \<Rightarrow> (string, derived_assertion) js_map \<Rightarrow> (string, concurrency_assertion) js_map \<Rightarrow> event \<Rightarrow> symbol_change option" where
  "symbol_change_evidence sha lc byId coverage metadata concurrency e =
     (case payload_symbol_changed (payload e) of
        None \<Rightarrow> None
      | Some c \<Rightarrow>
          if lr_kind (rc_resource c) \<noteq> RK_symbol then None
          else (case (coverageFor e byId coverage, map_get metadata (eventId e), map_get concurrency (eventId e)) of
              (Some coverage_id, Some derived, Some observed) \<Rightarrow>
                if symbol_contract_ok sha lc byId coverage derived
                   \<and> sameTarget (ep_targetSnapshot (da_proof derived)) (cn_target observed)
                then Some \<lparr>sc_eventId = eventId e, sc_resourceId = lr_resourceId (rc_resource c),
                  sc_version = rc_afterVersion c, sc_agentId = agentId e, sc_taskId = taskId e,
                  sc_worktreeId = worktreeId e, sc_coverageId = coverage_id,
                  sc_concurrencyCoverageId = Some (cn_coverageId observed), sc_targetSnapshot = Some (cn_target observed),
                  sc_concurrencyEventId = Some (cn_eventId observed)\<rparr>
                else None
            | _ \<Rightarrow> None))"

definition deriveSameSymbolEvidence ::
    "(string \<Rightarrow> string) \<Rightarrow> (string \<Rightarrow> string \<Rightarrow> int) \<Rightarrow> event list \<Rightarrow> symbol_change list" where
  "deriveSameSymbolEvidence sha lc events =
     (if hasConflictingDuplicateIds lc events then []
      else let coverage = sufficientCoverageIds sha lc events; byId = events_by_id_of events;
               metadata = equivalentDerivedByTarget lc events False;
               concurrency = chosen_concurrency lc (concurrency_candidates sha lc byId coverage metadata events)
           in js_sort (\<lambda>l r. lc (sc_eventId l) (sc_eventId r))
                (List.map_filter (symbol_change_evidence sha lc byId coverage metadata concurrency) events))"

section \<open>Stale-read evidence\<close>

definition token_digests :: "event list \<Rightarrow> (string, string list) js_map" where
  "token_digests events = fold (\<lambda>e m. case payload e of
       WriteDependentV3 l cmp p \<Rightarrow> add_match (rt_readEventId (wp_readToken p)) (rt_tokenDigest (wp_readToken p)) m
     | _ \<Rightarrow> m) events []"

text \<open>One iteration: the read, the version that made it stale, and the write that depends on it.\<close>

definition stale_read_evidence ::
    "events_by_id \<Rightarrow> (string, string) js_map \<Rightarrow> (string, string list) js_map \<Rightarrow> event
     \<Rightarrow> (resource_read \<times> current_version \<times> dependent_write) option" where
  "stale_read_evidence byId coverage digests e =
     (case payload e of
        WriteDependentV3 l cmp p \<Rightarrow>
          (let token = wp_readToken p;
               read = map_get byId (rt_readEventId token);
               changed = map_get byId (wc_changedEventId cmp);
               effect = map_get byId (wp_writeEffectEventId p);
               completion = map_get byId (wp_completionEventId p);
               request = Option.bind (Option.bind completion (\<lambda>c. payload_completed (payload c)))
                 (\<lambda>c. map_get byId (tc_requestEventId c))
           in case (taskId e, read, changed, effect, completion, request) of
                (Some task, Some rd, Some ch, Some ef, Some co, Some rq) \<Rightarrow>
                  (case (payload_read (payload rd), payload_changed (payload ch), payload_file_changed (payload ef),
                         payload_completed (payload co), payload_requested (payload rq)) of
                     (Some ro, Some cc, Some ec, Some tc, Some tq) \<Rightarrow>
                       if \<not> hasCoverage (Some e) (wl_coverageId l) byId coverage
                          \<or> \<not> hasCoverage (Some ch) (wc_coverageId cmp) byId coverage
                          \<or> \<not> hasCoverage (Some ef) (wp_writeEffectCoverageId p) byId coverage
                          \<or> tc_outcome tc \<noteq> Succeeded
                          \<or> eventId ef \<notin> set (tc_effectEventIds tc)
                          \<or> (case tc_deterministicallyAttributedEffectEventIds tc of None \<Rightarrow> True
                             | Some ids \<Rightarrow> eventId ef \<notin> set ids)
                          \<or> correlationId co \<noteq> correlationId e \<or> correlationId rq \<noteq> correlationId co
                          \<or> taskId rq \<noteq> Some task \<or> repositoryId rq \<noteq> repositoryId e
                          \<or> workspaceId rq \<noteq> workspaceId e \<or> worktreeId rq \<noteq> worktreeId e
                          \<or> eventId rd \<noteq> wl_dependsOnReadEventId l
                          \<or> repositoryId rd \<noteq> rt_repositoryId token \<or> workspaceId rd \<noteq> rt_workspaceId token
                          \<or> worktreeId rd \<noteq> rt_worktreeId token \<or> taskId rd \<noteq> Some (rt_taskId token)
                          \<or> taskId rd \<noteq> Some task
                          \<or> lr_resourceId (ro_resource ro) \<noteq> rt_resourceId token
                          \<or> rv_value (ro_version ro) \<noteq> rv_value (rt_observedVersion token)
                          \<or> rv_kind (ro_version ro) \<noteq> rv_kind (rt_observedVersion token)
                          \<or> repositoryId e \<noteq> rt_repositoryId token \<or> workspaceId e \<noteq> rt_workspaceId token
                          \<or> worktreeId e \<noteq> rt_worktreeId token
                          \<or> \<not> sameTarget (rt_targetSnapshot token) (wp_targetSnapshot p)
                          \<or> taskId ef \<noteq> Some task \<or> taskId co \<noteq> Some task
                          \<or> (case map_get digests (rt_readEventId token) of None \<Rightarrow> True
                             | Some ds \<Rightarrow> length (js_uniq ds) \<noteq> 1)
                       then None
                       else (case coverageFor rd byId coverage of
                           None \<Rightarrow> None
                         | Some read_coverage \<Rightarrow> Some
                             (\<lparr>rr_eventId = eventId rd, rr_taskId = task, rr_resourceId = lr_resourceId (ro_resource ro),
                               rr_version = ro_version ro, rr_coverageId = read_coverage,
                               rr_targetSnapshot = wp_targetSnapshot p\<rparr>,
                              \<lparr>cv_version = rc_afterVersion cc, cv_eventId = Some (eventId ch)\<rparr>,
                              \<lparr>dw_eventId = eventId e, dw_dependencyId = wl_dependencyId l, dw_taskId = task,
                               dw_resourceId = wl_resourceId l, dw_dependsOnReadEventId = wl_dependsOnReadEventId l,
                               dw_coverageId = wl_coverageId l, dw_comparisonChangedEventId = Some (wc_changedEventId cmp),
                               dw_comparisonCoverageId = Some (wc_coverageId cmp), dw_targetSnapshot = wp_targetSnapshot p,
                               dw_readTokenDigest = rt_tokenDigest token, dw_writeEffectEventId = eventId ef,
                               dw_writeEffectCoverageId = wp_writeEffectCoverageId p, dw_completionEventId = eventId co\<rparr>))
                   | _ \<Rightarrow> None)
              | _ \<Rightarrow> None)
      | _ \<Rightarrow> None)"

definition deriveStaleReadEvidence ::
    "(string \<Rightarrow> string) \<Rightarrow> (string \<Rightarrow> string \<Rightarrow> int) \<Rightarrow> event list
     \<Rightarrow> resource_read list \<times> current_version list \<times> dependent_write list" where
  "deriveStaleReadEvidence sha lc events =
     (if hasConflictingDuplicateIds lc events then ([], [], [])
      else let coverage = sufficientCoverageIds sha lc events; byId = events_by_id_of events;
               found = List.map_filter (stale_read_evidence byId coverage (token_digests events)) events
           in (js_sort (\<lambda>l r. lc (rr_eventId l) (rr_eventId r)) (map fst found),
               js_sort (\<lambda>l r. lc (version_str (cv_eventId l)) (version_str (cv_eventId r))) (map (fst \<circ> snd) found),
               js_sort (\<lambda>l r. lc (dw_eventId l) (dw_eventId r)) (map (snd \<circ> snd) found)))"

section \<open>Contract evidence\<close>

definition contract_consumer_evidence ::
    "(string \<Rightarrow> string) \<Rightarrow> (string \<Rightarrow> string \<Rightarrow> int) \<Rightarrow> events_by_id \<Rightarrow> (string, string) js_map
     \<Rightarrow> (string, derived_assertion) js_map \<Rightarrow> event \<Rightarrow> contract_consumer option" where
  "contract_consumer_evidence sha lc byId coverage metadata e =
     (case payload_dependency (payload e) of
        None \<Rightarrow> None
      | Some dep \<Rightarrow>
          (case (coverageFor e byId coverage, map_get metadata (eventId e)) of
             (Some coverage_id, Some derived) \<Rightarrow>
               (case ep_proof (da_proof derived) of
                  Hash_bound_symbol_contract a \<Rightarrow> None
                | Resolver_confirmed_consumer_dependency a proof \<Rightarrow>
                    if coverageFor (da_event derived) byId coverage = None
                       \<or> ev_factKind (da_evidence derived) \<noteq> FK_dependency
                       \<or> \<not> sourceMatches sha lc derived byId
                       \<or> rp_contractResourceId proof \<noteq> dp_dependencyResourceId dep
                       \<or> rp_consumerResourceId proof \<noteq> dp_dependentResourceId dep
                       \<or> rp_dependencyId proof \<noteq> dp_dependencyId dep
                    then None
                    else Some \<lparr>xd_eventId = eventId e, xd_dependencyId = dp_dependencyId dep,
                      xd_contractResourceId = dp_dependencyResourceId dep,
                      xd_consumerResourceId = dp_dependentResourceId dep, xd_affectedTaskId = taskId e,
                      xd_observedContractVersion = dp_dependencyVersion dep, xd_coverageId = coverage_id,
                      xd_targetSnapshot = ep_targetSnapshot (da_proof derived)\<rparr>)
           | _ \<Rightarrow> None))"

record eligible_symbol =
  es_event :: event
  es_change :: resource_changed
  es_derived :: derived_assertion
  es_coverageId :: string

definition eligible_symbol_of ::
    "(string \<Rightarrow> string) \<Rightarrow> (string \<Rightarrow> string \<Rightarrow> int) \<Rightarrow> events_by_id \<Rightarrow> (string, string) js_map
     \<Rightarrow> (string, derived_assertion) js_map \<Rightarrow> event \<Rightarrow> eligible_symbol option" where
  "eligible_symbol_of sha lc byId coverage metadata e =
     (case (payload_symbol_changed (payload e), coverageFor e byId coverage, map_get metadata (eventId e)) of
        (Some c, Some coverage_id, Some derived) \<Rightarrow>
          if symbol_contract_ok sha lc byId coverage derived \<and> ev_exported (da_evidence derived)
          then Some \<lparr>es_event = e, es_change = c, es_derived = derived, es_coverageId = coverage_id\<rparr>
          else None
      | _ \<Rightarrow> None)"

definition prior_symbols ::
    "eligible_symbol list \<Rightarrow> eligible_symbol \<Rightarrow> resource_version \<Rightarrow> resource_version \<Rightarrow> eligible_symbol list" where
  "prior_symbols eligible current beforeVersion currentSourceBefore =
     filter (\<lambda>candidate. eventId (es_event candidate) \<noteq> eventId (es_event current)
       \<and> lr_resourceId (rc_resource (es_change candidate)) = lr_resourceId (rc_resource (es_change current))
       \<and> ev_stableFactId (da_evidence (es_derived candidate)) = ev_stableFactId (da_evidence (es_derived current))
       \<and> sameTarget (ep_targetSnapshot (da_proof (es_derived candidate))) (ep_targetSnapshot (da_proof (es_derived current)))
       \<and> sameSymbolSignatureVersion (rc_afterVersion (es_change candidate)) beforeVersion
       \<and> sameHashBoundSourceVersion (sa_sourceVersion (sourceAnalysis (ep_proof (da_proof (es_derived candidate)))))
           currentSourceBefore) eligible"

definition contract_change_evidence ::
    "events_by_id \<Rightarrow> eligible_symbol list \<Rightarrow> (string, contract_consumer list) js_map \<Rightarrow> eligible_symbol
     \<Rightarrow> contract_change option" where
  "contract_change_evidence byId eligible contracts current =
     (case (rc_beforeVersion (es_change current), ev_normalizedSignature (da_evidence (es_derived current)),
            sourceBeforeVersion (es_event current) byId) of
        (Some beforeVersion, Some signature, Some currentSourceBefore) \<Rightarrow>
          if rc_changeKind (es_change current) \<noteq> CK_modified then None
          else (case prior_symbols eligible current beforeVersion currentSourceBefore of
              [prior] \<Rightarrow>
                (case ev_normalizedSignature (da_evidence (es_derived prior)) of
                   None \<Rightarrow> None
                 | Some prior_signature \<Rightarrow>
                     if classifyContractCompatibility prior_signature signature \<noteq> Breaking
                        \<or> \<not> (case map_get contracts (lr_resourceId (rc_resource (es_change current))) of
                              None \<Rightarrow> False
                            | Some consumers \<Rightarrow> list_ex (\<lambda>consumer. sameTarget (xd_targetSnapshot consumer)
                                (ep_targetSnapshot (da_proof (es_derived current)))) consumers)
                     then None
                     else Some \<lparr>xc_eventId = eventId (es_event current),
                       xc_contractResourceId = lr_resourceId (rc_resource (es_change current)),
                       xc_beforeVersion = beforeVersion, xc_afterVersion = rc_afterVersion (es_change current),
                       xc_breaking = True, xc_coverageId = es_coverageId current,
                       xc_targetSnapshot = ep_targetSnapshot (da_proof (es_derived current))\<rparr>)
            | _ \<Rightarrow> None)
      | _ \<Rightarrow> None)"

definition deriveExportedContractInvalidationEvidence ::
    "(string \<Rightarrow> string) \<Rightarrow> (string \<Rightarrow> string \<Rightarrow> int) \<Rightarrow> event list \<Rightarrow> contract_change list \<times> contract_consumer list" where
  "deriveExportedContractInvalidationEvidence sha lc events =
     (if hasConflictingDuplicateIds lc events then ([], [])
      else let coverage = sufficientCoverageIds sha lc events; byId = events_by_id_of events;
               metadata = equivalentDerivedByTarget lc events True;
               consumers = List.map_filter (contract_consumer_evidence sha lc byId coverage metadata) events;
               contracts = groupConsumersByContract lc consumers;
               eligible = List.map_filter (eligible_symbol_of sha lc byId coverage metadata) events
           in (js_sort (\<lambda>l r. lc (xc_eventId l) (xc_eventId r))
                 (List.map_filter (contract_change_evidence byId eligible contracts) eligible),
               js_sort (\<lambda>l r. lc (xd_eventId l) (xd_eventId r)) consumers))"

section \<open>Records\<close>

definition runtime_context :: "(string \<Rightarrow> string) \<Rightarrow> string \<Rightarrow> detector_finding \<Rightarrow> event \<Rightarrow> durable_context" where
  "runtime_context sha detectorId f parent =
     (let findingId = findingIdFor sha f; policy = evaluateReportOnlyPolicy f False
      in \<lparr>du_findingId = findingId,
          du_decisionId = decisionIdFor sha findingId (po_action policy) (po_directive policy)
            (te_affectedTaskId (tf_evidence f)),
          du_findingEventId = runtime_event_id sha ''finding'' findingId,
          du_decisionEventId = runtime_event_id sha ''decision'' findingId,
          du_repositoryId = repositoryId parent, du_workspaceId = workspaceId parent, du_worktreeId = worktreeId parent,
          du_correlationId = correlationId parent, du_source = runtimeSource, du_timestamp = timestamp parent,
          du_sourceSequenceStart = None, du_detector = \<lparr>de_detectorId = detectorId, de_version = ''1''\<rparr>,
          du_policy = \<lparr>pl_policyId = ''policy_report-only'', pl_version = ''1''\<rparr>\<rparr>)"

definition runtime_record ::
    "(string \<Rightarrow> string) \<Rightarrow> events_by_id \<Rightarrow> string \<Rightarrow> detector_finding \<Rightarrow> string + event \<times> event" where
  "runtime_record sha byId detectorId f =
     (case (case te_evidenceEventIds (tf_evidence f) of [] \<Rightarrow> None | first # rest \<Rightarrow> map_get byId first) of
        None \<Rightarrow> Inl ''runtime finding references missing causal evidence''
      | Some parent \<Rightarrow> createDurableReportOnlyRecords f False (runtime_context sha detectorId f parent))"

definition createRuntimeRecords ::
    "(string \<Rightarrow> string) \<Rightarrow> event list \<Rightarrow> detector_finding list \<Rightarrow> string \<Rightarrow> string + (event \<times> event) list" where
  "createRuntimeRecords sha events findings detectorId =
     map_raise (runtime_record sha (events_by_id_of events) detectorId) findings"

definition createSameSymbolRuntimeRecords ::
    "(string \<Rightarrow> string) \<Rightarrow> (string \<Rightarrow> string \<Rightarrow> int) \<Rightarrow> event list \<Rightarrow> string + (event \<times> event) list" where
  "createSameSymbolRuntimeRecords sha lc events =
     createRuntimeRecords sha events (runSameSymbolDetector sha lc (deriveSameSymbolEvidence sha lc events))
       ''detector_same-symbol-overlap''"

definition record_finding_id :: "event \<times> event \<Rightarrow> string" where
  "record_finding_id r = (case payload_finding (payload (fst r)) of None \<Rightarrow> '''' | Some f \<Rightarrow> fi_findingId f)"

definition createPhase2RuntimeRecords ::
    "(string \<Rightarrow> string) \<Rightarrow> (string \<Rightarrow> string \<Rightarrow> int) \<Rightarrow> event list \<Rightarrow> string + (event \<times> event) list" where
  "createPhase2RuntimeRecords sha lc events =
     (let (reads, currentVersions, writes) = deriveStaleReadEvidence sha lc events;
          (changes, consumers) = deriveExportedContractInvalidationEvidence sha lc events
      in raise_bind (createSameSymbolRuntimeRecords sha lc events) (\<lambda>overlaps.
         raise_bind (createRuntimeRecords sha events
             (runStaleReadBeforeWriteDetector sha lc reads currentVersions writes) ''detector_stale-read-before-write'')
           (\<lambda>stale.
         raise_bind (createRuntimeRecords sha events
             (runExportedContractInvalidationDetector sha lc changes consumers) ''detector_exported-contract-invalidation'')
           (\<lambda>contracts.
             Inr (js_sort (\<lambda>l r. lc (record_finding_id l) (record_finding_id r)) (overlaps @ stale @ contracts))))))"

end
