(* ===== verification/Runtime_Records.thy ===== *)
theory Runtime_Records
  imports Runtime_Evidence Valid_Events
begin

text \<open>
  What the runtime of \<open>core/src/same-symbol-runtime.ts\<close> promises: every overlap it reports rests on two
  independent changes and an observation of the log (\<open>overlap_grounded\<close>).
\<close>

section \<open>Where the evidence comes from\<close>

lemma stableFindings_subset: "set (stableFindings sha lc fs) \<subseteq> set fs"
proof -
  have "snd ` set (fold (\<lambda>f m. map_set (findingIdFor sha f) f m) fs []) \<subseteq> set fs"
    using fold_map_set [of "[]" "findingIdFor sha" fs] by auto
  then show ?thesis by (simp add: stableFindings_def image_comp [symmetric])
qed

lemma pairwise_ordered:
  "sorted_wrt R xs \<Longrightarrow> z \<in> set (pairwise f xs) \<Longrightarrow> \<exists>x \<in> set xs. \<exists>y \<in> set xs. R x y \<and> f x y = Some z"
  by (induction xs) (auto simp: map_filter_set)

lemma same_symbol_pair:
  assumes "comparator lc" and "f \<in> set (runSameSymbolDetector sha lc evidence)"
  shows "\<exists>x \<in> set evidence. \<exists>y \<in> set evidence.
    lc (sc_eventId x) (sc_eventId y) \<le> 0 \<and> detectSameSymbolOverlap lc x y = Some f"
  using pairwise_ordered [OF comparator.sorted_sort [OF comparator_key [OF assms(1), of sc_eventId]]] assms(2)
    stableFindings_subset by (fastforce simp: runSameSymbolDetector_def)

lemma detected_overlap:
  assumes "detectSameSymbolOverlap lc x y = Some f"
  shows "\<exists>w wc. sc_concurrencyEventId x = Some w \<and> sc_concurrencyEventId y = Some w
    \<and> f = overlap_finding lc x y w wc \<and> sc_resourceId x = sc_resourceId y \<and> sc_taskId x \<noteq> sc_taskId y
    \<and> sc_worktreeId x \<noteq> sc_worktreeId y \<and> rv_value (sc_version x) \<noteq> rv_value (sc_version y)"
  using assms by (auto simp: detectSameSymbolOverlap_def split: if_splits option.splits)

text \<open>An assertion filed under an event names the observation it comes from and the other change.\<close>

definition observed_pair ::
    "(string \<Rightarrow> string) \<Rightarrow> (string \<Rightarrow> string \<Rightarrow> int) \<Rightarrow> events_by_id \<Rightarrow> (string, string) js_map
     \<Rightarrow> (string, derived_assertion) js_map \<Rightarrow> event list \<Rightarrow> string \<Rightarrow> concurrency_assertion \<Rightarrow> bool" where
  "observed_pair sha lc byId coverage metadata events i a \<longleftrightarrow>
     (\<exists>e \<in> set events. \<exists>first second ob p.
        concurrent_changes sha lc byId coverage metadata e = Some (first, second, ob, p) \<and> cn_eventId a = eventId e
        \<and> (i = eventId first \<and> cn_other a = eventId second \<or> i = eventId second \<and> cn_other a = eventId first))"

lemma add_assertion_mem:
  assumes "(i, xs) \<in> set (add_assertion j b m)" and "distinct (map_keys m)" and "a \<in> set xs"
  shows "i = j \<and> a = b \<or> (\<exists>ys. (i, ys) \<in> set m \<and> a \<in> set ys)"
  using map_set_members [OF assms(2) assms(1) [unfolded add_assertion_def]] assms(3)
  by (auto split: option.splits dest: map_of_SomeD)

lemma candidates_observed:
  "distinct (map_keys (concurrency_candidates sha lc byId coverage metadata events))
   \<and> (\<forall>(i, xs) \<in> set (concurrency_candidates sha lc byId coverage metadata events). \<forall>a \<in> set xs.
        observed_pair sha lc byId coverage metadata events i a)"
  unfolding concurrency_candidates_def
proof (rule fold_invariant [where Q = "\<lambda>e. e \<in> set events"])
  fix e m
  assume e: "e \<in> set events" and m: "distinct (map_keys m) \<and> (\<forall>(i, xs) \<in> set m. \<forall>a \<in> set xs.
    observed_pair sha lc byId coverage metadata events i a)"
  show "distinct (map_keys (case concurrent_changes sha lc byId coverage metadata e of None \<Rightarrow> m
      | Some (first, second, ob, p) \<Rightarrow>
          let assertion = (\<lambda>other. \<lparr>cn_eventId = eventId e, cn_other = other, cn_target = cp_targetSnapshot p,
                cn_coverageId = co_coverageId ob\<rparr>)
          in add_assertion (eventId second) (assertion (eventId first))
               (add_assertion (eventId first) (assertion (eventId second)) m)))
    \<and> (\<forall>(i, xs) \<in> set (case concurrent_changes sha lc byId coverage metadata e of None \<Rightarrow> m
      | Some (first, second, ob, p) \<Rightarrow>
          let assertion = (\<lambda>other. \<lparr>cn_eventId = eventId e, cn_other = other, cn_target = cp_targetSnapshot p,
                cn_coverageId = co_coverageId ob\<rparr>)
          in add_assertion (eventId second) (assertion (eventId first))
               (add_assertion (eventId first) (assertion (eventId second)) m)). \<forall>a \<in> set xs.
        observed_pair sha lc byId coverage metadata events i a)"
  proof (cases "concurrent_changes sha lc byId coverage metadata e")
    case (Some r)
    obtain first second ob p where r: "r = (first, second, ob, p)" by (cases r)
    have keys: "distinct (map_keys (add_assertion j b m'))" if "distinct (map_keys m')" for j b m'
      using that by (simp add: add_assertion_def distinct_map_set)
    show ?thesis
      using m e Some r keys [of m] keys [of "add_assertion _ _ m"]
      by (fastforce simp: Let_def observed_pair_def dest!: add_assertion_mem)
  qed (use m in simp)
qed simp_all

lemma chosen_observed:
  assumes "map_get (chosen_concurrency lc (concurrency_candidates sha lc byId coverage metadata events)) i = Some a"
  shows "observed_pair sha lc byId coverage metadata events i a"
proof -
  let ?m = "concurrency_candidates sha lc byId coverage metadata events"
  obtain xs rest where xs: "(i, xs) \<in> set ?m" "js_sort (\<lambda>l r. lc (cn_eventId l) (cn_eventId r)) xs = a # rest"
    using map_of_SomeD [OF assms] by (auto simp: chosen_concurrency_def map_filter_set split: if_splits list.splits)
  have "a \<in> set (js_sort (\<lambda>l r. lc (cn_eventId l) (cn_eventId r)) xs)" by (simp add: xs(2))
  then show ?thesis using candidates_observed [of sha lc byId coverage metadata events] xs(1) by auto
qed

lemma concurrent_changes_facts:
  assumes "concurrent_changes sha lc byId coverage metadata e = Some (first, second, ob, p)"
  shows "payload e = TaskConcurrencyV3 ob p \<and> sr_kind (source e) \<noteq> Core
    \<and> map_get byId (co_firstChangeEventId ob) = Some first \<and> map_get byId (co_secondChangeEventId ob) = Some second
    \<and> agentId first \<noteq> agentId second \<and> repositoryId first = repositoryId second"
  using assms by (auto simp: concurrent_changes_def split: payload.splits if_splits option.splits)

lemma symbol_changed_payload: "payload_symbol_changed p = Some c \<longleftrightarrow> p = SymbolChanged c"
  by (cases p) auto

lemma symbol_change_facts:
  assumes "symbol_change_evidence sha lc byId coverage metadata concurrency e = Some s"
  shows "\<exists>c observed. payload e = SymbolChanged c \<and> map_get concurrency (eventId e) = Some observed
    \<and> sc_eventId s = eventId e \<and> sc_resourceId s = lr_resourceId (rc_resource c) \<and> sc_version s = rc_afterVersion c
    \<and> sc_taskId s = taskId e \<and> sc_worktreeId s = worktreeId e \<and> sc_concurrencyEventId s = Some (cn_eventId observed)"
  using assms by (auto simp: symbol_change_evidence_def symbol_changed_payload split: if_splits option.splits)

text \<open>Two different events filed under one observation are the two changes it names.\<close>

lemma observed_participants:
  assumes "distinct (map eventId events)" and "x \<in> set events" and "y \<in> set events" and "x \<noteq> y"
    and "observed_pair sha lc (events_by_id_of events) coverage metadata events (eventId x) a"
    and "observed_pair sha lc (events_by_id_of events) coverage metadata events (eventId y) b"
    and "cn_eventId a = cn_eventId b"
  shows "\<exists>w \<in> set events. \<exists>ob p. eventId w = cn_eventId a \<and> payload w = TaskConcurrencyV3 ob p
    \<and> sr_kind (source w) \<noteq> Core \<and> agentId x \<noteq> agentId y \<and> repositoryId x = repositoryId y
    \<and> {co_firstChangeEventId ob, co_secondChangeEventId ob} = {eventId x, eventId y}"
proof -
  have unique: "u = v" if "u \<in> set events" "v \<in> set events" "eventId u = eventId v" for u v
    using assms(1) that by (auto simp: distinct_map inj_on_def)
  obtain e first second ob p where e: "e \<in> set events" "cn_eventId a = eventId e"
    "concurrent_changes sha lc (events_by_id_of events) coverage metadata e = Some (first, second, ob, p)"
    "eventId x \<in> {eventId first, eventId second}"
    using assms(5) by (auto simp: observed_pair_def)
  obtain e' where e': "e' \<in> set events" "cn_eventId b = eventId e'" "\<exists>first second ob p.
      concurrent_changes sha lc (events_by_id_of events) coverage metadata e' = Some (first, second, ob, p)
      \<and> eventId y \<in> {eventId first, eventId second}"
    using assms(6) by (auto simp: observed_pair_def)
  have "e' = e" using unique [OF e'(1) e(1)] e(2) e'(2) assms(7) by simp
  with e(3) e'(3) have also_y: "eventId y \<in> {eventId first, eventId second}" by simp
  note obs = concurrent_changes_facts [OF e(3)]
  have named: "first \<in> set events" "second \<in> set events" "eventId first = co_firstChangeEventId ob"
    "eventId second = co_secondChangeEventId ob"
    using obs map_index_key [of eventId events] by (auto simp: events_by_id_of_def)
  then have "x = first \<and> y = second \<or> x = second \<and> y = first"
    using e(4) also_y unique assms(2-4) by (metis insertE singletonD)
  with e obs named show ?thesis by (intro bexI [of _ e] exI [of _ ob] exI [of _ p]) auto
qed

text \<open>
  C4: No overlap is reported without proof: each finding of the runtime's same-symbol detector rests on two symbol
  changes of the log, to the symbol it names and to different values, by different agents on different tasks and
  worktrees of one repository, and on an observation of the log, not made by the detectors themselves, that names
  exactly these two changes; the finding cites the three events and addresses the task of the change whose event
  id comes later in the order of \<open>localeCompare\<close>.  The events of the log have pairwise different ids.
\<close>

theorem overlap_grounded:
  assumes "comparator lc" and "distinct (map eventId events)"
    and "f \<in> set (runSameSymbolDetector sha lc (deriveSameSymbolEvidence sha lc events))"
  shows "\<exists>x \<in> set events. \<exists>y \<in> set events. \<exists>w \<in> set events. \<exists>c d ob p.
      payload x = SymbolChanged c \<and> payload y = SymbolChanged d \<and> payload w = TaskConcurrencyV3 ob p
    \<and> lr_resourceId (rc_resource c) = te_subjectResourceId (tf_evidence f)
    \<and> lr_resourceId (rc_resource d) = te_subjectResourceId (tf_evidence f)
    \<and> rv_value (rc_afterVersion c) \<noteq> rv_value (rc_afterVersion d)
    \<and> agentId x \<noteq> agentId y \<and> taskId x \<noteq> taskId y \<and> worktreeId x \<noteq> worktreeId y
    \<and> repositoryId x = repositoryId y \<and> sr_kind (source w) \<noteq> Core
    \<and> {co_firstChangeEventId ob, co_secondChangeEventId ob} = {eventId x, eventId y}
    \<and> te_evidenceEventIds (tf_evidence f) = js_sort lc [eventId x, eventId y, eventId w]
    \<and> lc (eventId x) (eventId y) \<le> 0 \<and> te_affectedTaskId (tf_evidence f) = taskId y"
proof -
  let ?coverage = "sufficientCoverageIds sha lc events" and ?byId = "events_by_id_of events"
  let ?metadata = "equivalentDerivedByTarget lc events False"
  let ?chosen = "chosen_concurrency lc (concurrency_candidates sha lc ?byId ?coverage ?metadata events)"
  obtain s t where st: "s \<in> set (deriveSameSymbolEvidence sha lc events)" "t \<in> set (deriveSameSymbolEvidence sha lc events)"
    "detectSameSymbolOverlap lc s t = Some f" "lc (sc_eventId s) (sc_eventId t) \<le> 0"
    using same_symbol_pair [OF assms(1,3)] by blast
  have origin: "\<exists>x \<in> set events. symbol_change_evidence sha lc ?byId ?coverage ?metadata ?chosen x = Some s"
    if "s \<in> set (deriveSameSymbolEvidence sha lc events)" for s
    using that by (auto simp: deriveSameSymbolEvidence_def Let_def map_filter_set split: if_splits)
  obtain x c a where x: "x \<in> set events" "payload x = SymbolChanged c" "map_get ?chosen (eventId x) = Some a"
    "sc_eventId s = eventId x" "sc_resourceId s = lr_resourceId (rc_resource c)" "sc_version s = rc_afterVersion c"
    "sc_taskId s = taskId x" "sc_worktreeId s = worktreeId x" "sc_concurrencyEventId s = Some (cn_eventId a)"
    using origin [OF st(1)] symbol_change_facts by blast
  obtain y d b where y: "y \<in> set events" "payload y = SymbolChanged d" "map_get ?chosen (eventId y) = Some b"
    "sc_eventId t = eventId y" "sc_resourceId t = lr_resourceId (rc_resource d)" "sc_version t = rc_afterVersion d"
    "sc_taskId t = taskId y" "sc_worktreeId t = worktreeId y" "sc_concurrencyEventId t = Some (cn_eventId b)"
    using origin [OF st(2)] symbol_change_facts by blast
  obtain w coverage where w: "cn_eventId a = w" "cn_eventId b = w" "f = overlap_finding lc s t w coverage"
    "sc_resourceId s = sc_resourceId t" "sc_taskId s \<noteq> sc_taskId t" "sc_worktreeId s \<noteq> sc_worktreeId t"
    "rv_value (sc_version s) \<noteq> rv_value (sc_version t)"
    using detected_overlap [OF st(3)] x(9) y(9) by auto
  have "x \<noteq> y" using w(5) x(7) y(7) by auto
  from observed_participants [OF assms(2) x(1) y(1) this chosen_observed [OF x(3)] chosen_observed [OF y(3)]] w(1,2)
  obtain e ob p where e: "e \<in> set events" "eventId e = w" "payload e = TaskConcurrencyV3 ob p"
    "sr_kind (source e) \<noteq> Core" "agentId x \<noteq> agentId y" "repositoryId x = repositoryId y"
    "{co_firstChangeEventId ob, co_secondChangeEventId ob} = {eventId x, eventId y}" by auto
  from x y w e st(4) show ?thesis
    by (intro bexI [of _ x] bexI [of _ y] bexI [of _ e] exI [of _ c] exI [of _ d] exI [of _ ob] exI [of _ p])
      (simp_all add: overlap_finding_def)
qed

section \<open>An overlap, end to end\<close>

text \<open>
  Two agents edit one exported function on two worktrees: each run requests an edit, a watcher sees the file
  change, an analyzer derives the symbol change with its proof, and the call completes; a gateway then observes
  that the two windows overlap.
\<close>

definition demo_change_of :: "resource_kind \<Rightarrow> string \<Rightarrow> string \<Rightarrow> resource_changed" where
  "demo_change_of k r x = \<lparr>rc_resource = demo_resource k r, rc_beforeVersion = None,
     rc_afterVersion = demo_version r (''wt'' @ x) (''v'' @ x), rc_changeKind = CK_modified, rc_attribution = None\<rparr>"

definition demo_derived :: "string \<Rightarrow> payload" where
  "demo_derived x = EvidenceDerivedV3
     \<lparr>ev_targetEventId = ''s'' @ x, ev_factKind = FK_symbol,
      ev_analyzer = \<lparr>an_analyzerId = ''ts'', an_version = ''1''\<rparr>, ev_configuration = [],
      ev_configurationDigest = ''sha256:h'', ev_sourceEventIds = [''f'' @ x], ev_integrationTarget = ''main'',
      ev_coverage = \<lparr>ec_status = CS_sufficient, ec_reason = ''r''\<rparr>, ev_coverageId = ''c'', ev_stableFactId = ''sym'',
      ev_exported = True, ev_normalizedSignature = None\<rparr>
     \<lparr>ep_targetSnapshot = demo_snapshot, ep_proof = Hash_bound_symbol_contract
        \<lparr>sa_sourceEventId = ''f'' @ x, sa_sourceResourceId = ''file'',
         sa_sourceVersion = demo_version ''file'' (''wt'' @ x) (''v'' @ x), sa_analysisInputDigest = ''sha256:h''\<rparr>\<rparr>"

definition demo_step :: "string \<Rightarrow> string \<Rightarrow> source_kind \<Rightarrow> string option \<Rightarrow> nat option \<Rightarrow> payload \<Rightarrow> event" where
  "demo_step x i k cause n p = demo_as (''a'' @ x) (''t'' @ x) (''wt'' @ x) (''c'' @ x)
     (demo_event (i @ x) k (map_option (\<lambda>c. c @ x) cause) n p)"

definition demo_edit_requested :: "string \<Rightarrow> event" where
  "demo_edit_requested x = demo_step x ''q'' Adapter None (Some 1) (ToolRequested demo_tool)"

definition demo_edit_completed :: "string \<Rightarrow> event" where
  "demo_edit_completed x = demo_step x ''d'' Adapter (Some ''q'') (Some 2)
     (ToolCompleted \<lparr>tc_requestEventId = ''q'' @ x, tc_outcome = Succeeded, tc_exitCode = None,
        tc_effectEventIds = [''f'' @ x, ''s'' @ x], tc_deterministicallyAttributedEffectEventIds = Some [''f'' @ x]\<rparr>)"

definition demo_edit_file :: "string \<Rightarrow> event" where
  "demo_edit_file x = demo_step x ''f'' Watcher (Some ''q'') None (FileChanged (demo_change_of RK_file ''file'' x))"

definition demo_edit_symbol :: "string \<Rightarrow> event" where
  "demo_edit_symbol x = demo_step x ''s'' Analyzer (Some ''f'') None (SymbolChanged (demo_change_of RK_symbol ''sym'' x))"

definition demo_edit_proof :: "string \<Rightarrow> event" where
  "demo_edit_proof x = demo_step x ''v'' Analyzer (Some ''s'') None (demo_derived x)"

definition demo_windows :: event where
  "demo_windows = (demo_event ''o1'' Gateway (Some ''d1'') None
     (TaskConcurrencyV3 (demo_observation\<lparr>co_coverageId := ''coverage_h''\<rparr>) demo_concurrency_proof))\<lparr>correlationId := ''c1''\<rparr>"

definition demo_overlap_log :: "event list" where
  "demo_overlap_log = [demo_edit_requested ''1'', demo_edit_completed ''1'', demo_edit_file ''1'', demo_windows,
     demo_edit_requested ''2'', demo_edit_completed ''2'', demo_edit_file ''2'', demo_edit_symbol ''1'',
     demo_edit_symbol ''2'', demo_edit_proof ''1'', demo_edit_proof ''2'']"


lemma replay_result_of:
  assumes "causalOrder events = Some (Inr ordered)" and "validateEventSet sha lc ordered = []"
  shows "projectWorkGraph sha lc events = Some (Inr \<lparr>wr_orderedEvents = ordered,
    wr_sourceSequenceGaps = sourceSequenceGaps ordered, wr_state = buildProjection sha ordered,
    wr_snapshot = snapshotFromState sha (buildProjection sha ordered) (sourceSequenceGaps ordered)\<rparr>)"
  using assms by (simp add: projectWorkGraph_def replayEvents_def Let_def)

lemma coverage_of_ledger:
  assumes "causalOrder events = Some (Inr ordered)" and "validateEventSet sha lc ordered = []"
    and "distinct (map eventId ordered)"
  shows "sufficientCoverageIds sha lc events = unambiguous (coverage_matches (js_sort by_coverage_id
    (deriveProjectionCoverage sha ordered (sourceSequenceGaps ordered) (corrections_of ordered))))"
proof -
  have members: "map_values (map_index eventId ordered) = ordered"
    by (simp add: map_index_distinct [OF assms(3)] comp_def)
  have "wg_coverageInputs (buildProjection sha ordered)
      = deriveProjectionCoverage sha (map_values (wg_eventsById (buildProjection sha ordered))) []
          (wg_corrections (buildProjection sha ordered))"
    by (simp add: buildProjection_def derive_all_def Let_def)
  then have "wg_coverageInputs (buildProjection sha ordered)
      = deriveProjectionCoverage sha ordered [] (corrections_of ordered)"
    by (simp only: buildProjection_fields members)
  then show ?thesis
    by (simp add: sufficientCoverageIds_def replay_result_of [OF assms(1,2)] snapshotFromState_def Let_def
        buildProjection_fields members)
qed

lemma distinct_ids_agree: "distinct (map eventId events) \<Longrightarrow> \<not> hasConflictingDuplicateIds lc events"
proof -
  have "distinct (map eventId events) \<Longrightarrow> set (map_keys payloads) \<inter> eventId ` set events = {}
      \<Longrightarrow> \<not> conflicting_from lc payloads events" for payloads
  proof (induction events arbitrary: payloads)
    case (Cons e es)
    have "map_get payloads (eventId e) = None"
      using Cons.prems(2) by (auto simp: map_of_eq_None_iff)
    moreover have "set (map_keys (map_set (eventId e) c payloads)) \<inter> eventId ` set es = {}" for c
      using Cons.prems by (auto simp: update_keys split: if_splits)
    ultimately show ?case using Cons by (simp add: Let_def)
  qed simp
  then show "distinct (map eventId events) \<Longrightarrow> ?thesis" by (simp add: hasConflictingDuplicateIds_def)
qed

lemma demo_log_replays:
  "causalOrder demo_overlap_log = Some (Inr demo_overlap_log)"
  "validateEventSet (\<lambda>_. ''h'') compareStrings demo_overlap_log = []"
  "sourceSequenceGaps demo_overlap_log = []"
  "corrections_of demo_overlap_log = []"
  by code_simp+

lemma demo_log_distinct: "distinct (map eventId demo_overlap_log)" by code_simp

definition demo_coverage :: "(string, string) js_map" where
  "demo_coverage = map (\<lambda>i. (i, ''coverage_h'')) [''d1'', ''f1'', ''q1'', ''s1'', ''d2'', ''f2'', ''q2'', ''s2'']"

lemma demo_log_coverage: "sufficientCoverageIds (\<lambda>_. ''h'') compareStrings demo_overlap_log = demo_coverage"
  unfolding coverage_of_ledger [OF demo_log_replays(1,2) demo_log_distinct] demo_log_replays(3,4) by code_simp

lemma demo_log_findings:
  "map tf_reason (let byId = events_by_id_of demo_overlap_log;
       metadata = equivalentDerivedByTarget compareStrings demo_overlap_log False;
       concurrency = chosen_concurrency compareStrings
         (concurrency_candidates (\<lambda>_. ''h'') compareStrings byId demo_coverage metadata demo_overlap_log)
   in runSameSymbolDetector (\<lambda>_. ''h'') compareStrings (js_sort (\<lambda>l r. compareStrings (sc_eventId l) (sc_eventId r))
     (List.map_filter (symbol_change_evidence (\<lambda>_. ''h'') compareStrings byId demo_coverage metadata concurrency)
        demo_overlap_log))) = [''Independent tasks changed sym at v1 and v2.'']"
  by code_simp

lemma demo_log_overlap:
  "map tf_reason (runSameSymbolDetector (\<lambda>_. ''h'') compareStrings
     (deriveSameSymbolEvidence (\<lambda>_. ''h'') compareStrings demo_overlap_log))
   = [''Independent tasks changed sym at v1 and v2.'']"
  using demo_log_findings
  by (simp add: deriveSameSymbolEvidence_def demo_log_coverage distinct_ids_agree [OF demo_log_distinct] Let_def)

theorem overlap_grounded_witness:
  "\<exists>x \<in> set demo_overlap_log. \<exists>y \<in> set demo_overlap_log. agentId x \<noteq> agentId y \<and> worktreeId x \<noteq> worktreeId y
     \<and> (\<exists>c d. payload x = SymbolChanged c \<and> payload y = SymbolChanged d)"
proof -
  obtain f where "f \<in> set (runSameSymbolDetector (\<lambda>_. ''h'') compareStrings
      (deriveSameSymbolEvidence (\<lambda>_. ''h'') compareStrings demo_overlap_log))"
    using demo_log_overlap by fastforce
  from overlap_grounded [OF cu.comparator_axioms demo_log_distinct this] show ?thesis by blast
qed

end
