(* ===== verification/Hook_Journal.thy ===== *)
theory Hook_Journal
  imports Identity Iso_Time
begin

text \<open>
  The journal the recorder's hook writes on the tool-call path, and the two views read back from it while
  the work is still going on: \<open>recorder/src/journal.ts\<close>, \<open>inflight.ts\<close> and \<open>recent-writes.ts\<close>.

  A hook payload is a \<open>jsval\<close>.  \<open>json_parse\<close> is \<open>JSON.parse\<close> (\<open>None\<close> where it throws) and \<open>date_parse\<close> is
  \<open>new Date(text).getTime()\<close> (\<open>None\<close> for \<open>NaN\<close>); every comparison with \<open>NaN\<close> is false and a comparator that
  answers \<open>NaN\<close> counts as 0.  The journal files are given by their texts, the open journal first and the ones
  being drained after it; an unreadable file is left out.
\<close>

section \<open>Payloads\<close>

definition isRecord :: "jsval \<Rightarrow> bool" where
  "isRecord v = (case v of JObj _ \<Rightarrow> True | JExotic _ \<Rightarrow> True | _ \<Rightarrow> False)"

definition prop_of :: "string \<Rightarrow> jsval \<Rightarrow> jsval" where
  "prop_of key v = (case v of
     JObj members \<Rightarrow> (case map_of members key of None \<Rightarrow> JUnsupported | Some x \<Rightarrow> x)
   | JExotic members \<Rightarrow> (case map_of members key of None \<Rightarrow> JUnsupported | Some x \<Rightarrow> x)
   | _ \<Rightarrow> JUnsupported)"

definition text_of :: "jsval \<Rightarrow> string option" where
  "text_of v = (case v of JStr s \<Rightarrow> Some s | _ \<Rightarrow> None)"

definition stringField :: "jsval \<Rightarrow> string \<Rightarrow> string option" where
  "stringField source key = (case prop_of key source of JStr s \<Rightarrow> if s = [] then None else Some s | _ \<Rightarrow> None)"

definition tool_input_of :: "jsval \<Rightarrow> jsval" where
  "tool_input_of payload = (if isRecord (prop_of ''tool_input'' payload) then prop_of ''tool_input'' payload else JObj [])"

definition session_agent :: "string option \<Rightarrow> string option" where
  "session_agent sessionId = Option.bind sessionId agentIdForSession"

section \<open>The journal\<close>

record journal_entry =
  je_at :: string
  je_payload :: jsval

definition journal_line_json :: "string \<Rightarrow> jsval \<Rightarrow> jsval" where
  "journal_line_json moment payload = JObj [(''v'', JNum 1), (''at'', JStr moment), (''payload'', payload)]"

definition parseJournalLine :: "(string \<Rightarrow> jsval option) \<Rightarrow> string \<Rightarrow> journal_entry option" where
  "parseJournalLine json_parse line =
     (if trim line = [] then None
      else case json_parse (trim line) of
          None \<Rightarrow> None
        | Some parsed \<Rightarrow>
            if prop_of ''v'' parsed \<noteq> JNum 1 then None
            else map_option (\<lambda>moment. \<lparr>je_at = moment, je_payload = prop_of ''payload'' parsed\<rparr>)
              (text_of (prop_of ''at'' parsed)))"

text \<open>\<open>appendJournalEntry\<close>, on the text of the open journal.\<close>

definition appendJournalEntry :: "string \<Rightarrow> jsval \<Rightarrow> string \<Rightarrow> string" where
  "appendJournalEntry contents payload moment =
     contents @ json_stringify (journal_line_json moment payload) @ [CHR 0x0A]"

definition journal_entries :: "(string \<Rightarrow> jsval option) \<Rightarrow> string list \<Rightarrow> journal_entry list" where
  "journal_entries json_parse files =
     concat (map (\<lambda>contents. List.map_filter (parseJournalLine json_parse) (js_split (CHR 0x0A) contents)) files)"

section \<open>Calls in flight\<close>

record in_flight_call =
  fl_at :: string
  fl_agentId :: "string option"
  fl_hostToolName :: string
  fl_operation :: "string option"
  fl_filePath :: "string option"
  fl_runningForMs :: "int option"

definition abandoned_after_ms :: int where "abandoned_after_ms = 15 * 60000"
definition max_in_flight :: nat where "max_in_flight = 50"

definition running_for :: "(string \<Rightarrow> int option) \<Rightarrow> int \<Rightarrow> string \<Rightarrow> int option" where
  "running_for date_parse now moment = map_option (\<lambda>t. max (now - t) 0) (date_parse moment)"

definition started_call :: "(string \<Rightarrow> int option) \<Rightarrow> int \<Rightarrow> journal_entry \<Rightarrow> in_flight_call" where
  "started_call date_parse now entry =
     (let payload = je_payload entry; toolInput = tool_input_of payload
      in \<lparr>fl_at = je_at entry, fl_agentId = session_agent (stringField payload ''session_id''),
          fl_hostToolName = (case stringField payload ''tool_name'' of None \<Rightarrow> ''unknown'' | Some n \<Rightarrow> n),
          fl_operation = (case stringField toolInput ''command'' of
              None \<Rightarrow> stringField toolInput ''file_path'' | Some c \<Rightarrow> Some c),
          fl_filePath = stringField toolInput ''file_path'',
          fl_runningForMs = running_for date_parse now (je_at entry)\<rparr>)"

text \<open>The loop over the entries: the calls started, by the host's call id, and the ids finished.\<close>

definition scan_call ::
    "(string \<Rightarrow> int option) \<Rightarrow> int \<Rightarrow> (string, in_flight_call) js_map \<times> string list \<Rightarrow> journal_entry
     \<Rightarrow> (string, in_flight_call) js_map \<times> string list" where
  "scan_call date_parse now st entry =
     (if \<not> isRecord (je_payload entry) then st
      else case stringField (je_payload entry) ''tool_use_id'' of
          None \<Rightarrow> st
        | Some callId \<Rightarrow>
            let hook = stringField (je_payload entry) ''hook_event_name''
            in if hook = Some ''PostToolUse'' then (fst st, callId # snd st)
               else if hook \<noteq> Some ''PreToolUse'' then st
               else (map_set callId (started_call date_parse now entry) (fst st), snd st))"

fun scan_calls ::
    "(string \<Rightarrow> int option) \<Rightarrow> int \<Rightarrow> (string, in_flight_call) js_map \<times> string list \<Rightarrow> journal_entry list
     \<Rightarrow> (string, in_flight_call) js_map \<times> string list" where
  "scan_calls date_parse now st [] = st"
| "scan_calls date_parse now st (entry # entries) = scan_calls date_parse now (scan_call date_parse now st entry) entries"

definition longest_first :: "in_flight_call \<Rightarrow> in_flight_call \<Rightarrow> int" where
  "longest_first left right =
     (case (fl_runningForMs right, fl_runningForMs left) of (Some r, Some l) \<Rightarrow> r - l | _ \<Rightarrow> 0)"

text \<open>\<open>exclude\<close> is \<open>options.excludeAgentId\<close>: absent, or the agent id, which may itself be null.\<close>

definition live_call :: "string option option \<Rightarrow> string list \<Rightarrow> string \<times> in_flight_call \<Rightarrow> bool" where
  "live_call exclude finished entry \<longleftrightarrow>
     fst entry \<notin> set finished
     \<and> \<not> (case fl_runningForMs (snd entry) of None \<Rightarrow> False | Some ms \<Rightarrow> abandoned_after_ms < ms)
     \<and> \<not> (case exclude of None \<Rightarrow> False | Some agent \<Rightarrow> fl_agentId (snd entry) = agent)"

definition live_calls ::
    "(string \<Rightarrow> jsval option) \<Rightarrow> (string \<Rightarrow> int option) \<Rightarrow> int \<Rightarrow> string list \<Rightarrow> string option option
     \<Rightarrow> (string, in_flight_call) js_map" where
  "live_calls json_parse date_parse now files exclude =
     (case scan_calls date_parse now ([], []) (journal_entries json_parse files) of
        (started, finished) \<Rightarrow> filter (live_call exclude finished) started)"

definition readInFlightCalls ::
    "(string \<Rightarrow> jsval option) \<Rightarrow> (string \<Rightarrow> int option) \<Rightarrow> int \<Rightarrow> string list \<Rightarrow> string option option
     \<Rightarrow> in_flight_call list" where
  "readInFlightCalls json_parse date_parse now files exclude =
     take max_in_flight (js_sort longest_first (map_values (live_calls json_parse date_parse now files exclude)))"

section \<open>Recent writes\<close>

record recent_write =
  wr_at :: string
  wr_sessionId :: "string option"
  wr_agentId :: "string option"
  wr_hostToolName :: string
  wr_path :: string

definition recent_write_ms :: int where "recent_write_ms = 30 * 60000"
definition max_recent_writes :: nat where "max_recent_writes = 50"

definition recent_write_of ::
    "(string \<Rightarrow> int option) \<Rightarrow> int \<Rightarrow> string option \<Rightarrow> string option \<Rightarrow> journal_entry \<Rightarrow> recent_write option" where
  "recent_write_of date_parse now excludeSessionId sinceIso entry =
     (let payload = je_payload entry
      in if \<not> isRecord payload \<or> prop_of ''hook_event_name'' payload \<noteq> JStr ''PostToolUse''
            \<or> (case excludeSessionId of None \<Rightarrow> False | Some s \<Rightarrow> prop_of ''session_id'' payload = JStr s)
         then None
         else case stringField (tool_input_of payload) ''file_path'' of
             None \<Rightarrow> None
           | Some path \<Rightarrow>
               if (case date_parse (je_at entry) of None \<Rightarrow> False | Some t \<Rightarrow> now - t < 0 \<or> recent_write_ms < now - t)
                  \<or> (case sinceIso of None \<Rightarrow> False | Some since \<Rightarrow> je_at entry \<le> since)
               then None
               else Some \<lparr>wr_at = je_at entry, wr_sessionId = stringField payload ''session_id'',
                 wr_agentId = session_agent (stringField payload ''session_id''),
                 wr_hostToolName = (case stringField payload ''tool_name'' of None \<Rightarrow> ''unknown'' | Some n \<Rightarrow> n),
                 wr_path = path\<rparr>)"

definition readRecentWrites ::
    "(string \<Rightarrow> jsval option) \<Rightarrow> (string \<Rightarrow> int option) \<Rightarrow> (string \<Rightarrow> string \<Rightarrow> int) \<Rightarrow> int \<Rightarrow> string list
     \<Rightarrow> string option \<Rightarrow> string option \<Rightarrow> recent_write list" where
  "readRecentWrites json_parse date_parse lc now files excludeSessionId sinceIso =
     take max_recent_writes (js_sort (\<lambda>left right. lc (wr_at right) (wr_at left))
       (List.map_filter (recent_write_of date_parse now excludeSessionId sinceIso) (journal_entries json_parse files)))"

section \<open>The delivery cursor\<close>

text \<open>One cursor file per session; a file that is not JSON is \<open>JUnsupported\<close>.\<close>

type_synonym cursors = "(string, jsval) js_map"

definition advanceWatermark :: "string \<Rightarrow> string \<Rightarrow> cursors \<Rightarrow> cursors" where
  "advanceWatermark session moment cursors = map_set session (JObj [(''watermark'', JStr moment)]) cursors"

definition stored_watermark :: "(string \<Rightarrow> int option) \<Rightarrow> jsval option \<Rightarrow> string option" where
  "stored_watermark date_parse contents =
     Option.bind contents (\<lambda>v. Option.bind (text_of (prop_of ''watermark'' v)) (\<lambda>w.
       if date_parse w = None then None else Some w))"

definition readWatermark ::
    "(string \<Rightarrow> int option) \<Rightarrow> string \<Rightarrow> string \<Rightarrow> cursors \<Rightarrow> string \<times> cursors" where
  "readWatermark date_parse session nowIso cursors =
     (case stored_watermark date_parse (map_get cursors session) of
        Some w \<Rightarrow> (w, cursors)
      | None \<Rightarrow> (nowIso, advanceWatermark session nowIso cursors))"


section \<open>What the in-flight list is\<close>

definition starts_call :: "string \<Rightarrow> journal_entry \<Rightarrow> bool" where
  "starts_call callId entry \<longleftrightarrow> isRecord (je_payload entry)
     \<and> stringField (je_payload entry) ''tool_use_id'' = Some callId
     \<and> stringField (je_payload entry) ''hook_event_name'' = Some ''PreToolUse''"

definition finishes_call :: "string \<Rightarrow> journal_entry \<Rightarrow> bool" where
  "finishes_call callId entry \<longleftrightarrow> isRecord (je_payload entry)
     \<and> stringField (je_payload entry) ''tool_use_id'' = Some callId
     \<and> stringField (je_payload entry) ''hook_event_name'' = Some ''PostToolUse''"

lemma scan_call_step:
  "map_get (fst (scan_call date_parse now st e)) callId =
     (if starts_call callId e then Some (started_call date_parse now e) else map_get (fst st) callId)"
  "callId \<in> set (snd (scan_call date_parse now st e)) \<longleftrightarrow> callId \<in> set (snd st) \<or> finishes_call callId e"
  "distinct (map_keys (fst st)) \<Longrightarrow> distinct (map_keys (fst (scan_call date_parse now st e)))"
  by (auto simp: scan_call_def starts_call_def finishes_call_def Let_def js_simps split: option.splits)

lemma scan_calls_spec:
  "map_get (fst (scan_calls date_parse now st es)) callId = (case List.find (starts_call callId) (rev es) of
     Some e \<Rightarrow> Some (started_call date_parse now e) | None \<Rightarrow> map_get (fst st) callId)"
  "callId \<in> set (snd (scan_calls date_parse now st es)) \<longleftrightarrow>
     callId \<in> set (snd st) \<or> (\<exists>e\<in>set es. finishes_call callId e)"
  "distinct (map_keys (fst st)) \<Longrightarrow> distinct (map_keys (fst (scan_calls date_parse now st es)))"
  by (induction es arbitrary: st) (auto simp: find_append scan_call_step split: option.splits)

text \<open>The list without its cap: the last start of every call with no completion that \<open>live_call\<close> accepts.\<close>

lemma in_live_calls:
  "(callId, c) \<in> set (live_calls json_parse date_parse now files exclude) \<longleftrightarrow>
     (\<exists>e. List.find (starts_call callId) (rev (journal_entries json_parse files)) = Some e
        \<and> c = started_call date_parse now e
        \<and> \<not> (\<exists>e'\<in>set (journal_entries json_parse files). finishes_call callId e')
        \<and> \<not> (\<exists>ms. fl_runningForMs c = Some ms \<and> abandoned_after_ms < ms)
        \<and> \<not> (\<exists>agent. exclude = Some agent \<and> fl_agentId c = agent))"
proof -
  obtain started finished where scan:
      "scan_calls date_parse now ([], []) (journal_entries json_parse files) = (started, finished)"
    by fastforce
  note spec = scan_calls_spec [where date_parse = date_parse and now = now and st = "([], [])"
      and es = "journal_entries json_parse files", unfolded scan, simplified]
  have "(callId, c) \<in> set started \<longleftrightarrow> map_get started callId = Some c"
    using spec(3) by (simp add: map_of_eq_Some_iff)
  then show ?thesis
    using spec(1) [of callId] spec(2) [of callId]
    by (auto simp: live_calls_def scan live_call_def split: option.splits)
qed


definition run_length :: "in_flight_call \<Rightarrow> int" where
  "run_length c = (case fl_runningForMs c of None \<Rightarrow> 0 | Some ms \<Rightarrow> ms)"

interpretation longest: comparator "\<lambda>l r. run_length r - run_length l"
  by unfold_locales auto

text \<open>A call in flight, read off the journal: the last start of the call id, with no completion, at most a quarter of an
  hour old, by an agent other than the one excluded.\<close>

definition in_flight ::
    "(string \<Rightarrow> int option) \<Rightarrow> int \<Rightarrow> journal_entry list \<Rightarrow> string option option \<Rightarrow> in_flight_call \<Rightarrow> bool" where
  "in_flight date_parse now entries exclude c \<longleftrightarrow>
     (\<exists>callId e. List.find (starts_call callId) (rev entries) = Some e \<and> c = started_call date_parse now e
        \<and> \<not> (\<exists>e'\<in>set entries. finishes_call callId e')
        \<and> \<not> (\<exists>ms. fl_runningForMs c = Some ms \<and> abandoned_after_ms < ms)
        \<and> \<not> (\<exists>agent. exclude = Some agent \<and> fl_agentId c = agent))"

lemma live_calls_set:
  "set (map_values (live_calls json_parse date_parse now files exclude))
     = {c. in_flight date_parse now (journal_entries json_parse files) exclude c}"
  by (auto simp: in_flight_def in_live_calls image_iff) (metis in_live_calls snd_conv)+

lemma listed_in_flight:
  "c \<in> set (readInFlightCalls json_parse date_parse now files exclude)
     \<Longrightarrow> in_flight date_parse now (journal_entries json_parse files) exclude c"
  using live_calls_set [of json_parse date_parse now files exclude]
  by (auto simp: readInFlightCalls_def dest!: in_set_takeD)

text \<open>
  C16: When the lines of the journal carry dates, the calls reported as in flight are exactly the started, unfinished,
  not abandoned calls of other agents, longest running first, at most fifty, and a call left out by that bound
  runs no longer than any that is reported.
\<close>

theorem in_flight_exact:
  assumes "\<And>e. e \<in> set (journal_entries json_parse files) \<Longrightarrow> date_parse (je_at e) \<noteq> None"
    and "calls = readInFlightCalls json_parse date_parse now files exclude"
  shows "(\<forall>c\<in>set calls. in_flight date_parse now (journal_entries json_parse files) exclude c)
    \<and> sorted_wrt (\<lambda>a b. run_length b \<le> run_length a) calls \<and> length calls \<le> max_in_flight
    \<and> (\<forall>c. in_flight date_parse now (journal_entries json_parse files) exclude c \<and> c \<notin> set calls \<longrightarrow>
        length calls = max_in_flight \<and> (\<forall>d\<in>set calls. run_length c \<le> run_length d))"
proof -
  let ?live = "map_values (live_calls json_parse date_parse now files exclude)"
  let ?byLength = "\<lambda>l r. run_length r - run_length l"
  have dated: "fl_runningForMs c \<noteq> None" if "c \<in> set ?live" for c
  proof -
    obtain callId e where "List.find (starts_call callId) (rev (journal_entries json_parse files)) = Some e"
        "c = started_call date_parse now e"
      using \<open>c \<in> set ?live\<close> unfolding live_calls_set in_flight_def by blast
    with find_SomeD [OF this(1)] assms(1) show ?thesis
      by (auto simp: started_call_def Let_def running_for_def)
  qed
  have "js_sort longest_first ?live = js_sort ?byLength ?live"
  proof (rule js_sort_cong)
    fix l r assume "l \<in> set ?live" "r \<in> set ?live"
    then obtain x y where "fl_runningForMs l = Some x" "fl_runningForMs r = Some y" using dated by blast
    then show "longest_first l r = run_length r - run_length l" by (simp add: longest_first_def run_length_def)
  qed
  then have calls: "calls = take max_in_flight (js_sort ?byLength ?live)"
    by (simp add: assms(2) readInFlightCalls_def)
  have sorted: "sorted_wrt (\<lambda>a b. run_length b \<le> run_length a) (js_sort ?byLength ?live)"
    using longest.sorted_sort [of ?live] by (simp add: algebra_simps)
  have listed: "set (js_sort ?byLength ?live) = {c. in_flight date_parse now (journal_entries json_parse files) exclude c}"
    using live_calls_set by simp
  show ?thesis
  proof (intro conjI allI impI ballI)
    fix c assume "c \<in> set calls"
    then show "in_flight date_parse now (journal_entries json_parse files) exclude c"
      using listed calls in_set_takeD by fastforce
  next
    show "sorted_wrt (\<lambda>a b. run_length b \<le> run_length a) calls" unfolding calls using sorted by (rule sorted_wrt_take)
    show "length calls \<le> max_in_flight" by (simp add: calls)
  next
    fix c assume c: "in_flight date_parse now (journal_entries json_parse files) exclude c \<and> c \<notin> set calls"
    then have mem: "c \<in> set (js_sort ?byLength ?live)" using listed by blast
    show "length calls = max_in_flight"
    proof (rule ccontr)
      assume "length calls \<noteq> max_in_flight"
      then have "calls = js_sort ?byLength ?live" unfolding calls by simp
      with mem c show False by simp
    qed
    fix d assume "d \<in> set calls"
    from take_sorted [OF sorted mem _ this [unfolded calls]] c show "run_length c \<le> run_length d"
      by (simp add: calls)
  qed
qed


text \<open>One session edits two files; the second edit has completed.\<close>

definition demo_hook :: "string \<Rightarrow> string \<Rightarrow> string \<Rightarrow> string \<Rightarrow> string \<Rightarrow> jsval" where
  "demo_hook hook session tool callId path = JObj [(''hook_event_name'', JStr hook), (''session_id'', JStr session),
     (''tool_name'', JStr tool), (''tool_use_id'', JStr callId), (''tool_input'', JObj [(''file_path'', JStr path)])]"

definition demo_start :: jsval where "demo_start = demo_hook ''PreToolUse'' ''s1'' ''Edit'' ''c1'' ''a.ts''"
definition demo_second :: jsval where "demo_second = demo_hook ''PreToolUse'' ''s1'' ''Write'' ''c2'' ''b.ts''"
definition demo_finish :: jsval where "demo_finish = demo_hook ''PostToolUse'' ''s1'' ''Write'' ''c2'' ''b.ts''"
definition demo_other :: jsval where "demo_other = demo_hook ''PreToolUse'' ''s2'' ''Edit'' ''c3'' ''a.ts''"

text \<open>\<open>JSON.parse\<close> on the lines of the journal.\<close>

definition demo_json_parse :: "string \<Rightarrow> jsval option" where
  "demo_json_parse line = List.find (\<lambda>v. json_stringify v = line)
     [journal_line_json (toISOString 0) demo_start, journal_line_json (toISOString 1000) demo_second,
      journal_line_json (toISOString 2000) demo_finish, journal_line_json (toISOString 60000) demo_other]"

definition demo_journal :: string where
  "demo_journal = appendJournalEntry (appendJournalEntry (appendJournalEntry [] demo_start (toISOString 0))
     demo_second (toISOString 1000)) demo_finish (toISOString 2000)"

lemma demo_entries:
  "journal_entries demo_json_parse [demo_journal]
     = [\<lparr>je_at = toISOString 0, je_payload = demo_start\<rparr>, \<lparr>je_at = toISOString 1000, je_payload = demo_second\<rparr>,
        \<lparr>je_at = toISOString 2000, je_payload = demo_finish\<rparr>]"
  by code_simp

lemma demo_dates: "iso_parse (toISOString 0) = Some 0" "iso_parse (toISOString 1000) = Some 1000"
    "iso_parse (toISOString 2000) = Some 2000"
  by code_simp+

theorem in_flight_exact_witness:
  "\<exists>c. readInFlightCalls demo_json_parse iso_parse 60000 [demo_journal] None = [c] \<and> fl_filePath c = Some ''a.ts''
     \<and> in_flight iso_parse 60000 (journal_entries demo_json_parse [demo_journal]) None c"
proof -
  have "map fl_filePath (readInFlightCalls demo_json_parse iso_parse 60000 [demo_journal] None) = [Some ''a.ts'']"
    unfolding readInFlightCalls_def live_calls_def demo_entries by code_simp
  then obtain c where c: "readInFlightCalls demo_json_parse iso_parse 60000 [demo_journal] None = [c]"
      "fl_filePath c = Some ''a.ts''" by auto
  have "date_parse' (je_at e) \<noteq> None"
    if "date_parse' = iso_parse" "e \<in> set (journal_entries demo_json_parse [demo_journal])" for date_parse' e
    using that by (auto simp: demo_entries demo_dates)
  then have "\<forall>c\<in>set (readInFlightCalls demo_json_parse iso_parse 60000 [demo_journal] None).
      in_flight iso_parse 60000 (journal_entries demo_json_parse [demo_journal]) None c"
    by (intro in_flight_exact [THEN conjunct1, OF _ HOL.refl]) blast
  with c show ?thesis by auto
qed

end
