(* ===== verification/Hook_Claims.thy ===== *)
theory Hook_Claims
  imports Hook_Journal
begin

text \<open>
  The files the hooks coordinate through: advisory claims on paths (\<open>recorder/src/claims.ts\<close>), the retry counter of
  a refused edit (\<open>leader.ts\<close>) and the advisory a refused call leaves for its completion (\<open>sidecar.ts\<close>).

  A directory is the map from file names to contents, in the order \<open>readdirSync\<close> lists it; contents that are
  not JSON are \<open>JUnsupported\<close>.  A write or a deletion that fails is not modelled.
\<close>

type_synonym dir_files = "(string, jsval) js_map"

definition json_file :: "string \<Rightarrow> bool" where
  "json_file entry = suffix ''.json'' entry"

definition unlink :: "string \<Rightarrow> dir_files \<Rightarrow> dir_files" where
  "unlink name files = filter (\<lambda>f. fst f \<noteq> name) files"

text \<open>The loops that delete the stale files of a directory and count them.\<close>

definition sweep :: "(string \<times> jsval \<Rightarrow> bool) \<Rightarrow> dir_files \<Rightarrow> nat \<times> dir_files" where
  "sweep stale files = (length (filter stale files), filter (\<lambda>f. \<not> stale f) files)"

section \<open>Claims\<close>

record path_claim =
  cl_agentId :: string
  cl_paths :: "jsval list"
  cl_started :: string
  cl_expires :: string

definition default_ttl_seconds :: int where "default_ttl_seconds = 300"
definition max_ttl_seconds :: int where "max_ttl_seconds = 1800"

definition word_char :: "char \<Rightarrow> bool" where
  "word_char c \<longleftrightarrow> char_in 48 57 c \<or> char_in 65 90 c \<or> char_in 97 122 c \<or> c \<in> set ''_-''"

definition sanitizeAgentId :: "string \<Rightarrow> string" where
  "sanitizeAgentId agent = map (\<lambda>c. if word_char c then c else CHR ''_'') agent"

definition clampTtl :: "rat option \<Rightarrow> int" where
  "clampTtl ttlSeconds =
     (case ttlSeconds of None \<Rightarrow> default_ttl_seconds | Some t \<Rightarrow> max 1 (min max_ttl_seconds \<lfloor>t\<rfloor>))"

definition claimFilePath :: "string \<Rightarrow> string" where
  "claimFilePath agent = sanitizeAgentId agent @ ''.json''"

definition claim_json :: "path_claim \<Rightarrow> jsval" where
  "claim_json c = JObj [(''agentId'', JStr (cl_agentId c)), (''paths'', JArr (cl_paths c)),
     (''started'', JStr (cl_started c)), (''expires'', JStr (cl_expires c))]"

definition readClaimFile :: "jsval option \<Rightarrow> path_claim option" where
  "readClaimFile contents = Option.bind contents (\<lambda>parsed.
     case (prop_of ''agentId'' parsed, prop_of ''paths'' parsed, prop_of ''started'' parsed, prop_of ''expires'' parsed) of
       (JStr agent, JArr paths, JStr started, JStr expires) \<Rightarrow>
         Some \<lparr>cl_agentId = agent, cl_paths = paths, cl_started = started, cl_expires = expires\<rparr>
     | _ \<Rightarrow> None)"

definition claimFile :: "int \<Rightarrow> string \<Rightarrow> string list \<Rightarrow> rat option \<Rightarrow> dir_files \<Rightarrow> path_claim \<times> dir_files" where
  "claimFile now agent paths ttlSeconds files =
     (let c = \<lparr>cl_agentId = agent, cl_paths = map JStr paths, cl_started = toISOString now,
               cl_expires = toISOString (now + clampTtl ttlSeconds * 1000)\<rparr>
      in (c, map_set (claimFilePath agent) (claim_json c) files))"

definition claim_expired :: "(string \<Rightarrow> int option) \<Rightarrow> int \<Rightarrow> path_claim \<Rightarrow> bool" where
  "claim_expired date_parse now c = (case date_parse (cl_expires c) of None \<Rightarrow> False | Some t \<Rightarrow> t \<le> now)"

definition readActiveClaims :: "(string \<Rightarrow> int option) \<Rightarrow> int \<Rightarrow> dir_files \<Rightarrow> path_claim list" where
  "readActiveClaims date_parse now files =
     filter (\<lambda>c. \<not> claim_expired date_parse now c)
       (List.map_filter (\<lambda>(entry, contents). if json_file entry then readClaimFile (Some contents) else None) files)"

definition releaseClaims :: "string \<Rightarrow> string list \<Rightarrow> dir_files \<Rightarrow> dir_files" where
  "releaseClaims agent paths files =
     (case readClaimFile (map_get files (claimFilePath agent)) of
        None \<Rightarrow> files
      | Some existing \<Rightarrow>
          let remaining = filter (\<lambda>p. p \<notin> JStr ` set paths) (cl_paths existing)
          in if remaining = [] then unlink (claimFilePath agent) files
             else map_set (claimFilePath agent) (claim_json (existing\<lparr>cl_paths := remaining\<rparr>)) files)"

definition stale_claim :: "(string \<Rightarrow> int option) \<Rightarrow> int \<Rightarrow> string \<times> jsval \<Rightarrow> bool" where
  "stale_claim date_parse now file \<longleftrightarrow> json_file (fst file)
     \<and> (case readClaimFile (Some (snd file)) of None \<Rightarrow> True | Some c \<Rightarrow> claim_expired date_parse now c)"

definition cleanupExpiredClaims :: "(string \<Rightarrow> int option) \<Rightarrow> int \<Rightarrow> dir_files \<Rightarrow> nat \<times> dir_files" where
  "cleanupExpiredClaims date_parse now files = sweep (stale_claim date_parse now) files"

section \<open>Retries\<close>

record retry_state =
  ry_path :: string
  ry_agentId :: string
  ry_retryCount :: rat
  ry_lastDeniedAt :: string

definition max_retries :: rat where "max_retries = 3"
definition retry_ttl_ms :: int where "retry_ttl_ms = 30 * 60 * 1000"

definition retryHash :: "(string \<Rightarrow> string) \<Rightarrow> string \<Rightarrow> string \<Rightarrow> string" where
  "retryHash sha path agent = take 16 (sha (path @ '':'' @ agent))"

definition retryFilePath :: "(string \<Rightarrow> string) \<Rightarrow> string \<Rightarrow> string \<Rightarrow> string" where
  "retryFilePath sha path agent = ''retry_'' @ retryHash sha path agent @ ''.json''"

definition retry_json :: "retry_state \<Rightarrow> jsval" where
  "retry_json r = JObj [(''path'', JStr (ry_path r)), (''agentId'', JStr (ry_agentId r)),
     (''retryCount'', JNum (ry_retryCount r)), (''lastDeniedAt'', JStr (ry_lastDeniedAt r))]"

definition readRetryFile :: "jsval option \<Rightarrow> retry_state option" where
  "readRetryFile contents = Option.bind contents (\<lambda>parsed.
     case (prop_of ''path'' parsed, prop_of ''agentId'' parsed, prop_of ''retryCount'' parsed, prop_of ''lastDeniedAt'' parsed) of
       (JStr path, JStr agent, JNum n, JStr moment) \<Rightarrow>
         Some \<lparr>ry_path = path, ry_agentId = agent, ry_retryCount = n, ry_lastDeniedAt = moment\<rparr>
     | _ \<Rightarrow> None)"

definition readRetryState :: "(string \<Rightarrow> string) \<Rightarrow> string \<Rightarrow> string \<Rightarrow> dir_files \<Rightarrow> retry_state option" where
  "readRetryState sha path agent files = readRetryFile (map_get files (retryFilePath sha path agent))"

definition incrementRetry ::
    "(string \<Rightarrow> string) \<Rightarrow> int \<Rightarrow> string \<Rightarrow> string \<Rightarrow> dir_files \<Rightarrow> retry_state \<times> dir_files" where
  "incrementRetry sha now path agent files =
     (let st = \<lparr>ry_path = path, ry_agentId = agent,
                ry_retryCount = (case readRetryState sha path agent files of None \<Rightarrow> 0 | Some r \<Rightarrow> ry_retryCount r) + 1,
                ry_lastDeniedAt = toISOString now\<rparr>
      in (st, map_set (retryFilePath sha path agent) (retry_json st) files))"

definition shouldAllow :: "(string \<Rightarrow> string) \<Rightarrow> string \<Rightarrow> string \<Rightarrow> dir_files \<Rightarrow> bool" where
  "shouldAllow sha path agent files =
     (case readRetryState sha path agent files of None \<Rightarrow> False | Some r \<Rightarrow> max_retries \<le> ry_retryCount r)"

definition stale_retry :: "(string \<Rightarrow> int option) \<Rightarrow> int \<Rightarrow> string \<times> jsval \<Rightarrow> bool" where
  "stale_retry date_parse now file \<longleftrightarrow> prefix ''retry_'' (fst file) \<and> json_file (fst file)
     \<and> (case readRetryFile (Some (snd file)) of
          None \<Rightarrow> True
        | Some r \<Rightarrow> (case date_parse (ry_lastDeniedAt r) of None \<Rightarrow> False | Some t \<Rightarrow> retry_ttl_ms < now - t))"

definition cleanupRetryFiles :: "(string \<Rightarrow> int option) \<Rightarrow> int \<Rightarrow> dir_files \<Rightarrow> nat \<times> dir_files" where
  "cleanupRetryFiles date_parse now files = sweep (stale_retry date_parse now) files"

section \<open>Contention\<close>

record contention_result =
  ct_hasContention :: bool
  ct_claims :: "path_claim list"
  ct_inFlight :: "in_flight_call list"
  ct_overlapping :: bool

text \<open>\<open>agent\<close> is \<open>options.agentId\<close>: absent, or an agent id that may be null.\<close>

definition checkContention ::
    "(string \<Rightarrow> jsval option) \<Rightarrow> (string \<Rightarrow> int option) \<Rightarrow> int \<Rightarrow> dir_files \<Rightarrow> string list \<Rightarrow> string
     \<Rightarrow> string option option \<Rightarrow> contention_result" where
  "checkContention json_parse date_parse now claim_files journal path agent =
     (let claims = filter (\<lambda>c. (case agent of None \<Rightarrow> True | Some a \<Rightarrow> Some (cl_agentId c) \<noteq> a) \<and> JStr path \<in> set (cl_paths c))
            (readActiveClaims date_parse now claim_files);
          inFlight = filter (\<lambda>call. fl_filePath call = Some path) (readInFlightCalls json_parse date_parse now journal agent)
      in \<lparr>ct_hasContention = (claims \<noteq> [] \<or> inFlight \<noteq> []), ct_claims = claims, ct_inFlight = inFlight,
           ct_overlapping = (claims \<noteq> [] \<or> inFlight \<noteq> [])\<rparr>)"

section \<open>Pending advisories\<close>

record pending_advisory =
  pa_path :: string
  pa_agentId :: "string option"
  pa_hostToolName :: string
  pa_runningForMs :: "int option"
  pa_detectedAt :: string

type_synonym pending_files = "(string, pending_advisory) js_map"

definition pendingAdvisoryPath :: "string \<Rightarrow> string" where
  "pendingAdvisoryPath toolUseId = toolUseId @ ''.json''"

definition writePendingAdvisory :: "string \<Rightarrow> pending_advisory \<Rightarrow> pending_files \<Rightarrow> pending_files" where
  "writePendingAdvisory toolUseId advisory files = map_set (pendingAdvisoryPath toolUseId) advisory files"

text \<open>Without another reader the lock is always free.\<close>

definition readAndDeletePendingAdvisory :: "string \<Rightarrow> pending_files \<Rightarrow> pending_advisory option \<times> pending_files" where
  "readAndDeletePendingAdvisory toolUseId files =
     (map_get files (pendingAdvisoryPath toolUseId), filter (\<lambda>f. fst f \<noteq> pendingAdvisoryPath toolUseId) files)"

definition cleanupPendingAdvisories :: "pending_files \<Rightarrow> pending_files" where
  "cleanupPendingAdvisories files = filter (\<lambda>f. \<not> json_file (fst f)) files"


section \<open>What the files say\<close>

lemma read_claim_json [js_simps]: "readClaimFile (Some (claim_json c)) = Some c"
  by (simp add: readClaimFile_def claim_json_def prop_of_def)

lemma read_retry_json [js_simps]: "readRetryFile (Some (retry_json r)) = Some r"
  by (simp add: readRetryFile_def retry_json_def prop_of_def)

lemma read_no_file [js_simps]: "readClaimFile None = None" "readRetryFile None = None"
  by (simp_all add: readClaimFile_def readRetryFile_def)

lemma get_unlink [js_simps]: "map_get (unlink name files) entry = (if entry = name then None else map_get files entry)"
  by (induction files) (auto simp: unlink_def)

lemma get_sweep:
  assumes "distinct (map_keys files)"
  shows "map_get (snd (sweep stale files)) entry
     = (case map_get files entry of Some v \<Rightarrow> if stale (entry, v) then None else Some v | None \<Rightarrow> None)"
  using assms
proof (induction files)
  case (Cons f files)
  then show ?case by (cases f) (force simp: sweep_def map_of_eq_None_iff split: option.splits)
qed (simp add: sweep_def)

lemma claim_file_named: "json_file (claimFilePath agent)"
  by (simp add: json_file_def claimFilePath_def suffix_def)

lemma active_claims_set:
  assumes "distinct (map_keys files)"
  shows "c \<in> set (readActiveClaims date_parse now files) \<longleftrightarrow>
     (\<exists>entry v. map_get files entry = Some v \<and> json_file entry \<and> readClaimFile (Some v) = Some c)
     \<and> \<not> claim_expired date_parse now c"
proof -
  have "c \<in> set (List.map_filter (\<lambda>(entry, contents). if json_file entry then readClaimFile (Some contents) else None) files)
      \<longleftrightarrow> (\<exists>entry v. (entry, v) \<in> set files \<and> json_file entry \<and> readClaimFile (Some v) = Some c)"
    unfolding map_filter_set by (force split: if_splits)
  then show ?thesis using assms by (simp add: readActiveClaims_def map_of_eq_Some_iff)
qed

lemma ttl_range: "1 \<le> clampTtl ttl \<and> clampTtl ttl \<le> 1800"
  by (auto simp: clampTtl_def default_ttl_seconds_def max_ttl_seconds_def split: option.splits)

section \<open>The life of a claim\<close>

text \<open>Every claim lies in the file of the agent that made it.\<close>

definition claims_own :: "dir_files \<Rightarrow> bool" where
  "claims_own files \<longleftrightarrow> distinct (map_keys files)
     \<and> (\<forall>entry v c. map_get files entry = Some v \<and> readClaimFile (Some v) = Some c \<longrightarrow> entry = claimFilePath (cl_agentId c))"

lemma claims_own_set:
  "claims_own files \<Longrightarrow> claims_own (map_set (claimFilePath (cl_agentId c)) (claim_json c) files)"
  by (auto simp: claims_own_def js_simps distinct_update split: if_splits)

lemma claims_own_filter:
  assumes "claims_own files"
  shows "claims_own (filter P files)"
proof -
  have "distinct (map_keys files)" using assms by (simp add: claims_own_def)
  moreover from this have "distinct (map_keys (filter P files))" by (simp add: distinct_map_filter)
  ultimately show ?thesis using assms unfolding claims_own_def by (fastforce simp: map_of_eq_Some_iff)
qed

lemma claims_own_keeps:
  assumes "claims_own files"
  shows "claims_own (snd (claimFile now agent paths ttl files))"
    and "claims_own (releaseClaims agent paths files)"
    and "claims_own (snd (cleanupExpiredClaims date_parse now files))"
proof -
  show "claims_own (snd (claimFile now agent paths ttl files))"
    using claims_own_set [OF assms, of "fst (claimFile now agent paths ttl files)"] by (simp add: claimFile_def Let_def)
  show "claims_own (snd (cleanupExpiredClaims date_parse now files))"
    using claims_own_filter [OF assms] by (simp add: cleanupExpiredClaims_def sweep_def)
  have "claims_own (unlink name files)" for name
    unfolding unlink_def by (rule claims_own_filter [OF assms])
  moreover have "claims_own (map_set (claimFilePath agent) (claim_json (c\<lparr>cl_paths := ps\<rparr>)) files)"
    if "readClaimFile (map_get files (claimFilePath agent)) = Some c" for c ps
  proof -
    from that obtain v where "map_get files (claimFilePath agent) = Some v" "readClaimFile (Some v) = Some c"
      by (cases "map_get files (claimFilePath agent)") (simp_all add: js_simps)
    then have "claimFilePath agent = claimFilePath (cl_agentId (c\<lparr>cl_paths := ps\<rparr>))"
      using assms by (simp add: claims_own_def)
    then show ?thesis using claims_own_set [OF assms, of "c\<lparr>cl_paths := ps\<rparr>"] by simp
  qed
  ultimately show "claims_own (releaseClaims agent paths files)"
    using assms by (simp add: releaseClaims_def Let_def split: option.splits)
qed


lemma listed_claim:
  assumes "claims_own files" and "readClaimFile (map_get files (claimFilePath (cl_agentId c))) = Some c"
  shows "c \<in> set (readActiveClaims date_parse t files) \<longleftrightarrow> \<not> claim_expired date_parse t c"
proof -
  obtain v where "map_get files (claimFilePath (cl_agentId c)) = Some v" "readClaimFile (Some v) = Some c"
    using assms(2) by (cases "map_get files (claimFilePath (cl_agentId c))") (simp_all add: js_simps)
  then show ?thesis using assms(1) claim_file_named by (auto simp: claims_own_def active_claims_set)
qed

lemma active_claim_file:
  assumes "claims_own files" and "c \<in> set (readActiveClaims date_parse t files)"
  shows "readClaimFile (map_get files (claimFilePath (cl_agentId c))) = Some c"
  using assms unfolding claims_own_def by (auto simp: active_claims_set)

text \<open>What happens in the directory between a claim and a check: claims, releases and sweeps of expired files.\<close>

datatype claim_step =
    Claims int string "string list" "rat option"
  | Releases string "string list"
  | Sweeps int

fun run_step :: "(string \<Rightarrow> int option) \<Rightarrow> claim_step \<Rightarrow> dir_files \<Rightarrow> dir_files" where
  "run_step date_parse (Claims now agent paths ttl) files = snd (claimFile now agent paths ttl files)"
| "run_step date_parse (Releases agent paths) files = releaseClaims agent paths files"
| "run_step date_parse (Sweeps now) files = snd (cleanupExpiredClaims date_parse now files)"

definition by_others :: "string \<Rightarrow> int \<Rightarrow> claim_step \<Rightarrow> bool" where
  "by_others agent t step = (case step of
       Claims now a paths ttl \<Rightarrow> claimFilePath a \<noteq> claimFilePath agent
     | Releases a paths \<Rightarrow> claimFilePath a \<noteq> claimFilePath agent
     | Sweeps now \<Rightarrow> now \<le> t)"

lemma claims_own_steps: "claims_own files \<Longrightarrow> claims_own (fold (run_step date_parse) steps files)"
proof (induction steps arbitrary: files)
  case (Cons step steps)
  then show ?case using claims_own_keeps by (cases step) simp_all
qed simp

lemma step_keeps_claim:
  assumes "claims_own files" and "map_get files (claimFilePath agent) = Some (claim_json c)"
    and "\<not> claim_expired date_parse t c" and "by_others agent t step"
  shows "map_get (run_step date_parse step files) (claimFilePath agent) = Some (claim_json c)"
proof (cases step)
  case (Sweeps now)
  have "\<not> stale_claim date_parse now (claimFilePath agent, claim_json c)"
    using assms(3,4) Sweeps
    by (auto simp: stale_claim_def js_simps claim_expired_def by_others_def split: option.splits)
  then show ?thesis using assms(1,2) Sweeps by (simp add: cleanupExpiredClaims_def get_sweep claims_own_def)
qed (use assms in \<open>auto simp: by_others_def claimFile_def releaseClaims_def Let_def js_simps split: option.splits\<close>)

lemma steps_keep_claim:
  "claims_own files \<Longrightarrow> map_get files (claimFilePath agent) = Some (claim_json c) \<Longrightarrow> \<not> claim_expired date_parse t c
   \<Longrightarrow> list_all (by_others agent t) steps
   \<Longrightarrow> map_get (fold (run_step date_parse) steps files) (claimFilePath agent) = Some (claim_json c)"
proof (induction steps arbitrary: files)
  case (Cons step steps)
  then show ?case using step_keeps_claim claims_own_steps [of files date_parse "[step]"] by simp
qed simp


definition demo_claim_steps :: "claim_step list" where
  "demo_claim_steps = [Claims 100000 ''agent_s2'' [''b.ts''] None, Sweeps 150000, Releases ''agent_s2'' [''b.ts'']]"


text \<open>
  An agent has one claim file, named after its id with other characters replaced, so a claim replaces the earlier one
  of the same agent, and that of any agent whose id differs only in such characters.
\<close>

lemma claim_replaces_earlier:
  assumes "claims_own files" and "sanitizeAgentId a = sanitizeAgentId b"
    and "claimFile now a paths ttl files = (c, files1)" and "claimFile now' b paths' ttl' files1 = (c', files2)"
    and "x \<in> set (readActiveClaims date_parse t files2)" and "cl_agentId x \<in> {a, b}"
  shows "x = c'"
proof -
  have own: "claims_own files2"
    using claims_own_keeps(1) [OF claims_own_keeps(1) [OF assms(1), of now a paths ttl], of now' b paths' ttl'] assms(3,4)
    by simp
  have same: "claimFilePath a = claimFilePath b" using assms(2) by (simp add: claimFilePath_def)
  have "readClaimFile (map_get files2 (claimFilePath (cl_agentId x))) = Some x"
    by (rule active_claim_file [OF own assms(5)])
  moreover have "files2 = map_set (claimFilePath b) (claim_json c') files1"
    using assms(4) by (auto simp: claimFile_def Let_def)
  ultimately show ?thesis using assms(6) same by (auto simp: js_simps)
qed

lemma dotted_agent_claims_lost:
  "readActiveClaims iso_parse 2000 (snd (claimFile 1000 ''agent_a_b'' [''y.ts''] None
      (snd (claimFile 0 ''agent_a.b'' [''x.ts''] None []))))
     = [fst (claimFile 1000 ''agent_a_b'' [''y.ts''] None [])]"
  by code_simp


section \<open>Counting refusals\<close>

definition retry_count :: "(string \<Rightarrow> string) \<Rightarrow> string \<Rightarrow> string \<Rightarrow> dir_files \<Rightarrow> rat" where
  "retry_count sha path agent files =
     (case readRetryState sha path agent files of None \<Rightarrow> 0 | Some r \<Rightarrow> ry_retryCount r)"

lemma refused_below_limit: "\<not> shouldAllow sha path agent files \<longleftrightarrow> retry_count sha path agent files < max_retries"
  by (auto simp: shouldAllow_def retry_count_def max_retries_def split: option.splits)

lemma retry_count_increment:
  "retry_count sha path agent (snd (incrementRetry sha now path' agent' files))
     = (if retryFilePath sha path agent = retryFilePath sha path' agent'
        then retry_count sha path agent files + 1 else retry_count sha path agent files)"
  by (simp add: retry_count_def incrementRetry_def Let_def readRetryState_def js_simps)

end
