(* ===== verification/Hook_Advisory.thy ===== *)
theory Hook_Advisory
  imports Hook_Claims Mail_Delivery
begin

text \<open>
  What the recorder's hook says while other agents are at work: the advisories of \<open>recorder/src/advisory.ts\<close> and the
  stages of \<open>recorder/src/bin.ts\<close> (\<open>emitAdvisory\<close>, \<open>emitPostWriteAdvisory\<close>, \<open>emitTurnStartAdvisory\<close>,
  \<open>emitSessionEndCleanup\<close>, and \<open>main\<close> from the redacted payload on).

  One hook invocation reads its clock once (\<open>now\<close>).  What a stage prints is a list of \<open>hook_output\<close>s, one
  per line of standard output.  \<open>hook_env\<close> holds what comes from outside: \<open>JSON.parse\<close>, \<open>Date.parse\<close>,
  \<open>localeCompare\<close>, SHA-256, \<open>Number\<close>, the decoding of a stored event and the ellipsis character.
\<close>

record hook_env =
  he_json_parse :: "string \<Rightarrow> jsval option"
  he_date_parse :: "string \<Rightarrow> int option"
  he_lc :: "string \<Rightarrow> string \<Rightarrow> int"
  he_sha :: "string \<Rightarrow> string"
  he_number :: "string \<Rightarrow> int option"
  he_raw :: "string \<Rightarrow> event option"
  he_dots :: string

section \<open>Snapshots of the worktree\<close>

record file_snapshot =
  fs_path :: string
  fs_hash :: string
  fs_size :: int
  fs_mtime :: string

record snapshot_diff =
  sd_added :: "string list"
  sd_modified :: "string list"
  sd_deleted :: "string list"

definition diffSnapshots :: "file_snapshot list \<Rightarrow> file_snapshot list \<Rightarrow> snapshot_diff" where
  "diffSnapshots before after =
     (let beforeMap = map_index fs_path before; afterMap = map_index fs_path after
      in \<lparr>sd_added = map fst (filter (\<lambda>(path, s). map_get beforeMap path = None) afterMap),
          sd_modified = map fst (filter (\<lambda>(path, s). case map_get beforeMap path of
            None \<Rightarrow> False | Some prev \<Rightarrow> fs_hash prev \<noteq> fs_hash s) afterMap),
          sd_deleted = map fst (filter (\<lambda>(path, s). map_get afterMap path = None) beforeMap)\<rparr>)"

section \<open>The state a hook finds\<close>

record hook_state =
  hs_journal :: string
  hs_draining :: "string list"
  hs_cursors :: cursors
  hs_claims :: dir_files
  hs_retries :: dir_files
  hs_pending :: pending_files
  hs_snapshot :: "file_snapshot list"
  hs_last_diff :: "snapshot_diff option"
  hs_mail :: hook_mail_state
  hs_ledger :: "store option"

abbreviation journal_files :: "hook_state \<Rightarrow> string list" where
  "journal_files st \<equiv> hs_journal st # hs_draining st"

datatype hook_output =
  Denied string
| Additional_context string string

section \<open>Advisories\<close>

datatype advisory_stage = Pre_tool_use | Post_tool_use

fun stage_name :: "advisory_stage \<Rightarrow> string" where
  "stage_name Pre_tool_use = ''PreToolUse''"
| "stage_name Post_tool_use = ''PostToolUse''"

record contention_advisory =
  cy_path :: string
  cy_agentId :: "string option"
  cy_hostToolName :: string
  cy_runningForMs :: "int option"
  cy_message :: string
  cy_delivery :: "(string \<times> string) option"

definition advisory_host_tools :: "string list" where
  "advisory_host_tools = [''Edit'', ''Write'']"

text \<open>\<open>Math.max(Math.round(ms / unit), least)\<close> as text, \<open>NaN\<close> included.\<close>

definition rounded :: "int option \<Rightarrow> int \<Rightarrow> int \<Rightarrow> string" where
  "rounded ms unit least = (case ms of None \<Rightarrow> ''NaN'' | Some t \<Rightarrow> int_str (max ((2 * t + unit) div (2 * unit)) least))"

definition agent_label :: "string option \<Rightarrow> string" where
  "agent_label agent = (case agent of None \<Rightarrow> ''an unidentified agent'' | Some a \<Rightarrow> a)"

definition quoted :: "string \<Rightarrow> string" where
  "quoted path = CHR 0x60 # path @ [CHR 0x60]"

definition after_the_fact :: "advisory_stage \<Rightarrow> string \<Rightarrow> string" where
  "after_the_fact stage path =
     (if stage = Post_tool_use then '' You just wrote '' @ quoted path @ '' too.'' else '''')"

definition renderMessage :: "advisory_stage \<Rightarrow> string \<Rightarrow> string \<Rightarrow> string option \<Rightarrow> int option \<Rightarrow> string" where
  "renderMessage stage path tool agent runningForMs =
     agent_label agent @ '' has a call in flight ('' @ tool @ '') that started touching '' @ quoted path @ '' ''
     @ rounded runningForMs 1000 0 @ ''s ago and has not finished.'' @ after_the_fact stage path
     @ '' Same file does not mean same work.''"

definition renderRecentWriteMessage :: "advisory_stage \<Rightarrow> string \<Rightarrow> string option \<Rightarrow> int option \<Rightarrow> string" where
  "renderRecentWriteMessage stage path agent agoMs =
     (let minutes = rounded agoMs 60000 1
      in agent_label agent @ '' wrote '' @ quoted path @ '' '' @ minutes @ '' ''
         @ (if minutes = ''1'' then ''minute'' else ''minutes'') @ '' ago.'' @ after_the_fact stage path
         @ '' Same file does not mean same work.'')"

definition unreportedRecentWrites ::
    "hook_env \<Rightarrow> int \<Rightarrow> string list \<Rightarrow> string \<Rightarrow> cursors \<Rightarrow> recent_write list \<times> cursors" where
  "unreportedRecentWrites env now files session cursors =
     (let existed = (map_get cursors session \<noteq> None);
          (watermark, cursors') = readWatermark (he_date_parse env) session (toISOString now) cursors
      in (readRecentWrites (he_json_parse env) (he_date_parse env) (he_lc env) now files (Some session)
            (if existed then Some watermark else None), cursors'))"

definition computeAdvisoryFor ::
    "hook_env \<Rightarrow> int \<Rightarrow> advisory_stage \<Rightarrow> jsval \<Rightarrow> string list \<Rightarrow> cursors \<Rightarrow> contention_advisory option \<times> cursors" where
  "computeAdvisoryFor env now stage hook files cursors =
     (if stringField hook ''hook_event_name'' \<noteq> Some (stage_name stage) then (None, cursors)
      else case (stringField hook ''tool_name'', stringField (tool_input_of hook) ''file_path'') of
          (Some tool, Some path) \<Rightarrow>
            if tool \<notin> set advisory_host_tools then (None, cursors)
            else
              let session = stringField hook ''session_id'';
                  inFlight = readInFlightCalls (he_json_parse env) (he_date_parse env) now files
                    (map_option Some (session_agent session))
              in (case List.find (\<lambda>call. fl_operation call = Some path) inFlight of
                    Some collision \<Rightarrow>
                      (Some \<lparr>cy_path = path, cy_agentId = fl_agentId collision, cy_hostToolName = fl_hostToolName collision,
                         cy_runningForMs = fl_runningForMs collision,
                         cy_message = renderMessage stage path (fl_hostToolName collision) (fl_agentId collision)
                           (fl_runningForMs collision), cy_delivery = None\<rparr>, cursors)
                  | None \<Rightarrow>
                      (case session of
                         None \<Rightarrow> (None, cursors)
                       | Some s \<Rightarrow>
                           (case unreportedRecentWrites env now files s cursors of
                              (writes, cursors') \<Rightarrow>
                                (case List.find (\<lambda>w. wr_path w = path) writes of
                                   None \<Rightarrow> (None, cursors')
                                 | Some w \<Rightarrow>
                                     let agoMs = map_option (\<lambda>t. now - t) (he_date_parse env (wr_at w))
                                     in (Some \<lparr>cy_path = path, cy_agentId = wr_agentId w, cy_hostToolName = wr_hostToolName w,
                                           cy_runningForMs = agoMs,
                                           cy_message = renderRecentWriteMessage stage path (wr_agentId w) agoMs,
                                           cy_delivery = Some (s, wr_at w)\<rparr>, cursors')))))
        | _ \<Rightarrow> (None, cursors))"

definition computeContentionAdvisory ::
    "hook_env \<Rightarrow> int \<Rightarrow> jsval \<Rightarrow> string list \<Rightarrow> cursors \<Rightarrow> contention_advisory option \<times> cursors" where
  "computeContentionAdvisory env now hook files cursors = computeAdvisoryFor env now Pre_tool_use hook files cursors"

definition computePostWriteAdvisory ::
    "hook_env \<Rightarrow> int \<Rightarrow> jsval \<Rightarrow> string list \<Rightarrow> cursors \<Rightarrow> contention_advisory option \<times> cursors" where
  "computePostWriteAdvisory env now hook files cursors = computeAdvisoryFor env now Post_tool_use hook files cursors"

definition advanceDeliveredFact :: "contention_advisory \<Rightarrow> cursors \<Rightarrow> cursors" where
  "advanceDeliveredFact advisory cursors =
     (case cy_delivery advisory of None \<Rightarrow> cursors | Some (session, moment) \<Rightarrow> advanceWatermark session moment cursors)"

section \<open>Before the call\<close>

definition own_agent :: "jsval \<Rightarrow> string option option" where
  "own_agent hook = map_option agentIdForSession (text_of (prop_of ''session_id'' hook))"

definition retry_agent :: "jsval \<Rightarrow> string" where
  "retry_agent hook = (case own_agent hook of Some (Some agent) \<Rightarrow> agent | _ \<Rightarrow> ''unknown'')"

definition first_other_agent :: "contention_advisory option \<Rightarrow> contention_result \<Rightarrow> string option" where
  "first_other_agent advisory contention =
     (case Option.bind advisory cy_agentId of
        Some agent \<Rightarrow> Some agent
      | None \<Rightarrow>
          (case ct_claims contention of
             c # cs \<Rightarrow> Some (cl_agentId c)
           | [] \<Rightarrow> (case ct_inFlight contention of call # calls \<Rightarrow> fl_agentId call | [] \<Rightarrow> None)))"

definition leave_sidecar ::
    "int \<Rightarrow> jsval \<Rightarrow> string \<Rightarrow> string option \<Rightarrow> string \<Rightarrow> contention_advisory option \<Rightarrow> pending_files \<Rightarrow> pending_files" where
  "leave_sidecar now hook path other tool advisory files =
     (case stringField hook ''tool_use_id'' of
        None \<Rightarrow> files
      | Some toolUseId \<Rightarrow> writePendingAdvisory toolUseId
          \<lparr>pa_path = path, pa_agentId = other, pa_hostToolName = tool,
           pa_runningForMs = (case advisory of None \<Rightarrow> Some 0 | Some a \<Rightarrow> cy_runningForMs a),
           pa_detectedAt = toISOString now\<rparr> files)"

definition deny_reason :: "string \<Rightarrow> rat \<Rightarrow> string" where
  "deny_reason path retry = ''Contention detected on '' @ path @ ''. Call patchmesh_resolve to check and retry. Retry ''
     @ num_str retry @ ''/3.''"

definition emitAdvisory :: "hook_env \<Rightarrow> int \<Rightarrow> jsval \<Rightarrow> hook_state \<Rightarrow> hook_output list \<times> hook_state" where
  "emitAdvisory env now hook st =
     (case (text_of (prop_of ''tool_name'' hook), text_of (prop_of ''file_path'' (tool_input_of hook))) of
        (Some tool, Some filePath) \<Rightarrow>
          if prop_of ''hook_event_name'' hook \<noteq> JStr ''PreToolUse'' then ([], st)
          else
            let (advisory, cursors) = computeContentionAdvisory env now hook (journal_files st) (hs_cursors st);
                contention = checkContention (he_json_parse env) (he_date_parse env) now (hs_claims st) (journal_files st)
                  filePath (own_agent hook);
                st' = st\<lparr>hs_cursors := cursors\<rparr>
            in if advisory = None \<and> \<not> ct_hasContention contention then ([], st')
               else
                 let path = (case advisory of None \<Rightarrow> filePath | Some a \<Rightarrow> cy_path a);
                     told = (case advisory of None \<Rightarrow> cursors | Some a \<Rightarrow> advanceDeliveredFact a cursors);
                     pending = leave_sidecar now hook path (first_other_agent advisory contention) tool advisory (hs_pending st)
                 in if shouldAllow (he_sha env) path (retry_agent hook) (hs_retries st)
                    then ([], st'\<lparr>hs_cursors := told, hs_pending := pending\<rparr>)
                    else
                      let (retry, retries) = incrementRetry (he_sha env) now path (retry_agent hook) (hs_retries st)
                      in ([Denied (deny_reason path (ry_retryCount retry))],
                          st'\<lparr>hs_cursors := told, hs_pending := pending, hs_retries := retries\<rparr>)
      | _ \<Rightarrow> ([], st))"

section \<open>After the call\<close>

text \<open>\<open>JSON.stringify\<close> wrote a running time that is \<open>NaN\<close> as \<open>null\<close>, which counts as 0.\<close>

definition sidecar_message :: "pending_advisory \<Rightarrow> string" where
  "sidecar_message p = renderMessage Post_tool_use (pa_path p) (pa_hostToolName p) (pa_agentId p)
     (Some (case pa_runningForMs p of None \<Rightarrow> 0 | Some ms \<Rightarrow> ms))"

definition post_sidecar :: "jsval \<Rightarrow> hook_state \<Rightarrow> hook_output list \<times> hook_state" where
  "post_sidecar hook st =
     (case stringField hook ''tool_use_id'' of
        None \<Rightarrow> ([], st)
      | Some toolUseId \<Rightarrow>
          (case readAndDeletePendingAdvisory toolUseId (hs_pending st) of
             (found, files) \<Rightarrow>
               ((case found of None \<Rightarrow> [] | Some p \<Rightarrow> [Additional_context ''PostToolUse'' (sidecar_message p)]),
                st\<lparr>hs_pending := files\<rparr>)))"

definition post_release :: "jsval \<Rightarrow> hook_state \<Rightarrow> hook_state" where
  "post_release hook st =
     (case (text_of (prop_of ''tool_name'' hook), text_of (prop_of ''file_path'' (tool_input_of hook)),
            text_of (prop_of ''session_id'' hook)) of
        (Some tool, Some filePath, Some session) \<Rightarrow>
          if tool \<in> set advisory_host_tools
          then (case agentIdForSession session of
              None \<Rightarrow> st
            | Some agent \<Rightarrow> st\<lparr>hs_claims := releaseClaims agent [filePath] (hs_claims st)\<rparr>)
          else st
      | _ \<Rightarrow> st)"

definition post_snapshot :: "file_snapshot list \<Rightarrow> jsval \<Rightarrow> hook_state \<Rightarrow> hook_state" where
  "post_snapshot current hook st =
     (if prop_of ''tool_name'' hook \<noteq> JStr ''Bash'' then st
      else let diff = diffSnapshots (hs_snapshot st) current
           in st\<lparr>hs_snapshot := current,
                 hs_last_diff := (if sd_added diff @ sd_modified diff @ sd_deleted diff = [] then hs_last_diff st else Some diff)\<rparr>)"

definition post_mail :: "hook_env \<Rightarrow> int \<Rightarrow> jsval \<Rightarrow> hook_state \<Rightarrow> hook_output list \<times> hook_state" where
  "post_mail env now hook st =
     (case (text_of (prop_of ''session_id'' hook), hs_ledger st) of
        (Some session, Some db) \<Rightarrow>
          (case tryMailboxDelivery (he_number env) (he_dots env) (he_raw env) (he_date_parse env) now
                  (case agentIdForSession session of None \<Rightarrow> ''null'' | Some agent \<Rightarrow> agent) db (hs_mail st) of
             (said, mail) \<Rightarrow>
               ((case said of None \<Rightarrow> [] | Some message \<Rightarrow> [Additional_context ''PostToolUse'' message]), st\<lparr>hs_mail := mail\<rparr>))
      | _ \<Rightarrow> ([], st))"

definition emitPostWriteAdvisory ::
    "hook_env \<Rightarrow> int \<Rightarrow> file_snapshot list \<Rightarrow> jsval \<Rightarrow> hook_state \<Rightarrow> hook_output list \<times> hook_state" where
  "emitPostWriteAdvisory env now current hook st =
     (case computePostWriteAdvisory env now hook (journal_files st) (hs_cursors st) of
        (Some advisory, cursors) \<Rightarrow>
          ([Additional_context ''PostToolUse'' (cy_message advisory)],
           st\<lparr>hs_cursors := advanceDeliveredFact advisory cursors\<rparr>)
      | (None, cursors) \<Rightarrow>
          if prop_of ''hook_event_name'' hook \<noteq> JStr ''PostToolUse'' then ([], st\<lparr>hs_cursors := cursors\<rparr>)
          else
            let (said, st1) = post_sidecar hook (st\<lparr>hs_cursors := cursors\<rparr>);
                (mailed, st2) = post_mail env now hook (post_snapshot current hook (post_release hook st1))
            in (said @ mailed, st2))"

section \<open>At the start of a turn and at the end of a session\<close>

record turn_start_advisory =
  ty_paths :: "string list"
  ty_withheld :: nat
  ty_agents :: "string list"
  ty_message :: string
  ty_delivery :: "(string \<times> string) option"

definition turn_start_path_limit :: nat where "turn_start_path_limit = 5"

definition renderTurnStartMessage :: "string list \<Rightarrow> nat \<Rightarrow> string list \<Rightarrow> string" where
  "renderTurnStartMessage paths withheld agents =
     (if length agents = 1 then ''Another agent has'' else nat_str (length agents) @ '' other agents have'')
     @ '' work in flight or just finished in this repository, in:'' @ newline
     @ join newline (map (\<lambda>path. ''- '' @ quoted path) (take turn_start_path_limit paths))
     @ (if 0 < withheld then newline @ ''('' @ nat_str withheld @ '' further path(s) not named.)'' else '''') @ newline
     @ ''Same file does not mean same work. This is what was observed at the start of this turn, ''
     @ ''not a claim that anything is contested.''"

definition computeTurnStartAdvisory ::
    "hook_env \<Rightarrow> int \<Rightarrow> jsval \<Rightarrow> string list \<Rightarrow> cursors \<Rightarrow> turn_start_advisory option \<times> cursors" where
  "computeTurnStartAdvisory env now hook files cursors =
     (if stringField hook ''hook_event_name'' \<noteq> Some ''UserPromptSubmit'' then (None, cursors)
      else
        let session = stringField hook ''session_id'';
            calls = filter (\<lambda>call. fl_hostToolName call \<in> set advisory_host_tools \<and> fl_operation call \<noteq> None)
              (readInFlightCalls (he_json_parse env) (he_date_parse env) now files (map_option Some (session_agent session)));
            (writes, cursors') = (case session of None \<Rightarrow> ([], cursors) | Some s \<Rightarrow> unreportedRecentWrites env now files s cursors);
            paths = js_uniq (List.map_filter fl_operation calls @ map wr_path writes);
            agents = js_uniq (map (\<lambda>call. agent_label (fl_agentId call)) calls
              @ map (\<lambda>w. agent_label (wr_agentId w)) writes);
            withheld = length paths - turn_start_path_limit
        in if paths = [] then (None, cursors')
           else (Some \<lparr>ty_paths = paths, ty_withheld = withheld, ty_agents = agents,
                  ty_message = renderTurnStartMessage paths withheld agents,
                  ty_delivery = (case (session, writes) of (Some s, w # ws) \<Rightarrow> Some (s, wr_at w) | _ \<Rightarrow> None)\<rparr>, cursors'))"

definition emitTurnStartAdvisory :: "hook_env \<Rightarrow> int \<Rightarrow> jsval \<Rightarrow> hook_state \<Rightarrow> hook_output list \<times> hook_state" where
  "emitTurnStartAdvisory env now hook st =
     (case computeTurnStartAdvisory env now hook (journal_files st) (hs_cursors st) of
        (None, cursors) \<Rightarrow> ([], st\<lparr>hs_cursors := cursors\<rparr>)
      | (Some advisory, cursors) \<Rightarrow>
          ([Additional_context ''UserPromptSubmit'' (ty_message advisory)],
           st\<lparr>hs_cursors := (case ty_delivery advisory of
               None \<Rightarrow> cursors | Some (session, moment) \<Rightarrow> advanceWatermark session moment cursors)\<rparr>))"

definition emitSessionEndCleanup :: "hook_env \<Rightarrow> int \<Rightarrow> hook_state \<Rightarrow> hook_state" where
  "emitSessionEndCleanup env now st =
     st\<lparr>hs_pending := cleanupPendingAdvisories (hs_pending st),
       hs_claims := snd (cleanupExpiredClaims (he_date_parse env) now (hs_claims st)),
       hs_retries := snd (cleanupRetryFiles (he_date_parse env) now (hs_retries st)),
       hs_mail := (hs_mail st)\<lparr>dl_markers := snd (cleanupDeliveredMarkers now (dl_markers (hs_mail st)))\<rparr>\<rparr>"

section \<open>One invocation\<close>

text \<open>
  \<open>main\<close> after the payload has been redacted: the call is journalled first, then each stage runs.  \<open>safe\<close> is the
  redacted payload and \<open>hookName\<close> the \<open>hook_event_name\<close> of the raw one.
\<close>

definition record_hook ::
    "hook_env \<Rightarrow> int \<Rightarrow> file_snapshot list \<Rightarrow> jsval \<Rightarrow> jsval \<Rightarrow> hook_state \<Rightarrow> hook_output list \<times> hook_state" where
  "record_hook env now current safe hookName st =
     (let st0 = st\<lparr>hs_journal := appendJournalEntry (hs_journal st) safe (toISOString now)\<rparr>;
          (before, st1) = emitAdvisory env now safe st0;
          (after, st2) = emitPostWriteAdvisory env now current safe st1;
          (start, st3) = emitTurnStartAdvisory env now safe st2
      in (before @ after @ start,
          if hookName = JStr ''SessionEnd'' then emitSessionEndCleanup env now st3 else st3))"


section \<open>Why a call is refused\<close>

text \<open>
  What a refusal may rest on, read off the journal: a finished call of another session within half an hour that names
  the path.  The journal is not asked which tool it was, so a read counts as well.
\<close>

definition wrote :: "(string \<Rightarrow> int option) \<Rightarrow> int \<Rightarrow> string \<Rightarrow> string \<Rightarrow> journal_entry \<Rightarrow> bool" where
  "wrote date_parse now session path e \<longleftrightarrow>
     isRecord (je_payload e) \<and> prop_of ''hook_event_name'' (je_payload e) = JStr ''PostToolUse''
     \<and> prop_of ''session_id'' (je_payload e) \<noteq> JStr session
     \<and> stringField (tool_input_of (je_payload e)) ''file_path'' = Some path
     \<and> (\<forall>t. date_parse (je_at e) = Some t \<longrightarrow> t \<le> now \<and> now - t \<le> recent_write_ms)"

definition told_writes :: "hook_env \<Rightarrow> int \<Rightarrow> string list \<Rightarrow> string \<Rightarrow> cursors \<Rightarrow> recent_write list" where
  "told_writes env now files session cursors = fst (unreportedRecentWrites env now files session cursors)"

lemma recent_writes_from:
  assumes "w \<in> set (readRecentWrites json_parse date_parse lc now files (Some session) since)"
  shows "\<exists>e\<in>set (journal_entries json_parse files). wrote date_parse now session (wr_path w) e
    \<and> wr_at w = je_at e \<and> (\<forall>s. since = Some s \<longrightarrow> s < wr_at w)"
proof -
  from assms obtain e where e: "e \<in> set (journal_entries json_parse files)"
      "recent_write_of date_parse now (Some session) since e = Some w"
    by (auto simp: readRecentWrites_def map_filter_set dest!: in_set_takeD)
  then have "wrote date_parse now session (wr_path w) e \<and> wr_at w = je_at e \<and> (\<forall>s. since = Some s \<longrightarrow> s < wr_at w)"
    by (auto simp: recent_write_of_def wrote_def Let_def split: if_splits option.splits)
  with e(1) show ?thesis by blast
qed

lemma told_writes_from:
  "w \<in> set (told_writes env now files session cursors) \<Longrightarrow>
     \<exists>e\<in>set (journal_entries (he_json_parse env) files). wrote (he_date_parse env) now session (wr_path w) e \<and> wr_at w = je_at e"
  by (auto simp: told_writes_def unreportedRecentWrites_def Let_def split: prod.splits dest!: recent_writes_from)

lemma advisory_cases:
  assumes "computeAdvisoryFor env now stage hook files cursors = (Some a, cursors')"
  shows "stringField hook ''hook_event_name'' = Some (stage_name stage)"
    and "stringField (tool_input_of hook) ''file_path'' = Some (cy_path a)"
    and "(cy_delivery a = None \<and> (\<exists>c\<in>set (readInFlightCalls (he_json_parse env) (he_date_parse env) now files
            (map_option Some (session_agent (stringField hook ''session_id'')))). fl_operation c = Some (cy_path a)))
      \<or> (\<exists>s. stringField hook ''session_id'' = Some s
          \<and> (\<exists>w\<in>set (told_writes env now files s cursors). wr_path w = cy_path a \<and> cy_delivery a = Some (s, wr_at w)))"
  using assms
  by (auto simp: computeAdvisoryFor_def Let_def told_writes_def split: if_splits option.splits prod.splits
      dest!: find_SomeD)


lemma refusal_cases:
  assumes "Denied r \<in> set (fst (emitAdvisory env now hook st))"
  obtains path where "text_of (prop_of ''file_path'' (tool_input_of hook)) = Some path"
    and "prop_of ''hook_event_name'' hook = JStr ''PreToolUse''"
    and "\<not> shouldAllow (he_sha env) path (retry_agent hook) (hs_retries st)"
    and "hs_retries (snd (emitAdvisory env now hook st))
      = snd (incrementRetry (he_sha env) now path (retry_agent hook) (hs_retries st))"
    and "(\<exists>a cursors. computeContentionAdvisory env now hook (journal_files st) (hs_cursors st) = (Some a, cursors) \<and> cy_path a = path)
      \<or> ct_hasContention (checkContention (he_json_parse env) (he_date_parse env) now (hs_claims st) (journal_files st)
          path (own_agent hook))"
proof -
  obtain tool path where named: "text_of (prop_of ''tool_name'' hook) = Some tool"
      "text_of (prop_of ''file_path'' (tool_input_of hook)) = Some path"
      "prop_of ''hook_event_name'' hook = JStr ''PreToolUse''"
    using assms by (auto simp: emitAdvisory_def split: option.splits if_splits)
  obtain advisory cursors where advisory:
      "computeContentionAdvisory env now hook (journal_files st) (hs_cursors st) = (advisory, cursors)"
    by fastforce
  have same: "cy_path a = path" if "advisory = Some a" for a
    using advisory_cases(2) [OF advisory [unfolded computeContentionAdvisory_def that]] named(2)
    by (auto simp: stringField_def text_of_def split: jsval.splits if_splits)
  show ?thesis
    using assms same
    by (intro that [OF named(2,3)])
      (auto simp: emitAdvisory_def named advisory Let_def split: if_splits option.splits prod.splits)
qed

text \<open>The later stages refuse nothing and leave the retry counters alone.\<close>

lemma post_sidecar_frame [frame_simps]:
  "Denied r \<notin> set (fst (post_sidecar hook st))" "hs_retries (snd (post_sidecar hook st)) = hs_retries st"
  by (auto simp: post_sidecar_def split: option.splits prod.splits)

lemma post_mail_frame [frame_simps]:
  "Denied r \<notin> set (fst (post_mail env now hook st))" "hs_retries (snd (post_mail env now hook st)) = hs_retries st"
  by (auto simp: post_mail_def split: option.splits prod.splits)

lemma post_work_frame [frame_simps]:
  "hs_retries (post_release hook st) = hs_retries st" "hs_retries (post_snapshot current hook st) = hs_retries st"
  by (simp_all add: post_release_def post_snapshot_def Let_def split: option.splits)

lemma post_write_frame [frame_simps]:
  "Denied r \<notin> set (fst (emitPostWriteAdvisory env now current hook st))"
  "hs_retries (snd (emitPostWriteAdvisory env now current hook st)) = hs_retries st"
proof -
  obtain advisory cursors where c: "computePostWriteAdvisory env now hook (journal_files st) (hs_cursors st) = (advisory, cursors)"
    by fastforce
  show "Denied r \<notin> set (fst (emitPostWriteAdvisory env now current hook st))"
    "hs_retries (snd (emitPostWriteAdvisory env now current hook st)) = hs_retries st"
    by (simp_all add: emitPostWriteAdvisory_def c case_prod_beta Let_def frame_simps split: option.splits)
qed

lemma turn_start_frame [frame_simps]:
  "Denied r \<notin> set (fst (emitTurnStartAdvisory env now hook st))"
  "hs_retries (snd (emitTurnStartAdvisory env now hook st)) = hs_retries st"
  by (simp_all add: emitTurnStartAdvisory_def case_prod_beta split: option.splits)

lemma only_first_stage_refuses:
  fixes env now current hook hookName st
  defines "st0 \<equiv> st\<lparr>hs_journal := appendJournalEntry (hs_journal st) hook (toISOString now)\<rparr>"
  shows "Denied r \<in> set (fst (record_hook env now current hook hookName st)) \<longleftrightarrow> Denied r \<in> set (fst (emitAdvisory env now hook st0))"
    and "hookName \<noteq> JStr ''SessionEnd'' \<Longrightarrow>
      hs_retries (snd (record_hook env now current hook hookName st)) = hs_retries (snd (emitAdvisory env now hook st0))"
  by (simp_all add: record_hook_def st0_def case_prod_beta Let_def frame_simps)

text \<open>Without a refusal the counters stay.\<close>

lemma unrefused_retries:
  "\<forall>r. Denied r \<notin> set (fst (emitAdvisory env now hook st)) \<Longrightarrow>
     hs_retries (snd (emitAdvisory env now hook st)) = hs_retries st"
  by (auto simp: emitAdvisory_def case_prod_beta Let_def split: option.splits if_splits)


definition journalled :: "int \<Rightarrow> jsval \<Rightarrow> hook_state \<Rightarrow> hook_state" where
  "journalled now hook st = st\<lparr>hs_journal := appendJournalEntry (hs_journal st) hook (toISOString now)\<rparr>"

lemma contention_from:
  assumes "ct_hasContention (checkContention json_parse date_parse now claims files path (Some (Some me)))"
  shows "(\<exists>c. in_flight date_parse now (journal_entries json_parse files) (Some (Some me)) c \<and> fl_filePath c = Some path)
    \<or> (\<exists>c\<in>set (readActiveClaims date_parse now claims). cl_agentId c \<noteq> me \<and> JStr path \<in> set (cl_paths c))"
  using assms listed_in_flight by (fastforce simp: checkContention_def Let_def filter_empty_conv)

lemma advisory_from:
  assumes "computeAdvisoryFor env now stage hook files cursors = (Some a, cursors')"
    and "stringField hook ''session_id'' = Some s" and "agentIdForSession s = Some me"
  shows "(\<exists>c. in_flight (he_date_parse env) now (journal_entries (he_json_parse env) files) (Some (Some me)) c
        \<and> fl_operation c = Some (cy_path a))
    \<or> (\<exists>e\<in>set (journal_entries (he_json_parse env) files). wrote (he_date_parse env) now s (cy_path a) e)"
  using advisory_cases(3) [OF assms(1)] assms(2,3) told_writes_from [of _ env now files s cursors]
  by (fastforce simp: session_agent_def dest: listed_in_flight)

text \<open>
  C15: A call of a session whose id gives an agent is refused only before it runs, and only because of someone else: a
  call of another agent in flight on the path, a finished call of another session that names the file (a read
  included) in the last half hour (or whose line bears no date), or another agent's active claim on it; and only
  while the same agent has been refused the path fewer than three times.
\<close>

theorem refused_for_another:
  assumes "Denied r \<in> set (fst (record_hook env now current hook hookName st))"
    and "stringField hook ''session_id'' = Some s" and "agentIdForSession s = Some me"
    and "entries = journal_entries (he_json_parse env) (journal_files (journalled now hook st))"
  shows "prop_of ''hook_event_name'' hook = JStr ''PreToolUse''
    \<and> (\<exists>path. text_of (prop_of ''file_path'' (tool_input_of hook)) = Some path
        \<and> retry_count (he_sha env) path me (hs_retries st) < max_retries
        \<and> ((\<exists>c. in_flight (he_date_parse env) now entries (Some (Some me)) c
               \<and> (fl_operation c = Some path \<or> fl_filePath c = Some path))
           \<or> (\<exists>e\<in>set entries. wrote (he_date_parse env) now s path e)
           \<or> (\<exists>c\<in>set (readActiveClaims (he_date_parse env) now (hs_claims st)).
               cl_agentId c \<noteq> me \<and> JStr path \<in> set (cl_paths c))))"
proof -
  let ?st = "journalled now hook st"
  have "Denied r \<in> set (fst (emitAdvisory env now hook ?st))"
    using assms(1) by (simp add: only_first_stage_refuses journalled_def)
  then obtain path where path: "text_of (prop_of ''file_path'' (tool_input_of hook)) = Some path"
      "prop_of ''hook_event_name'' hook = JStr ''PreToolUse''"
      "\<not> shouldAllow (he_sha env) path (retry_agent hook) (hs_retries ?st)"
      "(\<exists>a cursors. computeContentionAdvisory env now hook (journal_files ?st) (hs_cursors ?st) = (Some a, cursors) \<and> cy_path a = path)
        \<or> ct_hasContention (checkContention (he_json_parse env) (he_date_parse env) now (hs_claims ?st) (journal_files ?st)
            path (own_agent hook))"
    by (rule refusal_cases)
  have me: "own_agent hook = Some (Some me)" "retry_agent hook = me"
    using assms(2,3) by (auto simp: own_agent_def retry_agent_def stringField_def text_of_def split: jsval.splits if_splits)
  have "(\<exists>c. in_flight (he_date_parse env) now entries (Some (Some me)) c \<and> (fl_operation c = Some path \<or> fl_filePath c = Some path))
      \<or> (\<exists>e\<in>set entries. wrote (he_date_parse env) now s path e)
      \<or> (\<exists>c\<in>set (readActiveClaims (he_date_parse env) now (hs_claims st)). cl_agentId c \<noteq> me \<and> JStr path \<in> set (cl_paths c))"
    using path(4)
  proof
    assume "\<exists>a cursors. computeContentionAdvisory env now hook (journal_files ?st) (hs_cursors ?st) = (Some a, cursors) \<and> cy_path a = path"
    then obtain a cursors where "computeAdvisoryFor env now Pre_tool_use hook (journal_files ?st) (hs_cursors ?st) = (Some a, cursors)"
        "cy_path a = path"
      by (auto simp: computeContentionAdvisory_def)
    from advisory_from [OF this(1) assms(2,3)] this(2) show ?thesis unfolding assms(4) by blast
  next
    assume "ct_hasContention (checkContention (he_json_parse env) (he_date_parse env) now (hs_claims ?st) (journal_files ?st)
        path (own_agent hook))"
    from contention_from [OF this [unfolded me(1)]] show ?thesis by (auto simp: assms(4) journalled_def)
  qed
  then show ?thesis using path(1-3) by (auto simp: refused_below_limit me(2) journalled_def)
qed

section \<open>How often a call is refused\<close>

type_synonym hook_call = "int \<times> file_snapshot list \<times> jsval \<times> jsval"

fun is_denied :: "hook_output \<Rightarrow> bool" where
  "is_denied (Denied _) = True"
| "is_denied (Additional_context _ _) = False"

text \<open>How many of a run of hook invocations refuse this agent this path.\<close>

fun refusals :: "hook_env \<Rightarrow> string \<Rightarrow> string \<Rightarrow> hook_call list \<Rightarrow> hook_state \<Rightarrow> nat" where
  "refusals env path agent [] st = 0"
| "refusals env path agent ((now, current, hook, hookName) # calls) st =
     (case record_hook env now current hook hookName st of
        (said, st') \<Rightarrow>
          (if list_ex is_denied said \<and> retry_agent hook = agent
              \<and> text_of (prop_of ''file_path'' (tool_input_of hook)) = Some path
           then 1 else 0) + refusals env path agent calls st')"

lemma some_denied: "list_ex is_denied said \<longleftrightarrow> (\<exists>r. Denied r \<in> set said)"
  by (induction said) (auto elim: is_denied.elims)

lemma hook_retries:
  assumes "hookName \<noteq> JStr ''SessionEnd''" and "record_hook env now current hook hookName st = (said, st')"
  shows "retry_count (he_sha env) path agent (hs_retries st) \<le> retry_count (he_sha env) path agent (hs_retries st')"
    and "list_ex is_denied said \<Longrightarrow> retry_agent hook = agent \<Longrightarrow>
      text_of (prop_of ''file_path'' (tool_input_of hook)) = Some path \<Longrightarrow>
      retry_count (he_sha env) path agent (hs_retries st) < 3
      \<and> retry_count (he_sha env) path agent (hs_retries st') = retry_count (he_sha env) path agent (hs_retries st) + 1"
proof -
  let ?st = "journalled now hook st"
  let ?count = "\<lambda>st. retry_count (he_sha env) path agent (hs_retries st)"
  have st': "hs_retries st' = hs_retries (snd (emitAdvisory env now hook ?st))"
    using only_first_stage_refuses(2) [OF assms(1), of env now current hook st] assms(2) by (simp add: journalled_def)
  have refused: "(\<exists>r. Denied r \<in> set said) \<longleftrightarrow> (\<exists>r. Denied r \<in> set (fst (emitAdvisory env now hook ?st)))"
    using only_first_stage_refuses(1) [of _ env now current hook hookName st] assms(2) by (simp add: journalled_def)
  have same: "hs_retries ?st = hs_retries st" by (simp add: journalled_def)
  show "?count st \<le> ?count st'"
  proof (cases "\<exists>r. Denied r \<in> set (fst (emitAdvisory env now hook ?st))")
    case True
    then obtain r where "Denied r \<in> set (fst (emitAdvisory env now hook ?st))" by blast
    then obtain path' where "hs_retries st' = snd (incrementRetry (he_sha env) now path' (retry_agent hook) (hs_retries st))"
      unfolding st' by (rule refusal_cases) (simp add: same)
    then show ?thesis by (simp add: retry_count_increment)
  next
    case False
    then show ?thesis using unrefused_retries [of env now hook ?st] by (simp add: st' same)
  qed
  assume "list_ex is_denied said" and agent: "retry_agent hook = agent"
    and path: "text_of (prop_of ''file_path'' (tool_input_of hook)) = Some path"
  then obtain r where "Denied r \<in> set (fst (emitAdvisory env now hook ?st))" using some_denied refused by blast
  then obtain "\<not> shouldAllow (he_sha env) path agent (hs_retries st)"
      and "hs_retries st' = snd (incrementRetry (he_sha env) now path agent (hs_retries st))"
    unfolding st' by (rule refusal_cases) (use agent path same in simp)
  then show "?count st < 3 \<and> ?count st' = ?count st + 1"
    by (simp add: retry_count_increment refused_below_limit max_retries_def)
qed

lemma refusals_room:
  assumes "\<forall>(now, current, hook, hookName)\<in>set calls. hookName \<noteq> JStr ''SessionEnd''"
  shows "refusals env path agent calls st = 0
    \<or> of_nat (refusals env path agent calls st) + retry_count (he_sha env) path agent (hs_retries st) < 4"
  using assms
proof (induction calls arbitrary: st)
  case (Cons call calls)
  obtain now current hook hookName where call: "call = (now, current, hook, hookName)" by (cases call)
  obtain said st' where run: "record_hook env now current hook hookName st = (said, st')" by fastforce
  have name: "hookName \<noteq> JStr ''SessionEnd''" using Cons.prems by (simp add: call)
  note counted = hook_retries [OF name run, where path = path and agent = agent]
  have "refusals env path agent calls st' = 0
      \<or> of_nat (refusals env path agent calls st') + retry_count (he_sha env) path agent (hs_retries st') < 4"
    using Cons by auto
  then show ?case using counted by (auto simp: call run)
qed simp

text \<open>
  C14: However often hooks run, an agent is refused a path at most three times before the session's end cleans up;
  after that the call goes through although the contention is still there.
\<close>

theorem refusals_bounded:
  assumes "\<forall>(now, current, hook, hookName)\<in>set calls. hookName \<noteq> JStr ''SessionEnd''"
    and "\<forall>state. readRetryState (he_sha env) path agent (hs_retries st) = Some state \<longrightarrow> 0 \<le> ry_retryCount state"
  shows "refusals env path agent calls st \<le> 3"
proof -
  have "0 \<le> retry_count (he_sha env) path agent (hs_retries st)"
    using assms(2) by (simp add: retry_count_def split: option.split)
  then have "(of_nat (refusals env path agent calls st) :: rat) < of_nat 4"
    using refusals_room [OF assms(1), of env path agent st] by auto
  then show ?thesis by (simp only: of_nat_less_iff)
qed


section \<open>A write is told once\<close>

lemma stored_after_advance:
  "date_parse moment \<noteq> None \<Longrightarrow>
     stored_watermark date_parse (map_get (advanceWatermark session moment cursors) session) = Some moment"
  by (simp add: stored_watermark_def advanceWatermark_def prop_of_def text_of_def js_simps)

lemma told_after:
  assumes "stored_watermark (he_date_parse env) (map_get cursors session) = Some moment"
    and "w \<in> set (told_writes env now files session cursors)"
  shows "moment < wr_at w"
proof -
  from assms(1) have "map_get cursors session \<noteq> None" by (cases "map_get cursors session") (simp_all add: stored_watermark_def)
  with assms show ?thesis
    by (auto simp: told_writes_def unreportedRecentWrites_def readWatermark_def dest!: recent_writes_from)
qed

text \<open>
  A stage of a hook, of any session, run on the cursors it finds: the other files of the state may have changed in any
  way since the stage before.  The lines of the journal it reads carry dates.
\<close>

definition dated :: "hook_env \<Rightarrow> string list \<Rightarrow> bool" where
  "dated env files \<longleftrightarrow> list_all (\<lambda>e. he_date_parse env (je_at e) \<noteq> None) (journal_entries (he_json_parse env) files)"

inductive later_cursors :: "hook_env \<Rightarrow> cursors \<Rightarrow> cursors \<Rightarrow> bool" for env where
  same: "later_cursors env c c"
| before_call: "later_cursors env c (hs_cursors st) \<Longrightarrow> dated env (journal_files st)
    \<Longrightarrow> later_cursors env c (hs_cursors (snd (emitAdvisory env now hook st)))"
| after_call: "later_cursors env c (hs_cursors st) \<Longrightarrow> dated env (journal_files st)
    \<Longrightarrow> later_cursors env c (hs_cursors (snd (emitPostWriteAdvisory env now current hook st)))"
| turn_start: "later_cursors env c (hs_cursors st) \<Longrightarrow> dated env (journal_files st)
    \<Longrightarrow> later_cursors env c (hs_cursors (snd (emitTurnStartAdvisory env now hook st)))"

definition stands_at :: "hook_env \<Rightarrow> string \<Rightarrow> string \<Rightarrow> cursors \<Rightarrow> bool" where
  "stands_at env session moment cursors \<longleftrightarrow>
     (\<exists>m. stored_watermark (he_date_parse env) (map_get cursors session) = Some m \<and> moment \<le> m)"

lemma stands_at_advance:
  "he_date_parse env m \<noteq> None \<Longrightarrow> moment \<le> m \<Longrightarrow> stands_at env session moment (advanceWatermark session m cursors)"
  "s \<noteq> session \<Longrightarrow> stands_at env session moment cursors \<Longrightarrow> stands_at env session moment (advanceWatermark s m cursors)"
  by (auto simp: stands_at_def stored_after_advance) (auto simp: advanceWatermark_def js_simps)

lemma stands_at_look:
  assumes "stands_at env session moment cursors" and "unreportedRecentWrites env now files s cursors = (ws, cursors')"
    and "dated env files"
  shows "stands_at env session moment cursors'
    \<and> (\<forall>w \<in> set ws. stands_at env session moment (advanceWatermark s (wr_at w) cursors'))"
proof -
  obtain m where m: "stored_watermark (he_date_parse env) (map_get cursors session) = Some m" "moment \<le> m"
    using assms(1) by (auto simp: stands_at_def)
  have keeps: "stands_at env session moment cursors'"
    using assms(1,2) m stands_at_advance(2) [OF _ assms(1), of s]
    by (cases "s = session") (auto simp: unreportedRecentWrites_def readWatermark_def Let_def split: option.splits)
  have "stands_at env session moment (advanceWatermark s (wr_at w) cursors')" if w: "w \<in> set ws" for w
  proof (cases "s = session")
    case True
    have told: "w \<in> set (told_writes env now files s cursors)" using w assms(2) by (simp add: told_writes_def)
    then have "moment \<le> wr_at w" using told_after [of env cursors s m] m True by fastforce
    moreover have "he_date_parse env (wr_at w) \<noteq> None"
      using told_writes_from [OF told] assms(3) by (auto simp: dated_def list_all_iff)
    ultimately show ?thesis using stands_at_advance(1) True by blast
  qed (use stands_at_advance(2) keeps in blast)
  with keeps show ?thesis by blast
qed

lemma stands_at_advisory:
  assumes "stands_at env session moment cursors" and "computeAdvisoryFor env now stage hook files cursors = (advisory, cursors')"
    and "dated env files"
  shows "stands_at env session moment cursors'
    \<and> (\<forall>a. advisory = Some a \<longrightarrow> stands_at env session moment (advanceDeliveredFact a cursors'))"
proof -
  note look = stands_at_look [OF assms(1) _ assms(3), of now]
  show ?thesis
    using assms(1,2) look
    by (auto simp: computeAdvisoryFor_def Let_def advanceDeliveredFact_def split: if_splits option.splits prod.splits
        dest!: find_SomeD)
qed

lemma cursor_frames [frame_simps]:
  "hs_cursors (snd (post_sidecar hook st)) = hs_cursors st" "hs_cursors (snd (post_mail env now hook st)) = hs_cursors st"
  "hs_cursors (post_release hook st) = hs_cursors st" "hs_cursors (post_snapshot current hook st) = hs_cursors st"
  by (simp_all add: post_sidecar_def post_mail_def post_release_def post_snapshot_def case_prod_beta Let_def
      split: option.splits)

lemma stands_at_stages:
  assumes "stands_at env session moment (hs_cursors st)" and "dated env (journal_files st)"
  shows "stands_at env session moment (hs_cursors (snd (emitAdvisory env now hook st)))"
    and "stands_at env session moment (hs_cursors (snd (emitPostWriteAdvisory env now current hook st)))"
    and "stands_at env session moment (hs_cursors (snd (emitTurnStartAdvisory env now hook st)))"
proof -
  obtain a c where pre: "computeAdvisoryFor env now Pre_tool_use hook (journal_files st) (hs_cursors st) = (a, c)" by fastforce
  from stands_at_advisory [OF assms(1) pre assms(2)]
  show "stands_at env session moment (hs_cursors (snd (emitAdvisory env now hook st)))"
    using assms(1) by (auto simp: emitAdvisory_def computeContentionAdvisory_def pre case_prod_beta Let_def split: option.splits)
next
  obtain a c where post: "computeAdvisoryFor env now Post_tool_use hook (journal_files st) (hs_cursors st) = (a, c)" by fastforce
  from stands_at_advisory [OF assms(1) post assms(2)]
  show "stands_at env session moment (hs_cursors (snd (emitPostWriteAdvisory env now current hook st)))"
    using assms(1) by (auto simp: emitPostWriteAdvisory_def computePostWriteAdvisory_def post case_prod_beta Let_def frame_simps
        split: option.splits)
next
  have "stands_at env session moment (case ty_delivery a of None \<Rightarrow> c | Some (s, m) \<Rightarrow> advanceWatermark s m c)"
    if "computeTurnStartAdvisory env now hook (journal_files st) (hs_cursors st) = (Some a, c)" for a c
    using that assms(1) stands_at_look [OF assms(1) _ assms(2), of now]
    by (auto simp: computeTurnStartAdvisory_def Let_def split: if_splits option.splits prod.splits list.splits)
  moreover have "stands_at env session moment c"
    if "computeTurnStartAdvisory env now hook (journal_files st) (hs_cursors st) = (None, c)" for c
    using that assms(1) stands_at_look [OF assms(1) _ assms(2), of now]
    by (auto simp: computeTurnStartAdvisory_def Let_def split: if_splits option.splits prod.splits)
  ultimately show "stands_at env session moment (hs_cursors (snd (emitTurnStartAdvisory env now hook st)))"
    by (auto simp: emitTurnStartAdvisory_def split: prod.splits option.splits)
qed

lemma later_cursors_stand:
  "later_cursors env c c' \<Longrightarrow> stands_at env session moment c \<Longrightarrow> stands_at env session moment c'"
  by (induction rule: later_cursors.induct) (simp_all add: stands_at_stages)

lemma stage_journals [frame_simps]:
  "hs_journal (snd (emitAdvisory env now hook st)) = hs_journal st"
  "hs_journal (snd (post_sidecar hook st)) = hs_journal st"
  "hs_journal (snd (post_mail env now hook st)) = hs_journal st"
  "hs_journal (post_release hook st) = hs_journal st"
  "hs_journal (post_snapshot current hook st) = hs_journal st"
  "hs_journal (snd (emitTurnStartAdvisory env now hook st)) = hs_journal st"
  by (simp_all add: emitAdvisory_def post_sidecar_def post_mail_def post_release_def post_snapshot_def
      emitTurnStartAdvisory_def case_prod_beta Let_def split: option.splits)

lemma post_write_journal [frame_simps]: "hs_journal (snd (emitPostWriteAdvisory env now current hook st)) = hs_journal st"
proof -
  obtain advisory cursors where c: "computePostWriteAdvisory env now hook (journal_files st) (hs_cursors st) = (advisory, cursors)"
    by fastforce
  show ?thesis by (simp add: emitPostWriteAdvisory_def c case_prod_beta Let_def frame_simps split: option.splits)
qed

lemma stage_draining [frame_simps]:
  "hs_draining (snd (emitAdvisory env now hook st)) = hs_draining st"
  "hs_draining (snd (post_sidecar hook st)) = hs_draining st"
  "hs_draining (snd (post_mail env now hook st)) = hs_draining st"
  "hs_draining (post_release hook st) = hs_draining st"
  "hs_draining (post_snapshot current hook st) = hs_draining st"
  by (simp_all add: emitAdvisory_def post_sidecar_def post_mail_def post_release_def post_snapshot_def case_prod_beta Let_def
      split: option.splits)

lemma stage_files:
  "journal_files (snd (emitAdvisory env now hook st)) = journal_files st"
  "journal_files (snd (emitPostWriteAdvisory env now current hook st)) = journal_files st"
proof -
  obtain advisory cursors where c: "computePostWriteAdvisory env now hook (journal_files st) (hs_cursors st) = (advisory, cursors)"
    by fastforce
  show "journal_files (snd (emitAdvisory env now hook st)) = journal_files st"
    "journal_files (snd (emitPostWriteAdvisory env now current hook st)) = journal_files st"
    by (simp_all add: frame_simps) (simp add: emitPostWriteAdvisory_def c case_prod_beta Let_def frame_simps split: option.splits)
qed

lemma later_hook:
  assumes "later_cursors env c (hs_cursors st)" and "dated env (journal_files (journalled now hook st))"
  shows "later_cursors env c (hs_cursors (snd (record_hook env now current hook hookName st)))"
proof -
  let ?st1 = "snd (emitAdvisory env now hook (journalled now hook st))"
  let ?st2 = "snd (emitPostWriteAdvisory env now current hook ?st1)"
  have files: "journal_files ?st1 = journal_files (journalled now hook st)" "journal_files ?st2 = journal_files ?st1"
    by (simp_all add: stage_files)
  have "later_cursors env c (hs_cursors ?st1)"
    by (rule before_call) (use assms in \<open>simp_all add: journalled_def\<close>)
  then have "later_cursors env c (hs_cursors ?st2)" by (rule after_call) (use assms(2) files in simp)
  then have "later_cursors env c (hs_cursors (snd (emitTurnStartAdvisory env now hook ?st2)))"
    by (rule turn_start) (use assms(2) files in simp)
  then show ?thesis
    by (simp add: record_hook_def journalled_def case_prod_beta Let_def emitSessionEndCleanup_def)
qed

text \<open>A session is told of writes up to a moment, by an advisory on one file or at the start of a turn.\<close>

definition tells_upto :: "hook_env \<Rightarrow> int \<Rightarrow> string list \<Rightarrow> string \<Rightarrow> string \<Rightarrow> cursors \<Rightarrow> cursors \<Rightarrow> bool" where
  "tells_upto env now files session moment cursors cursors' \<longleftrightarrow>
     (\<exists>stage hook a c. computeAdvisoryFor env now stage hook files cursors = (Some a, c)
        \<and> cy_delivery a = Some (session, moment) \<and> cursors' = advanceDeliveredFact a c)
   \<or> (\<exists>hook a c. computeTurnStartAdvisory env now hook files cursors = (Some a, c)
        \<and> ty_delivery a = Some (session, moment) \<and> cursors' = advanceWatermark session moment c)"

lemma tells_of_write:
  assumes "tells_upto env now files session moment cursors cursors'"
  shows "\<exists>w \<in> set (told_writes env now files session cursors). wr_at w = moment"
    and "\<exists>c. cursors' = advanceWatermark session moment c"
  using assms
proof -
  show "\<exists>w \<in> set (told_writes env now files session cursors). wr_at w = moment"
    using assms unfolding tells_upto_def
  proof
    assume "\<exists>stage hook a c. computeAdvisoryFor env now stage hook files cursors = (Some a, c)
      \<and> cy_delivery a = Some (session, moment) \<and> cursors' = advanceDeliveredFact a c"
    then show ?thesis using advisory_cases(3) by fastforce
  next
    assume "\<exists>hook a c. computeTurnStartAdvisory env now hook files cursors = (Some a, c)
        \<and> ty_delivery a = Some (session, moment) \<and> cursors' = advanceWatermark session moment c"
    then show ?thesis
      by (auto simp: computeTurnStartAdvisory_def Let_def told_writes_def split: if_splits option.splits prod.splits list.splits)
  qed
  show "\<exists>c. cursors' = advanceWatermark session moment c"
    using assms by (auto simp: tells_upto_def advanceDeliveredFact_def)
qed


text \<open>
  The first look of a session arms its cursor at that moment, so a write to any other path before it is never reported.
\<close>

lemma first_look_arms_cursor:
  assumes "map_get cursors session = None" and "he_date_parse env (toISOString now) \<noteq> None"
    and "computeAdvisoryFor env now stage hook files cursors = (None, cursors')" and "cursors' \<noteq> cursors"
    and "stringField hook ''session_id'' = Some session"
    and "w \<in> set (told_writes env now' files' session cursors')"
  shows "toISOString now < wr_at w"
proof -
  have armed: "cursors' = advanceWatermark session (toISOString now) cursors"
    using assms(1,3,4,5)
    by (auto simp: computeAdvisoryFor_def unreportedRecentWrites_def readWatermark_def stored_watermark_def Let_def
        split: if_splits option.splits)
  show ?thesis
    by (rule told_after [OF _ assms(6)]) (simp add: armed stored_after_advance assms(2))
qed


section \<open>Two sessions on one file\<close>

definition demo_env :: hook_env where
  "demo_env = \<lparr>he_json_parse = demo_json_parse, he_date_parse = iso_parse, he_lc = compareStrings,
     he_sha = (\<lambda>_. ''0123456789abcdef0''), he_number = (\<lambda>_. None), he_raw = (\<lambda>_. None), he_dots = ''..''\<rparr>"

definition demo_hooks :: hook_state where
  "demo_hooks = \<lparr>hs_journal = demo_journal, hs_draining = [], hs_cursors = [], hs_claims = [], hs_retries = [],
     hs_pending = [], hs_snapshot = [], hs_last_diff = None,
     hs_mail = \<lparr>dl_counter = None, dl_markers = []\<rparr>, hs_ledger = None\<rparr>"

lemma demo_sessions: "agentIdForSession ''s1'' = Some ''agent_s1''" "agentIdForSession ''s2'' = Some ''agent_s2''"
  by code_simp+

lemmas demo_fields = demo_other_def demo_hook_def prop_of_def text_of_def stringField_def tool_input_of_def isRecord_def
  session_agent_def demo_sessions

lemma demo_later_entries:
  "journal_entries demo_json_parse (journal_files (journalled 60000 demo_other demo_hooks))
     = [\<lparr>je_at = toISOString 0, je_payload = demo_start\<rparr>, \<lparr>je_at = toISOString 1000, je_payload = demo_second\<rparr>,
        \<lparr>je_at = toISOString 2000, je_payload = demo_finish\<rparr>, \<lparr>je_at = toISOString 60000, je_payload = demo_other\<rparr>]"
  by code_simp

lemma demo_in_flight:
  "readInFlightCalls demo_json_parse iso_parse 60000 (journal_files (journalled 60000 demo_other demo_hooks))
      (Some (Some ''agent_s2''))
     = [\<lparr>fl_at = toISOString 0, fl_agentId = Some ''agent_s1'', fl_hostToolName = ''Edit'', fl_operation = Some ''a.ts'',
         fl_filePath = Some ''a.ts'', fl_runningForMs = Some 60000\<rparr>]"
  unfolding readInFlightCalls_def live_calls_def demo_later_entries by code_simp

lemma demo_refused: "\<exists>r. Denied r \<in> set (fst (record_hook demo_env 60000 [] demo_other (JStr ''PreToolUse'') demo_hooks))"
proof -
  have env: "he_json_parse demo_env = demo_json_parse" "he_date_parse demo_env = iso_parse" by (simp_all add: demo_env_def)
  let ?files = "journal_files (journalled 60000 demo_other demo_hooks)"
  obtain a cursors where "computeContentionAdvisory demo_env 60000 demo_other ?files [] = (Some a, cursors)" "cy_path a = ''a.ts''"
    by (simp add: computeContentionAdvisory_def computeAdvisoryFor_def env demo_fields advisory_host_tools_def
        demo_in_flight [unfolded demo_fields, simplified])
  moreover have demo_calls: "text_of (prop_of ''tool_name'' demo_other) = Some ''Edit''"
      "text_of (prop_of ''file_path'' (tool_input_of demo_other)) = Some ''a.ts''"
      "prop_of ''hook_event_name'' demo_other = JStr ''PreToolUse''"
    by (simp_all add: demo_fields)
  moreover have "\<not> shouldAllow (he_sha demo_env) ''a.ts'' agent []" for agent
    by (simp add: shouldAllow_def readRetryState_def js_simps)
  moreover have "hs_cursors (journalled 60000 demo_other demo_hooks) = []" "hs_retries (journalled 60000 demo_other demo_hooks) = []"
    by (simp_all add: journalled_def demo_hooks_def)
  ultimately have "\<exists>r. Denied r \<in> set (fst (emitAdvisory demo_env 60000 demo_other (journalled 60000 demo_other demo_hooks)))"
    by (simp add: emitAdvisory_def case_prod_beta Let_def demo_calls)
  then show ?thesis by (simp add: only_first_stage_refuses journalled_def)
qed

theorem refused_for_another_witness:
  "\<exists>path. text_of (prop_of ''file_path'' (tool_input_of demo_other)) = Some path
     \<and> retry_count (he_sha demo_env) path ''agent_s2'' (hs_retries demo_hooks) < max_retries"
proof -
  obtain r where refused: "Denied r \<in> set (fst (record_hook demo_env 60000 [] demo_other (JStr ''PreToolUse'') demo_hooks))"
    using demo_refused by blast
  have "stringField demo_other ''session_id'' = Some ''s2''" by (simp add: demo_fields)
  from refused_for_another [OF refused this demo_sessions(2) HOL.refl] show ?thesis by blast
qed

theorem refusals_bounded_witness:
  "refusals demo_env ''a.ts'' ''agent_s2'' (replicate 5 (60000, [], demo_other, JStr ''PreToolUse'')) demo_hooks \<le> 3"
proof (rule refusals_bounded)
  show "\<forall>(now, current, hook, hookName)\<in>set (replicate 5 (60000, [], demo_other, JStr ''PreToolUse'')). hookName \<noteq> JStr ''SessionEnd''"
    by simp
  have "readRetryState (he_sha demo_env) ''a.ts'' ''agent_s2'' (hs_retries demo_hooks) = None" by code_simp
  then show "\<forall>state. readRetryState (he_sha demo_env) ''a.ts'' ''agent_s2'' (hs_retries demo_hooks) = Some state
      \<longrightarrow> 0 \<le> ry_retryCount state" by simp
qed

text \<open>The second session edits \<open>b.ts\<close>, which the first one has just written.\<close>

definition demo_late :: jsval where "demo_late = demo_hook ''PreToolUse'' ''s2'' ''Edit'' ''c4'' ''b.ts''"

lemma demo_told:
  "\<exists>a cursors. computeAdvisoryFor demo_env 120000 Pre_tool_use demo_late [demo_journal] [] = (Some a, cursors)
     \<and> cy_delivery a = Some (''s2'', toISOString 2000)"
proof -
  have env: "he_json_parse demo_env = demo_json_parse" "he_date_parse demo_env = iso_parse" "he_lc demo_env = compareStrings"
    by (simp_all add: demo_env_def)
  have calls: "find (\<lambda>call. fl_operation call = Some ''b.ts'')
      (readInFlightCalls demo_json_parse iso_parse 120000 [demo_journal] (Some (Some ''agent_s2''))) = None"
    unfolding readInFlightCalls_def live_calls_def demo_entries by code_simp
  have writes: "readRecentWrites demo_json_parse iso_parse compareStrings 120000 [demo_journal] (Some ''s2'') None
      = [\<lparr>wr_at = toISOString 2000, wr_sessionId = Some ''s1'', wr_agentId = Some ''agent_s1'', wr_hostToolName = ''Write'',
          wr_path = ''b.ts''\<rparr>]"
    unfolding readRecentWrites_def demo_entries by code_simp
  show ?thesis
    by (simp add: computeAdvisoryFor_def env demo_late_def demo_fields calls advisory_host_tools_def unreportedRecentWrites_def
        writes readWatermark_def stored_watermark_def Let_def)
qed

lemma demo_dated: "dated demo_env [demo_journal]"
  unfolding dated_def by (simp add: demo_env_def demo_entries demo_dates)

lemma demo_told_cursor:
  "computeAdvisoryFor demo_env 120000 Pre_tool_use demo_late [demo_journal] [] = (Some a, cursors)
   \<Longrightarrow> cy_delivery a = Some (''s2'', toISOString 2000)
   \<Longrightarrow> tells_upto demo_env 120000 [demo_journal] ''s2'' (toISOString 2000) [] (advanceDeliveredFact a cursors)"
  unfolding tells_upto_def by blast



text \<open>
  Only the append touches the journal.  A refused call is in it as started and, never having run, will not be recorded as
  finished: to the other agents it is in flight for the next quarter of an hour.
\<close>

lemma record_hook_journal:
  "hs_journal (snd (record_hook env now current hook hookName st)) = appendJournalEntry (hs_journal st) hook (toISOString now)"
  by (simp add: record_hook_def case_prod_beta Let_def frame_simps emitSessionEndCleanup_def)

lemma refused_call_in_flight:
  "readInFlightCalls demo_json_parse iso_parse 900000
      [hs_journal (snd (record_hook demo_env 60000 [] demo_other (JStr ''PreToolUse'') demo_hooks))] (Some (Some ''agent_s1''))
     = [\<lparr>fl_at = toISOString 60000, fl_agentId = Some ''agent_s2'', fl_hostToolName = ''Edit'', fl_operation = Some ''a.ts'',
         fl_filePath = Some ''a.ts'', fl_runningForMs = Some 840000\<rparr>]"
proof -
  have "journal_entries demo_json_parse
      [hs_journal (snd (record_hook demo_env 60000 [] demo_other (JStr ''PreToolUse'') demo_hooks))]
      = journal_entries demo_json_parse (journal_files (journalled 60000 demo_other demo_hooks))"
    by (simp add: record_hook_journal journalled_def demo_hooks_def)
  note entries = this [unfolded demo_later_entries]
  show ?thesis unfolding readInFlightCalls_def live_calls_def entries by code_simp
qed

end
