(* ===== verification/Redaction.thy ===== *)
theory Redaction
  imports Hook_Journal
begin

text \<open>
  What of a hook's payload reaches the disk: \<open>recorder/src/redact.ts\<close>, whose text redaction is
  \<open>sanitizeDiagnostic\<close> of \<open>observation/src/redaction.ts\<close> as well.

  The three regular expressions are matchers at one position of the text: given the character before it and the rest,
  the replacement and the number of characters matched.  \<open>secret_name\<close> lists the texts that may remain after the
  name of a secret, in the order in which the alternatives are tried.  The flags \<open>iu\<close> fold case.
\<close>

section \<open>Replacing matches\<close>

type_synonym matcher = "char option \<Rightarrow> string \<Rightarrow> (string \<times> nat) option"

function replace_all :: "matcher \<Rightarrow> char option \<Rightarrow> string \<Rightarrow> string" where
  "replace_all m before [] = []"
| "replace_all m before (c # cs) = (case m before (c # cs) of
       None \<Rightarrow> c # replace_all m (Some c) cs
     | Some (new, n) \<Rightarrow> new @ replace_all m (Some ((c # cs) ! (n - 1))) (drop (n - 1) cs))"
  by pat_completeness auto
termination by (relation "measure (\<lambda>(m, before, s). length s)") auto

definition redacted :: string where "redacted = ''<redacted>''"

definition regex_word :: "char \<Rightarrow> bool" where
  "regex_word c \<longleftrightarrow> char_in 48 57 c \<or> char_in 65 90 c \<or> char_in 97 122 c \<or> c = CHR ''_''"

text \<open>A literal, and two literals with an optional \<open>_\<close> or \<open>-\<close> between them: what may remain.\<close>

definition literal_ends :: "string \<Rightarrow> string \<Rightarrow> string list" where
  "literal_ends p s =
     (if length p \<le> length s \<and> map lower_char (take (length p) s) = p then [drop (length p) s] else [])"

definition joint_ends :: "string \<Rightarrow> string list" where
  "joint_ends s = (case s of [] \<Rightarrow> [s] | c # cs \<Rightarrow> if c \<in> set ''_-'' then [cs, s] else [s])"

definition pair_ends :: "string \<Rightarrow> string \<Rightarrow> string \<Rightarrow> string list" where
  "pair_ends p q s = concat (map (\<lambda>r. concat (map (literal_ends q) (joint_ends r))) (literal_ends p s))"

definition secret_name :: "string \<Rightarrow> string list" where
  "secret_name s =
     pair_ends ''api'' ''key'' s @ pair_ends ''access'' ''token'' s @ literal_ends ''authorization'' s @ literal_ends ''auth'' s
     @ pair_ends ''auth'' ''token'' s @ literal_ends ''token'' s @ literal_ends ''password'' s @ literal_ends ''passwd'' s
     @ literal_ends ''secret'' s @ pair_ends ''client'' ''secret'' s @ literal_ends ''credential'' s
     @ pair_ends ''private'' ''key'' s"

text \<open>\<open>(\bBearer\s+)[^\s]+\<close>\<close>

definition bearer_match :: matcher where
  "bearer_match before s =
     (if (case before of None \<Rightarrow> False | Some c \<Rightarrow> regex_word c) then None
      else case literal_ends ''bearer'' s of
          [] \<Rightarrow> None
        | r # rs \<Rightarrow>
            let v = dropWhile js_space r; rest = dropWhile (\<lambda>c. \<not> js_space c) v
            in if v = r \<or> v = [] then None
               else Some (take (length s - length v) s @ redacted, length s - length rest))"

text \<open>\<open>(NAME\s*[:=]\s*)("[^"]*"|'[^']*'|[^\s,;&]+)\<close>: what remains after the value.\<close>

definition quoted_end :: "char \<Rightarrow> string \<Rightarrow> string option" where
  "quoted_end q v = (case v of
     [] \<Rightarrow> None
   | c # cs \<Rightarrow> if c = q \<and> q \<in> set cs then Some (tl (dropWhile (\<lambda>d. d \<noteq> q) cs)) else None)"

definition bare_char :: "char \<Rightarrow> bool" where
  "bare_char c \<longleftrightarrow> \<not> js_space c \<and> c \<notin> set '',;&''"

definition value_end :: "string \<Rightarrow> string option" where
  "value_end v = (case quoted_end (CHR 0x22) v of
     Some rest \<Rightarrow> Some rest
   | None \<Rightarrow> (case quoted_end (CHR 0x27) v of
       Some rest \<Rightarrow> Some rest
     | None \<Rightarrow> (case v of [] \<Rightarrow> None | c # cs \<Rightarrow> if bare_char c then Some (dropWhile bare_char v) else None)))"

definition assigned :: "string \<Rightarrow> (string \<times> string) option" where
  "assigned r = (case dropWhile js_space r of
     [] \<Rightarrow> None
   | c # cs \<Rightarrow> if c \<in> set '':='' then map_option (\<lambda>rest. (dropWhile js_space cs, rest)) (value_end (dropWhile js_space cs)) else None)"

definition first_some :: "('a \<Rightarrow> 'b option) \<Rightarrow> 'a list \<Rightarrow> 'b option" where
  "first_some f xs = (case List.map_filter f xs of [] \<Rightarrow> None | y # ys \<Rightarrow> Some y)"

definition secret_match :: matcher where
  "secret_match before s = map_option
     (\<lambda>(v, rest). (take (length s - length v) s @ redacted, length s - length rest)) (first_some assigned (secret_name s))"

text \<open>\<open>([?&])(NAME=)[^&\s]+\<close>\<close>

definition query_match :: matcher where
  "query_match before s = (case s of
     [] \<Rightarrow> None
   | c # cs \<Rightarrow>
       if c \<notin> set ''?&'' then None
       else map_option (\<lambda>(v, rest). (take (length s - length v) s @ redacted, length s - length rest))
         (first_some (\<lambda>r. case r of
             d # v \<Rightarrow>
               let rest = dropWhile (\<lambda>c. \<not> js_space c \<and> c \<noteq> CHR 0x26) v
               in if d = CHR 0x3D \<and> rest \<noteq> v then Some (v, rest) else None
           | [] \<Rightarrow> None) (secret_name cs)))"

definition max_text_length :: nat where "max_text_length = 512"

definition redactText :: "string \<Rightarrow> string" where
  "redactText s = take max_text_length
     (replace_all query_match None (replace_all secret_match None (replace_all bearer_match None s)))"

definition sanitizeDiagnostic :: "string \<Rightarrow> string" where
  "sanitizeDiagnostic s = take 512
     (replace_all query_match None (replace_all secret_match None (replace_all bearer_match None s)))"

section \<open>The payload\<close>

definition known_payload_keys :: "string list" where
  "known_payload_keys = [''session_id'', ''hook_event_name'', ''tool_name'', ''tool_use_id'', ''cwd'', ''transcript_path'',
     ''tool_input'', ''tool_response'', ''prompt_id'', ''permission_mode'', ''effort'', ''duration_ms'', ''agent_id'',
     ''agent_type'', ''patchmesh_host'']"

definition identity_keys :: "string list" where
  "identity_keys = [''session_id'', ''hook_event_name'', ''tool_name'', ''tool_use_id'', ''cwd'', ''transcript_path'',
     ''agent_id'', ''agent_type'', ''prompt_id'', ''patchmesh_host'']"

definition input_text_keys :: "string list" where
  "input_text_keys = [''file_path'', ''notebook_path'', ''command'', ''description'', ''subagent_type'', ''filePath'', ''path'']"

definition object_keys :: "jsval \<Rightarrow> string list" where
  "object_keys v = (case v of JObj members \<Rightarrow> map fst members | JExotic members \<Rightarrow> map fst members | _ \<Rightarrow> [])"

definition textField :: "jsval \<Rightarrow> string \<Rightarrow> string option" where
  "textField source key = map_option redactText (text_of (prop_of key source))"

definition redactToolInput :: "jsval \<Rightarrow> jsval option" where
  "redactToolInput toolInput =
     (if \<not> isRecord toolInput then None
      else Some (JObj (List.map_filter (\<lambda>key. map_option (\<lambda>s. (key, JStr s)) (textField toolInput key)) input_text_keys)))"

definition nullish :: "jsval \<Rightarrow> bool" where
  "nullish v \<longleftrightarrow> v = JNull \<or> v = JUnsupported"

definition raw_exit :: "jsval \<Rightarrow> jsval" where
  "raw_exit response =
     (if nullish (prop_of ''exit_code'' response) then prop_of ''exitCode'' response else prop_of ''exit_code'' response)"

definition exit_code_of :: "jsval \<Rightarrow> rat option" where
  "exit_code_of response = (case raw_exit response of JNum r \<Rightarrow> if r = of_int \<lfloor>r\<rfloor> then Some r else None | _ \<Rightarrow> None)"

definition marked_error :: "jsval \<Rightarrow> bool" where
  "marked_error response \<longleftrightarrow> prop_of ''is_error'' response = JBool True \<or> prop_of ''isError'' response = JBool True
     \<or> text_of (prop_of ''error'' response) \<noteq> None"

definition redactToolResponse :: "jsval \<Rightarrow> jsval option" where
  "redactToolResponse response =
     (if \<not> isRecord response then None
      else Some (JObj ([(''exit_code'', (case exit_code_of response of None \<Rightarrow> JNull | Some r \<Rightarrow> JNum r)),
             (''is_error'', JBool (marked_error response))]
           @ List.map_filter (\<lambda>key. map_option (\<lambda>s. (key, JStr s)) (textField response key)) [''agentId'', ''agentType''])))"

definition redactHookPayload :: "jsval \<Rightarrow> jsval option" where
  "redactHookPayload hook =
     (if \<not> isRecord hook then None
      else
        let named = List.map_filter (\<lambda>key. map_option (\<lambda>s. (key, JStr s)) (text_of (prop_of key hook))) identity_keys;
            unknown = filter (\<lambda>key. key \<notin> set known_payload_keys) (object_keys hook);
            member = (\<lambda>key v. case v of None \<Rightarrow> [] | Some x \<Rightarrow> [(key, x)])
        in Some (JObj (named
             @ (if unknown = [] then [] else [(''unknown_keys'', JArr (map JStr (js_sort compareStrings unknown)))])
             @ member ''tool_input'' (redactToolInput (prop_of ''tool_input'' hook))
             @ member ''tool_response'' (redactToolResponse (prop_of ''tool_response'' hook)))))"


section \<open>What reaches the disk\<close>

text \<open>The members of an object whose names are listed.\<close>

definition only :: "string list \<Rightarrow> jsval \<Rightarrow> (string \<times> jsval) list option" where
  "only keys v = (case v of
     JObj members \<Rightarrow> Some (filter (\<lambda>m. fst m \<in> set keys) members)
   | JExotic members \<Rightarrow> Some (filter (\<lambda>m. fst m \<in> set keys) members)
   | _ \<Rightarrow> None)"

definition response_keys :: "string list" where
  "response_keys = [''exit_code'', ''exitCode'', ''is_error'', ''isError'', ''error'', ''agentId'', ''agentType'']"

lemma map_of_filter_key: "key \<in> set keys \<Longrightarrow> map_of (filter (\<lambda>m. fst m \<in> set keys) members) key = map_of members key"
  by (induction members) auto

lemma only_record: "isRecord v \<longleftrightarrow> only keys v \<noteq> None"
  by (simp add: isRecord_def only_def split: jsval.split)

lemma only_prop: "only keys v = only keys w \<Longrightarrow> key \<in> set keys \<Longrightarrow> isRecord v \<Longrightarrow> prop_of key v = prop_of key w"
  by (auto simp: only_def prop_of_def isRecord_def split: jsval.splits) (metis map_of_filter_key)+

lemma map_filter_cong: "(\<And>x. x \<in> set xs \<Longrightarrow> f x = g x) \<Longrightarrow> List.map_filter f xs = List.map_filter g xs"
  by (induction xs) (auto simp: map_filter_simps split: option.splits)

lemma redact_input_only:
  assumes "only input_text_keys v = only input_text_keys w"
  shows "redactToolInput v = redactToolInput w"
proof (cases "isRecord v")
  case True
  then have "isRecord w" using assms only_record by metis
  moreover have "textField v key = textField w key" if "key \<in> set input_text_keys" for key
    using only_prop [OF assms that True] by (simp add: textField_def)
  ultimately show ?thesis using True by (simp add: redactToolInput_def cong: map_filter_cong)
next
  case False
  then have "\<not> isRecord w" using assms only_record by metis
  with False show ?thesis by (simp add: redactToolInput_def)
qed

lemma redact_response_only:
  assumes "only response_keys v = only response_keys w"
  shows "redactToolResponse v = redactToolResponse w"
proof (cases "isRecord v")
  case True
  then have "isRecord w" using assms only_record by metis
  moreover have "prop_of key v = prop_of key w" if "key \<in> set response_keys" for key
    using only_prop [OF assms that True] .
  then have "exit_code_of v = exit_code_of w" "marked_error v = marked_error w"
      "textField v ''agentId'' = textField w ''agentId''" "textField v ''agentType'' = textField w ''agentType''"
    by (simp_all add: exit_code_of_def raw_exit_def marked_error_def textField_def response_keys_def)
  ultimately show ?thesis using True by (simp add: redactToolResponse_def map_filter_simps split: option.split)
next
  case False
  then have "\<not> isRecord w" using assms only_record by metis
  with False show ?thesis by (simp add: redactToolResponse_def)
qed

text \<open>
  C21: What is journalled of a payload depends on nothing but the names of its members, its identity fields, the listed
  fields of the tool's input and of the outcome of its response: two payloads that agree there leave the same
  journal entry, whatever file contents, prompts, outputs or further fields they carry.
\<close>

theorem redaction_hides:
  assumes "isRecord v" and "object_keys v = object_keys w" and "only identity_keys v = only identity_keys w"
    and "only input_text_keys (prop_of ''tool_input'' v) = only input_text_keys (prop_of ''tool_input'' w)"
    and "only response_keys (prop_of ''tool_response'' v) = only response_keys (prop_of ''tool_response'' w)"
  shows "redactHookPayload v = redactHookPayload w"
proof -
  have "isRecord w" using assms(1,3) only_record by metis
  moreover have "List.map_filter (\<lambda>key. map_option (\<lambda>s. (key, JStr s)) (text_of (prop_of key v))) identity_keys
      = List.map_filter (\<lambda>key. map_option (\<lambda>s. (key, JStr s)) (text_of (prop_of key w))) identity_keys"
    by (rule map_filter_cong) (simp add: only_prop [OF assms(3) _ assms(1)])
  ultimately show ?thesis
    using assms(1,2) redact_input_only [OF assms(4)] redact_response_only [OF assms(5)]
    by (simp add: redactHookPayload_def Let_def)
qed

definition demo_edit :: "string \<Rightarrow> string \<Rightarrow> jsval" where
  "demo_edit content output = JObj [(''session_id'', JStr ''s1''), (''tool_name'', JStr ''Edit''),
     (''tool_input'', JObj [(''file_path'', JStr ''a.ts''), (''new_string'', JStr content)]),
     (''tool_response'', JObj [(''exit_code'', JNum 0), (''stdout'', JStr output)])]"

theorem redaction_hides_witness:
  "redactHookPayload (demo_edit ''secret plans'' ''done'') = redactHookPayload (demo_edit '''' '''')"
  by (rule redaction_hides) (simp_all add: demo_edit_def isRecord_def object_keys_def only_def prop_of_def identity_keys_def
      input_text_keys_def response_keys_def)

text \<open>Text is masked by assignment; the name of a JSON member is closed by a quotation mark, and its value stays.\<close>

lemma redacted_assignment: "redactText ''curl -H token=abc'' = ''curl -H token=<redacted>''"
  by code_simp

lemma json_secret_kept: "redactText ''{\"password\":\"hunter2\"}'' = ''{\"password\":\"hunter2\"}''"
  by code_simp

end
