(* ===== verification/Hosts.thy ===== *)
theory Hosts
  imports Redaction Protocol
begin

text \<open>
  The agent hosts a call may be recorded from: \<open>recorder/src/source.ts\<close>, \<open>tool-mapping.ts\<close>, \<open>attribution.ts\<close> and the
  parsers and tool tables of \<open>recorder/src/hosts/\<close>.  The adapters' \<open>check\<close> functions, which inspect an
  installation, are left out.
\<close>

section \<open>Provenance\<close>

definition source_id_pattern :: "string \<Rightarrow> bool" where
  "source_id_pattern s \<longleftrightarrow> s \<noteq> [] \<and> lower_alnum (hd s) \<and> list_all id_char (tl s) \<and> length s \<le> 32"

text \<open>\<open>requested\<close> is the environment's \<open>PATCHMESH_HOST\<close>.\<close>

definition resolveSourceHost :: "string option \<Rightarrow> string" where
  "resolveSourceHost requested = (case requested of
     None \<Rightarrow> ''claude-code'' | Some h \<Rightarrow> if source_id_pattern h then h else ''claude-code'')"

definition resolveProvenanceHost :: "jsval \<Rightarrow> string option \<Rightarrow> string" where
  "resolveProvenanceHost stamped env = (case stamped of
     JStr h \<Rightarrow> if source_id_pattern h then h else resolveSourceHost env | _ \<Rightarrow> resolveSourceHost env)"

definition sourceIdForHost :: "string \<Rightarrow> string" where
  "sourceIdForHost host = ''source_'' @ map (\<lambda>c. if c = CHR ''-'' then CHR ''_'' else c) host @ ''_hook''"

section \<open>Tools\<close>

record normalized_tool =
  nt_toolName :: tool_name
  nt_pathProperty :: "string option"
  nt_opaque :: bool

abbreviation (input) known_tool :: "tool_name \<Rightarrow> string option \<Rightarrow> bool \<Rightarrow> normalized_tool" where
  "known_tool name path opaque \<equiv> \<lparr>nt_toolName = name, nt_pathProperty = path, nt_opaque = opaque\<rparr>"

definition other_tool :: normalized_tool where "other_tool = known_tool TN_other None True"

type_synonym tool_table = "(string \<times> normalized_tool) list"

definition claude_tools :: tool_table where
  "claude_tools =
     [(''Read'', known_tool TN_read_file (Some ''file_path'') False),
      (''NotebookRead'', known_tool TN_read_file (Some ''notebook_path'') False),
      (''Write'', known_tool TN_edit_file (Some ''file_path'') False),
      (''Edit'', known_tool TN_edit_file (Some ''file_path'') False),
      (''MultiEdit'', known_tool TN_edit_file (Some ''file_path'') False),
      (''NotebookEdit'', known_tool TN_edit_file (Some ''notebook_path'') False),
      (''Agent'', known_tool TN_spawn_subagent None True),
      (''Task'', known_tool TN_spawn_subagent None True),
      (''Bash'', known_tool TN_run_shell None True),
      (''BashOutput'', known_tool TN_run_shell None True),
      (''KillShell'', known_tool TN_run_shell None True)]"

definition opencode_tools :: tool_table where
  "opencode_tools =
     [(''bash'', known_tool TN_run_shell None True),
      (''edit'', known_tool TN_edit_file (Some ''filePath'') False),
      (''write'', known_tool TN_edit_file (Some ''filePath'') False),
      (''read'', known_tool TN_read_file (Some ''filePath'') False),
      (''grep'', known_tool TN_read_file (Some ''path'') False),
      (''glob'', known_tool TN_read_file (Some ''path'') False)]"

definition codex_tools :: tool_table where
  "codex_tools =
     [(''read_file'', known_tool TN_read_file (Some ''path'') False),
      (''read'', known_tool TN_read_file (Some ''path'') False),
      (''apply_patch'', known_tool TN_edit_file None True),
      (''edit_file'', known_tool TN_edit_file (Some ''path'') False),
      (''shell'', known_tool TN_run_shell None True),
      (''bash'', known_tool TN_run_shell None True),
      (''run_shell'', known_tool TN_run_shell None True),
      (''run_test'', known_tool TN_run_test None True)]"

text \<open>
  Every object has these members, so a table lookup finds one: a value with no tool name, and a request built from
  it fails its schema.  A lookup that finds one is \<open>None\<close>.
\<close>

definition inherited_members :: "string list" where
  "inherited_members = [''constructor'', ''__defineGetter__'', ''__defineSetter__'', ''hasOwnProperty'', ''__lookupGetter__'',
     ''__lookupSetter__'', ''isPrototypeOf'', ''propertyIsEnumerable'', ''toString'', ''valueOf'', ''__proto__'', ''toLocaleString'']"

text \<open>\<open>/^\s*git\s+(?:-[^\s]+\s+|--[^\s]+(?:=[^\s]+)?\s+)*commit\b/u\<close>\<close>

function skip_options :: "string \<Rightarrow> string" where
  "skip_options s =
     (let word = takeWhile (\<lambda>c. \<not> js_space c) s; rest = dropWhile (\<lambda>c. \<not> js_space c) s
      in if prefix ''-'' word \<and> 2 \<le> length word \<and> rest \<noteq> [] then skip_options (dropWhile js_space rest) else s)"
  by pat_completeness auto
termination
proof (relation "measure length")
  fix s word rest :: string
  assume word: "word = takeWhile (\<lambda>c. \<not> js_space c) s" and rest: "rest = dropWhile (\<lambda>c. \<not> js_space c) s"
    and step: "prefix ''-'' word \<and> 2 \<le> length word \<and> rest \<noteq> []"
  have "length s = length word + length rest"
    unfolding word rest by (metis length_append takeWhile_dropWhile_id)
  moreover have "length (dropWhile js_space rest) \<le> length rest" by (rule length_dropWhile_le)
  ultimately show "(dropWhile js_space rest, s) \<in> measure length" using step by simp
qed simp

declare skip_options.simps [simp del]

definition git_commit :: "string \<Rightarrow> bool" where
  "git_commit command \<longleftrightarrow>
     (let s = dropWhile js_space command
      in prefix ''git'' s \<and> drop 3 s \<noteq> [] \<and> js_space (hd (drop 3 s))
         \<and> (let t = skip_options (dropWhile js_space (drop 3 s))
            in prefix ''commit'' t \<and> (drop 6 t = [] \<or> \<not> regex_word (hd (drop 6 t)))))"

definition table_tool :: "tool_table \<Rightarrow> string \<Rightarrow> string option \<Rightarrow> normalized_tool option" where
  "table_tool table name command =
     (case map_of table name of
        None \<Rightarrow> if name \<in> set inherited_members then None else Some other_tool
      | Some mapped \<Rightarrow>
          Some (if nt_toolName mapped = TN_run_shell \<and> (case command of None \<Rightarrow> False | Some c \<Rightarrow> git_commit c)
                then mapped\<lparr>nt_toolName := TN_git_commit\<rparr> else mapped))"

definition normalizeClaudeTool :: "string \<Rightarrow> string option \<Rightarrow> normalized_tool option" where
  "normalizeClaudeTool name command = table_tool claude_tools name command"

definition normalizeOpencodeTool :: "string \<Rightarrow> string option \<Rightarrow> normalized_tool option" where
  "normalizeOpencodeTool name command = table_tool opencode_tools name command"

definition normalizeCodexTool :: "string \<Rightarrow> string option \<Rightarrow> normalized_tool option" where
  "normalizeCodexTool name command = table_tool codex_tools (toLowerCase (trim name)) command"

definition recognizesClaudeHostTool :: "string \<Rightarrow> bool" where
  "recognizesClaudeHostTool name \<longleftrightarrow> map_of claude_tools name \<noteq> None"

text \<open>The host named \<open>constructor\<close>, which no installation has, is not modelled.\<close>

definition normalizeToolFor :: "string \<Rightarrow> string \<Rightarrow> string option \<Rightarrow> normalized_tool option" where
  "normalizeToolFor host name command =
     (if host = ''claude-code'' then normalizeClaudeTool name command
      else if host = ''opencode'' then normalizeOpencodeTool name command
      else if host = ''codex'' then normalizeCodexTool name command
      else Some other_tool)"

section \<open>Envelopes\<close>

datatype host_stage = Stage_pre | Stage_post | Stage_turn | Stage_stop

record host_record =
  hr_stage :: host_stage
  hr_sessionId :: string
  hr_hostToolName :: string
  hr_input :: jsval
  hr_response :: jsval
  hr_delegateId :: "string option"
  hr_delegateType :: "string option"
  hr_subagentId :: "string option"
  hr_errored :: bool

definition parseClaudeEnvelope :: "jsval \<Rightarrow> host_record option" where
  "parseClaudeEnvelope envelope =
     (if \<not> isRecord envelope then None
      else
        let name = (case prop_of ''tool_name'' envelope of JStr s \<Rightarrow> trim s | _ \<Rightarrow> [])
        in if name = [] then None
           else Some \<lparr>hr_stage = Stage_post,
             hr_sessionId = (case text_of (prop_of ''session_id'' envelope) of None \<Rightarrow> [] | Some s \<Rightarrow> s),
             hr_hostToolName = name, hr_input = prop_of ''tool_input'' envelope,
             hr_response = prop_of ''tool_response'' envelope, hr_delegateId = text_of (prop_of ''tool_use_id'' envelope),
             hr_delegateType = text_of (prop_of ''agent_type'' envelope),
             hr_subagentId = text_of (prop_of ''agent_id'' envelope), hr_errored = False\<rparr>)"

definition nonEmptyString :: "jsval \<Rightarrow> string option" where
  "nonEmptyString v = (case v of JStr s \<Rightarrow> if trim s = [] then None else Some s | _ \<Rightarrow> None)"

definition parseOpencodeEnvelope :: "jsval \<Rightarrow> host_record option" where
  "parseOpencodeEnvelope envelope =
     (if \<not> isRecord envelope \<or> nonEmptyString (prop_of ''tool_name'' envelope) \<noteq> None then None
      else case (nonEmptyString (prop_of ''tool'' envelope), nonEmptyString (prop_of ''sessionID'' envelope)) of
          (Some name, Some session) \<Rightarrow>
            Some \<lparr>hr_stage = Stage_post, hr_sessionId = session, hr_hostToolName = name,
              hr_input = prop_of ''input'' envelope, hr_response = prop_of ''output'' envelope,
              hr_delegateId = nonEmptyString (prop_of ''callID'' envelope), hr_delegateType = None, hr_subagentId = None,
              hr_errored = (prop_of ''status'' envelope = JStr ''error'')\<rparr>
        | _ \<Rightarrow> None)"

definition members_of :: "jsval \<Rightarrow> (string \<times> jsval) list" where
  "members_of v = (case v of JObj members \<Rightarrow> members | JExotic members \<Rightarrow> members | _ \<Rightarrow> [])"

definition translateOpencodeRecord :: "host_record \<Rightarrow> jsval" where
  "translateOpencodeRecord r =
     JObj ([(''session_id'', JStr (hr_sessionId r)), (''hook_event_name'', JStr ''PostToolUse''),
            (''tool_name'', JStr (hr_hostToolName r))]
         @ (case hr_delegateId r of None \<Rightarrow> [] | Some d \<Rightarrow> [(''tool_use_id'', JStr d)])
         @ [(''tool_input'', JObj (members_of (hr_input r))),
            (''tool_response'', JObj (if hr_errored r then map_set ''is_error'' (JBool True) (members_of (hr_response r))
              else members_of (hr_response r)))])"

definition firstString :: "jsval \<Rightarrow> string list \<Rightarrow> string option" where
  "firstString envelope keys = first_some (\<lambda>key. nonEmptyString (prop_of key envelope)) keys"

definition firstValue :: "jsval \<Rightarrow> string list \<Rightarrow> jsval" where
  "firstValue envelope keys =
     (case filter (\<lambda>key. prop_of key envelope \<noteq> JUnsupported) keys of [] \<Rightarrow> JUnsupported | key # ks \<Rightarrow> prop_of key envelope)"

definition eventOf :: "jsval \<Rightarrow> string option" where
  "eventOf envelope = firstString envelope [''hook_event_name'', ''event'', ''event_name'', ''hookEventName'']"

definition stageOf :: "string option \<Rightarrow> host_stage option" where
  "stageOf event = (case event of
     None \<Rightarrow> Some Stage_post
   | Some e \<Rightarrow>
       if e \<in> {''PreToolUse'', ''preToolUse''} then Some Stage_pre
       else if e \<in> {''PostToolUse'', ''postToolUse'', ''PostToolUseFailure'', ''postToolUseFailure''} then Some Stage_post
       else None)"

definition parseCodexEnvelope :: "jsval \<Rightarrow> host_record option" where
  "parseCodexEnvelope envelope =
     (if \<not> isRecord envelope then None
      else case stageOf (eventOf envelope) of
          None \<Rightarrow> None
        | Some stage \<Rightarrow>
            (case (firstString envelope [''session_id'', ''conversation_id'', ''thread_id'', ''sessionId'', ''conversationId'', ''threadId''],
                   firstString envelope [''tool_name'', ''toolName'']) of
               (Some session, Some name) \<Rightarrow>
                 let response = firstValue envelope [''tool_response'', ''toolResponse'', ''output'', ''result'']
                 in Some \<lparr>hr_stage = stage, hr_sessionId = session, hr_hostToolName = name,
                      hr_input = firstValue envelope [''tool_input'', ''toolInput'', ''input''], hr_response = response,
                      hr_delegateId = firstString envelope [''tool_use_id'', ''toolUseId'', ''tool_call_id'', ''toolCallId'',
                        ''call_id'', ''callId'', ''turn_id'', ''generation_id''],
                      hr_delegateType = firstString envelope [''agent_type'', ''agentType''],
                      hr_subagentId = firstString envelope [''agent_id'', ''agentId''],
                      hr_errored = (eventOf envelope \<in> {Some ''PostToolUseFailure'', Some ''postToolUseFailure''}
                        \<or> isRecord response \<and> marked_error response)\<rparr>
             | _ \<Rightarrow> None))"

datatype coverage_tier = Tier_observed | Tier_session | Tier_declared

record host_adapter =
  ha_id :: string
  ha_displayName :: string
  ha_tier :: coverage_tier
  ha_parse :: "jsval \<Rightarrow> host_record option"

definition claudeCodeAdapter :: host_adapter where
  "claudeCodeAdapter = \<lparr>ha_id = ''claude-code'', ha_displayName = ''Claude Code'', ha_tier = Tier_observed,
     ha_parse = parseClaudeEnvelope\<rparr>"

definition opencodeAdapter :: host_adapter where
  "opencodeAdapter = \<lparr>ha_id = ''opencode'', ha_displayName = ''OpenCode'', ha_tier = Tier_observed,
     ha_parse = parseOpencodeEnvelope\<rparr>"

definition codexAdapter :: host_adapter where
  "codexAdapter = \<lparr>ha_id = ''codex'', ha_displayName = ''Codex'', ha_tier = Tier_observed, ha_parse = parseCodexEnvelope\<rparr>"

definition genericMcpAdapter :: host_adapter where
  "genericMcpAdapter = \<lparr>ha_id = ''generic-mcp'', ha_displayName = ''Generic MCP'', ha_tier = Tier_declared,
     ha_parse = (\<lambda>_. None)\<rparr>"

definition host_adapters :: "host_adapter list" where
  "host_adapters = [claudeCodeAdapter, opencodeAdapter, codexAdapter, genericMcpAdapter]"

definition resolveHostAdapter :: "string \<Rightarrow> host_adapter" where
  "resolveHostAdapter host = (case List.find (\<lambda>a. ha_id a = host) host_adapters of None \<Rightarrow> claudeCodeAdapter | Some a \<Rightarrow> a)"

definition isKnownHost :: "string \<Rightarrow> bool" where
  "isKnownHost host \<longleftrightarrow> list_ex (\<lambda>a. ha_id a = host) host_adapters"

definition parseForHost :: "string \<Rightarrow> jsval \<Rightarrow> host_record option" where
  "parseForHost host envelope =
     (let primary = resolveHostAdapter host; direct = ha_parse primary envelope
      in if direct \<noteq> None \<or> ha_tier primary \<noteq> Tier_observed then direct
         else case List.find (\<lambda>a. ha_id a \<noteq> ha_id primary \<and> ha_parse a envelope \<noteq> None) host_adapters of
             None \<Rightarrow> None | Some a \<Rightarrow> ha_parse a envelope)"

definition hosts_by_source_id :: "(string \<times> string \<times> coverage_tier) list" where
  "hosts_by_source_id =
     [(sourceIdForHost ''claude-code'', ha_displayName claudeCodeAdapter, ha_tier claudeCodeAdapter),
      (sourceIdForHost ''opencode'', ha_displayName opencodeAdapter, ha_tier opencodeAdapter),
      (sourceIdForHost ''codex'', ha_displayName codexAdapter, ha_tier codexAdapter),
      (''source_generic_mcp'', ha_displayName genericMcpAdapter, ha_tier genericMcpAdapter)]"

definition hostForSourceId :: "string \<Rightarrow> (string \<times> coverage_tier) option" where
  "hostForSourceId sourceId = map_of hosts_by_source_id sourceId"

definition tierForSourceId :: "string \<Rightarrow> coverage_tier option" where
  "tierForSourceId sourceId = map_option snd (hostForSourceId sourceId)"

section \<open>Attribution\<close>

record call_attribution =
  ca_agentId :: "string option"
  ca_taskId :: "string option"

definition spawn_tool_names :: "string list" where
  "spawn_tool_names = [''Agent'', ''Task'']"

record attribution_input =
  ai_sessionId :: string
  ai_hostToolName :: string
  ai_agentId :: "string option"
  ai_spawnedAgentId :: "string option"
  ai_turnTaskId :: "string option"

definition resolveAttribution :: "attribution_input \<Rightarrow> call_attribution" where
  "resolveAttribution inp =
     (case ai_agentId inp of
        Some delegate \<Rightarrow>
          \<lparr>ca_agentId = subagentIdFor (ai_sessionId inp) delegate, ca_taskId = taskIdForDelegate delegate\<rparr>
      | None \<Rightarrow>
          (case ai_spawnedAgentId inp of
             Some spawned \<Rightarrow>
               \<lparr>ca_agentId = agentIdForSession (ai_sessionId inp),
                ca_taskId = (if ai_hostToolName inp \<in> set spawn_tool_names then taskIdForDelegate spawned else ai_turnTaskId inp)\<rparr>
           | None \<Rightarrow> \<lparr>ca_agentId = agentIdForSession (ai_sessionId inp), ca_taskId = ai_turnTaskId inp\<rparr>))"

definition attributionFieldsOf :: "host_record \<Rightarrow> string option \<times> string option" where
  "attributionFieldsOf r =
     ((case hr_subagentId r of None \<Rightarrow> None | Some s \<Rightarrow> if s = [] then None else Some s),
      (if isRecord (hr_response r) then stringField (hr_response r) ''agentId'' else None))"


section \<open>What the adapters accept\<close>

text \<open>The envelopes of Claude Code and of OpenCode are told apart by the name of their tool.\<close>

lemma envelopes_disjoint: "parseClaudeEnvelope v \<noteq> None \<Longrightarrow> parseOpencodeEnvelope v = None"
  by (auto simp: parseClaudeEnvelope_def parseOpencodeEnvelope_def nonEmptyString_def Let_def split: jsval.splits if_splits)

text \<open>A translated OpenCode call is read by the Claude Code adapter, with the same session, tool, call and input.\<close>

lemma translated_is_read:
  assumes "parseOpencodeEnvelope v = Some r"
  shows "\<exists>r'. parseClaudeEnvelope (translateOpencodeRecord r) = Some r' \<and> hr_sessionId r' = hr_sessionId r
    \<and> hr_hostToolName r' = trim (hr_hostToolName r) \<and> hr_delegateId r' = hr_delegateId r
    \<and> hr_input r' = JObj (members_of (hr_input r))"
proof -
  have "trim (hr_hostToolName r) \<noteq> []"
    using assms by (auto simp: parseOpencodeEnvelope_def nonEmptyString_def split: jsval.splits if_splits option.splits)
  then show ?thesis
    by (auto simp: parseClaudeEnvelope_def translateOpencodeRecord_def isRecord_def prop_of_def text_of_def Let_def
        split: option.splits)
qed

text \<open>
  A delegation is one task: the call that spawned a sub-agent and every call that sub-agent makes are attributed to
  the same task, the spawning call to the session's agent and the others to the sub-agent's own.
\<close>

lemma delegation_is_one_task:
  assumes "ai_hostToolName spawn \<in> {''Agent'', ''Task''}" and "ai_agentId spawn = None"
    and "ai_spawnedAgentId spawn = Some delegate" and "ai_agentId call = Some delegate"
    and "ai_sessionId call = ai_sessionId spawn"
  shows "ca_taskId (resolveAttribution spawn) = ca_taskId (resolveAttribution call)
    \<and> ca_agentId (resolveAttribution spawn) = agentIdForSession (ai_sessionId spawn)
    \<and> ca_agentId (resolveAttribution call) = subagentIdFor (ai_sessionId spawn) delegate"
  using assms by (auto simp: resolveAttribution_def spawn_tool_names_def)

end
