(* ===== verification/Hook_Events.thy ===== *)
theory Hook_Events
  imports Hosts Ledger_Access
begin

text \<open>
  From a journalled payload to the pair of events that records the call: \<open>recorder/src/hook.ts\<close>.

  \<open>recorder_env\<close> holds what comes from outside: the identity of a worktree (\<open>resolveRepositoryIdentity\<close>), the
  process directory, the hashes, \<open>normalize("NFC")\<close> and the environment's \<open>PATCHMESH_HOST\<close>.  The random
  digits of the three identifiers are arguments.
\<close>

record recorder_env =
  re_identity :: "string \<Rightarrow> repository_identity"
  re_cwd :: "string list"
  re_sha :: "string \<Rightarrow> string"
  re_sha_bytes :: "string \<Rightarrow> 8 word list"
  re_nfc :: "string \<Rightarrow> string"
  re_host :: "string option"

function collapse_spaces :: "string \<Rightarrow> string" where
  "collapse_spaces [] = []"
| "collapse_spaces (c # cs) =
     (if js_space c then CHR '' '' # collapse_spaces (dropWhile js_space cs) else c # collapse_spaces cs)"
  by pat_completeness auto
termination by (relation "measure length") (auto simp: length_dropWhile_le le_imp_less_Suc)

definition max_operation_length :: nat where "max_operation_length = 200"

definition normalizeOperation :: "string \<Rightarrow> string \<Rightarrow> string" where
  "normalizeOperation text' fallback =
     (let collapsed = trim (collapse_spaces text');
          masked = sanitizeDiagnostic (if collapsed = [] then fallback else collapsed);
          bounded = trim (take max_operation_length (trim (collapse_spaces masked)))
      in if bounded = [] then fallback else bounded)"

definition commandOf :: "jsval \<Rightarrow> string option" where
  "commandOf toolInput = (if isRecord toolInput then text_of (prop_of ''command'' toolInput) else None)"

definition describedOperation :: "string \<Rightarrow> jsval \<Rightarrow> string option \<Rightarrow> string" where
  "describedOperation tool toolInput logicalPath =
     (case commandOf toolInput of
        Some command \<Rightarrow> normalizeOperation (tool @ '' '' @ command) tool
      | None \<Rightarrow>
          (case logicalPath of
             Some path \<Rightarrow> normalizeOperation (tool @ '' '' @ path) tool
           | None \<Rightarrow> normalizeOperation tool ''tool''))"

definition outcomeOf :: "jsval \<Rightarrow> bool \<Rightarrow> tool_outcome \<times> int option" where
  "outcomeOf response adapterSignalledError =
     (if \<not> isRecord response then (if adapterSignalledError then Failed else Succeeded, None)
      else
        let exitCode = map_option floor (exit_code_of response);
            errored = adapterSignalledError \<or> marked_error response \<or> (case exitCode of None \<Rightarrow> False | Some n \<Rightarrow> n \<noteq> 0)
        in (if errored then Failed else Succeeded, exitCode))"

definition pathFrom :: "jsval \<Rightarrow> string option \<Rightarrow> string option" where
  "pathFrom toolInput property = (case property of
     None \<Rightarrow> None | Some p \<Rightarrow> if isRecord toolInput then text_of (prop_of p toolInput) else None)"

definition declaredLogicalPath :: "recorder_env \<Rightarrow> string \<Rightarrow> string \<Rightarrow> string \<Rightarrow> jsval \<Rightarrow> string option" where
  "declaredLogicalPath env worktreeRoot host tool toolInput =
     Option.bind (normalizeToolFor host (trim tool) (commandOf toolInput)) (\<lambda>normalized.
       Option.bind (pathFrom toolInput (nt_pathProperty normalized)) (logicalPathFor (re_cwd env) worktreeRoot))"

record recorded_pair =
  rp_requested :: event
  rp_completed :: event

definition hook_source :: "recorder_env \<Rightarrow> string \<Rightarrow> string \<Rightarrow> source" where
  "hook_source env host session = \<lparr>sr_kind = Gateway, sr_sourceId = sourceIdForHost host,
     sr_instanceId = deterministicUuid (re_sha_bytes env) ''patchmesh:recorder-instance'' session\<rparr>"

definition hook_event ::
    "recorder_env \<Rightarrow> repository_identity \<Rightarrow> source \<Rightarrow> call_attribution \<Rightarrow> string \<Rightarrow> string \<Rightarrow> string \<Rightarrow> string option
     \<Rightarrow> payload \<Rightarrow> event" where
  "hook_event env identity src who moment correlation i cause body =
     \<lparr>eventId = i, source = src, timestamp = moment, repositoryId = ri_repositoryId identity,
      workspaceId = ri_workspaceId identity, worktreeId = ri_worktreeId identity, agentId = ca_agentId who,
      taskId = ca_taskId who, correlationId = correlation, causationId = cause, sourceSequence = None, payload = body\<rparr>"

text \<open>
  \<open>None\<close> is an exception: no adapter reads the payload, or the tool's name is an inherited member of the table,
  in which case the append of the request raises.  \<open>ids\<close> are the correlation and the two event identifiers.
\<close>

definition buildHookEvents ::
    "recorder_env \<Rightarrow> jsval \<Rightarrow> string \<Rightarrow> string \<Rightarrow> string \<times> string \<times> string \<Rightarrow> string option \<Rightarrow> recorded_pair option" where
  "buildHookEvents env hook worktreeRoot moment ids turnTaskId =
     (let host = resolveProvenanceHost (prop_of ''patchmesh_host'' hook) (re_host env)
      in Option.bind (parseForHost host hook) (\<lambda>r.
         Option.bind (normalizeToolFor host (hr_hostToolName r) (commandOf (hr_input r))) (\<lambda>normalized.
           let identity = re_identity env worktreeRoot;
               (delegate, spawned) = attributionFieldsOf r;
               who = resolveAttribution \<lparr>ai_sessionId = hr_sessionId r, ai_hostToolName = hr_hostToolName r,
                 ai_agentId = delegate, ai_spawnedAgentId = spawned, ai_turnTaskId = turnTaskId\<rparr>;
               logicalPath = declaredLogicalPath env (ri_worktreeRoot identity) host (hr_hostToolName r) (hr_input r);
               target = map_option (resourceIdForPath (re_sha env) (re_nfc env) (ri_repositoryId identity)) logicalPath;
               src = hook_source env host (hr_sessionId r);
               (correlation, requestedId, completedId) = ids;
               (outcome, exitCode) = outcomeOf (hr_response r) (hr_errored r)
           in Some \<lparr>rp_requested = hook_event env identity src who moment correlation requestedId None
                  (ToolRequested \<lparr>tq_toolName = nt_toolName normalized,
                     tq_operation = describedOperation (hr_hostToolName r) (hr_input r) logicalPath,
                     tq_targetResourceId = target, tq_opaque = (nt_opaque normalized \<or> target = None),
                     tq_hostToolName = Some (hr_hostToolName r)\<rparr>),
                rp_completed = hook_event env identity src who moment correlation completedId (Some requestedId)
                  (ToolCompleted \<lparr>tc_requestEventId = requestedId, tc_outcome = outcome, tc_exitCode = exitCode,
                     tc_effectEventIds = [], tc_deterministicallyAttributedEffectEventIds = None\<rparr>)\<rparr>)))"

text \<open>What every recorded pair is.\<close>

lemma built_pair:
  assumes "buildHookEvents env hook wt moment (correlation, i, j) turn = Some pair"
  shows "\<exists>identity src who rq outcome exitCode.
    rp_requested pair = hook_event env identity src who moment correlation i None (ToolRequested rq)
    \<and> rp_completed pair = hook_event env identity src who moment correlation j (Some i)
        (ToolCompleted \<lparr>tc_requestEventId = i, tc_outcome = outcome, tc_exitCode = exitCode, tc_effectEventIds = [],
           tc_deterministicallyAttributedEffectEventIds = None\<rparr>)
    \<and> (tq_targetResourceId rq = None \<longrightarrow> tq_opaque rq)"
proof -
  let ?host = "resolveProvenanceHost (prop_of ''patchmesh_host'' hook) (re_host env)"
  obtain r normalized where r: "parseForHost ?host hook = Some r"
      "normalizeToolFor ?host (hr_hostToolName r) (commandOf (hr_input r)) = Some normalized"
    using assms by (auto simp: buildHookEvents_def bind_eq_Some_conv Let_def)
  then show ?thesis
    using assms unfolding buildHookEvents_def Let_def r Option.bind.simps case_prod_beta fst_conv snd_conv option.inject
    by (intro exI conjI) (drule sym, simp, drule sym, simp, drule sym, simp)
qed

section \<open>Delegated work\<close>

lemma claude_id: "source_id_pattern ''claude-code''"
  by code_simp

lemma claude_host [simp]: "resolveProvenanceHost (JStr ''claude-code'') host = ''claude-code''"
  by (simp add: resolveProvenanceHost_def claude_id)

lemma claude_record:
  assumes "isRecord hook" and "prop_of ''patchmesh_host'' hook = JStr ''claude-code''" and "prop_of ''tool_name'' hook = JStr tool"
    and "trim tool = tool" and "tool \<noteq> []" and "prop_of ''session_id'' hook = JStr session"
  shows "parseForHost ''claude-code'' hook = Some \<lparr>hr_stage = Stage_post, hr_sessionId = session, hr_hostToolName = tool,
       hr_input = prop_of ''tool_input'' hook, hr_response = prop_of ''tool_response'' hook,
       hr_delegateId = text_of (prop_of ''tool_use_id'' hook), hr_delegateType = text_of (prop_of ''agent_type'' hook),
       hr_subagentId = text_of (prop_of ''agent_id'' hook), hr_errored = False\<rparr>"
  using assms
  by (simp_all add: parseForHost_def
      resolveHostAdapter_def host_adapters_def claudeCodeAdapter_def parseClaudeEnvelope_def text_of_def Let_def)

lemma built_attribution:
  assumes "buildHookEvents env hook wt moment (correlation, i, j) turn = Some pair"
    and "parseForHost (resolveProvenanceHost (prop_of ''patchmesh_host'' hook) (re_host env)) hook = Some r"
  shows "taskId (rp_requested pair) = ca_taskId (resolveAttribution \<lparr>ai_sessionId = hr_sessionId r,
      ai_hostToolName = hr_hostToolName r, ai_agentId = fst (attributionFieldsOf r),
      ai_spawnedAgentId = snd (attributionFieldsOf r), ai_turnTaskId = turn\<rparr>)"
    and "agentId (rp_requested pair) = ca_agentId (resolveAttribution \<lparr>ai_sessionId = hr_sessionId r,
      ai_hostToolName = hr_hostToolName r, ai_agentId = fst (attributionFieldsOf r),
      ai_spawnedAgentId = snd (attributionFieldsOf r), ai_turnTaskId = turn\<rparr>)"
    and "taskId (rp_completed pair) = taskId (rp_requested pair)" "agentId (rp_completed pair) = agentId (rp_requested pair)"
  using assms
  by (auto simp: buildHookEvents_def bind_eq_Some_conv Let_def hook_event_def case_prod_beta dest!: sym [where t = pair])

text \<open>A payload the hook of Claude Code journals for a tool.\<close>

definition claude_call :: "string \<Rightarrow> string \<Rightarrow> jsval \<Rightarrow> bool" where
  "claude_call session tool hook \<longleftrightarrow> isRecord hook \<and> prop_of ''patchmesh_host'' hook = JStr ''claude-code''
     \<and> prop_of ''tool_name'' hook = JStr tool \<and> trim tool = tool \<and> tool \<noteq> [] \<and> prop_of ''session_id'' hook = JStr session"

text \<open>
  C22: A delegation is one task of the ledger.  Take two payloads of Claude Code: an \<open>Agent\<close> or \<open>Task\<close> call a session
  makes at the top level (it carries no \<open>agent_id\<close>) whose response names the delegate it created, and a call of that
  session that carries the delegate's id.  Both are stamped \<open>claude-code\<close> by the hook and name their tool without
  surrounding blanks.  Then the four events recorded for the two calls have the delegate's task, both events of
  the spawning call the session's agent and both of the other call the sub-agent's, whatever turn they fell in.
\<close>

theorem delegation_recorded:
  assumes "claude_call session spawn_tool spawn" "spawn_tool \<in> {''Agent'', ''Task''}" "text_of (prop_of ''agent_id'' spawn) = None"
      "isRecord (prop_of ''tool_response'' spawn)" "stringField (prop_of ''tool_response'' spawn) ''agentId'' = Some delegate"
    and "claude_call session tool call" "prop_of ''agent_id'' call = JStr delegate"
    and spawned: "buildHookEvents env spawn wt t1 (c1, i1, j1) turn1 = Some p1"
    and called: "buildHookEvents env call wt t2 (c2, i2, j2) turn2 = Some p2"
  shows "taskId (rp_requested p1) = taskIdForDelegate delegate \<and> taskId (rp_completed p1) = taskIdForDelegate delegate
    \<and> taskId (rp_requested p2) = taskIdForDelegate delegate \<and> taskId (rp_completed p2) = taskIdForDelegate delegate
    \<and> agentId (rp_requested p1) = agentIdForSession session \<and> agentId (rp_completed p1) = agentIdForSession session
    \<and> agentId (rp_requested p2) = subagentIdFor session delegate \<and> agentId (rp_completed p2) = subagentIdFor session delegate"
proof -
  have d: "delegate \<noteq> []" using assms(5) by (auto simp: stringField_def split: jsval.splits if_splits)
  have spawn_read: "parseForHost (resolveProvenanceHost (prop_of ''patchmesh_host'' spawn) (re_host env)) spawn =
      Some \<lparr>hr_stage = Stage_post, hr_sessionId = session, hr_hostToolName = spawn_tool,
        hr_input = prop_of ''tool_input'' spawn, hr_response = prop_of ''tool_response'' spawn,
        hr_delegateId = text_of (prop_of ''tool_use_id'' spawn), hr_delegateType = text_of (prop_of ''agent_type'' spawn),
        hr_subagentId = text_of (prop_of ''agent_id'' spawn), hr_errored = False\<rparr>"
    using assms(1) claude_record [of spawn spawn_tool session] by (simp add: claude_call_def)
  have call_read: "parseForHost (resolveProvenanceHost (prop_of ''patchmesh_host'' call) (re_host env)) call =
      Some \<lparr>hr_stage = Stage_post, hr_sessionId = session, hr_hostToolName = tool,
        hr_input = prop_of ''tool_input'' call, hr_response = prop_of ''tool_response'' call,
        hr_delegateId = text_of (prop_of ''tool_use_id'' call), hr_delegateType = text_of (prop_of ''agent_type'' call),
        hr_subagentId = text_of (prop_of ''agent_id'' call), hr_errored = False\<rparr>"
    using assms(6) claude_record [of call tool session] by (simp add: claude_call_def)
  from built_attribution [OF spawned spawn_read] built_attribution [OF called call_read] assms(2-5,7) d
  show ?thesis by (auto simp: attributionFieldsOf_def resolveAttribution_def spawn_tool_names_def text_of_def)
qed

definition demo_env :: recorder_env where
  "demo_env = \<lparr>re_identity = (\<lambda>_. \<lparr>ri_worktreeRoot = ''/repo'', ri_repositoryId = ''repo'', ri_workspaceId = ''ws'',
     ri_worktreeId = ''wt''\<rparr>), re_cwd = [''repo''], re_sha = (\<lambda>_. ''h''), re_sha_bytes = (\<lambda>_. replicate 32 0),
     re_nfc = (\<lambda>s. s), re_host = None\<rparr>"

definition demo_payload :: "string \<Rightarrow> jsval \<Rightarrow> (string \<times> jsval) list \<Rightarrow> jsval" where
  "demo_payload tool response rest = JObj ([(''session_id'', JStr ''s1''), (''tool_name'', JStr tool),
     (''patchmesh_host'', JStr ''claude-code''), (''tool_input'', JObj [(''description'', JStr ''look'')]),
     (''tool_response'', response)] @ rest)"

definition demo_spawn :: jsval where
  "demo_spawn = demo_payload ''Agent'' (JObj [(''agentId'', JStr ''d7'')]) []"

definition demo_delegated :: jsval where
  "demo_delegated = demo_payload ''Grep'' (JObj []) [(''agent_id'', JStr ''d7'')]"

lemma demo_hooks_claude: "claude_call ''s1'' ''Agent'' demo_spawn" "claude_call ''s1'' ''Grep'' demo_delegated"
  by (simp_all add: claude_call_def demo_spawn_def demo_delegated_def demo_payload_def isRecord_def prop_of_def) code_simp+

lemma demo_hooks_recorded:
  "buildHookEvents demo_env demo_spawn ''/repo'' t (c, i, j) turn \<noteq> None"
  "buildHookEvents demo_env demo_delegated ''/repo'' t (c, i, j) turn \<noteq> None"
proof -
  have "normalizeToolFor ''claude-code'' ''Agent'' (commandOf x) \<noteq> None" "normalizeToolFor ''claude-code'' ''Grep'' (commandOf x) \<noteq> None" for x
    by (simp_all add: normalizeToolFor_def normalizeClaudeTool_def table_tool_def claude_tools_def inherited_members_def)
  then show "buildHookEvents demo_env demo_spawn ''/repo'' t (c, i, j) turn \<noteq> None"
    "buildHookEvents demo_env demo_delegated ''/repo'' t (c, i, j) turn \<noteq> None"
    using demo_hooks_claude
    by (auto simp: buildHookEvents_def claude_call_def claude_record Let_def case_prod_beta bind_eq_Some_conv)
qed

theorem delegation_recorded_witness:
  "taskId (rp_requested (the (buildHookEvents demo_env demo_spawn ''/repo'' ''t1'' (''c1'', ''i1'', ''j1'') None)))
     = taskId (rp_completed (the (buildHookEvents demo_env demo_delegated ''/repo'' ''t2'' (''c2'', ''i2'', ''j2'') (Some ''task_turn''))))"
proof -
  have "text_of (prop_of ''agent_id'' demo_spawn) = None" "isRecord (prop_of ''tool_response'' demo_spawn)"
    "stringField (prop_of ''tool_response'' demo_spawn) ''agentId'' = Some ''d7''"
    "prop_of ''agent_id'' demo_delegated = JStr ''d7''"
    by (simp_all add: demo_spawn_def demo_delegated_def demo_payload_def isRecord_def prop_of_def text_of_def stringField_def)
  from delegation_recorded [OF demo_hooks_claude(1) _ this(1-3) demo_hooks_claude(2) this(4)
      option.collapse [OF demo_hooks_recorded(1), symmetric] option.collapse [OF demo_hooks_recorded(2), symmetric]]
  show ?thesis by simp
qed

end
