(* ===== verification/Valid_Append.thy ===== *)
theory Valid_Append
  imports Valid_Events
begin

text \<open>
  What can be appended to a valid set of events: the call of a tool together with its completion, as the recorder builds
  them, keeps the set valid, and a second root for a correlation never does.  Every validator is shown to accept
  with the longer index what it accepts with the shorter one.
\<close>

section \<open>The index grows\<close>

fun tool_call :: "payload \<Rightarrow> bool" where
  "tool_call (ToolRequested _) = True"
| "tool_call (ToolCompleted _) = True"
| "tool_call _ = False"

lemma tool_call_plain [simp]:
  assumes "tool_call p"
  shows "payload_read p = None" "payload_changed p = None" "payload_symbol_changed p = None"
    "payload_file_changed p = None" "payload_finding p = None" "payload_decision p = None"
    "payload_dependency p = None" "payload_derived p = None" "payload_correction p = None" "payload_feedback p = None"
    "payload_write p = None" "payload_concurrency p = None" "payload_derived_v3 p = None"
    "payload_type p \<noteq> ET_symbol_changed"
  using assms by (cases p; simp)+

definition calls_only :: "events_by_id \<Rightarrow> bool" where
  "calls_only news \<longleftrightarrow> (\<forall>x\<in>set (map_values news). tool_call (payload x))"

lemma get_append: "map_get (byId @ news) k = (case map_get byId k of Some e \<Rightarrow> Some e | None \<Rightarrow> map_get news k)"
  by (simp add: map_add_def split: option.split)

declare map_of_append [simp del]

lemma calls_only_get: "calls_only news \<Longrightarrow> map_get news k = Some x \<Longrightarrow> tool_call (payload x)"
  by (force simp: calls_only_def dest: map_of_SomeD)

lemma find_append_Some: "List.find P xs = Some x \<Longrightarrow> List.find P (xs @ ys) = Some x"
  by (simp add: find_append)

lemma effect_extends: "validate_effect e p byId i = [] \<Longrightarrow> validate_effect e p (byId @ news) i = []"
  by (cases "map_get byId i") (simp_all add: validate_effect_def get_append Let_def split: if_splits)

lemma completion_extends:
  assumes "validateToolCompletion e byId = []"
  shows "validateToolCompletion e (byId @ news) = []"
proof (cases "payload_completed (payload e)")
  case (Some p)
  then obtain request where "map_get byId (tc_requestEventId p) = Some request"
    using assms by (cases "map_get byId (tc_requestEventId p)") (simp_all add: validateToolCompletion_def Let_def)
  with Some assms show ?thesis
    by (simp add: validateToolCompletion_def get_append Let_def) (blast intro: effect_extends)
qed (simp add: validateToolCompletion_def)

lemma correction_extends:
  assumes "validateAttributionCorrection e byId = []"
  shows "validateAttributionCorrection e (byId @ news) = []"
proof (cases "payload_correction (payload e)")
  case (Some p)
  with assms show ?thesis
    by (cases "map_get byId (ac_targetEventId p)") (simp_all add: validateAttributionCorrection_def get_append Let_def)
qed (simp add: validateAttributionCorrection_def)

lemma feedback_extends:
  assumes "validateFindingFeedback e byId = []"
  shows "validateFindingFeedback e (byId @ news) = []"
proof (cases "payload_feedback (payload e)")
  case (Some feedback)
  let ?finding = "\<lambda>candidate. case payload_finding (payload candidate) of None \<Rightarrow> False | Some f \<Rightarrow> fi_findingId f = ff_findingId feedback"
  let ?decision = "\<lambda>did candidate. case payload_decision (payload candidate) of None \<Rightarrow> False | Some d \<Rightarrow> dc_decisionId d = did"
  from assms Some have parts:
      "List.find ?finding (map_values byId) \<noteq> None"
      "\<forall>did. ff_decisionId feedback = Some did \<longrightarrow> List.find (?decision did) (map_values byId) \<noteq> None"
      "\<forall>i\<in>set (ff_evidenceEventIds feedback). map_get byId i \<noteq> None"
    by (auto simp: validateFindingFeedback_def Let_def split: option.splits)
  have "List.find ?finding (map_values (byId @ news)) = List.find ?finding (map_values byId)"
    using parts(1) by (auto simp: find_append)
  moreover have "List.find (?decision did) (map_values (byId @ news)) = List.find (?decision did) (map_values byId)"
    if "ff_decisionId feedback = Some did" for did
    using parts(2) that by (auto simp: find_append)
  moreover have "map_get (byId @ news) i = map_get byId i" if "i \<in> set (ff_evidenceEventIds feedback)" for i
    using parts(3) that by (auto simp: get_append)
  ultimately have "validateFindingFeedback e (byId @ news) = validateFindingFeedback e byId"
    using Some unfolding validateFindingFeedback_def Let_def by (cases "ff_decisionId feedback") (simp_all cong: map_cong)
  with assms show ?thesis by simp
qed (simp add: validateFindingFeedback_def)


text \<open>Lookups that only count when they find a read, a change or evidence do not see the new calls.\<close>

lemma read_of_append: "calls_only news \<Longrightarrow> read_of (map_get (byId @ news) k) = read_of (map_get byId k)"
  by (cases "map_get byId k"; cases "map_get news k") (auto simp: get_append dest: calls_only_get)

lemma derived_append:
  "calls_only news \<Longrightarrow> List.map_filter (\<lambda>candidate. payload_derived (payload candidate)) (map_values (byId @ news))
     = List.map_filter (\<lambda>candidate. payload_derived (payload candidate)) (map_values byId)"
proof -
  assume "calls_only news"
  then have "List.map_filter (\<lambda>candidate. payload_derived (payload candidate)) (map_values news) = []"
    by (auto simp: calls_only_def map_filter_def filter_empty_conv)
  then show ?thesis by (simp add: map_filter_def)
qed

lemma write_extends:
  assumes calls: "calls_only news" and accepted: "validateDependentWrite e byId = []"
  shows "validateDependentWrite e (byId @ news) = []"
proof (cases "payload_write (payload e)")
  case (Some wc)
  obtain w comparison where wc: "wc = (w, comparison)" by fastforce
  note read = read_of_append [OF calls, of byId "wl_dependsOnReadEventId w"]
  from accepted Some wc have parts: "validate_write_read e w byId = []" "validate_write_dependency e w byId = []"
      "validate_write_cause e w byId = []" "\<And>cmp. comparison = Some cmp \<Longrightarrow> validate_write_comparison e w cmp byId = []"
    by (auto simp: validateDependentWrite_def)
  have "validate_write_read e w (byId @ news) = []"
    using parts(1) by (cases "map_get byId (wl_dependsOnReadEventId w)") (simp_all add: validate_write_read_def get_append Let_def)
  moreover have "find_dependency (byId @ news) (wl_dependencyId w) = find_dependency byId (wl_dependencyId w)"
    using parts(2) by (auto simp: validate_write_dependency_def find_dependency_def find_append split: option.splits)
  then have "validate_write_dependency e w (byId @ news) = []"
    using parts(2) by (simp only: validate_write_dependency_def read)
  moreover have "validate_write_cause e w (byId @ news) = []"
  proof -
    obtain c x where "causationId e = Some c" "map_get byId c = Some x"
      using parts(3) by (auto simp: validate_write_cause_def bind_eq_Some_conv split: option.splits)
    with parts(3) show ?thesis by (simp add: validate_write_cause_def get_append)
  qed
  moreover have "validate_write_comparison e w cmp (byId @ news) = []" if "comparison = Some cmp" for cmp
  proof -
    note accepted_cmp = parts(4) [OF that]
    obtain changed where "map_get byId (wc_changedEventId cmp) = Some changed"
      using accepted_cmp by (cases "map_get byId (wc_changedEventId cmp)") (simp_all add: validate_write_comparison_def Let_def)
    then have same: "map_get (byId @ news) (wc_changedEventId cmp) = map_get byId (wc_changedEventId cmp)"
      by (simp add: get_append)
    have "validate_write_comparison e w cmp (byId @ news) = validate_write_comparison e w cmp byId"
      by (simp only: validate_write_comparison_def Let_def sufficient_symbol_evidence_def derived_append [OF calls] read same)
    with accepted_cmp show ?thesis by simp
  qed
  ultimately show ?thesis using Some wc by (simp add: validateDependentWrite_def split: option.split)
qed (simp add: validateDependentWrite_def)

lemma concurrent_change_extends:
  "validate_concurrent_change e i task byId name = [] \<Longrightarrow> validate_concurrent_change e i task (byId @ news) name = []"
  by (cases "map_get byId i") (simp_all add: validate_concurrent_change_def get_append Let_def)

lemma concurrency_extends:
  assumes "validateTaskConcurrencyObservation e byId = []"
  shows "validateTaskConcurrencyObservation e (byId @ news) = []"
proof (cases "payload_concurrency (payload e)")
  case (Some ob)
  from assms Some have changes: "validate_concurrent_change e (co_firstChangeEventId ob) (co_firstTaskId ob) byId ''first'' = []"
      "validate_concurrent_change e (co_secondChangeEventId ob) (co_secondTaskId ob) byId ''second'' = []"
    by (auto simp: validateTaskConcurrencyObservation_def Let_def)
  then obtain f s where "map_get byId (co_firstChangeEventId ob) = Some f" "map_get byId (co_secondChangeEventId ob) = Some s"
    by (cases "map_get byId (co_firstChangeEventId ob)"; cases "map_get byId (co_secondChangeEventId ob)")
      (simp_all add: validate_concurrent_change_def Let_def)
  with assms Some changes show ?thesis
    by (simp add: validateTaskConcurrencyObservation_def Let_def get_append concurrent_change_extends)
qed (simp add: validateTaskConcurrencyObservation_def)

lemma derived_extends:
  assumes "validateDerivedEvidence sha lc e byId = []"
  shows "validateDerivedEvidence sha lc e (byId @ news) = []"
proof (cases "payload_derived (payload e)")
  case (Some d)
  from assms Some have sources: "\<forall>i\<in>set (ev_sourceEventIds d). map_get byId i \<noteq> None"
    by (auto simp: validateDerivedEvidence_def Let_def split: option.splits)
  moreover obtain target where "map_get byId (ev_targetEventId d) = Some target"
    using assms Some by (cases "map_get byId (ev_targetEventId d)") (simp_all add: validateDerivedEvidence_def Let_def)
  moreover have "map_get (byId @ news) i = map_get byId i" if "i \<in> set (ev_sourceEventIds d)" for i
    using sources that by (auto simp: get_append)
  ultimately have "validateDerivedEvidence sha lc e (byId @ news) = validateDerivedEvidence sha lc e byId"
    using Some by (simp add: validateDerivedEvidence_def get_append Let_def cong: map_cong)
  with assms show ?thesis by simp
qed (simp add: validateDerivedEvidence_def)

lemma proof_write_extends:
  assumes calls: "calls_only news" and accepted: "validateProofDependentWrite sha e byId = []"
  shows "validateProofDependentWrite sha e (byId @ news) = []"
proof (cases "payload e")
  case (WriteDependentV3 l cmp p)
  from accepted WriteDependentV3 obtain ef co
    where "map_get byId (wp_writeEffectEventId p) = Some ef" "map_get byId (wp_completionEventId p) = Some co"
    by (cases "map_get byId (wp_writeEffectEventId p)"; cases "map_get byId (wp_completionEventId p)")
      (simp_all add: validateProofDependentWrite_def Let_def)
  with accepted WriteDependentV3 show ?thesis
    by (simp add: validateProofDependentWrite_def Let_def get_append [of byId news "wp_writeEffectEventId p"]
        get_append [of byId news "wp_completionEventId p"] read_of_append [OF calls])
qed (simp_all add: validateProofDependentWrite_def)

lemma window_extends:
  assumes "validate_window byId path rq co task change = []"
  shows "validate_window (byId @ news) path rq co task change = []"
  using assms
  by (cases "map_get byId rq"; cases "map_get byId co") (simp_all add: validate_window_def get_append diag_simps)


lemma proof_concurrency_extends:
  assumes calls: "calls_only news" and accepted: "validateProofConcurrency sha e byId = []"
    and changes: "validateTaskConcurrencyObservation e byId = []"
  shows "validateProofConcurrency sha e (byId @ news) = []"
proof (cases "payload e")
  case (TaskConcurrencyV3 ob p)
  from changes TaskConcurrencyV3 obtain f s
    where "map_get byId (co_firstChangeEventId ob) = Some f" "map_get byId (co_secondChangeEventId ob) = Some s"
    by (cases "map_get byId (co_firstChangeEventId ob)"; cases "map_get byId (co_secondChangeEventId ob)")
      (simp_all add: validateTaskConcurrencyObservation_def validate_concurrent_change_def Let_def)
  then have same: "map_get (byId @ news) (co_firstChangeEventId ob) = map_get byId (co_firstChangeEventId ob)"
      "map_get (byId @ news) (co_secondChangeEventId ob) = map_get byId (co_secondChangeEventId ob)"
    by (simp_all add: get_append)
  show ?thesis
    using accepted TaskConcurrencyV3
    by (cases "cp_overlapProof p") (simp_all add: validateProofConcurrency_def Let_def same window_extends)
qed (simp_all add: validateProofConcurrency_def)

lemma proof_derived_extends:
  assumes accepted: "validateProofDerivedEvidence sha e byId = []" and derived: "validateDerivedEvidence sha lc e byId = []"
  shows "validateProofDerivedEvidence sha e (byId @ news) = []"
proof (cases "payload e")
  case (EvidenceDerivedV3 d p)
  from accepted EvidenceDerivedV3 obtain s where "map_get byId (sa_sourceEventId (sourceAnalysis (ep_proof p))) = Some s"
    by (cases "map_get byId (sa_sourceEventId (sourceAnalysis (ep_proof p)))") (simp_all add: validateProofDerivedEvidence_def Let_def)
  moreover from derived EvidenceDerivedV3 obtain target where "map_get byId (ev_targetEventId d) = Some target"
    by (cases "map_get byId (ev_targetEventId d)") (simp_all add: validateDerivedEvidence_def Let_def)
  ultimately have same: "map_get (byId @ news) (sa_sourceEventId (sourceAnalysis (ep_proof p)))
      = map_get byId (sa_sourceEventId (sourceAnalysis (ep_proof p)))"
      "map_get (byId @ news) (ev_targetEventId d) = map_get byId (ev_targetEventId d)"
    by (simp_all add: get_append)
  have "validateProofDerivedEvidence sha e (byId @ news) = validateProofDerivedEvidence sha e byId"
    by (simp only: validateProofDerivedEvidence_def EvidenceDerivedV3 payload.case Let_def same)
  with accepted show ?thesis by simp
qed (simp_all add: validateProofDerivedEvidence_def)

lemma typed_extends:
  assumes "calls_only news" and "validate_typed sha lc byId e = []"
  shows "validate_typed sha lc (byId @ news) e = []"
  using assms
  by (simp add: validate_typed_def completion_extends correction_extends feedback_extends write_extends concurrency_extends
      derived_extends [where sha = sha and lc = lc] proof_write_extends proof_concurrency_extends
      proof_derived_extends [where lc = lc])

section \<open>Appending a call\<close>

lemma causation_extends:
  assumes "fst (validate_causation byId roots e) = []"
  shows "validate_causation (byId @ news) roots e = validate_causation byId roots e"
  using assms
  by (cases "causationId e"; cases "map_get byId (the (causationId e))") (auto simp: validate_causation_def get_append)

lemma each_extends:
  assumes "calls_only news" and "validate_each sha lc byId roots sequences events = []"
  shows "validate_each sha lc (byId @ news) roots sequences (events @ later) =
    validate_each sha lc (byId @ news) (fold (\<lambda>e r. snd (validate_causation byId r e)) events roots)
      (fold (\<lambda>e s. snd (validate_sequence s e)) events sequences) later"
  using assms(2)
proof (induction events arbitrary: roots sequences)
  case (Cons e events)
  obtain c roots' where c: "validate_causation byId roots e = (c, roots')" by force
  obtain s sequences' where s: "validate_sequence sequences e = (s, sequences')" by force
  from Cons.prems have parts: "c = []" "s = []" "validate_typed sha lc byId e = []"
      "validate_each sha lc byId roots' sequences' events = []"
    by (simp_all add: c s)
  have "validate_causation (byId @ news) roots e = ([], roots')"
    using causation_extends [of byId roots e news] c parts(1) by simp
  then show ?case
    using Cons.IH [OF parts(4)] typed_extends [OF assms(1) parts(3)] c s parts(1,2) by simp
qed simp

lemma claimed_correlations:
  "fst ` set (fold (\<lambda>e r. snd (validate_causation byId r e)) events roots)
     \<subseteq> fst ` set roots \<union> correlationId ` set events"
proof (induction events arbitrary: roots)
  case (Cons e events)
  have "fst ` set (snd (validate_causation byId roots e)) \<subseteq> insert (correlationId e) (fst ` set roots)"
    by (auto simp: validate_causation_def claim_def dom_update split: option.splits)
  with Cons [of "snd (validate_causation byId roots e)"] show ?case
    unfolding fold_simps comp_apply list.set image_insert by blast
qed simp


lemma by_id_append: "by_id (events @ later) = by_id events @ by_id later"
  by (simp add: by_id_def)

lemma cycle_extends:
  assumes "\<forall>x\<in>set (map_values byId). \<forall>c. causationId x = Some c \<longrightarrow> map_get byId c \<noteq> None"
    and "\<not> causal_cycle byId visited cause" and "\<forall>c. cause = Some c \<longrightarrow> map_get byId c \<noteq> None"
  shows "\<not> causal_cycle (byId @ news) visited cause"
  using assms
proof (induction byId visited cause rule: causal_cycle.induct [case_names walk])
  case (walk byId visited cause)
  show ?case
  proof (cases cause)
    case None
    then show ?thesis by (simp add: causal_cycle.simps)
  next
    case (Some c)
    with walk.prems(3) obtain parent where parent: "map_get byId c = Some parent" by auto
    with walk.prems(2) Some have next': "c \<notin> set visited" "\<not> causal_cycle byId (c # visited) (causationId parent)"
      by (simp_all add: causal_cycle.simps [of byId visited "Some c"] split: if_splits)
    have "parent \<in> set (map_values byId)" using map_of_SomeD [OF parent] by force
    with walk.prems(1) have "\<forall>c. causationId parent = Some c \<longrightarrow> map_get byId c \<noteq> None" by blast
    from walk.IH [OF Some next'(1) parent walk.prems(1) next'(2) this] next'(1) parent Some show ?thesis
      by (simp add: causal_cycle.simps [of "byId @ news" visited "Some c"] get_append)
  qed
qed

lemma proofs_extend:
  "\<forall>e\<in>set later. payload_derived_v3 (payload e) = None \<Longrightarrow>
     validate_proofs proofs (events @ later) = validate_proofs proofs events"
proof (induction events arbitrary: proofs)
  case Nil
  then show ?case by (induction later arbitrary: proofs) simp_all
next
  case (Cons e events)
  then show ?case by (simp add: Let_def split: option.split)
qed

lemma valid_typed_call:
  assumes "payload e = ToolRequested q"
  shows "validate_typed sha lc byId e = []"
  using assms
  by (simp add: validate_typed_def validateToolCompletion_def validateAttributionCorrection_def validateFindingFeedback_def
      validateDependentWrite_def validateTaskConcurrencyObservation_def validateDerivedEvidence_def
      validateProofDependentWrite_def validateProofConcurrency_def validateProofDerivedEvidence_def validateResourcePayload_def)

lemma valid_typed_completion:
  assumes "payload e = ToolCompleted t" and "map_get byId (tc_requestEventId t) = Some rq" and "payload rq = ToolRequested q"
    and "sameDomain e rq" and "correlationId e = correlationId rq" and "causationId e = Some (tc_requestEventId t)"
    and "tc_effectEventIds t = []" and "tc_deterministicallyAttributedEffectEventIds t = None"
  shows "validate_typed sha lc byId e = []"
  using assms
  by (simp add: validate_typed_def validateToolCompletion_def validateAttributionCorrection_def validateFindingFeedback_def
      validateDependentWrite_def validateTaskConcurrencyObservation_def validateDerivedEvidence_def eventType_def diag_simps Let_def
      validateProofDependentWrite_def validateProofConcurrency_def validateProofDerivedEvidence_def validateResourcePayload_def)

text \<open>
  A call recorded as its request and its completion, under identifiers and a correlation the ledger does not hold,
  keeps a valid set of events valid.
\<close>

lemma call_keeps_valid:
  assumes ids: "distinct (map eventId events)" and valid: "validateEventSet sha lc events = []"
    and rq: "payload rq = ToolRequested q" "causationId rq = None" "sourceSequence rq = None"
    and co: "payload co = ToolCompleted t" "tc_requestEventId t = eventId rq" "causationId co = Some (eventId rq)"
      "tc_effectEventIds t = []" "tc_deterministicallyAttributedEffectEventIds t = None" "sourceSequence co = None"
      "correlationId co = correlationId rq" "sameDomain co rq"
    and fresh: "eventId rq \<notin> eventId ` set events" "eventId co \<notin> eventId ` set events" "eventId rq \<noteq> eventId co"
      "correlationId rq \<notin> correlationId ` set events"
  shows "validateEventSet sha lc (events @ [rq, co]) = []"
proof -
  let ?news = "by_id [rq, co]"
  let ?byId = "by_id events @ ?news"
  have calls: "calls_only ?news" by (simp add: calls_only_def by_id_def rq(1) co(1))
  note passes = valid [unfolded validateEventSet_passes [OF ids]]
  have present: "\<forall>x\<in>set (map_values (by_id events)). \<forall>c. causationId x = Some c \<longrightarrow> map_get (by_id events) c \<noteq> None"
  proof (intro ballI allI impI)
    fix x c assume "x \<in> set (map_values (by_id events))" and c: "causationId x = Some c"
    then have "x \<in> set events" by (auto simp: by_id_def)
    from valid_parent [OF ids valid this c] obtain parent where "parent \<in> set events" "eventId parent = c" by blast
    with by_id_get [OF ids] show "map_get (by_id events) c \<noteq> None" by fastforce
  qed
  have old: "map_get (by_id events) (eventId rq) = None" "map_get (by_id events) (eventId co) = None"
    using fresh(1,2) by (auto simp: by_id_def map_of_eq_None_iff image_iff)
  have get: "map_get ?byId (eventId rq) = Some rq"
    by (simp only: get_append old) (simp add: by_id_def)
  let ?roots = "fold (\<lambda>e r. snd (validate_causation (by_id events) r e)) events []"
  have "map_get ?roots (correlationId rq) = None"
    using claimed_correlations [of "by_id events" events "[]"] fresh(4) by (auto simp: map_of_eq_None_iff)
  then have "fst (validate_causation ?byId ?roots rq) = []"
    by (simp add: validate_causation_def rq(2) claim_fst claimed_by_other_def)
  moreover have "fst (validate_causation ?byId r co) = []" for r
    using get fresh(3) by (simp add: validate_causation_def co(3,7) validate_parent_def co(6) rq(3) diag_simps)
  moreover have "validate_typed sha lc ?byId co = []"
    by (rule valid_typed_completion [OF co(1) _ rq(1)]) (simp_all add: co get)
  ultimately have "validate_each sha lc ?byId ?roots s [rq, co] = []" for s
    by (simp add: case_prod_beta validate_sequence_def rq(3) co(6) valid_typed_call [OF rq(1)])
  then have "validate_each sha lc ?byId [] [] (events @ [rq, co]) = []"
    using each_extends [OF calls, of sha lc "by_id events" "[]" "[]" events "[rq, co]"] passes by simp
  moreover have "\<not> causal_cycle ?byId [eventId e] (causationId e)" if "e \<in> set events" for e
  proof (rule cycle_extends [OF present])
    show "\<not> causal_cycle (by_id events) [eventId e] (causationId e)" using passes that by blast
    show "\<forall>c. causationId e = Some c \<longrightarrow> map_get (by_id events) c \<noteq> None"
      using present that by (simp add: by_id_def)
  qed
  moreover have "\<not> causal_cycle ?byId [eventId rq] (causationId rq)" "\<not> causal_cycle ?byId [eventId co] (causationId co)"
    using get fresh(3) by (simp_all add: rq(2) co(3) causal_cycle.simps)
  moreover have "validate_proofs [] (events @ [rq, co]) = []"
    using passes by (simp add: proofs_extend rq(1) co(1))
  moreover have "distinct (map eventId (events @ [rq, co]))" using ids fresh(1-3) by auto
  ultimately show ?thesis by (auto simp: validateEventSet_passes by_id_append)
qed

text \<open>A correlation has one root: an event that starts one and takes its correlation from an event of the set never fits.\<close>

lemma second_root_invalid:
  assumes ids: "distinct (map eventId (events @ [e]))" and named: "\<forall>x\<in>set (events @ [e]). eventId x \<noteq> []"
    and before: "validateEventSet sha lc events = []"
    and "causationId e = None" and "x \<in> set events" and "correlationId x = correlationId e"
  shows "validateEventSet sha lc (events @ [e]) \<noteq> []"
proof
  assume valid: "validateEventSet sha lc (events @ [e]) = []"
  have "distinct (map eventId events)" using ids by simp
  from valid_root_exists [OF this before assms(5)] obtain r where
    "r \<in> set events" "causationId r = None" "correlationId r = correlationId e" using assms(6) by auto
  moreover from this have "r = e"
    using named assms(4) by (intro valid_roots_unique [OF ids valid]) auto
  ultimately show False using ids by (auto simp: distinct_append)
qed

end
