(* ===== verification/Turn_State.thy ===== *)
theory Turn_State
  imports Hook_Journal
begin

text \<open>
  Turn markers and the turns that stay open between two drains: \<open>recorder/src/turn.ts\<close>.

  The state file is its text, absent when it cannot be read; a write is taken to succeed.
\<close>

section \<open>Markers\<close>

definition isTurnMarker :: "jsval \<Rightarrow> bool" where
  "isTurnMarker hook \<longleftrightarrow> isRecord hook \<and> prop_of ''hook_event_name'' hook = JStr ''UserPromptSubmit''"

definition isCallStart :: "jsval \<Rightarrow> bool" where
  "isCallStart hook \<longleftrightarrow> isRecord hook \<and> prop_of ''hook_event_name'' hook = JStr ''PreToolUse''"

definition turnFieldsOf :: "jsval \<Rightarrow> string option \<times> string option" where
  "turnFieldsOf hook =
     (if \<not> isRecord hook then (None, None) else (stringField hook ''session_id'', stringField hook ''prompt_id''))"

section \<open>Open turns\<close>

record open_turn =
  ot_taskId :: "string option"
  ot_at :: string

type_synonym open_turns = "(string, open_turn) js_map"

definition turn_state_version :: rat where "turn_state_version = 1"
definition turn_state_ttl_ms :: int where "turn_state_ttl_ms = 12 * 60 * 60000"

text \<open>A turn still counts while its date is one and is not older than the limit.\<close>

definition turn_alive :: "(string \<Rightarrow> int option) \<Rightarrow> int \<Rightarrow> string \<Rightarrow> bool" where
  "turn_alive date_parse now moment \<longleftrightarrow>
     (case date_parse moment of None \<Rightarrow> False | Some declaredAt \<Rightarrow> now - turn_state_ttl_ms \<le> declaredAt)"

definition stored_turn :: "(string \<Rightarrow> int option) \<Rightarrow> int \<Rightarrow> jsval \<Rightarrow> open_turn option" where
  "stored_turn date_parse now v =
     (if \<not> isRecord v then None
      else case prop_of ''at'' v of
          JStr moment \<Rightarrow>
            if turn_alive date_parse now moment then Some \<lparr>ot_taskId = text_of (prop_of ''taskId'' v), ot_at = moment\<rparr>
            else None
        | _ \<Rightarrow> None)"

definition json_members :: "jsval \<Rightarrow> (string \<times> jsval) list" where
  "json_members v = (case v of JObj members \<Rightarrow> members | JExotic members \<Rightarrow> members | _ \<Rightarrow> [])"

fun read_turns ::
    "(string \<Rightarrow> int option) \<Rightarrow> int \<Rightarrow> (string \<times> jsval) list \<Rightarrow> open_turns \<Rightarrow> open_turns" where
  "read_turns date_parse now [] turns = turns"
| "read_turns date_parse now ((sessionId, v) # members) turns =
     read_turns date_parse now members
       (case stored_turn date_parse now v of None \<Rightarrow> turns | Some turn \<Rightarrow> map_set sessionId turn turns)"

definition readTurnState ::
    "(string \<Rightarrow> jsval option) \<Rightarrow> (string \<Rightarrow> int option) \<Rightarrow> string option \<Rightarrow> int \<Rightarrow> open_turns" where
  "readTurnState json_parse date_parse state_file now =
     (case Option.bind state_file json_parse of
        None \<Rightarrow> []
      | Some parsed \<Rightarrow>
          if \<not> isRecord parsed \<or> prop_of ''v'' parsed \<noteq> JNum turn_state_version then []
          else if \<not> isRecord (prop_of ''sessions'' parsed) then []
          else read_turns date_parse now (own_entries (json_members (prop_of ''sessions'' parsed))) [])"

definition open_turn_json :: "open_turn \<Rightarrow> jsval" where
  "open_turn_json turn = JObj [(''taskId'', (case ot_taskId turn of None \<Rightarrow> JNull | Some t \<Rightarrow> JStr t)), (''at'', JStr (ot_at turn))]"

text \<open>
  The object the sessions are assigned to one by one; assigning its member \<open>__proto__\<close> replaces its prototype, which is
  not written.
\<close>

definition written_turns :: "(string \<Rightarrow> int option) \<Rightarrow> int \<Rightarrow> open_turns \<Rightarrow> open_turns" where
  "written_turns date_parse now turns =
     filter (\<lambda>(sessionId, turn). turn_alive date_parse now (ot_at turn) \<and> sessionId \<noteq> ''__proto__'') turns"

definition turn_state_json :: "(string \<Rightarrow> int option) \<Rightarrow> open_turns \<Rightarrow> int \<Rightarrow> jsval" where
  "turn_state_json date_parse turns now =
     JObj [(''v'', JNum turn_state_version),
       (''sessions'', JObj (map (\<lambda>(sessionId, turn). (sessionId, open_turn_json turn)) (written_turns date_parse now turns)))]"

definition writeTurnState :: "(string \<Rightarrow> int option) \<Rightarrow> open_turns \<Rightarrow> int \<Rightarrow> string" where
  "writeTurnState date_parse turns now = json_stringify (turn_state_json date_parse turns now) @ [CHR 0x0A]"


section \<open>What the next drain reads\<close>

lemma stored_turn_json:
  "stored_turn date_parse now (open_turn_json turn) = (if turn_alive date_parse now (ot_at turn) then Some turn else None)"
  by (cases "ot_taskId turn")
    (simp_all add: stored_turn_def open_turn_json_def isRecord_def prop_of_def text_of_def)

lemma read_turns_get:
  assumes "distinct (map fst members)"
  shows "map_get (read_turns date_parse now members turns) s =
    (case Option.bind (map_get members s) (stored_turn date_parse now) of Some turn \<Rightarrow> Some turn | None \<Rightarrow> map_get turns s)"
  using assms
proof (induction date_parse now members turns rule: read_turns.induct)
  case (2 date_parse now sessionId v members turns)
  have "map_get members sessionId = None"
    using 2(2) by (auto simp: map_of_eq_None_iff)
  with 2 show ?case by (auto simp: map_get_set split: option.split)
qed simp

text \<open>Reordering the members of an object does not change what they are.\<close>

lemma own_entries_mset: "mset (own_entries es) = mset es"
  by (simp add: own_entries_def mset_js_sort)

lemma own_entries_get:
  assumes "distinct (map fst es)"
  shows "map_get (own_entries es) s = map_get es s" "distinct (map fst (own_entries es))"
proof -
  have "mset (map fst (own_entries es)) = mset (map fst es)" by (simp add: own_entries_mset)
  with assms show d: "distinct (map fst (own_entries es))" by (metis mset_eq_imp_distinct_iff)
  show "map_get (own_entries es) s = map_get es s"
    using map_of_inject_set [OF d assms] by simp
qed

lemma written_turns_get:
  "distinct (map fst turns) \<Longrightarrow> map_get (written_turns date_parse now turns) s = (case map_get turns s of
     Some turn \<Rightarrow> if turn_alive date_parse now (ot_at turn) \<and> s \<noteq> ''__proto__'' then Some turn else None | None \<Rightarrow> None)"
  unfolding written_turns_def
  by (induction turns) (auto split: option.split simp: map_of_eq_None_iff image_iff)

text \<open>What \<open>JSON.parse\<close> makes of the file: the same members, those with index names first.\<close>

definition read_back :: "(string \<Rightarrow> jsval option) \<Rightarrow> (string \<Rightarrow> int option) \<Rightarrow> open_turns \<Rightarrow> int \<Rightarrow> bool" where
  "read_back json_parse date_parse turns now \<longleftrightarrow> json_parse (writeTurnState date_parse turns now) =
     Some (JObj [(''v'', JNum turn_state_version), (''sessions'',
       JObj (own_entries (map (\<lambda>(sessionId, turn). (sessionId, open_turn_json turn)) (written_turns date_parse now turns))))])"

lemma alive_earlier: "turn_alive date_parse later moment \<Longrightarrow> now \<le> later \<Longrightarrow> turn_alive date_parse now moment"
  by (auto simp: turn_alive_def split: option.splits)


definition demo_turns :: open_turns where
  "demo_turns = [(''s1'', \<lparr>ot_taskId = Some ''task_a'', ot_at = ''t1''\<rparr>), (''7'', \<lparr>ot_taskId = None, ot_at = ''t9''\<rparr>)]"

definition demo_turn_dates :: "string \<Rightarrow> int option" where
  "demo_turn_dates moment = (if moment = ''t1'' then Some 1000 else if moment = ''t9'' then Some 50000000 else None)"


end
