(* ===== verification/Ingest.thy ===== *)
theory Ingest
  imports Hook_Events Valid_Append Turn_State Mailbox
begin

text \<open>
  Draining the journal into the ledger: \<open>recorder/src/ingest.ts\<close>.

  \<open>drain_env\<close> holds what comes from outside: the recorder's environment, the ledger's hash, collation and schema
  (\<open>parseEvent\<close>, its answer on the events given), \<open>JSON.parse\<close>, \<open>Date.parse\<close>, and for the \<open>n\<close>-th call recorded
  the three random identifiers and the ledger's clock.  The directory of the journal maps file names to texts and
  modification times, in the order it is listed.  One drain is one step: hooks that write while it runs start a fresh
  journal, which is \<open>arrived\<close>.  Opening the ledger and writing files are taken to succeed.
\<close>

record drain_env =
  de_recorder :: recorder_env
  de_lc :: "string \<Rightarrow> string \<Rightarrow> int"
  de_parse :: "string \<Rightarrow> event option"
  de_schema :: "event \<Rightarrow> diagnostic list + event"
  de_json_parse :: "string \<Rightarrow> jsval option"
  de_date_parse :: "string \<Rightarrow> int option"
  de_ids :: "nat \<Rightarrow> string \<times> string \<times> string"
  de_stored_at :: "nat \<Rightarrow> string"
  de_worktreeRoot :: string

section \<open>One line\<close>

record effect_call =
  ec_completionEventId :: string
  ec_correlationId :: string
  ec_agentId :: "string option"
  ec_taskId :: "string option"
  ec_startedAtMs :: "int option"
  ec_completedAtMs :: "int option"
  ec_declaredPath :: "string option"

record drain_state =
  ds_store :: store
  ds_turnTasks :: open_turns
  ds_activeSessions :: "string list"
  ds_unfinished :: "(string, journal_entry) js_map"
  ds_calls :: "effect_call list"
  ds_unprocessed :: "string list"
  ds_ingested :: nat
  ds_skipped :: nat
  ds_turns :: nat
  ds_drawn :: nat

definition callIdOf :: "jsval \<Rightarrow> string option" where
  "callIdOf hook = (if isRecord hook then stringField hook ''tool_use_id'' else None)"

definition sessionIdOf :: "jsval \<Rightarrow> string option" where
  "sessionIdOf hook = (if isRecord hook then stringField hook ''session_id'' else None)"

definition js_add :: "'a \<Rightarrow> 'a list \<Rightarrow> 'a list" where
  "js_add x xs = (if x \<in> set xs then xs else xs @ [x])"

definition declared_path_of :: "drain_env \<Rightarrow> jsval \<Rightarrow> string option" where
  "declared_path_of env hook = declaredLogicalPath (de_recorder env) (de_worktreeRoot env)
     (resolveProvenanceHost (prop_of ''patchmesh_host'' hook) (re_host (de_recorder env)))
     (case text_of (prop_of ''tool_name'' hook) of None \<Rightarrow> [] | Some name \<Rightarrow> name) (prop_of ''tool_input'' hook)"

definition effect_call_of :: "drain_env \<Rightarrow> journal_entry \<Rightarrow> string option \<Rightarrow> event \<Rightarrow> effect_call" where
  "effect_call_of env entry startedAt completed =
     \<lparr>ec_completionEventId = eventId completed, ec_correlationId = correlationId completed,
      ec_agentId = agentId completed, ec_taskId = taskId completed,
      ec_startedAtMs = de_date_parse env (case startedAt of None \<Rightarrow> je_at entry | Some t \<Rightarrow> t),
      ec_completedAtMs = de_date_parse env (je_at entry), ec_declaredPath = declared_path_of env (je_payload entry)\<rparr>"

text \<open>The pair built for an entry, \<open>None\<close> where building it throws.\<close>

definition pair_of :: "drain_env \<Rightarrow> open_turns \<Rightarrow> nat \<Rightarrow> journal_entry \<Rightarrow> recorded_pair option" where
  "pair_of env turns n entry = buildHookEvents (de_recorder env) (je_payload entry) (de_worktreeRoot env) (je_at entry)
     (de_ids env n) (Option.bind (sessionIdOf (je_payload entry)) (\<lambda>s. Option.bind (map_get turns s) ot_taskId))"

definition append_pair :: "drain_env \<Rightarrow> nat \<Rightarrow> recorded_pair \<Rightarrow> store \<Rightarrow> (store_error + append_result list) \<times> store" where
  "append_pair env n pair st = appendAtomic (re_sha (de_recorder env)) (de_lc env) (de_parse env) (de_stored_at env n)
     [de_schema env (rp_requested pair), de_schema env (rp_completed pair)] no_options st"

definition rejected_call :: "string \<Rightarrow> drain_state \<Rightarrow> drain_state" where
  "rejected_call line ds = ds\<lparr>ds_unprocessed := ds_unprocessed ds @ [line], ds_skipped := ds_skipped ds + 1\<rparr>"

definition record_call :: "drain_env \<Rightarrow> string \<Rightarrow> journal_entry \<Rightarrow> string option \<Rightarrow> drain_state \<Rightarrow> drain_state" where
  "record_call env line entry startedAt ds0 =
     (let n = ds_drawn ds0;
          ds = ds0\<lparr>ds_activeSessions := (case sessionIdOf (je_payload entry) of
                 None \<Rightarrow> ds_activeSessions ds0 | Some s \<Rightarrow> js_add s (ds_activeSessions ds0)), ds_drawn := Suc n\<rparr>
      in case pair_of env (ds_turnTasks ds) n entry of
           None \<Rightarrow> rejected_call line ds
         | Some pair \<Rightarrow>
             (case append_pair env n pair (ds_store ds) of
                (Inl err, st) \<Rightarrow> rejected_call line (ds\<lparr>ds_store := st\<rparr>)
              | (Inr results, st) \<Rightarrow> ds\<lparr>ds_store := st,
                  ds_calls := ds_calls ds @ [effect_call_of env entry startedAt (rp_completed pair)],
                  ds_ingested := ds_ingested ds + 1\<rparr>))"

definition open_marked :: "drain_env \<Rightarrow> journal_entry \<Rightarrow> drain_state \<Rightarrow> drain_state" where
  "open_marked env entry ds =
     (case turnFieldsOf (je_payload entry) of
        (None, _) \<Rightarrow> ds
      | (Some sessionId, promptId) \<Rightarrow>
          ds\<lparr>ds_turnTasks := map_set sessionId
               \<lparr>ot_taskId = taskIdForTurn (re_sha (de_recorder env)) sessionId promptId (je_at entry), ot_at = je_at entry\<rparr>
               (ds_turnTasks ds),
             ds_activeSessions := js_add sessionId (ds_activeSessions ds), ds_turns := ds_turns ds + 1\<rparr>)"

definition drain_entry :: "drain_env \<Rightarrow> string \<Rightarrow> journal_entry \<Rightarrow> drain_state \<Rightarrow> drain_state" where
  "drain_entry env line entry ds =
     (let callId = callIdOf (je_payload entry)
      in if isCallStart (je_payload entry)
         then (case callId of None \<Rightarrow> ds | Some c \<Rightarrow> ds\<lparr>ds_unfinished := map_set c entry (ds_unfinished ds)\<rparr>)
         else
           let startedAt = map_option je_at (Option.bind callId (map_get (ds_unfinished ds)));
               ds = (case callId of None \<Rightarrow> ds
                 | Some c \<Rightarrow> ds\<lparr>ds_unfinished := filter (\<lambda>(k, e). k \<noteq> c) (ds_unfinished ds)\<rparr>)
           in if isTurnMarker (je_payload entry) then open_marked env entry ds
              else record_call env line entry startedAt ds)"

definition drain_line :: "drain_env \<Rightarrow> string \<Rightarrow> drain_state \<Rightarrow> drain_state" where
  "drain_line env line ds =
     (if trim line = [] then ds
      else case parseJournalLine (de_json_parse env) line of
          None \<Rightarrow> ds\<lparr>ds_skipped := ds_skipped ds + 1\<rparr>
        | Some entry \<Rightarrow> drain_entry env line entry ds)"

fun drain_lines :: "drain_env \<Rightarrow> string list \<Rightarrow> drain_state \<Rightarrow> drain_state" where
  "drain_lines env [] ds = ds"
| "drain_lines env (line # lines) ds = drain_lines env lines (drain_line env line ds)"

definition drainClaim :: "drain_env \<Rightarrow> string option \<Rightarrow> drain_state \<Rightarrow> drain_state" where
  "drainClaim env contents ds =
     (case contents of None \<Rightarrow> ds | Some text' \<Rightarrow> drain_lines env (js_split (CHR 0x0A) text') ds)"

section \<open>Claims\<close>

type_synonym journal_dir = "(string, string \<times> int) js_map"

definition processing_suffix :: string where "processing_suffix = ''.processing''"
definition stale_claim_ms :: int where "stale_claim_ms = 60000"

definition renamed :: "string \<Rightarrow> string \<Rightarrow> journal_dir \<Rightarrow> journal_dir" where
  "renamed source' target dir = (case map_get dir source' of
     None \<Rightarrow> dir | Some file \<Rightarrow> map_set target file (filter (\<lambda>(name, f). name \<noteq> source') dir))"

definition claimJournal :: "string \<Rightarrow> string \<Rightarrow> int \<Rightarrow> journal_dir \<Rightarrow> string list \<times> journal_dir" where
  "claimJournal journal pid now dir =
     (if map_get dir journal = None then ([], dir)
      else let claimed = journal @ ''.'' @ pid @ ''.'' @ int_str now @ processing_suffix
           in ([claimed], renamed journal claimed dir))"

definition adopt_claim ::
    "string \<Rightarrow> string \<Rightarrow> int \<Rightarrow> string \<Rightarrow> string list \<times> journal_dir \<Rightarrow> string list \<times> journal_dir" where
  "adopt_claim journal pid now name adopting =
     (let (adopted, dir) = adopting
      in if \<not> prefix (journal @ ''.'') name \<or> \<not> suffix processing_suffix name then adopting
         else case map_get dir name of
             None \<Rightarrow> adopting
           | Some (contents, mtime) \<Rightarrow>
               if now - mtime < stale_claim_ms then adopting
               else let target = journal @ ''.'' @ pid @ ''.'' @ int_str now @ ''.'' @ nat_str (length adopted) @ processing_suffix
                    in (adopted @ [target], renamed name target dir))"

definition adoptStaleClaims :: "string \<Rightarrow> string \<Rightarrow> int \<Rightarrow> journal_dir \<Rightarrow> string list \<times> journal_dir" where
  "adoptStaleClaims journal pid now dir = fold (adopt_claim journal pid now) (map_keys dir) ([], dir)"

definition claims_of :: "string \<Rightarrow> string \<Rightarrow> int \<Rightarrow> journal_dir \<Rightarrow> string list \<times> journal_dir" where
  "claims_of journal pid now dir =
     (let (claimed, dir1) = claimJournal journal pid now dir; (adopted, dir2) = adoptStaleClaims journal pid now dir1
      in (claimed @ adopted, dir2))"

section \<open>The whole drain\<close>

text \<open>A date that is none is never older than the limit.\<close>

definition carried :: "(string \<Rightarrow> int option) \<Rightarrow> int \<Rightarrow> journal_entry \<Rightarrow> bool" where
  "carried date_parse now entry \<longleftrightarrow>
     (case date_parse (je_at entry) of None \<Rightarrow> True | Some t \<Rightarrow> now - abandoned_after_ms \<le> t)"

definition carryForward :: "(string \<Rightarrow> int option) \<Rightarrow> (string, journal_entry) js_map \<Rightarrow> int \<Rightarrow> string \<Rightarrow> string" where
  "carryForward date_parse unfinished now contents =
     fold (\<lambda>entry text'. if carried date_parse now entry then appendJournalEntry text' (je_payload entry) (je_at entry) else text')
       (map_values unfinished) contents"

definition soleTurnOf :: "open_turns \<Rightarrow> string list \<Rightarrow> (string option \<times> string option) option" where
  "soleTurnOf turnTasks activeSessions =
     (if length activeSessions \<noteq> 1 then None
      else map_option (\<lambda>turn. (agentIdForSession (hd activeSessions), ot_taskId turn)) (map_get turnTasks (hd activeSessions)))"

record ingest_result =
  ir_ingested :: nat
  ir_skipped :: nat
  ir_turns :: nat
  ir_closedTurn :: "(string option \<times> string option) option"
  ir_calls :: "effect_call list"

record recorder_state =
  rs_dir :: journal_dir
  rs_turns_file :: "string option"
  rs_ledger :: store

definition drain_start :: "store \<Rightarrow> open_turns \<Rightarrow> drain_state" where
  "drain_start st turns = \<lparr>ds_store = st\<lparr>st_closed := False\<rparr>, ds_turnTasks = turns, ds_activeSessions = [], ds_unfinished = [],
     ds_calls = [], ds_unprocessed = [], ds_ingested = 0, ds_skipped = 0, ds_turns = 0, ds_drawn = 0\<rparr>"

definition drain_claims :: "drain_env \<Rightarrow> journal_dir \<Rightarrow> string list \<Rightarrow> drain_state \<Rightarrow> drain_state" where
  "drain_claims env dir claims ds = fold (\<lambda>name. drainClaim env (map_option fst (map_get dir name))) claims ds"

definition ingestJournal ::
    "drain_env \<Rightarrow> string \<Rightarrow> string \<Rightarrow> int \<Rightarrow> string \<Rightarrow> recorder_state \<Rightarrow> ingest_result \<times> recorder_state" where
  "ingestJournal env journal pid now arrived rs =
     (let (claims, dir) = claims_of journal pid now (rs_dir rs)
      in if claims = []
         then (\<lparr>ir_ingested = 0, ir_skipped = 0, ir_turns = 0, ir_closedTurn = None, ir_calls = []\<rparr>, rs)
         else
           let ds = drain_claims env dir claims
                 (drain_start (rs_ledger rs) (readTurnState (de_json_parse env) (de_date_parse env) (rs_turns_file rs) now));
               rejected = (if ds_unprocessed ds = [] then dir
                 else map_set (hd claims @ ''.rejected'') (join [CHR 0x0A] (ds_unprocessed ds) @ [CHR 0x0A], now) dir);
               emptied = filter (\<lambda>(name, f). name \<notin> set claims) rejected;
               live = carryForward (de_date_parse env) (ds_unfinished ds) now
                 ((case map_get emptied journal of None \<Rightarrow> [] | Some (contents, t) \<Rightarrow> contents) @ arrived)
           in (\<lparr>ir_ingested = ds_ingested ds, ir_skipped = ds_skipped ds, ir_turns = ds_turns ds,
                 ir_closedTurn = soleTurnOf (ds_turnTasks ds) (ds_activeSessions ds), ir_calls = ds_calls ds\<rparr>,
               \<lparr>rs_dir = (if live = [] then emptied else map_set journal (live, now) emptied),
                rs_turns_file = Some (writeTurnState (de_date_parse env) (ds_turnTasks ds) now),
                rs_ledger = store_close (ds_store ds)\<rparr>))"

section \<open>What a drain appends\<close>

definition ledger_events :: "drain_env \<Rightarrow> store \<Rightarrow> event list" where
  "ledger_events env st = map (event_of (de_parse env)) (st_events st)"

abbreviation ledger_valid :: "drain_env \<Rightarrow> event list \<Rightarrow> bool" where
  "ledger_valid env events \<equiv> validateEventSet (re_sha (de_recorder env)) (de_lc env) events = []"

text \<open>
  The schema's answer on an event is the event itself or a rejection, and an event it accepts is read back from its
  canonical text.
\<close>

definition schema_faithful :: "drain_env \<Rightarrow> bool" where
  "schema_faithful env \<longleftrightarrow> (\<forall>e e'. de_schema env e = Inr e' \<longrightarrow> e' = e \<and> de_parse env (event_canonical e) = Some e)"

definition ids_of :: "string \<times> string \<times> string \<Rightarrow> string set" where
  "ids_of ids = {fst (snd ids), snd (snd ids)}"

text \<open>Random identifiers are new: to the ledger, and to each other.\<close>

definition ids_fresh :: "drain_env \<Rightarrow> nat \<Rightarrow> event list \<Rightarrow> bool" where
  "ids_fresh env n events \<longleftrightarrow>
     (\<forall>m\<ge>n. fst (de_ids env m) \<notin> correlationId ` set events \<and> ids_of (de_ids env m) \<inter> eventId ` set events = {}
        \<and> fst (snd (de_ids env m)) \<noteq> snd (snd (de_ids env m))
        \<and> (\<forall>k\<ge>n. k \<noteq> m \<longrightarrow> fst (de_ids env k) \<noteq> fst (de_ids env m) \<and> ids_of (de_ids env k) \<inter> ids_of (de_ids env m) = {}))"

definition entry_of :: "drain_env \<Rightarrow> string \<Rightarrow> journal_entry option" where
  "entry_of env line = (if trim line = [] then None else parseJournalLine (de_json_parse env) line)"

definition call_line :: "drain_env \<Rightarrow> string \<Rightarrow> bool" where
  "call_line env line \<longleftrightarrow> (case entry_of env line of None \<Rightarrow> False
     | Some entry \<Rightarrow> \<not> isCallStart (je_payload entry) \<and> \<not> isTurnMarker (je_payload entry))"

definition marker_line :: "drain_env \<Rightarrow> string \<Rightarrow> bool" where
  "marker_line env line \<longleftrightarrow> (case entry_of env line of None \<Rightarrow> False
     | Some entry \<Rightarrow> isTurnMarker (je_payload entry) \<and> fst (turnFieldsOf (je_payload entry)) \<noteq> None)"

definition unreadable_line :: "drain_env \<Rightarrow> string \<Rightarrow> bool" where
  "unreadable_line env line \<longleftrightarrow> trim line \<noteq> [] \<and> entry_of env line = None"

text \<open>
  What a run of lines reports, read off the lines alone: for every line that reports a call, in order, the line and the
  pair it is recorded as - or \<open>None\<close> where the pair cannot be built or the schema refuses one of its events.  A
  prompt opens a turn for the calls of its session behind it; the \<open>n\<close>-th call takes the \<open>n\<close>-th identifiers.
\<close>

definition turns_after :: "drain_env \<Rightarrow> string \<Rightarrow> open_turns \<Rightarrow> open_turns" where
  "turns_after env line turns =
     (case entry_of env line of
        None \<Rightarrow> turns
      | Some entry \<Rightarrow>
          if \<not> isTurnMarker (je_payload entry) then turns
          else case turnFieldsOf (je_payload entry) of
              (None, _) \<Rightarrow> turns
            | (Some sessionId, promptId) \<Rightarrow> map_set sessionId
                \<lparr>ot_taskId = taskIdForTurn (re_sha (de_recorder env)) sessionId promptId (je_at entry), ot_at = je_at entry\<rparr> turns)"

definition accepted_pair :: "drain_env \<Rightarrow> open_turns \<Rightarrow> nat \<Rightarrow> journal_entry \<Rightarrow> recorded_pair option" where
  "accepted_pair env turns n entry =
     Option.bind (pair_of env turns n entry) (\<lambda>pair.
       if isl (de_schema env (rp_requested pair)) \<or> isl (de_schema env (rp_completed pair)) then None else Some pair)"

fun reported :: "drain_env \<Rightarrow> open_turns \<Rightarrow> nat \<Rightarrow> string list \<Rightarrow> (string \<times> recorded_pair option) list" where
  "reported env turns n [] = []"
| "reported env turns n (line # lines) =
     (if call_line env line
      then (line, Option.bind (entry_of env line) (accepted_pair env turns n)) # reported env turns (Suc n) lines
      else reported env (turns_after env line turns) n lines)"

definition recorded_pairs :: "(string \<times> recorded_pair option) list \<Rightarrow> recorded_pair list" where
  "recorded_pairs reports = List.map_filter snd reports"

definition refused_lines :: "(string \<times> recorded_pair option) list \<Rightarrow> string list" where
  "refused_lines reports = map fst (filter (\<lambda>(line, pair). pair = None) reports)"

definition claimed_lines :: "journal_dir \<Rightarrow> string list \<Rightarrow> string list" where
  "claimed_lines dir claims = concat (map (\<lambda>name. case map_get dir name of
     None \<Rightarrow> [] | Some (contents, t) \<Rightarrow> js_split (CHR 0x0A) contents) claims)"

definition pair_events :: "recorded_pair list \<Rightarrow> event list" where
  "pair_events pairs = concat (map (\<lambda>p. [rp_requested p, rp_completed p]) pairs)"

definition drain_ok :: "drain_env \<Rightarrow> drain_state \<Rightarrow> bool" where
  "drain_ok env ds \<longleftrightarrow> store_ok (re_sha (de_recorder env)) (de_parse env) (ds_store ds) \<and> \<not> st_closed (ds_store ds)
     \<and> ids_fresh env (ds_drawn ds) (ledger_events env (ds_store ds))"

definition drain_extends :: "drain_env \<Rightarrow> drain_state \<Rightarrow> (string \<times> recorded_pair option) list \<Rightarrow> drain_state \<Rightarrow> bool" where
  "drain_extends env ds reports ds' \<longleftrightarrow>
     ledger_events env (ds_store ds') = ledger_events env (ds_store ds) @ pair_events (recorded_pairs reports)
     \<and> ds_ingested ds' = ds_ingested ds + length (recorded_pairs reports)
     \<and> map ec_completionEventId (ds_calls ds')
        = map ec_completionEventId (ds_calls ds) @ map (\<lambda>p. eventId (rp_completed p)) (recorded_pairs reports)
     \<and> ds_unprocessed ds' = ds_unprocessed ds @ refused_lines reports \<and> ds_drawn ds' = ds_drawn ds + length reports
     \<and> (ledger_valid env (ledger_events env (ds_store ds)) \<longrightarrow> ledger_valid env (ledger_events env (ds_store ds')))"

lemmas report_simps = pair_events_def recorded_pairs_def refused_lines_def map_filter_simps map_filter_append

lemma ids_fresh_later: "ids_fresh env n events \<Longrightarrow> n \<le> n' \<Longrightarrow> ids_fresh env n' events"
  unfolding ids_fresh_def by (meson order.trans)

lemma ids_fresh_append:
  assumes "ids_fresh env n events" and "de_ids env n = (c, i, j)"
    and "correlationId ` set new \<subseteq> {c}" and "eventId ` set new \<subseteq> {i, j}"
  shows "ids_fresh env (Suc n) (events @ new)"
proof -
  have "fst (de_ids env m) \<notin> correlationId ` set (events @ new) \<and> ids_of (de_ids env m) \<inter> eventId ` set (events @ new) = {}"
    if m: "Suc n \<le> m" for m
  proof -
    have "n \<le> m" "m \<noteq> n" using m by auto
    then have "fst (de_ids env m) \<notin> correlationId ` set events" "ids_of (de_ids env m) \<inter> eventId ` set events = {}"
      "fst (de_ids env n) \<noteq> fst (de_ids env m)" "ids_of (de_ids env n) \<inter> ids_of (de_ids env m) = {}"
      using assms(1) unfolding ids_fresh_def by blast+
    then show ?thesis using assms(2-4) by (auto simp: ids_of_def)
  qed
  moreover have "fst (snd (de_ids env m)) \<noteq> snd (snd (de_ids env m))
        \<and> (\<forall>k\<ge>Suc n. k \<noteq> m \<longrightarrow> fst (de_ids env k) \<noteq> fst (de_ids env m) \<and> ids_of (de_ids env k) \<inter> ids_of (de_ids env m) = {})"
    if "Suc n \<le> m" for m using assms(1) that unfolding ids_fresh_def by (meson Suc_leD)
  ultimately show ?thesis unfolding ids_fresh_def by blast
qed

lemma durable_event_ids:
  "store_ok sha parse st \<Longrightarrow> map eventId (map (event_of parse) (st_events st)) = durable_ids st"
  using row_ok_event by (auto simp: store_ok_def)

lemma built_ids:
  assumes "pair_of env turns n entry = Some pair" and "de_ids env n = (c, i, j)"
  shows "eventId (rp_requested pair) = i" "eventId (rp_completed pair) = j" "correlationId (rp_requested pair) = c"
    "correlationId (rp_completed pair) = c"
  using built_pair [OF assms(1) [unfolded pair_of_def assms(2)]] by (auto simp: hook_event_def)

lemma built_keeps_valid:
  assumes "pair_of env turns n entry = Some pair" and "ids_fresh env n events"
    and "distinct (map eventId events)" and "ledger_valid env events"
  shows "ledger_valid env (events @ [rp_requested pair, rp_completed pair])"
proof -
  obtain c i j where ids: "de_ids env n = (c, i, j)" by (cases "de_ids env n") auto
  have fresh: "c \<notin> correlationId ` set events" "i \<notin> eventId ` set events" "j \<notin> eventId ` set events" "i \<noteq> j"
    using assms(2) ids unfolding ids_fresh_def ids_of_def by auto
  obtain identity src who rq outcome exitCode where
    "rp_requested pair = hook_event (de_recorder env) identity src who (je_at entry) c i None (ToolRequested rq)"
    "rp_completed pair = hook_event (de_recorder env) identity src who (je_at entry) c j (Some i)
        (ToolCompleted \<lparr>tc_requestEventId = i, tc_outcome = outcome, tc_exitCode = exitCode, tc_effectEventIds = [],
           tc_deterministicallyAttributedEffectEventIds = None\<rparr>)"
    using built_pair [OF assms(1) [unfolded pair_of_def ids]] by blast
  then show ?thesis
    using fresh by (intro call_keeps_valid [OF assms(3,4), where q = rq and t = "\<lparr>tc_requestEventId = i, tc_outcome = outcome,
        tc_exitCode = exitCode, tc_effectEventIds = [], tc_deterministicallyAttributedEffectEventIds = None\<rparr>"])
      (simp_all add: hook_event_def sameDomain_def)
qed

lemma append_pair_cases:
  assumes faithful: "schema_faithful env" and ok: "store_ok (re_sha (de_recorder env)) (de_parse env) st" "\<not> st_closed st"
    and pair: "pair_of env turns n entry = Some pair" and fresh: "ids_fresh env n (ledger_events env st)"
  shows "if isl (de_schema env (rp_requested pair)) \<or> isl (de_schema env (rp_completed pair))
    then \<exists>err. append_pair env n pair st = (Inl err, st)
    else \<exists>results st'. append_pair env n pair st = (Inr results, st')
        \<and> store_ok (re_sha (de_recorder env)) (de_parse env) st' \<and> \<not> st_closed st'
        \<and> ledger_events env st' = ledger_events env st @ [rp_requested pair, rp_completed pair]"
proof (cases "isl (de_schema env (rp_requested pair)) \<or> isl (de_schema env (rp_completed pair))")
  case True
  then have "\<exists>err. append_pair env n pair st = (Inl err, st)"
    by (cases "de_schema env (rp_requested pair)"; cases "de_schema env (rp_completed pair)")
      (auto simp: append_pair_def appendAtomic_def append_transaction_def parseCanonicalEvent_def raise_bind_def
        split: sum.splits prod.splits)
  with True show ?thesis by simp
next
  case False
  let ?pair = "[rp_requested pair, rp_completed pair]"
  have same: "de_schema env x = Inr x" "de_parse env (event_canonical x) = Some x" if "x \<in> set ?pair" for x
    using that False faithful unfolding schema_faithful_def
    by (cases "de_schema env x"; auto)+
  obtain c i j where ids: "de_ids env n = (c, i, j)" by (cases "de_ids env n") auto
  have new: "fresh_for st ?pair"
    using built_ids [OF pair ids] fresh ids durable_event_ids [OF ok(1)]
    unfolding ids_fresh_def ids_of_def fresh_for_def ledger_events_def
    by (metis (no_types, lifting) distinct_length_2_or_more distinct_singleton fst_conv snd_conv insert_disjoint(1) list.set(1,2)
        list.set_map list.simps(8,9) order_refl singletonD insertE)
  obtain results st' where appended: "appendAtomic (re_sha (de_recorder env)) (de_lc env) (de_parse env) (de_stored_at env n)
      (map Inr ?pair) no_options st = (Inr results, st')"
    using append_fresh_rows [OF ok _ new] by blast
  then have result: "append_pair env n pair st = (Inr results, st')" using same(1) by (simp add: append_pair_def)
  have inv: "parse_inverts (de_parse env) (map Inr ?pair)" using same(2) by (auto simp: parse_inverts_def)
  note after = append_fresh [OF ok new inv appended]
  have "\<forall>x \<in> set (candidates_of (re_sha (de_recorder env)) ?pair). de_parse env (ca_text x) = Some (ca_event x)"
    using candidates_of_ok inv by (fastforce simp: parse_inverts_def)
  from candidate_rows_read [OF this, of "st_next_position st"] after result False
  show ?thesis by (simp add: ledger_events_def candidates_of_events)
qed

lemma pair_events_length: "length (pair_events pairs) = 2 * length pairs"
  by (induction pairs) (simp_all add: pair_events_def)

lemma extends_refl: "drain_extends env ds [] ds"
  by (simp add: drain_extends_def report_simps)

lemma extends_trans:
  "drain_extends env ds reports ds' \<Longrightarrow> drain_extends env ds' more_reports ds'' \<Longrightarrow> drain_extends env ds (reports @ more_reports) ds''"
  by (auto simp: drain_extends_def report_simps)

lemma record_call_ok:
  assumes faithful: "schema_faithful env" and ok: "drain_ok env ds"
  shows "drain_ok env (record_call env line entry startedAt ds)
    \<and> drain_extends env ds [(line, accepted_pair env (ds_turnTasks ds) (ds_drawn ds) entry)] (record_call env line entry startedAt ds)
    \<and> ds_turnTasks (record_call env line entry startedAt ds) = ds_turnTasks ds"
proof -
  let ?n = "ds_drawn ds" and ?events = "ledger_events env (ds_store ds)"
  have store: "store_ok (re_sha (de_recorder env)) (de_parse env) (ds_store ds)" "\<not> st_closed (ds_store ds)"
    and fresh: "ids_fresh env ?n ?events"
    using ok by (simp_all add: drain_ok_def)
  note later = ids_fresh_later [OF fresh le_SucI [OF order_refl]]
  show ?thesis
  proof (cases "pair_of env (ds_turnTasks ds) ?n entry")
    case None
    then show ?thesis
      using store later
      by (simp add: record_call_def rejected_call_def Let_def drain_ok_def drain_extends_def report_simps accepted_pair_def)
  next
    case (Some pair)
    let ?refused = "isl (de_schema env (rp_requested pair)) \<or> isl (de_schema env (rp_completed pair))"
    show ?thesis
    proof (cases ?refused)
      case True
      then obtain err where "append_pair env ?n pair (ds_store ds) = (Inl err, ds_store ds)"
        using append_pair_cases [OF faithful store Some fresh] by (simp only: if_True) blast
      then show ?thesis
        using store later Some True
        by (simp add: record_call_def rejected_call_def Let_def drain_ok_def drain_extends_def report_simps accepted_pair_def)
    next
      case False
      then obtain results st' where appended: "append_pair env ?n pair (ds_store ds) = (Inr results, st')"
        and st': "store_ok (re_sha (de_recorder env)) (de_parse env) st'" "\<not> st_closed st'"
          "ledger_events env st' = ?events @ [rp_requested pair, rp_completed pair]"
        using append_pair_cases [OF faithful store Some fresh] by (simp only: if_False) blast
      obtain c i j where ids: "de_ids env ?n = (c, i, j)" by (cases "de_ids env ?n") auto
      have "distinct (map eventId ?events)"
        unfolding ledger_events_def durable_event_ids [OF store(1)] using store(1) by (simp add: store_ok_def)
      from built_keeps_valid [OF Some fresh this]
      have "ledger_valid env ?events \<Longrightarrow> ledger_valid env (ledger_events env st')" by (simp add: st'(3))
      moreover have "ids_fresh env (Suc ?n) (ledger_events env st')"
        unfolding st'(3) using built_ids [OF Some ids] by (intro ids_fresh_append [OF fresh ids]) auto
      ultimately show ?thesis
        using st' Some appended False
        by (simp add: record_call_def Let_def drain_ok_def drain_extends_def report_simps accepted_pair_def effect_call_of_def)
    qed
  qed
qed

text \<open>The other lines leave the ledger, the rejected lines and the counters of calls as they are.\<close>

definition same_calls :: "drain_state \<Rightarrow> drain_state \<Rightarrow> bool" where
  "same_calls ds ds' \<longleftrightarrow> ds_store ds' = ds_store ds \<and> ds_drawn ds' = ds_drawn ds \<and> ds_ingested ds' = ds_ingested ds
     \<and> ds_calls ds' = ds_calls ds \<and> ds_unprocessed ds' = ds_unprocessed ds"

lemma drain_same:
  assumes "same_calls ds ds'"
  shows "drain_ok env ds' = drain_ok env ds" "drain_extends env ds reports ds'' = drain_extends env ds' reports ds''"
    "drain_extends env ds [] ds'"
  using assms by (simp_all add: same_calls_def drain_ok_def drain_extends_def report_simps)

lemma marker_no_start: "isTurnMarker hook \<Longrightarrow> \<not> isCallStart hook"
  by (simp add: isTurnMarker_def isCallStart_def)

lemma drain_line_ok:
  assumes faithful: "schema_faithful env" and ok: "drain_ok env ds"
  shows "drain_ok env (drain_line env line ds)
    \<and> drain_extends env ds (reported env (ds_turnTasks ds) (ds_drawn ds) [line]) (drain_line env line ds)
    \<and> ds_turnTasks (drain_line env line ds) = (if call_line env line then ds_turnTasks ds else turns_after env line (ds_turnTasks ds))"
proof (cases "entry_of env line")
  case None
  then have "same_calls ds (drain_line env line ds)" "ds_turnTasks (drain_line env line ds) = ds_turnTasks ds"
    by (auto simp: same_calls_def drain_line_def entry_of_def split: if_splits)
  with None ok drain_same show ?thesis by (simp add: call_line_def turns_after_def)
next
  case (Some entry)
  then have entry: "trim line \<noteq> []" "parseJournalLine (de_json_parse env) line = Some entry"
    by (auto simp: entry_of_def split: if_splits)
  let ?ds = "case callIdOf (je_payload entry) of None \<Rightarrow> ds
    | Some c \<Rightarrow> ds\<lparr>ds_unfinished := filter (\<lambda>(k, e). k \<noteq> c) (ds_unfinished ds)\<rparr>"
  have same: "same_calls ds ?ds" "ds_turnTasks ?ds = ds_turnTasks ds" "ds_drawn ?ds = ds_drawn ds"
    by (simp_all add: same_calls_def split: option.split)
  consider "isCallStart (je_payload entry)" | "isTurnMarker (je_payload entry)"
    | "\<not> isCallStart (je_payload entry)" "\<not> isTurnMarker (je_payload entry)" by blast
  then show ?thesis
  proof cases
    case 1
    then have no: "\<not> isTurnMarker (je_payload entry)" using marker_no_start by blast
    have "same_calls ds (drain_line env line ds)" "ds_turnTasks (drain_line env line ds) = ds_turnTasks ds"
      using 1 entry by (auto simp: same_calls_def drain_line_def drain_entry_def Let_def split: option.split)
    with 1 no Some ok drain_same show ?thesis by (simp add: call_line_def turns_after_def)
  next
    case 2
    then have step: "drain_line env line ds = open_marked env entry ?ds"
      using entry marker_no_start by (simp add: drain_line_def drain_entry_def Let_def)
    have "same_calls ds (open_marked env entry ?ds)"
      using same(1) by (auto simp: same_calls_def open_marked_def split: prod.split option.split)
    moreover have "ds_turnTasks (open_marked env entry ?ds) = turns_after env line (ds_turnTasks ds)"
      using 2 Some same(2) by (auto simp: open_marked_def turns_after_def split: prod.split option.split)
    moreover have "\<not> call_line env line" using 2 Some by (simp add: call_line_def)
    ultimately show ?thesis unfolding step using ok drain_same by simp
  next
    case 3
    then obtain startedAt where step: "drain_line env line ds = record_call env line entry startedAt ?ds"
      using entry by (simp add: drain_line_def drain_entry_def Let_def)
    have "drain_ok env ?ds" using ok drain_same(1) [OF same(1)] by blast
    from record_call_ok [OF faithful this, of line entry startedAt] 3 Some show ?thesis
      unfolding step drain_same(2) [OF same(1)] same(2,3) by (simp add: call_line_def)
  qed
qed

lemma reported_Cons:
  "reported env turns n (line # lines) = reported env turns n [line]
     @ reported env (if call_line env line then turns else turns_after env line turns) (n + length (reported env turns n [line])) lines"
  by simp

lemma drain_lines_ok:
  assumes "schema_faithful env" and "drain_ok env ds"
  shows "drain_ok env (drain_lines env lines ds)
    \<and> drain_extends env ds (reported env (ds_turnTasks ds) (ds_drawn ds) lines) (drain_lines env lines ds)"
  using assms(2)
proof (induction lines arbitrary: ds)
  case Nil
  then show ?case using extends_refl by simp
next
  case (Cons line lines)
  let ?ds = "drain_line env line ds" and ?first = "reported env (ds_turnTasks ds) (ds_drawn ds) [line]"
  note line = drain_line_ok [OF assms(1) Cons.prems, of line]
  then have "ds_drawn ?ds = ds_drawn ds + length ?first" by (simp only: drain_extends_def)
  with line Cons.IH [of ?ds] extends_trans [of env ds ?first ?ds] show ?case
    unfolding drain_lines.simps reported_Cons [of _ _ _ line lines] by simp
qed

lemma drain_lines_append: "drain_lines env (xs @ ys) ds = drain_lines env ys (drain_lines env xs ds)"
  by (induction xs arbitrary: ds) simp_all

lemma drain_claims_lines: "drain_claims env dir claims ds = drain_lines env (claimed_lines dir claims) ds"
proof (induction claims arbitrary: ds)
  case (Cons name claims)
  have "drainClaim env (map_option fst (map_get dir name)) ds = drain_lines env (case map_get dir name of
      None \<Rightarrow> [] | Some (contents, t) \<Rightarrow> js_split (CHR 0x0A) contents) ds"
    by (auto simp: drainClaim_def split: option.split)
  with Cons show ?case by (simp add: drain_claims_def claimed_lines_def drain_lines_append)
qed (simp add: drain_claims_def claimed_lines_def)

definition turns_found :: "drain_env \<Rightarrow> int \<Rightarrow> recorder_state \<Rightarrow> open_turns" where
  "turns_found env now rs = readTurnState (de_json_parse env) (de_date_parse env) (rs_turns_file rs) now"

lemma opened_and_closed:
  "ledger_events env (store_close st) = ledger_events env st" "store_ok sha parse (store_close st) = store_ok sha parse st"
  "ledger_events env (ds_store (drain_start st turns)) = ledger_events env st"
  "ds_ingested (drain_start st turns) = 0" "ds_calls (drain_start st turns) = []" "ds_unprocessed (drain_start st turns) = []"
  by (simp_all add: store_close_def ledger_events_def store_ok_def drain_start_def)

text \<open>The state a drain of at least one file ends in, and what of it is returned.\<close>

lemma drained_state:
  assumes "schema_faithful env" and "store_ok (re_sha (de_recorder env)) (de_parse env) (rs_ledger rs)"
    and "ids_fresh env 0 (ledger_events env (rs_ledger rs))"
    and "ingestJournal env journal pid now arrived rs = (result, rs')"
    and "claims_of journal pid now (rs_dir rs) = (claims, dir)" and "claims \<noteq> []"
  obtains ds where "ds = drain_lines env (claimed_lines dir claims) (drain_start (rs_ledger rs) (turns_found env now rs))"
    and "drain_ok env ds"
    and "drain_extends env (drain_start (rs_ledger rs) (turns_found env now rs))
      (reported env (turns_found env now rs) 0 (claimed_lines dir claims)) ds"
    and "rs_ledger rs' = store_close (ds_store ds)" "ir_ingested result = ds_ingested ds" "ir_calls result = ds_calls ds"
proof -
  let ?start = "drain_start (rs_ledger rs) (turns_found env now rs)"
  have "drain_ok env ?start"
    using assms(2,3) by (simp add: drain_ok_def drain_start_def store_ok_def ledger_events_def)
  from drain_lines_ok [OF assms(1) this, of "claimed_lines dir claims"] show ?thesis
    using assms(4-6) by (intro that [OF HOL.refl])
      (auto simp: ingestJournal_def Let_def drain_claims_lines turns_found_def drain_start_def)
qed

lemma no_claims: "claims_of journal pid now (rs_dir rs) = ([], dir) \<Longrightarrow> ingestJournal env journal pid now arrived rs = (result, rs')
    \<Longrightarrow> rs' = rs \<and> ir_ingested result = 0 \<and> ir_calls result = []"
  by (auto simp: ingestJournal_def)

text \<open>
  C19: Draining keeps the ledger valid: whatever the lines of the claimed files are, and of however many sessions, a drain
  adds to the ledger exactly the request and the completion of each call these lines report that can be built and whose
  events the schema accepts - built from that line's payload, in the order of the lines, at the ledger's end - and the
  events of a ledger that was a valid event set still are one.  (The schema returns the events it accepts, and random
  ids are new.)
\<close>

theorem drain_keeps_ledger_valid:
  assumes "schema_faithful env" and ok: "store_ok (re_sha (de_recorder env)) (de_parse env) (rs_ledger rs)"
    and valid: "ledger_valid env (ledger_events env (rs_ledger rs))" and fresh: "ids_fresh env 0 (ledger_events env (rs_ledger rs))"
    and drained: "ingestJournal env journal pid now arrived rs = (result, rs')"
    and "claims_of journal pid now (rs_dir rs) = (claims, dir)"
    and "pairs = recorded_pairs (reported env (turns_found env now rs) 0 (claimed_lines dir claims))"
  shows "ledger_events env (rs_ledger rs') = ledger_events env (rs_ledger rs) @ pair_events pairs
    \<and> ledger_valid env (ledger_events env (rs_ledger rs'))
    \<and> store_ok (re_sha (de_recorder env)) (de_parse env) (rs_ledger rs')
    \<and> ir_ingested result = length pairs
    \<and> map ec_completionEventId (ir_calls result) = map (\<lambda>p. eventId (rp_completed p)) pairs"
proof (cases "claims = []")
  case True
  then show ?thesis
    using no_claims [of journal pid now rs dir env arrived result rs'] drained ok valid assms(6,7)
    by (simp add: claimed_lines_def report_simps)
next
  case False
  obtain ds where ds: "drain_ok env ds" "rs_ledger rs' = store_close (ds_store ds)" "ir_ingested result = ds_ingested ds"
      "ir_calls result = ds_calls ds"
    "drain_extends env (drain_start (rs_ledger rs) (turns_found env now rs))
      (reported env (turns_found env now rs) 0 (claimed_lines dir claims)) ds"
    by (rule drained_state [OF assms(1) ok fresh drained assms(6) False])
  have "ledger_valid env (ledger_events env (ds_store ds))"
    using ds(5) valid unfolding drain_extends_def opened_and_closed by blast
  moreover have "ledger_events env (ds_store ds) = ledger_events env (rs_ledger rs) @ pair_events pairs"
    "ds_ingested ds = length pairs" "map ec_completionEventId (ds_calls ds) = map (\<lambda>p. eventId (rp_completed p)) pairs"
    using ds(5) by (simp_all add: drain_extends_def opened_and_closed assms(7))
  ultimately show ?thesis using ds(1) unfolding ds(2-4) opened_and_closed drain_ok_def by blast
qed

definition demo_ids :: "nat \<Rightarrow> string \<times> string \<times> string" where
  "demo_ids n = (nat_str n, CHR ''i'' # nat_str n, CHR ''j'' # nat_str n)"

definition demo_pair :: recorded_pair where
  "demo_pair = the (buildHookEvents demo_env demo_spawn ''/repo'' ''t1'' (demo_ids 0) None)"

definition demo_drain :: drain_env where
  "demo_drain = \<lparr>de_recorder = demo_env, de_lc = compareStrings, de_parse = demo_parse [rp_requested demo_pair, rp_completed demo_pair],
     de_schema = (\<lambda>e. if e \<in> set [rp_requested demo_pair, rp_completed demo_pair] then Inr e else Inl []),
     de_json_parse = (\<lambda>line. if line = ''call'' then Some (journal_line_json ''t1'' demo_spawn) else None),
     de_date_parse = (\<lambda>_. Some 0), de_ids = demo_ids, de_stored_at = (\<lambda>_. ''t2''), de_worktreeRoot = ''/repo''\<rparr>"

definition demo_recorder :: recorder_state where
  "demo_recorder = \<lparr>rs_dir = [(''journal'', (''call'' @ [CHR 0x0A] @ ''noise'', 0))], rs_turns_file = None, rs_ledger = store_open\<rparr>"

lemma demo_pair_texts: "distinct (map event_canonical [rp_requested demo_pair, rp_completed demo_pair])"
  by code_simp

lemma demo_drain_faithful: "schema_faithful demo_drain"
proof -
  have "demo_parse [rp_requested demo_pair, rp_completed demo_pair] (event_canonical e) = Some e"
    if "e \<in> set [rp_requested demo_pair, rp_completed demo_pair]" for e
    using demo_parse_inverts [OF demo_pair_texts order_refl] that by (auto simp: parse_inverts_def)
  then show ?thesis by (auto simp: schema_faithful_def demo_drain_def)
qed

lemma demo_ids_fresh: "ids_fresh demo_drain 0 []"
  by (auto simp: ids_fresh_def ids_of_def demo_drain_def demo_ids_def nat_str_inj)

lemma demo_appended:
  "\<exists>results st'. append_pair demo_drain 0 demo_pair store_open = (Inr results, st')"
proof -
  let ?pair = "[rp_requested demo_pair, rp_completed demo_pair]"
  have "eventId (rp_requested demo_pair) \<noteq> eventId (rp_completed demo_pair)" by code_simp
  then have "fresh_for store_open ?pair" by (simp add: fresh_for_def store_open_def)
  from append_fresh_rows [OF mail_store_open _ _ this, where now = "''t2''" and sha = "\<lambda>_. ''h''" and lc = compareStrings
      and parse = "demo_parse ?pair"]
  show ?thesis by (auto simp: append_pair_def demo_drain_def demo_env_def store_open_def)
qed

lemma demo_built: "pair_of demo_drain [] 0 \<lparr>je_at = ''t1'', je_payload = demo_spawn\<rparr> = Some demo_pair"
  using demo_hooks_recorded(1) [of "''t1''" "fst (demo_ids 0)" "fst (snd (demo_ids 0))" "snd (snd (demo_ids 0))" None]
  by (simp add: pair_of_def demo_drain_def demo_pair_def)

lemma demo_line: "trim ''call'' = ''call''" "trim ''noise'' = ''noise''"
    "js_split (CHR 0x0A) (''call'' @ [CHR 0x0A] @ ''noise'') = [''call'', ''noise'']"
    "claims_of ''journal'' ''9'' 5 (rs_dir demo_recorder) =
       ([''journal.9.5.processing''], [(''journal.9.5.processing'', (''call'' @ [CHR 0x0A] @ ''noise'', 0))])"
    "isCallStart demo_spawn = False" "isTurnMarker demo_spawn = False" "callIdOf demo_spawn = None"
  by code_simp+

lemma demo_drained: "ir_ingested (fst (ingestJournal demo_drain ''journal'' ''9'' 5 [] demo_recorder)) = 1"
proof -
  obtain results st' where appended: "append_pair demo_drain 0 demo_pair store_open = (Inr results, st')"
    using demo_appended by blast
  have parsed: "parseJournalLine (de_json_parse demo_drain) ''call'' = Some \<lparr>je_at = ''t1'', je_payload = demo_spawn\<rparr>"
    "parseJournalLine (de_json_parse demo_drain) ''noise'' = None"
    by (simp_all add: parseJournalLine_def demo_line demo_drain_def journal_line_json_def prop_of_def text_of_def)
  have "ds_ingested (drain_lines demo_drain [''call'', ''noise''] (drain_start store_open [])) = 1"
    using appended demo_built
    by (simp add: drain_line_def demo_line parsed drain_entry_def record_call_def Let_def drain_start_def store_open_def)
  then show ?thesis
    by (simp add: ingestJournal_def demo_line drain_claims_def drainClaim_def Let_def)
      (simp add: demo_recorder_def readTurnState_def demo_line)
qed

lemma demo_start:
  "store_ok (re_sha (de_recorder demo_drain)) (de_parse demo_drain) (rs_ledger demo_recorder)"
  "ledger_valid demo_drain (ledger_events demo_drain (rs_ledger demo_recorder))"
  "ledger_events demo_drain (rs_ledger demo_recorder) = []"
  "ids_fresh demo_drain 0 (ledger_events demo_drain (rs_ledger demo_recorder))"
proof -
  have "validateEventSet (\<lambda>_. ''h'') compareStrings [] = []" by code_simp
  then show "store_ok (re_sha (de_recorder demo_drain)) (de_parse demo_drain) (rs_ledger demo_recorder)"
    "ledger_valid demo_drain (ledger_events demo_drain (rs_ledger demo_recorder))"
    and empty: "ledger_events demo_drain (rs_ledger demo_recorder) = []"
    by (simp_all add: demo_recorder_def mail_store_open ledger_events_def demo_drain_def demo_env_def) (simp_all add: store_open_def)
  show "ids_fresh demo_drain 0 (ledger_events demo_drain (rs_ledger demo_recorder))"
    unfolding empty by (rule demo_ids_fresh)
qed

theorem drain_keeps_ledger_valid_witness:
  "ledger_valid demo_drain (ledger_events demo_drain (rs_ledger (snd (ingestJournal demo_drain ''journal'' ''9'' 5 [] demo_recorder))))
   \<and> length (ledger_events demo_drain (rs_ledger (snd (ingestJournal demo_drain ''journal'' ''9'' 5 [] demo_recorder)))) = 2"
proof -
  note kept = drain_keeps_ledger_valid [OF demo_drain_faithful demo_start(1,2,4) prod.collapse [symmetric] demo_line(4) HOL.refl,
      of "[]"]
  then show ?thesis using demo_drained demo_start(3) by (auto simp: pair_events_length)
qed

section \<open>No call is lost\<close>

text \<open>What the counters of a state say of the lines drained so far.\<close>

definition accounts :: "drain_env \<Rightarrow> string list \<Rightarrow> drain_state \<Rightarrow> bool" where
  "accounts env lines ds \<longleftrightarrow>
     subseq (ds_unprocessed ds) (filter (call_line env) lines)
     \<and> ds_ingested ds + length (ds_unprocessed ds) = length (filter (call_line env) lines)
     \<and> ds_skipped ds = length (ds_unprocessed ds) + length (filter (unreadable_line env) lines)
     \<and> ds_turns ds = length (filter (marker_line env) lines) \<and> length (ds_calls ds) = ds_ingested ds"

lemma record_call_outcome:
  "(\<exists>st active. record_call env line entry startedAt ds
      = ds\<lparr>ds_activeSessions := active, ds_drawn := Suc (ds_drawn ds), ds_store := st,
          ds_unprocessed := ds_unprocessed ds @ [line], ds_skipped := ds_skipped ds + 1\<rparr>)
   \<or> (\<exists>st active c. record_call env line entry startedAt ds
      = ds\<lparr>ds_activeSessions := active, ds_drawn := Suc (ds_drawn ds), ds_store := st, ds_calls := ds_calls ds @ [c],
          ds_ingested := ds_ingested ds + 1\<rparr>)"
  unfolding record_call_def rejected_call_def Let_def
  by (cases ds) (auto split: option.split sum.split prod.split)

lemma drain_line_accounts:
  assumes "accounts env lines ds"
  shows "accounts env (lines @ [line]) (drain_line env line ds)"
proof (cases "entry_of env line")
  case None
  then have "\<not> call_line env line" "\<not> marker_line env line" "unreadable_line env line \<longleftrightarrow> trim line \<noteq> []"
    by (simp_all add: call_line_def marker_line_def unreadable_line_def)
  then show ?thesis
    using assms None by (auto simp: accounts_def drain_line_def entry_of_def split: if_splits)
next
  case (Some entry)
  then have entry: "trim line \<noteq> []" "parseJournalLine (de_json_parse env) line = Some entry"
    and readable: "\<not> unreadable_line env line"
    by (auto simp: entry_of_def unreadable_line_def split: if_splits)
  let ?ds = "case callIdOf (je_payload entry) of None \<Rightarrow> ds
    | Some c \<Rightarrow> ds\<lparr>ds_unfinished := filter (\<lambda>(k, e). k \<noteq> c) (ds_unfinished ds)\<rparr>"
  have same: "accounts env lines ?ds" using assms by (simp add: accounts_def split: option.split)
  consider "isCallStart (je_payload entry)" | "isTurnMarker (je_payload entry)"
    | "\<not> isCallStart (je_payload entry)" "\<not> isTurnMarker (je_payload entry)" by blast
  then show ?thesis
  proof cases
    case 1
    then have "\<not> isTurnMarker (je_payload entry)" using marker_no_start by blast
    with 1 show ?thesis
      using assms entry Some readable
      by (auto simp: accounts_def drain_line_def drain_entry_def Let_def call_line_def marker_line_def split: option.split)
  next
    case 2
    then have "drain_line env line ds = open_marked env entry ?ds"
      using entry marker_no_start by (simp add: drain_line_def drain_entry_def Let_def)
    moreover have "\<not> call_line env line" "marker_line env line \<longleftrightarrow> fst (turnFieldsOf (je_payload entry)) \<noteq> None"
      using 2 Some by (simp_all add: call_line_def marker_line_def)
    ultimately show ?thesis
      using same readable by (cases "turnFieldsOf (je_payload entry)")
        (auto simp: accounts_def open_marked_def split: option.splits)
  next
    case 3
    then obtain startedAt where step: "drain_line env line ds = record_call env line entry startedAt ?ds"
      using entry by (simp add: drain_line_def drain_entry_def Let_def)
    have kind: "call_line env line" "\<not> marker_line env line" using 3 Some by (simp_all add: call_line_def marker_line_def)
    show ?thesis
      using record_call_outcome [of env line entry startedAt ?ds] same kind readable
      unfolding step accounts_def by (elim disjE exE) (simp_all add: list_emb_append_mono list_emb_prefix)
  qed
qed

lemma drain_lines_accounts:
  "accounts env before ds \<Longrightarrow> accounts env (before @ lines) (drain_lines env lines ds)"
proof (induction lines arbitrary: before ds)
  case (Cons line lines)
  from Cons.IH [OF drain_line_accounts [OF Cons.prems]] show ?case by simp
qed simp

lemma reported_calls: "map fst (reported env turns n lines) = filter (call_line env) lines"
  by (induction lines arbitrary: turns n) simp_all

text \<open>
  C20: No recorded call is lost in a drain.  The lines of the claimed files that report a call are, in order, the lines of
  the reports, each with its pair of events or none: the ledger grows by exactly the pairs of the reports that have
  one, and the lines of the others stand, verbatim and in order, in the rejected file (when its name is neither the
  journal's nor that of a claimed file).  The counters say how many lines were recorded, skipped (rejected or
  unreadable) and opened a turn, and every recorded call has its window.  (The schema returns the events it accepts,
  and random ids are new.)
\<close>

theorem drain_accounts_for_calls:
  assumes "schema_faithful env" and "store_ok (re_sha (de_recorder env)) (de_parse env) (rs_ledger rs)"
    and "ids_fresh env 0 (ledger_events env (rs_ledger rs))"
    and "ingestJournal env journal pid now arrived rs = (result, rs')"
    and "claims_of journal pid now (rs_dir rs) = (claims, dir)" and "claims \<noteq> []" and "lines = claimed_lines dir claims"
    and "reports = reported env (turns_found env now rs) 0 lines"
  shows "map fst reports = filter (call_line env) lines
    \<and> ledger_events env (rs_ledger rs') = ledger_events env (rs_ledger rs) @ pair_events (recorded_pairs reports)
    \<and> (refused_lines reports \<noteq> [] \<and> hd claims @ ''.rejected'' \<notin> set claims \<and> hd claims @ ''.rejected'' \<noteq> journal
       \<longrightarrow> map_get (rs_dir rs') (hd claims @ ''.rejected'') = Some (join [CHR 0x0A] (refused_lines reports) @ [CHR 0x0A], now))
    \<and> ir_ingested result = length (recorded_pairs reports)
    \<and> ir_skipped result = length (refused_lines reports) + length (filter (unreadable_line env) lines)
    \<and> ir_turns result = length (filter (marker_line env) lines) \<and> length (ir_calls result) = ir_ingested result"
proof -
  let ?start = "drain_start (rs_ledger rs) (turns_found env now rs)" and ?rejected = "hd claims @ ''.rejected''"
  obtain ds where ds: "ds = drain_lines env lines ?start" "rs_ledger rs' = store_close (ds_store ds)"
      "ir_ingested result = ds_ingested ds" "ir_calls result = ds_calls ds" "drain_extends env ?start reports ds"
    unfolding assms(7,8) by (rule drained_state [OF assms(1-6)])
  have "accounts env [] ?start" by (simp add: accounts_def drain_start_def)
  from drain_lines_accounts [OF this, of lines] have accounts: "accounts env lines ds" by (simp add: ds(1))
  have found: "ir_skipped result = ds_skipped ds" "ir_turns result = ds_turns ds"
    using assms(4-7) ds(1) by (auto simp: ingestJournal_def Let_def drain_claims_lines turns_found_def)
  have refused: "ds_unprocessed ds = refused_lines reports" using ds(5) by (simp add: drain_extends_def opened_and_closed)
  have "map_get (rs_dir rs') ?rejected = Some (join [CHR 0x0A] (ds_unprocessed ds) @ [CHR 0x0A], now)"
    if "ds_unprocessed ds \<noteq> []" "?rejected \<notin> set claims" "?rejected \<noteq> journal"
  proof -
    have "map_get (filter (\<lambda>(name, f). name \<notin> set claims) files) ?rejected = map_get files ?rejected" for files :: journal_dir
      using that(2) by (induction files) auto
    then show ?thesis
      using assms(4-7) that by (auto simp: ingestJournal_def Let_def map_get_set drain_claims_lines turns_found_def ds(1))
  qed
  then show ?thesis
    using accounts found ds(2-5) refused
    by (simp add: accounts_def assms(8) reported_calls drain_extends_def opened_and_closed)
qed

theorem drain_accounts_for_calls_witness:
  "ir_skipped (fst (ingestJournal demo_drain ''journal'' ''9'' 5 [] demo_recorder)) = 1
   \<and> (\<exists>pair :: recorded_pair. ledger_events demo_drain (rs_ledger (snd (ingestJournal demo_drain ''journal'' ''9'' 5 [] demo_recorder)))
        = [rp_requested pair, rp_completed pair])"
proof -
  have lines: "claimed_lines [(''journal.9.5.processing'', (''call'' @ [CHR 0x0A] @ ''noise'', 0))] [''journal.9.5.processing'']
      = [''call'', ''noise'']" using demo_line(3) by (simp add: claimed_lines_def)
  have parsed: "parseJournalLine (de_json_parse demo_drain) ''call'' = Some \<lparr>je_at = ''t1'', je_payload = demo_spawn\<rparr>"
    "parseJournalLine (de_json_parse demo_drain) ''noise'' = None"
    by (simp_all add: parseJournalLine_def demo_line demo_drain_def journal_line_json_def prop_of_def text_of_def)
  have kinds: "call_line demo_drain ''call''" "\<not> call_line demo_drain ''noise''" "unreadable_line demo_drain ''noise''"
    "\<not> unreadable_line demo_drain ''call''"
    by (simp_all add: call_line_def unreadable_line_def entry_of_def demo_line parsed)
  obtain pair where reports: "reported demo_drain (turns_found demo_drain 5 demo_recorder) 0 [''call'', ''noise''] = [(''call'', pair)]"
    using kinds by simp
  note facts = drain_accounts_for_calls [OF demo_drain_faithful demo_start(1,4) prod.collapse [symmetric] demo_line(4) _
      lines [symmetric] reports [symmetric], of "[]"]
  then have "recorded_pairs [(''call'', pair)] \<noteq> []" using demo_drained by auto
  then obtain p where "pair = Some p" by (cases pair) (auto simp: recorded_pairs_def map_filter_simps)
  with facts show ?thesis using kinds demo_start(3) by (simp add: report_simps) blast
qed

end
