(* ===== verification/Spec2Isabelle.thy ===== *)
theory Spec2Isabelle
  imports Projection_Cache Canonical_Unique Coverage Demo_Events Event_Json Event_Store Min_Heap Replay
    Valid_Events Iso_Time Js_Text Identity Short_Ids Ledger_Access Mailbox Mail_Delivery Roles Session_Start
    Contract_Compatibility Detectors Durable_Records Runtime_Evidence Runtime_Records
    Hook_Journal Hook_Claims Hook_Advisory Redaction Hosts Hook_Events Valid_Append
    Turn_State Ingest
begin

text \<open>
  PatchMesh records what several coding agents do in one repository as an append-only ledger of events, answers
  questions about it, and warns an agent that is about to collide with another.  Its code lies under \<open>src/packages\<close>
  (names below are relative to it) and \<open>src/apps\<close>.  This development models the parts that decide something and leaves
  out those that only move bytes.

  \<^bold>\<open>How the parts interact.\<close>  A host (Claude Code, OpenCode, Codex) runs a hook per tool call.  The hook redacts the
  payload, appends it to a journal, and looks in the journal, the claims and the recent writes for other agents at work
  on the same file.  When a turn ends the journal is drained: each call becomes a request and a completion, which the
  event store validates and appends.  Everything else reads the store: replay in causal order, the work graph, the
  detectors, the mailbox and the roles, the context given to a new session.

  \<^bold>\<open>Conventions.\<close>  Strings are lists of characters, a \<open>Map\<close> or an object is an association list in insertion order,
  integers are unbounded, a number of JSON is a rational.  An exception is \<open>Inl\<close> of an error or \<open>None\<close>.  What is not
  code of this repository is an argument: \<open>sha\<close> (SHA-256 as text), \<open>lc\<close> (\<open>localeCompare\<close>), \<open>schema\<close> and \<open>parse\<close> (the
  JSON schema check of an event and of a stored text), \<open>raw\<close> and \<open>json_parse\<close> (\<open>JSON.parse\<close>), \<open>date_parse\<close> (\<open>Date.parse\<close>,
  \<open>None\<close> for \<open>NaN\<close>), \<open>nfc\<close>, \<open>realpath\<close>, random digits and the clock.  The hypotheses on them state documented behaviour: what
  was written is read back, an accepted event is the one given, a random identifier is new.

  \<^bold>\<open>Events and the ledger.\<close>
  \<^item> \<open>Prelude\<close>: \<open>Map\<close>, \<open>Set\<close>, stable sorting, string order, decimal text, errors; the lemmas all theories share.
  \<^item> \<open>Protocol\<close>, \<open>Event_Json\<close> (\<open>protocol/src/identities.ts\<close>, \<open>events.ts\<close>): the event records with all payloads, and their JSON.
  \<^item> \<open>Canonical_Json\<close>, \<open>Canonical_Unique\<close> (\<open>storage/src/canonical-json.ts\<close>): canonical text; equal texts come from equal values.
  \<^item> \<open>Validation\<close>, \<open>Valid_Events\<close>, \<open>Valid_Append\<close> (\<open>protocol/src/validation.ts\<close>): every check of \<open>validateEventSet\<close>; what a
    set that passes is (one acyclic tree per correlation, grounded effects, writes and overlaps), which appends keep it valid and which never do.
  \<^item> \<open>Min_Heap\<close>, \<open>Replay\<close> (\<open>storage/src/replay.ts\<close>): the array heap and \<open>causalOrder\<close>; it ends, answers the least order that
    puts causes first, and fails exactly on duplicate ids, absent causes and cycles, each with its own code.
  \<^item> \<open>Event_Store\<close>, \<open>Ledger\<close>, \<open>Ledger_Access\<close> (\<open>storage/src/event-store.ts\<close>): tables of durable and buffered rows, \<open>appendAtomic\<close>
    with all options, reads, \<open>prune\<close>; the invariant of every reachable ledger, exactly when an append is accepted, what a
    prune keeps, and reads after writes.
  \<^item> \<open>Event_Cache\<close>, \<open>Projection_Cache\<close> (\<open>event-cache.ts\<close>, \<open>projection-cache.ts\<close>, \<open>projection-checkpoint.ts\<close>): cached answers agree with uncached ones, and where they do not.
  \<^item> \<open>Coverage\<close>, \<open>Work_Graph\<close> (\<open>work-graph*.ts\<close>): the projection; incremental building, reduction and full building agree.

  \<^bold>\<open>Reading the ledger.\<close>
  \<^item> \<open>Contract_Compatibility\<close> (\<open>analyzers\<close>), \<open>Detectors\<close>, \<open>Durable_Records\<close>, \<open>Runtime_Evidence\<close>, \<open>Runtime_Records\<close> (\<open>core/src\<close>):
    the three detectors, findings, decisions and their durable events, and the derivation of same-symbol evidence from a ledger;
    the parser of signatures against a grammar of declarations without default values (\<open>parse_declaration\<close>).
  \<^item> \<open>Js_Text\<close>, \<open>Identity\<close>, \<open>Short_Ids\<close>, \<open>Iso_Time\<close> (\<open>recorder/src/identity.ts\<close>, \<open>query/src/short-id.ts\<close>): paths, ids, dates.
  \<^item> \<open>Mailbox\<close>, \<open>Mail_Delivery\<close>, \<open>Roles\<close>, \<open>Session_Start\<close> (\<open>query/src/mailbox.ts\<close>, \<open>roles.ts\<close>, \<open>gateway/src\<close>): messages arrive and are
    delivered per recipient, claims of roles, scopes as patterns, the context of a new session and its budget.

  \<^bold>\<open>Recording.\<close>
  \<^item> \<open>Hook_Journal\<close>, \<open>Hook_Claims\<close>, \<open>Hook_Advisory\<close> (\<open>recorder/src/journal.ts\<close>, \<open>inflight.ts\<close>, \<open>recent-writes.ts\<close>, \<open>claims.ts\<close>,
    \<open>leader.ts\<close>, \<open>sidecar.ts\<close>, \<open>advisory.ts\<close>, \<open>bin.ts\<close>): one hook invocation as a step on the state of the directory; calls in
    flight are exactly the started ones, a refusal names another agent, refusals are bounded, a finished call is told once
    (\<open>later_cursors\<close>: any later stages of any sessions), a claim outlasts what others do (\<open>run_step\<close>).  \<open>wrote\<close> follows
    \<open>recent-writes.ts\<close> in counting every finished call that names a file as a write.
  \<^item> \<open>Redaction\<close> (\<open>redact.ts\<close>, \<open>observation/src/redaction.ts\<close>): what a payload keeps does not depend on contents and prompts.
  \<^item> \<open>Hosts\<close>, \<open>Hook_Events\<close> (\<open>source.ts\<close>, \<open>hosts/\<close>, \<open>attribution.ts\<close>, \<open>hook.ts\<close>): adapters, tool tables, attribution, the pair of events of a call.
  \<^item> \<open>Turn_State\<close>, \<open>Ingest\<close> (\<open>turn.ts\<close>, \<open>ingest.ts\<close>): the turns kept between drains, and \<open>ingestJournal\<close> against \<open>reported\<close>, what
    the drained lines say by themselves: every line is recorded or kept, and a valid ledger stays valid.

  \<^bold>\<open>Interfaces.\<close>  \<open>comparator\<close> and \<open>strict_comparator\<close> (\<open>Prelude\<close>) state what a sort asks of its comparison, \<open>priority_queue\<close>
  (\<open>Min_Heap\<close>) what \<open>causalOrder\<close> asks of its heap, extended by \<open>event_queue\<close> (\<open>Replay\<close>); each is interpreted on the code's own
  comparisons and heap.

  \<^bold>\<open>Bounds.\<close>  No definition uses fuel: loops recurse on lists, or on a measure (unvisited events of a causal walk, the rest
  of a text); only the loop of \<open>causalOrder\<close> is a partial function, and is proved to return.
  \<open>nat\<close> stands for counters, \<open>int\<close> for times and differences; bytes of hashes are \<open>8 word\<close>.

  \<^bold>\<open>What modelling found.\<close>  Lemmas without a claim number record where the code departs from its comments, for instance
  \<open>second_root_invalid\<close> (an event that starts a correlation again invalidates the ledger, as \<open>emitTaskCompleted\<close> does),
  \<open>ack_breaks_replay\<close>, \<open>prune_breaks_replay\<close>, \<open>cache_key_collision\<close>, \<open>claim_replaces_earlier\<close>, \<open>refused_call_in_flight\<close>, \<open>json_secret_kept\<close>,
  \<open>literal_type_taken_for_default\<close>.

  \<^bold>\<open>Not modelled.\<close>  SQLite and its migrations, the file system beneath the maps used here, git and other subprocesses, the MCP
  servers and proxies, rendering for the terminal, installation checks; the language analyzers (they call the TypeScript compiler
  and a Python parser), the scan of a worktree and the effects derived from it, \<open>emitTaskCompleted\<close>, \<open>backfillAttribution\<close> and
  \<open>recordTurnEffects\<close> of \<open>ingest.ts\<close>, and the queries built on the projection (\<open>overlap\<close>, \<open>recap\<close>, \<open>resume\<close>, \<open>performance\<close>).  A write to
  disk that fails, and two processes interleaving inside one hook or one drain, are outside the model.
\<close>

end
